(* ===== verification/Genkan_Prelude.thy ===== *)
theory Genkan_Prelude
  imports Main "HOL-Library.Word" "HOL-Library.List_Lexorder"
begin

text \<open>
  Shared vocabulary of the development: the machine integers of the Rust sources, the
  \<open>Result\<close> type and its \<open>?\<close> operator, checked and saturating arithmetic on \<open>usize\<close>/\<open>u32\<close>
  values, big-endian encodings, and Rust strings.

  A Rust \<open>char\<close> is a Unicode scalar value, modelled by its code point (a natural number), and
  a \<open>String\<close> by the list of its characters; \<open>utf8\<close> is \<open>str::as_bytes\<close> and \<open>from_utf8\<close> is
  \<open>String::from_utf8\<close> with the standard library's rejection of overlong forms, surrogates and
  values above U+10FFFF.
\<close>

named_theorems genkan_bounds "bounds that hold of the values an operation returns"
named_theorems genkan_inv "preservation of component invariants"

section \<open>Machine integers\<close>

type_synonym u8 = "8 word"
type_synonym u16 = "16 word"
type_synonym u32 = "32 word"
type_synonym u64 = "64 word"

text \<open>Checked and saturating arithmetic at a width of \<open>w\<close> bits, on natural numbers.\<close>

definition checked_add :: "nat \<Rightarrow> nat \<Rightarrow> nat \<Rightarrow> nat option" where
  "checked_add w a b = (if a + b < 2 ^ w then Some (a + b) else None)"

definition checked_mul :: "nat \<Rightarrow> nat \<Rightarrow> nat \<Rightarrow> nat option" where
  "checked_mul w a b = (if a * b < 2 ^ w then Some (a * b) else None)"

definition saturating_add :: "nat \<Rightarrow> nat \<Rightarrow> nat \<Rightarrow> nat" where
  "saturating_add w a b = min (a + b) (2 ^ w - 1)"

definition saturating_mul :: "nat \<Rightarrow> nat \<Rightarrow> nat \<Rightarrow> nat" where
  "saturating_mul w a b = min (a * b) (2 ^ w - 1)"

section \<open>Results\<close>

text \<open>\<open>Inl\<close> is \<open>Err\<close>, \<open>Inr\<close> is \<open>Ok\<close>; \<open>rbind\<close> is the \<open>?\<close> operator.\<close>

definition rbind :: "'e + 'a \<Rightarrow> ('a \<Rightarrow> 'e + 'b) \<Rightarrow> 'e + 'b" where
  "rbind m f = (case m of Inl e \<Rightarrow> Inl e | Inr x \<Rightarrow> f x)"

definition ok_or :: "'a option \<Rightarrow> 'e \<Rightarrow> 'e + 'a" where
  "ok_or m e = (case m of None \<Rightarrow> Inl e | Some x \<Rightarrow> Inr x)"

definition is_ok :: "'e + 'a \<Rightarrow> bool" where
  "is_ok r = (case r of Inl _ \<Rightarrow> False | Inr _ \<Rightarrow> True)"

definition map_err :: "('e \<Rightarrow> 'f) \<Rightarrow> 'e + 'a \<Rightarrow> 'f + 'a" where
  "map_err f r = (case r of Inl e \<Rightarrow> Inl (f e) | Inr x \<Rightarrow> Inr x)"

lemma rbind_simps [simp]:
  "rbind (Inl e) f = Inl e"
  "rbind (Inr x) f = f x"
  by (simp_all add: rbind_def)

lemma rbind_eq_Inr [simp]: "rbind m f = Inr y \<longleftrightarrow> (\<exists>x. m = Inr x \<and> f x = Inr y)"
  by (cases m) auto

lemma rbind_cong [fundef_cong]:
  "m = m' \<Longrightarrow> (\<And>x. m' = Inr x \<Longrightarrow> f x = f' x) \<Longrightarrow> rbind m f = rbind m' f'"
  by (cases m') auto

lemma ok_or_eq_Inr [simp]: "ok_or m e = Inr x \<longleftrightarrow> m = Some x"
  by (cases m) (auto simp: ok_or_def)

lemma ok_or_simps [simp]: "ok_or (Some x) e = Inr x" "ok_or None e = Inl e"
  by (simp_all add: ok_or_def)

lemma is_ok_simps [simp]: "is_ok (Inr x)" "\<not> is_ok (Inl e)"
  by (simp_all add: is_ok_def)

lemma is_ok_iff: "is_ok r \<longleftrightarrow> (\<exists>x. r = Inr x)"
  by (cases r) simp_all

lemma map_err_simps [simp]: "map_err f (Inl e) = Inl (f e)" "map_err f (Inr x) = Inr x"
  by (simp_all add: map_err_def)

lemma map_err_eq_Inr [simp]: "map_err f r = Inr x \<longleftrightarrow> r = Inr x"
  by (cases r) simp_all

lemma checked_add_eq_Some [simp]:
  "checked_add w a b = Some c \<longleftrightarrow> c = a + b \<and> a + b < 2 ^ w"
  by (auto simp: checked_add_def)

lemma checked_mul_eq_Some [simp]:
  "checked_mul w a b = Some c \<longleftrightarrow> c = a * b \<and> a * b < 2 ^ w"
  by (auto simp: checked_mul_def)

lemma checked_eq_None:
  "checked_add w a b = None \<longleftrightarrow> 2 ^ w \<le> a + b"
  "checked_mul w a b = None \<longleftrightarrow> 2 ^ w \<le> a * b"
  by (simp_all add: checked_add_def checked_mul_def)

section \<open>Lists\<close>

text \<open>\<open>Iterator::find\<close> is \<open>List.find\<close>; \<open>Iterator::position\<close>:\<close>

fun position :: "('a \<Rightarrow> bool) \<Rightarrow> 'a list \<Rightarrow> nat option" where
  "position P [] = None"
| "position P (x # xs) = (if P x then Some 0 else map_option Suc (position P xs))"

lemma position_Some:
  "position P xs = Some i \<Longrightarrow> i < length xs \<and> P (xs ! i) \<and> (\<forall>j < i. \<not> P (xs ! j))"
proof (induction xs arbitrary: i)
  case Nil
  then show ?case by simp
next
  case (Cons x xs)
  show ?case
  proof (cases "P x")
    case True
    with Cons.prems show ?thesis by simp
  next
    case False
    with Cons.prems obtain j where j: "position P xs = Some j" and i: "i = Suc j" by auto
    from Cons.IH [OF j] i False show ?thesis by (auto simp: less_Suc_eq_0_disj)
  qed
qed

lemma position_None [simp]: "position P xs = None \<longleftrightarrow> (\<forall>x \<in> set xs. \<not> P x)"
  by (induction xs) auto

lemma find_None_iff_set: "find P xs = None \<longleftrightarrow> (\<forall>x \<in> set xs. \<not> P x)"
  by (auto simp: find_None_iff)

lemma find_Some_in: "find P xs = Some x \<Longrightarrow> x \<in> set xs \<and> P x"
  by (auto simp: find_Some_iff)

section \<open>Big-endian integers\<close>

fun to_be :: "nat \<Rightarrow> nat \<Rightarrow> u8 list" where
  "to_be 0 v = []"
| "to_be (Suc k) v = of_nat (v div 256 ^ k) # to_be k (v mod 256 ^ k)"

definition from_be :: "u8 list \<Rightarrow> nat" where
  "from_be bs = foldl (\<lambda>acc b. acc * 256 + unat b) 0 bs"

lemma length_to_be [simp]: "length (to_be k v) = k"
  by (induction k arbitrary: v) simp_all

lemma foldl_be_shift:
  "foldl (\<lambda>acc (b :: u8). acc * 256 + unat b) a bs = a * 256 ^ length bs + from_be bs"
proof (induction bs arbitrary: a)
  case Nil
  then show ?case by (simp add: from_be_def)
next
  case (Cons b bs)
  have "from_be (b # bs) = unat b * 256 ^ length bs + from_be bs"
    using Cons.IH [of "unat b"] by (simp add: from_be_def)
  moreover have "foldl (\<lambda>acc (b :: u8). acc * 256 + unat b) a (b # bs)
      = (a * 256 + unat b) * 256 ^ length bs + from_be bs"
    using Cons.IH [of "a * 256 + unat b"] by simp
  ultimately show ?case by (simp add: algebra_simps)
qed

lemma from_be_simps [simp]:
  "from_be [] = 0"
  "from_be (b # bs) = unat b * 256 ^ length bs + from_be bs"
  using foldl_be_shift [of "unat b" bs] by (simp_all add: from_be_def)

lemma unat_u8_less [genkan_bounds, simp]: "unat (b :: u8) < 256"
  using unsigned_less [of b, where ?'a = nat] by simp

lemma from_be_less [genkan_bounds]: "from_be bs < 256 ^ length bs"
proof (induction bs)
  case Nil
  then show ?case by simp
next
  case (Cons b bs)
  have "unat b < 256" by (rule unat_u8_less)
  then have "unat b * 256 ^ length bs + from_be bs < (unat b + 1) * 256 ^ length bs"
    using Cons.IH by simp
  also have "\<dots> \<le> 256 * 256 ^ length bs"
    using \<open>unat b < 256\<close> by (intro mult_right_mono) linarith+
  finally show ?case by simp
qed

lemma unat_of_nat_u8: "n < 256 \<Longrightarrow> unat (of_nat n :: u8) = n"
  by (simp add: unat_of_nat)

lemma from_be_to_be [simp]: "v < 256 ^ k \<Longrightarrow> from_be (to_be k v) = v"
proof (induction k arbitrary: v)
  case 0
  then show ?case by simp
next
  case (Suc k)
  have "v div 256 ^ k < 256"
    using Suc.prems by (simp add: less_mult_imp_div_less mult.commute)
  moreover have "from_be (to_be k (v mod 256 ^ k)) = v mod 256 ^ k"
    by (rule Suc.IH) simp
  ultimately show ?case by (simp add: unat_of_nat_u8 mult.commute)
qed

lemma to_be_from_be [simp]: "to_be (length bs) (from_be bs) = bs"
proof (induction bs)
  case Nil
  then show ?case by simp
next
  case (Cons b bs)
  have "from_be bs < 256 ^ length bs" by (rule from_be_less)
  then show ?case using Cons.IH by simp
qed

lemma to_be_from_be_length: "length bs = k \<Longrightarrow> to_be k (from_be bs) = bs"
  using to_be_from_be by blast

section \<open>Rust strings\<close>

type_synonym uchar = nat
type_synonym ustring = "uchar list"

text \<open>\<open>char::is_control\<close>: the general category Cc.\<close>

definition is_control :: "uchar \<Rightarrow> bool" where
  "is_control c \<longleftrightarrow> c < 32 \<or> 127 \<le> c \<and> c < 160"

definition lit :: "string \<Rightarrow> ustring" where
  "lit s = map of_char s"

definition to_ascii_lowercase :: "uchar \<Rightarrow> uchar" where
  "to_ascii_lowercase c = (if 65 \<le> c \<and> c \<le> 90 then c + 32 else c)"

definition scalar_value :: "uchar \<Rightarrow> bool" where
  "scalar_value c \<longleftrightarrow> c < 0xD800 \<or> (0xE000 \<le> c \<and> c < 0x110000)"

abbreviation valid_text :: "ustring \<Rightarrow> bool" where
  "valid_text s \<equiv> list_all scalar_value s"

text \<open>\<open>char::len_utf8\<close> and the encoding of one character.\<close>

definition len_utf8 :: "uchar \<Rightarrow> nat" where
  "len_utf8 c = (if c < 0x80 then 1 else if c < 0x800 then 2 else if c < 0x10000 then 3 else 4)"

definition utf8_char :: "uchar \<Rightarrow> u8 list" where
  "utf8_char c =
     (if c < 0x80 then [of_nat c]
      else if c < 0x800 then [of_nat (192 + c div 64), of_nat (128 + c mod 64)]
      else if c < 0x10000 then
        [of_nat (224 + c div 4096), of_nat (128 + c div 64 mod 64), of_nat (128 + c mod 64)]
      else
        [of_nat (240 + c div 262144), of_nat (128 + c div 4096 mod 64),
         of_nat (128 + c div 64 mod 64), of_nat (128 + c mod 64)])"

definition utf8 :: "ustring \<Rightarrow> u8 list" where
  "utf8 s = concat (map utf8_char s)"

definition continuation :: "u8 \<Rightarrow> bool" where
  "continuation b \<longleftrightarrow> 128 \<le> unat b \<and> unat b < 192"

fun from_utf8 :: "u8 list \<Rightarrow> ustring option" where
  "from_utf8 [] = Some []"
| "from_utf8 (b0 # bs) =
     (let x = unat b0 in
      if x < 128 then map_option (Cons x) (from_utf8 bs)
      else if 194 \<le> x \<and> x < 224 then
        (case bs of
           b1 # r \<Rightarrow>
             if continuation b1
             then map_option (Cons ((x - 192) * 64 + (unat b1 - 128))) (from_utf8 r)
             else None
         | _ \<Rightarrow> None)
      else if 224 \<le> x \<and> x < 240 then
        (case bs of
           b1 # b2 # r \<Rightarrow>
             (let c = (x - 224) * 4096 + (unat b1 - 128) * 64 + (unat b2 - 128) in
              if continuation b1 \<and> continuation b2 \<and> 0x800 \<le> c \<and> \<not> (0xD800 \<le> c \<and> c < 0xE000)
              then map_option (Cons c) (from_utf8 r)
              else None)
         | _ \<Rightarrow> None)
      else if 240 \<le> x \<and> x < 245 then
        (case bs of
           b1 # b2 # b3 # r \<Rightarrow>
             (let c = (x - 240) * 262144 + (unat b1 - 128) * 4096 + (unat b2 - 128) * 64
                        + (unat b3 - 128) in
              if continuation b1 \<and> continuation b2 \<and> continuation b3
                 \<and> 0x10000 \<le> c \<and> c < 0x110000
              then map_option (Cons c) (from_utf8 r)
              else None)
         | _ \<Rightarrow> None)
      else None)"

declare from_utf8.simps(2) [simp del]

lemma length_utf8_char [simp]: "length (utf8_char c) = len_utf8 c"
  by (simp add: utf8_char_def len_utf8_def)

lemma len_utf8_bounds [genkan_bounds]: "1 \<le> len_utf8 c" "len_utf8 c \<le> 4" "0 < len_utf8 c"
  by (simp_all add: len_utf8_def)

lemma utf8_simps [simp]: "utf8 [] = []" "utf8 (c # s) = utf8_char c @ utf8 s"
  by (simp_all add: utf8_def)

lemma utf8_append [simp]: "utf8 (s @ t) = utf8 s @ utf8 t"
  by (simp add: utf8_def)

lemma length_utf8: "length (utf8 s) = sum_list (map len_utf8 s)"
  by (induction s) simp_all

lemma length_utf8_bounds [genkan_bounds]:
  "length s \<le> length (utf8 s)" "length (utf8 s) \<le> 4 * length s"
proof (induction s)
  case (Cons c s)
  case 1
  show ?case using Cons len_utf8_bounds(1) [of c] by simp
  case 2
  show ?case using Cons len_utf8_bounds(2) [of c] by simp
qed simp_all

lemma continuation_of_nat: "n < 64 \<Longrightarrow> continuation (of_nat (128 + n))"
  using unat_of_nat_u8 [of "128 + n"] by (simp add: continuation_def del: of_nat_add)

lemma base64_3: "c div 4096 * 4096 + c div 64 mod 64 * 64 + c mod 64 = (c :: nat)"
proof -
  have "c div 64 div 64 = c div 4096" by (simp add: div_mult2_eq [symmetric])
  then show ?thesis
    using div_mult_mod_eq [of c 64] div_mult_mod_eq [of "c div 64" 64] by linarith
qed

lemma base64_join:
  "h * 4096 + a * 64 + b = (q :: nat) \<Longrightarrow> q * 64 + d = c
    \<Longrightarrow> h * 262144 + a * 4096 + b * 64 + d = c"
  by simp

lemma base64_4:
  "c div 262144 * 262144 + c div 4096 mod 64 * 4096 + c div 64 mod 64 * 64 + c mod 64 = (c :: nat)"
proof -
  have "c div 64 div 4096 = c div 262144" "c div 64 div 64 = c div 4096"
    by (simp_all add: div_mult2_eq [symmetric])
  then have "c div 262144 * 4096 + c div 4096 mod 64 * 64 + c div 64 mod 64 = c div 64"
    using base64_3 [of "c div 64"] by simp
  moreover have "c div 64 * 64 + c mod 64 = c" by (rule div_mult_mod_eq)
  ultimately show ?thesis by (rule base64_join)
qed

lemma base64_digit:
  assumes "b < 64" shows "(a * 64 + b) div 64 = a" "(a * 64 + b) mod 64 = (b :: nat)"
  using assms by simp_all

lemma from_utf8_utf8_char:
  assumes "scalar_value c"
  shows "from_utf8 (utf8_char c @ bs) = map_option (Cons c) (from_utf8 bs)"
proof -
  consider "c < 0x80" | "0x80 \<le> c" "c < 0x800" | "0x800 \<le> c" "c < 0x10000"
    | "0x10000 \<le> c" "c < 0x110000"
    using assms
    by (cases "c < 0x80"; cases "c < 0x800"; cases "c < 0x10000") (auto simp: scalar_value_def)
  then show ?thesis
  proof cases
    case 1
    then show ?thesis by (simp add: utf8_char_def from_utf8.simps(2) unat_of_nat_u8)
  next
    case 2
    have u: "unat (of_nat (192 + c div 64) :: u8) = 192 + c div 64"
      "unat (of_nat (128 + c mod 64) :: u8) = 128 + c mod 64"
      using 2 by (intro unat_of_nat_u8; simp add: less_mult_imp_div_less)+
    have "194 \<le> 192 + c div 64" "192 + c div 64 < 224" using 2 by simp_all
    then show ?thesis
      using 2 continuation_of_nat [of "c mod 64"]
      by (simp add: utf8_char_def from_utf8.simps(2) u del: of_nat_add)
  next
    case 3
    have u: "unat (of_nat (224 + c div 4096) :: u8) = 224 + c div 4096"
      "unat (of_nat (128 + c div 64 mod 64) :: u8) = 128 + c div 64 mod 64"
      "unat (of_nat (128 + c mod 64) :: u8) = 128 + c mod 64"
      using 3 by (intro unat_of_nat_u8; simp add: less_mult_imp_div_less)+
    have "224 + c div 4096 < 240" using 3 by simp
    moreover have "c div 4096 * 4096 + c div 64 mod 64 * 64 + c mod 64 = c"
      by (rule base64_3)
    ultimately show ?thesis
      using 3 assms continuation_of_nat [of "c mod 64"] continuation_of_nat [of "c div 64 mod 64"]
      by (auto simp: utf8_char_def from_utf8.simps(2) u scalar_value_def simp del: of_nat_add)
  next
    case 4
    have u: "unat (of_nat (240 + c div 262144) :: u8) = 240 + c div 262144"
      "unat (of_nat (128 + c div 4096 mod 64) :: u8) = 128 + c div 4096 mod 64"
      "unat (of_nat (128 + c div 64 mod 64) :: u8) = 128 + c div 64 mod 64"
      "unat (of_nat (128 + c mod 64) :: u8) = 128 + c mod 64"
      using 4 by (intro unat_of_nat_u8; simp add: less_mult_imp_div_less)+
    have "240 + c div 262144 < 245" using 4 by simp
    moreover have "c div 262144 * 262144 + c div 4096 mod 64 * 4096 + c div 64 mod 64 * 64
        + c mod 64 = c"
      by (rule base64_4)
    ultimately show ?thesis
      using 4 continuation_of_nat [of "c mod 64"] continuation_of_nat [of "c div 64 mod 64"]
        continuation_of_nat [of "c div 4096 mod 64"]
      by (simp add: utf8_char_def from_utf8.simps(2) u del: of_nat_add)
  qed
qed

lemma from_utf8_utf8 [simp]: "valid_text s \<Longrightarrow> from_utf8 (utf8 s) = Some s"
  by (induction s) (simp_all add: from_utf8_utf8_char)

text \<open>
  Conversely the decoder accepts nothing but encodings: what it returns is valid text whose
  encoding is the input.
\<close>

lemma word_u8_eqI: "unat b = n \<Longrightarrow> of_nat n = (b :: u8)"
  by auto

lemma utf8_char_decode2:
  assumes "194 \<le> unat b0" "unat b0 < 224" "continuation b1"
  defines "c \<equiv> (unat b0 - 192) * 64 + (unat b1 - 128)"
  shows "scalar_value c \<and> utf8_char c = [b0, b1]"
proof -
  have lt: "unat b1 - 128 < 64" using assms by (auto simp: continuation_def)
  have d: "c div 64 = unat b0 - 192" "c mod 64 = unat b1 - 128"
    unfolding c_def using lt by (rule base64_digit)+
  have r: "128 \<le> c" "c < 2048" using assms lt by (auto simp: continuation_def)
  have "of_nat (192 + c div 64) = b0" "of_nat (128 + c mod 64) = b1"
    using assms(1,3) by (intro word_u8_eqI; simp only: d; simp add: continuation_def)+
  with r show ?thesis by (simp add: utf8_char_def scalar_value_def del: of_nat_add)
qed

lemma utf8_char_decode3:
  assumes "224 \<le> unat b0" "unat b0 < 240" "continuation b1" "continuation b2"
  defines "c \<equiv> (unat b0 - 224) * 4096 + (unat b1 - 128) * 64 + (unat b2 - 128)"
  assumes "0x800 \<le> c" "\<not> (0xD800 \<le> c \<and> c < 0xE000)"
  shows "scalar_value c \<and> utf8_char c = [b0, b1, b2]"
proof -
  have lt: "unat b1 - 128 < 64" "unat b2 - 128 < 64" using assms by (auto simp: continuation_def)
  have c: "c = ((unat b0 - 224) * 64 + (unat b1 - 128)) * 64 + (unat b2 - 128)"
    by (simp add: c_def)
  have d64: "c div 64 = (unat b0 - 224) * 64 + (unat b1 - 128)" "c mod 64 = unat b2 - 128"
    unfolding c using lt(2) by (rule base64_digit)+
  have d: "c div 4096 = unat b0 - 224" "c div 64 mod 64 = unat b1 - 128"
    using div_mult2_eq [of c 64 64] base64_digit [OF lt(1)] by (simp_all add: d64)
  have r: "c < 0x10000" using lt assms(2) by (simp add: c)
  have "of_nat (224 + c div 4096) = b0" "of_nat (128 + c div 64 mod 64) = b1"
    "of_nat (128 + c mod 64) = b2"
    using assms(1,3,4) by (intro word_u8_eqI; simp only: d d64(2); simp add: continuation_def)+
  with r assms(6,7) show ?thesis
    by (auto simp: utf8_char_def scalar_value_def simp del: of_nat_add)
qed

lemma utf8_char_decode4:
  assumes "240 \<le> unat b0" "unat b0 < 245" "continuation b1" "continuation b2" "continuation b3"
  defines "c \<equiv> (unat b0 - 240) * 262144 + (unat b1 - 128) * 4096 + (unat b2 - 128) * 64
                 + (unat b3 - 128)"
  assumes "0x10000 \<le> c" "c < 0x110000"
  shows "scalar_value c \<and> utf8_char c = [b0, b1, b2, b3]"
proof -
  have lt: "unat b1 - 128 < 64" "unat b2 - 128 < 64" "unat b3 - 128 < 64"
    using assms by (auto simp: continuation_def)
  let ?h = "(unat b0 - 240) * 64 + (unat b1 - 128)"
  have c: "c = (?h * 64 + (unat b2 - 128)) * 64 + (unat b3 - 128)"
    by (simp add: c_def)
  have d64: "c div 64 = ?h * 64 + (unat b2 - 128)" "c mod 64 = unat b3 - 128"
    unfolding c using lt(3) by (rule base64_digit)+
  have d4096: "c div 4096 = ?h" "c div 64 mod 64 = unat b2 - 128"
    using div_mult2_eq [of c 64 64] base64_digit [OF lt(2), of ?h] by (simp_all add: d64)
  have d: "c div 262144 = unat b0 - 240" "c div 4096 mod 64 = unat b1 - 128"
    using div_mult2_eq [of c 4096 64] base64_digit [OF lt(1)] by (simp_all add: d4096)
  have "of_nat (240 + c div 262144) = b0" "of_nat (128 + c div 4096 mod 64) = b1"
    "of_nat (128 + c div 64 mod 64) = b2" "of_nat (128 + c mod 64) = b3"
    using assms(1,3,4,5)
    by (intro word_u8_eqI; simp only: d d4096(2) d64(2); simp add: continuation_def)+
  with assms(7,8) show ?thesis
    by (simp add: utf8_char_def scalar_value_def del: of_nat_add)
qed

lemma from_utf8_Cons:
  assumes "from_utf8 bs = Some (c # t)"
  shows "\<exists>r. bs = utf8_char c @ r \<and> scalar_value c \<and> from_utf8 r = Some t"
proof (cases bs)
  case Nil
  with assms show ?thesis by simp
next
  case (Cons b0 r0)
  consider "unat b0 < 128" | "194 \<le> unat b0" "unat b0 < 224" | "224 \<le> unat b0" "unat b0 < 240"
    | "240 \<le> unat b0" "unat b0 < 245"
    using assms Cons by (auto simp: from_utf8.simps(2) Let_def split: if_splits)
  then show ?thesis
  proof cases
    case 1
    then have "utf8_char (unat b0) = [b0]" "scalar_value (unat b0)"
      by (simp_all add: utf8_char_def scalar_value_def)
    with 1 assms Cons show ?thesis by (auto simp: from_utf8.simps(2))
  next
    case 2
    with assms Cons utf8_char_decode2 [OF 2] show ?thesis
      by (auto simp: from_utf8.simps(2) split: list.splits if_splits)
  next
    case 3
    with assms Cons utf8_char_decode3 [OF 3] show ?thesis
      by (auto simp: from_utf8.simps(2) Let_def split: list.splits if_splits)
  next
    case 4
    with assms Cons utf8_char_decode4 [OF 4] show ?thesis
      by (auto simp: from_utf8.simps(2) Let_def split: list.splits if_splits)
  qed
qed

lemma from_utf8_Nil: "from_utf8 bs = Some [] \<Longrightarrow> bs = []"
  by (cases bs) (auto simp: from_utf8.simps(2) Let_def split: if_splits list.splits)

lemma from_utf8_sound: "from_utf8 bs = Some s \<Longrightarrow> valid_text s \<and> utf8 s = bs"
proof (induction s arbitrary: bs)
  case Nil
  then show ?case using from_utf8_Nil by auto
next
  case (Cons c t)
  from from_utf8_Cons [OF Cons.prems] Cons.IH show ?case by fastforce
qed

lemma utf8_inject: "utf8 a = utf8 b \<Longrightarrow> valid_text a \<Longrightarrow> valid_text b \<Longrightarrow> a = b"
  by (metis from_utf8_utf8 option.inject)

end
