(* ===== verification/Output_Selection.thy ===== *)
theory Output_Selection
  imports Genkan_Prelude "HOL-Library.Product_Lexorder" "HOL-Library.Multiset"
begin

text \<open>
  The crate \<open>crates/output-selection\<close>: which connector presents authentication. \<open>select\<close> is the
  crate's only function, written over the list of outputs the caller discovered. The login
  greeter and the session locker both rely on it, through the locale \<open>output_selector\<close>.

  The reference specification is a rank on connector names (requested, external in byte order of
  the name, internal panel, unnamed): \<open>select\<close> returns an output of least rank.
\<close>

section \<open>The selection function\<close>

text \<open>\<open>Iterator::min_by_key\<close> returns the first of several equally small elements.\<close>

fun min_by_key :: "('a \<Rightarrow> 'k :: linorder) \<Rightarrow> 'a list \<Rightarrow> 'a option" where
  "min_by_key f [] = None"
| "min_by_key f (x # xs) =
     (case min_by_key f xs of
        None \<Rightarrow> Some x
      | Some y \<Rightarrow> if f y < f x then Some y else Some x)"

definition INTERNAL_FALLBACK :: ustring where
  "INTERNAL_FALLBACK = lit ''eDP-1''"

text \<open>Rust compares \<open>&str\<close> keys by their bytes, hence the key \<open>utf8 name\<close>.\<close>

definition external_candidates :: "('t \<times> ustring option) list \<Rightarrow> (ustring \<times> 't) list" where
  "external_candidates outputs =
     List.map_filter
       (\<lambda>(output, name).
          case name of
            None \<Rightarrow> None
          | Some n \<Rightarrow> if n \<noteq> INTERNAL_FALLBACK then Some (n, output) else None)
       outputs"

definition select :: "('t \<times> ustring option) list \<Rightarrow> ustring option \<Rightarrow> 't option" where
  "select outputs requested =
     (case (case requested of
              None \<Rightarrow> None
            | Some r \<Rightarrow> find (\<lambda>(_, name). name = Some r) outputs) of
        Some (output, _) \<Rightarrow> Some output
      | None \<Rightarrow>
          (case min_by_key (\<lambda>(name, _). utf8 name) (external_candidates outputs) of
             Some (_, output) \<Rightarrow> Some output
           | None \<Rightarrow>
               (case find (\<lambda>(_, name). name = Some INTERNAL_FALLBACK) outputs of
                  Some (output, _) \<Rightarrow> Some output
                | None \<Rightarrow> (case outputs of [] \<Rightarrow> None | (output, _) # _ \<Rightarrow> Some output))))"

text \<open>The reference order on connector names.\<close>

definition rank :: "ustring option \<Rightarrow> ustring option \<Rightarrow> nat \<times> u8 list" where
  "rank requested name =
     (case name of
        None \<Rightarrow> (3, [])
      | Some n \<Rightarrow>
          if requested = Some n then (0, [])
          else if n = INTERNAL_FALLBACK then (2, [])
          else (1, utf8 n))"

section \<open>Lemmas\<close>

lemma min_by_key_None [simp]: "min_by_key f xs = None \<longleftrightarrow> xs = []"
  by (cases xs) (auto split: option.splits)

lemma min_by_key_Some:
  "min_by_key f xs = Some y \<Longrightarrow> y \<in> set xs \<and> (\<forall>x \<in> set xs. f y \<le> f x)"
proof (induction xs arbitrary: y)
  case Nil
  then show ?case by simp
next
  case (Cons x xs)
  show ?case
  proof (cases "min_by_key f xs")
    case None
    with Cons.prems show ?thesis by simp
  next
    case (Some z)
    from Cons.IH [OF Some] Cons.prems Some show ?thesis
      by (fastforce split: if_splits)
  qed
qed

lemma set_external_candidates:
  "(n, t) \<in> set (external_candidates outs) \<longleftrightarrow> (t, Some n) \<in> set outs \<and> n \<noteq> INTERNAL_FALLBACK"
  by (force simp: external_candidates_def List.map_filter_def split: option.splits if_splits)

lemma external_candidates_Nil:
  "external_candidates outs = []
    \<longleftrightarrow> (\<forall>(t, n) \<in> set outs. n = None \<or> n = Some INTERNAL_FALLBACK)"
  by (induction outs)
    (auto simp: external_candidates_def List.map_filter_simps split: option.splits if_splits)

lemma rank_simps [simp]:
  "rank req None = (3, [])"
  "rank (Some n) (Some n) = (0, [])"
  by (simp_all add: rank_def)

lemma rank_unrequested:
  assumes "req \<noteq> Some n"
  shows "rank req (Some n) = (if n = INTERNAL_FALLBACK then (2, []) else (1, utf8 n))"
  using assms by (simp add: rank_def)

lemma rank_least: "(0, []) \<le> rank req n"
  by (auto simp: rank_def less_eq_prod_def split: option.splits)

text \<open>The four ways an output is chosen, in the order the code tries them.\<close>

lemma select_cases:
  assumes "select outs req = Some t"
  obtains (requested) r where "req = Some r" "(t, Some r) \<in> set outs"
  | (external) n where "\<forall>r. req = Some r \<longrightarrow> (\<forall>t'. (t', Some r) \<notin> set outs)"
      "(t, Some n) \<in> set outs" "n \<noteq> INTERNAL_FALLBACK"
      "\<forall>t' n'. (t', Some n') \<in> set outs \<and> n' \<noteq> INTERNAL_FALLBACK \<longrightarrow> utf8 n \<le> utf8 n'"
  | (internal) "\<forall>r. req = Some r \<longrightarrow> (\<forall>t'. (t', Some r) \<notin> set outs)"
      "external_candidates outs = []" "(t, Some INTERNAL_FALLBACK) \<in> set outs"
  | (unnamed) n where "\<forall>(t', n') \<in> set outs. n' = None" "(t, n) \<in> set outs"
proof -
  let ?req = "case req of None \<Rightarrow> None | Some r \<Rightarrow> find (\<lambda>(_, name). name = Some r) outs"
  show ?thesis
  proof (cases ?req)
    case (Some p)
    then obtain r where r: "req = Some r" "find (\<lambda>(_, name). name = Some r) outs = Some p"
      by (cases req) auto
    from find_Some_in [OF r(2)] have "(fst p, Some r) \<in> set outs" by (cases p) auto
    with r(1) Some assms show ?thesis by (intro requested) (auto simp: select_def split: prod.splits)
  next
    case None
    then have nreq: "\<forall>r. req = Some r \<longrightarrow> (\<forall>t'. (t', Some r) \<notin> set outs)"
      by (fastforce simp: find_None_iff_set)
    show ?thesis
    proof (cases "min_by_key (\<lambda>(name, _). utf8 name) (external_candidates outs)")
      case (Some p)
      with None assms obtain n where p: "p = (n, t)"
        by (cases p) (auto simp: select_def)
      from min_by_key_Some [OF Some] have mem: "(n, t) \<in> set (external_candidates outs)"
        and least: "\<forall>x \<in> set (external_candidates outs). utf8 n \<le> utf8 (fst x)"
        by (auto simp: p case_prod_unfold)
      from least have "\<forall>t' n'. (t', Some n') \<in> set outs \<and> n' \<noteq> INTERNAL_FALLBACK
          \<longrightarrow> utf8 n \<le> utf8 n'"
        by (metis fst_conv set_external_candidates)
      with mem show ?thesis by (auto intro: external [OF nreq] simp: set_external_candidates)
    next
      case n2: None
      then have e: "external_candidates outs = []" by simp
      show ?thesis
      proof (cases "find (\<lambda>(_, name). name = Some INTERNAL_FALLBACK) outs")
        case (Some p)
        with find_Some_in [OF Some] None n2 assms show ?thesis
          by (intro internal [OF nreq e]) (auto simp: select_def split: prod.splits)
      next
        case n3: None
        from None n2 n3 assms have "\<exists>n. (t, n) \<in> set outs"
          by (auto simp: select_def split: list.splits)
        moreover from e n3 have "\<forall>(t', n') \<in> set outs. n' = None"
          by (fastforce simp: external_candidates_Nil find_None_iff_set)
        ultimately show ?thesis by (blast intro: unnamed)
      qed
    qed
  qed
qed

lemma select_eq_None: "select outs req = None \<longleftrightarrow> outs = []"
proof
  assume "select outs req = None"
  then show "outs = []"
    by (auto simp: select_def split: option.splits list.splits prod.splits)
next
  assume "outs = []"
  then show "select outs req = None"
    by (simp add: select_def external_candidates_def List.map_filter_def split: option.split)
qed

lemma select_least_rank:
  assumes "select outs req = Some t"
  shows "\<exists>n. (t, n) \<in> set outs \<and> (\<forall>(t', n') \<in> set outs. rank req n \<le> rank req n')"
  using assms
proof (cases rule: select_cases)
  case (requested r)
  then show ?thesis by (intro exI [of _ "Some r"]) (auto simp: rank_least)
next
  case (external n)
  then have n: "rank req (Some n) = (1, utf8 n)" by (auto simp: rank_def)
  have "rank req (Some n) \<le> rank req n'" if "(t', n') \<in> set outs" for t' n'
    using that external(1,4) unfolding n by (cases n') (auto simp: rank_def less_eq_prod_def)
  with external(2) show ?thesis by blast
next
  case internal
  have "rank req (Some INTERNAL_FALLBACK) \<le> rank req n'" if "(t', n') \<in> set outs" for t' n'
    using that internal by (fastforce simp: rank_def external_candidates_Nil less_eq_prod_def)
  with internal(3) show ?thesis by blast
next
  case (unnamed n)
  then have "n = None" by auto
  with unnamed show ?thesis by (intro exI [of _ n]) fastforce
qed

lemma rank_inj:
  assumes "rank req n = rank req n'" "list_all valid_text (case n of None \<Rightarrow> [] | Some s \<Rightarrow> [s])"
    "list_all valid_text (case n' of None \<Rightarrow> [] | Some s \<Rightarrow> [s])"
  shows "n = n'"
  using assms
  by (cases n; cases n') (auto simp: rank_def split: if_splits dest: utf8_inject)

text \<open>A Rust \<open>&str\<close> holds valid text; unnamed outputs carry no name.\<close>

definition valid_outputs :: "('t \<times> ustring option) list \<Rightarrow> bool" where
  "valid_outputs outs = list_all (\<lambda>(_, n). case n of None \<Rightarrow> True | Some s \<Rightarrow> valid_text s) outs"

lemma select_unique_rank:
  assumes "valid_outputs outs" "distinct (map snd outs)" "(t, n) \<in> set outs"
    "\<forall>(t', n') \<in> set outs. rank req n \<le> rank req n'"
  shows "select outs req = Some t"
proof -
  obtain u where u: "select outs req = Some u"
    using assms(3) select_eq_None [of outs req] by (cases "select outs req") auto
  from select_least_rank [OF u] obtain m where m: "(u, m) \<in> set outs"
    "\<forall>(t', n') \<in> set outs. rank req m \<le> rank req n'" by blast
  have "rank req m \<le> rank req n" "rank req n \<le> rank req m"
    using m assms(3,4) by auto
  then have "rank req m = rank req n" by (rule antisym)
  moreover have "list_all valid_text (case p of None \<Rightarrow> [] | Some s \<Rightarrow> [s])"
    if "(x, p) \<in> set outs" for x p
    using that assms(1) by (auto simp: valid_outputs_def list_all_iff split: option.splits)
  ultimately have "m = n" using m(1) assms(3) by (blast intro: rank_inj)
  with m(1) assms(2,3) have "(u, n) = (t, n)"
    by (intro inj_onD [of snd "set outs"]) (auto simp: distinct_map)
  with u show ?thesis by simp
qed

section \<open>What the clients rely on\<close>

text \<open>
  Both clients hand the selector an enumeration of their outputs and index it with the answer.
\<close>

locale output_selector =
  fixes sel :: "(nat \<times> ustring option) list \<Rightarrow> ustring option \<Rightarrow> nat option"
  assumes sel_member: "sel outs req = Some t \<Longrightarrow> t \<in> fst ` set outs"
    and sel_None: "sel outs req = None \<longleftrightarrow> outs = []"
begin

lemma sel_enumerate:
  assumes "sel (map (\<lambda>i. (i, f i)) is) req = Some k"
  shows "k \<in> set is"
  using sel_member [OF assms] by auto

lemma sel_enumerate_total: "is \<noteq> [] \<Longrightarrow> \<exists>k \<in> set is. sel (map (\<lambda>i. (i, f i)) is) req = Some k"
  using sel_None [of "map (\<lambda>i. (i, f i)) is" req] sel_enumerate
  by (cases "sel (map (\<lambda>i. (i, f i)) is) req") auto

end

interpretation connector: output_selector "select"
proof unfold_locales
  fix outs :: "(nat \<times> ustring option) list" and req t
  assume "select outs req = Some t"
  from select_least_rank [OF this] show "t \<in> fst ` set outs" by force
next
  fix outs :: "(nat \<times> ustring option) list" and req
  show "select outs req = None \<longleftrightarrow> outs = []" by (rule select_eq_None)
qed

section \<open>Properties\<close>

text \<open>
  C37. The selected output is one of the outputs and has the least rank among them: the
  requested connector if present, otherwise the external connector whose name is first in byte
  order, otherwise the internal panel, otherwise an unnamed output; there is no selection
  exactly when there is no output.
\<close>

theorem select_refines_rank:
  "(select outs req = None \<longleftrightarrow> outs = [])
   \<and> (\<forall>t. select outs req = Some t
        \<longrightarrow> (\<exists>n. (t, n) \<in> set outs \<and> (\<forall>(t', n') \<in> set outs. rank req n \<le> rank req n')))"
  by (intro conjI allI impI select_eq_None select_least_rank)

theorem select_refines_rank_witness:
  "\<exists>n. (2 :: nat, n) \<in> set [(1, Some (lit ''eDP-1'')), (2, Some (lit ''DP-2''))]
     \<and> (\<forall>(t', n') \<in> set [(1 :: nat, Some (lit ''eDP-1'')), (2, Some (lit ''DP-2''))].
          rank None n \<le> rank None n')"
proof -
  have "select [(1 :: nat, Some (lit ''eDP-1'')), (2, Some (lit ''DP-2''))] None = Some 2"
    by (simp add: select_def external_candidates_def List.map_filter_def INTERNAL_FALLBACK_def
        lit_def)
  with select_refines_rank [of "[(1 :: nat, Some (lit ''eDP-1'')), (2, Some (lit ''DP-2''))]" None]
  show ?thesis by blast
qed

text \<open>
  Discovery order does not matter: two enumerations of the same outputs whose names are
  pairwise distinct (at most one output unnamed) select the same output.
\<close>

theorem select_order_independent:
  assumes "mset outs = mset outs'" "valid_outputs outs" "distinct (map snd outs)"
  shows "select outs req = select outs' req"
proof (cases "select outs req")
  case None
  then have "outs = []" by (simp add: select_eq_None)
  with assms(1) have "outs' = []" by simp
  with None \<open>outs = []\<close> show ?thesis by simp
next
  case (Some t)
  have set_eq: "set outs = set outs'" using assms(1) by (metis set_mset_mset)
  have "valid_outputs outs'" using assms(2) set_eq by (simp add: valid_outputs_def list_all_iff)
  moreover have "distinct (map snd outs')"
    using assms(1,3) by (metis mset_eq_imp_distinct_iff mset_map)
  moreover obtain n where "(t, n) \<in> set outs'" "\<forall>(t', n') \<in> set outs'. rank req n \<le> rank req n'"
    using select_least_rank [OF Some] set_eq by auto
  ultimately show ?thesis using Some select_unique_rank by metis
qed

theorem select_order_independent_witness:
  "select [(1 :: nat, Some (lit ''DP-2'')), (2, Some (lit ''eDP-1'')), (3, Some (lit ''DP-1''))] None
   = select [(3, Some (lit ''DP-1'')), (2, Some (lit ''eDP-1'')), (1, Some (lit ''DP-2''))] None"
proof (rule select_order_independent)
  show "mset [(1 :: nat, Some (lit ''DP-2'')), (2, Some (lit ''eDP-1'')), (3, Some (lit ''DP-1''))]
      = mset [(3, Some (lit ''DP-1'')), (2, Some (lit ''eDP-1'')), (1, Some (lit ''DP-2''))]"
    by simp
  show "valid_outputs [(1 :: nat, Some (lit ''DP-2'')), (2, Some (lit ''eDP-1'')), (3, Some (lit ''DP-1''))]"
    by (simp add: valid_outputs_def lit_def scalar_value_def)
  show "distinct (map snd [(1 :: nat, Some (lit ''DP-2'')), (2, Some (lit ''eDP-1'')), (3, Some (lit ''DP-1''))])"
    by (simp add: lit_def)
qed

end
