(* ===== verification/Machines.thy ===== *)
theory Machines
  imports Genkan_Prelude
begin

text \<open>
  Input/output machines: the stateful components of the program are functions from a state and
  an input (a call, a message, an event) to the next state and an output. The two interfaces
  below carry what the components prove once per operation to every sequence of operations.
\<close>

type_synonym ('s, 'i, 'o) machine = "'s \<Rightarrow> 'i \<Rightarrow> 's \<times> 'o"

fun run :: "('s, 'i, 'o) machine \<Rightarrow> 's \<Rightarrow> 'i list \<Rightarrow> 's \<times> 'o list" where
  "run step s [] = (s, [])"
| "run step s (i # is) =
     (let (s', out) = step s i; (s'', outs) = run step s' is in (s'', out # outs))"

lemma run_Cons [simp]:
  "fst (run step s (i # is)) = fst (run step (fst (step s i)) is)"
  "snd (run step s (i # is)) = snd (step s i) # snd (run step (fst (step s i)) is)"
  by (simp_all add: Let_def split: prod.split)

lemma run_append:
  "fst (run step s (xs @ ys)) = fst (run step (fst (run step s xs)) ys)"
  "snd (run step s (xs @ ys)) = snd (run step s xs) @ snd (run step (fst (run step s xs)) ys)"
  by (induction xs arbitrary: s) (simp_all del: run.simps(2))

lemma length_run [simp]: "length (snd (run step s is)) = length is"
  by (induction "is" arbitrary: s) (simp_all del: run.simps(2))

declare run.simps(2) [simp del]

text \<open>An invariant that every step keeps, and a fact about outputs that it implies.\<close>

locale invariant_machine =
  fixes step :: "('s, 'i, 'o) machine"
    and init :: "'s \<Rightarrow> bool"
    and inv :: "'s \<Rightarrow> bool"
  assumes init_inv: "init s \<Longrightarrow> inv s"
    and step_inv: "inv s \<Longrightarrow> inv (fst (step s i))"
begin

lemma inv_run: "inv s \<Longrightarrow> inv (fst (run step s is))"
  by (induction "is" arbitrary: s) (simp_all add: step_inv)

lemma init_run: "init s \<Longrightarrow> inv (fst (run step s is))"
  by (simp add: init_inv inv_run)

end

text \<open>
  A potential: every step pays for the cost of its output with the gain of its own output and what
  earlier steps left, so over a whole run the total cost is at most the total gain.
\<close>

locale metered_machine =
  fixes step :: "('s, 'i, 'o) machine"
    and gain :: "'o \<Rightarrow> nat"
    and cost :: "'o \<Rightarrow> nat"
    and potential :: "'s \<Rightarrow> nat"
  assumes step_pays: "potential (fst (step s i)) + cost (snd (step s i)) \<le> potential s + gain (snd (step s i))"
begin

lemma run_pays:
  "potential (fst (run step s is)) + sum_list (map cost (snd (run step s is)))
    \<le> potential s + sum_list (map gain (snd (run step s is)))"
proof (induction "is" arbitrary: s)
  case Nil
  then show ?case by simp
next
  case (Cons i "is")
  from Cons [of "fst (step s i)"] step_pays [of s i] show ?case by simp
qed

end

text \<open>
  An invariant that also counts the steps taken, kept as long as the count stays below a limit: for
  components with a counter of fixed width.
\<close>

locale counted_machine =
  fixes step :: "('s, 'i, 'o) machine"
    and init :: "'s \<Rightarrow> bool"
    and inv :: "nat \<Rightarrow> 's \<Rightarrow> bool"
    and limit :: nat
  assumes init_counted: "init s \<Longrightarrow> inv 0 s"
    and step_counted: "inv n s \<Longrightarrow> n < limit \<Longrightarrow> inv (Suc n) (fst (step s i))"
begin

lemma run_counted: "inv n s \<Longrightarrow> n + length is \<le> limit \<Longrightarrow> inv (n + length is) (fst (run step s is))"
proof (induction "is" arbitrary: n s)
  case Nil
  then show ?case by simp
next
  case (Cons i "is")
  then show ?case using Cons.IH [OF step_counted [of n s i]] by simp
qed

lemma init_run_counted: "init s \<Longrightarrow> length is \<le> limit \<Longrightarrow> inv (length is) (fst (run step s is))"
  using run_counted [of 0 s "is"] init_counted by simp

end

text \<open>A flag that, once set, no step clears.\<close>

locale latched_machine =
  fixes step :: "('s, 'i, 'o) machine"
    and latched :: "'s \<Rightarrow> bool"
  assumes step_latched: "latched s \<Longrightarrow> latched (fst (step s i))"
begin

lemma run_latched: "latched s \<Longrightarrow> latched (fst (run step s is))"
  by (induction "is" arbitrary: s) (simp_all add: step_latched)

end

end
