(* ===== verification/Conversation.thy ===== *)
theory Conversation
  imports Machines
begin

text \<open>
  The authentication conversation shared by the greeter and the locker
  (\<open>src/conversation.rs\<close>): the response being typed, the prompt and the notice that are shown,
  and the number of the current attempt, which tells replies of the current backend exchange from
  replies of an abandoned one.

  Strings are modelled by their characters; how their buffers are allocated and overwritten with
  zeros before they are released is below this level.
\<close>

section \<open>Model\<close>

definition MAX_TEXT_CHARS :: nat where "MAX_TEXT_CHARS = 512"
definition MAX_INPUT_BYTES :: nat where "MAX_INPUT_BYTES = MAX_TEXT_CHARS * 4"

datatype attempt = Attempt u64

datatype status = Waiting | Submitting | Succeeded | Failed

datatype response =
    RPrompt bool ustring
  | RNotice bool ustring
  | RSuccess
  | RFailure ustring

datatype effect = EPrompt | ENotice | EAuthenticated | EFailed

record conversation =
  input :: ustring
  prompt :: ustring
  notice :: "ustring option"
  message_is_error :: bool
  is_secret :: bool
  conv_status :: status
  conv_attempt :: attempt

definition Attempt_next :: "attempt \<Rightarrow> attempt" where
  "Attempt_next a = (case a of Attempt n \<Rightarrow> Attempt (n + 1))"

text \<open>\<open>char::is_whitespace\<close>: the characters with the Unicode property White\_Space.\<close>

definition is_whitespace :: "uchar \<Rightarrow> bool" where
  "is_whitespace c \<longleftrightarrow>
     9 \<le> c \<and> c \<le> 13 \<or> c = 0x20 \<or> c = 0x85 \<or> c = 0xA0 \<or> c = 0x1680
     \<or> 0x2000 \<le> c \<and> c \<le> 0x200A \<or> c = 0x2028 \<or> c = 0x2029 \<or> c = 0x202F \<or> c = 0x205F \<or> c = 0x3000"

definition trim_end_matches :: "(uchar \<Rightarrow> bool) \<Rightarrow> ustring \<Rightarrow> ustring" where
  "trim_end_matches P s = rev (dropWhile P (rev s))"

definition trim :: "ustring \<Rightarrow> ustring" where
  "trim s = trim_end_matches is_whitespace (dropWhile is_whitespace s)"

definition bounded_text :: "ustring \<Rightarrow> ustring" where
  "bounded_text value =
     (let bounded = take MAX_TEXT_CHARS value in
      if drop MAX_TEXT_CHARS value \<noteq> [] then butlast bounded @ [0x2026] else bounded)"

definition clean_prompt :: "ustring \<Rightarrow> ustring" where
  "clean_prompt p =
     (let p = trim (trim_end_matches (\<lambda>c. c = 0x3A) (trim p)) in
      bounded_text (if p = [] then lit ''Password'' else p))"

fun append_bounded :: "ustring \<Rightarrow> ustring \<Rightarrow> ustring" where
  "append_bounded target [] = target"
| "append_bounded target (character # rest) =
     (if length target = MAX_TEXT_CHARS
         \<or> length (utf8 target) + len_utf8 character > MAX_INPUT_BYTES
      then target
      else append_bounded (target @ [character]) rest)"

definition Conversation_new :: conversation where
  "Conversation_new =
     \<lparr>input = [], prompt = lit ''Password'', notice = None, message_is_error = False,
      is_secret = True, conv_status = Submitting, conv_attempt = Attempt 1\<rparr>"

definition clear_response :: "conversation \<Rightarrow> conversation" where
  "clear_response c = c\<lparr>input := []\<rparr>"

definition clear_notice :: "conversation \<Rightarrow> conversation" where
  "clear_notice c = c\<lparr>notice := None, message_is_error := False\<rparr>"

definition set_notice :: "ustring \<Rightarrow> bool \<Rightarrow> conversation \<Rightarrow> conversation" where
  "set_notice message error c =
     c\<lparr>notice := Some (bounded_text message), message_is_error := error\<rparr>"

definition begin_attempt :: "conversation \<Rightarrow> conversation \<times> attempt" where
  "begin_attempt c =
     (let c = c\<lparr>conv_attempt := Attempt_next (conv_attempt c)\<rparr>;
          c = clear_notice (clear_response c);
          c = c\<lparr>conv_status := Submitting\<rparr>
      in (c, conv_attempt c))"

definition invalidate_attempt :: "conversation \<Rightarrow> conversation" where
  "invalidate_attempt c =
     clear_response (c\<lparr>conv_attempt := Attempt_next (conv_attempt c)\<rparr>)"

definition accepts :: "conversation \<Rightarrow> attempt \<Rightarrow> bool" where
  "accepts c a \<longleftrightarrow> a = conv_attempt c"

definition for_preview ::
  "ustring \<Rightarrow> ustring \<Rightarrow> ustring option \<Rightarrow> bool \<Rightarrow> bool \<Rightarrow> status \<Rightarrow> conversation" where
  "for_preview inp p message error secret st =
     \<lparr>input = append_bounded [] inp, prompt = clean_prompt p,
      notice = map_option bounded_text message, message_is_error = error, is_secret = secret,
      conv_status = st, conv_attempt = Attempt 1\<rparr>"

definition update_input :: "ustring \<Rightarrow> conversation \<Rightarrow> conversation \<times> bool" where
  "update_input value c =
     (if conv_status c \<noteq> Waiting then (c, False)
      else
        (let c = clear_response c in (c\<lparr>input := append_bounded (input c) value\<rparr>, True)))"

definition push_input :: "ustring \<Rightarrow> conversation \<Rightarrow> conversation \<times> bool" where
  "push_input value c =
     (if conv_status c \<noteq> Waiting then (c, False)
      else
        (let previous = length (utf8 (input c));
             c = c\<lparr>input := append_bounded (input c) value\<rparr>
         in (c, length (utf8 (input c)) \<noteq> previous)))"

definition pop_input :: "conversation \<Rightarrow> conversation \<times> bool" where
  "pop_input c =
     (if conv_status c \<noteq> Waiting then (c, False)
      else if input c = [] then (c, False)
      else (c\<lparr>input := butlast (input c)\<rparr>, True))"

definition submit :: "conversation \<Rightarrow> conversation \<times> (attempt \<times> ustring) option" where
  "submit c =
     (if conv_status c \<noteq> Waiting then (c, None)
      else (c\<lparr>conv_status := Submitting, input := []\<rparr>, Some (conv_attempt c, input c)))"

definition conv_receive ::
  "attempt \<Rightarrow> response \<Rightarrow> conversation \<Rightarrow> conversation \<times> effect option" where
  "conv_receive a r c =
     (if \<not> accepts c a then (c, None)
      else
        (case r of
           RPrompt secret message \<Rightarrow>
             ((clear_response c)\<lparr>prompt := clean_prompt message, is_secret := secret,
                conv_status := Waiting\<rparr>, Some EPrompt)
         | RNotice error message \<Rightarrow> (set_notice message error c, Some ENotice)
         | RSuccess \<Rightarrow>
             ((clear_notice (clear_response c))\<lparr>conv_status := Succeeded\<rparr>, Some EAuthenticated)
         | RFailure message \<Rightarrow>
             ((set_notice message True
                 ((clear_response c)\<lparr>prompt := lit ''Password'', is_secret := True\<rparr>))
                 \<lparr>conv_status := Failed\<rparr>, Some EFailed)))"

definition conv_fail :: "ustring \<Rightarrow> conversation \<Rightarrow> conversation" where
  "conv_fail message c = fst (conv_receive (conv_attempt c) (RFailure message) c)"

text \<open>Every call the greeter and the locker make on a conversation, as one machine.\<close>

datatype call =
    CBegin | CInvalidate | CUpdate ustring | CPush ustring | CPop | CSubmit
  | CReceive attempt response | CFail ustring | CSetNotice ustring bool | CClearNotice
  | CClearResponse

datatype reply =
    Done
  | Began attempt
  | Changed bool
  | Submitted "(attempt \<times> ustring) option"
  | Received "effect option"

fun conv_step :: "(conversation, call, reply) machine" where
  "conv_step c CBegin = apsnd Began (begin_attempt c)"
| "conv_step c CInvalidate = (invalidate_attempt c, Done)"
| "conv_step c (CUpdate v) = apsnd Changed (update_input v c)"
| "conv_step c (CPush v) = apsnd Changed (push_input v c)"
| "conv_step c CPop = apsnd Changed (pop_input c)"
| "conv_step c CSubmit = apsnd Submitted (submit c)"
| "conv_step c (CReceive a r) = apsnd Received (conv_receive a r c)"
| "conv_step c (CFail m) = (conv_fail m c, Done)"
| "conv_step c (CSetNotice m e) = (set_notice m e c, Done)"
| "conv_step c CClearNotice = (clear_notice c, Done)"
| "conv_step c CClearResponse = (clear_response c, Done)"

section \<open>Text bounds\<close>

lemma bounded_text_short: "length s \<le> MAX_TEXT_CHARS \<Longrightarrow> bounded_text s = s"
  by (simp add: bounded_text_def)

lemma length_bounded_text [genkan_bounds]: "length (bounded_text s) = min (length s) MAX_TEXT_CHARS"
  by (auto simp: bounded_text_def Let_def MAX_TEXT_CHARS_def)

lemma bounded_text_Nil [simp]: "bounded_text s = [] \<longleftrightarrow> s = []"
  by (auto simp: bounded_text_def Let_def MAX_TEXT_CHARS_def)

lemma clean_prompt_bounds [genkan_bounds]:
  "length (clean_prompt p) \<le> MAX_TEXT_CHARS" "clean_prompt p \<noteq> []"
  by (simp_all add: clean_prompt_def Let_def length_bounded_text lit_def)

text \<open>
  The character bound of \<open>append_bounded\<close> is the only one that can be reached: a character takes
  at most four bytes.
\<close>

lemma append_bounded_take:
  "length target \<le> MAX_TEXT_CHARS
    \<Longrightarrow> append_bounded target v = target @ take (MAX_TEXT_CHARS - length target) v"
proof (induction target v rule: append_bounded.induct)
  case (1 target)
  then show ?case by simp
next
  case (2 target c cs)
  show ?case
  proof (cases "length target = MAX_TEXT_CHARS")
    case False
    with "2.prems" have less: "length target < MAX_TEXT_CHARS" by simp
    have "length (utf8 target) \<le> 4 * length target" "len_utf8 c \<le> 4"
      using length_utf8_bounds(2) [of target] by (auto simp: len_utf8_def)
    with less have fits: "length (utf8 target) + len_utf8 c \<le> MAX_INPUT_BYTES"
      by (simp add: MAX_INPUT_BYTES_def)
    have "MAX_TEXT_CHARS - length target = Suc (MAX_TEXT_CHARS - Suc (length target))"
      using less by simp
    with "2.IH" False fits less show ?thesis by simp
  qed simp
qed

section \<open>Invariant\<close>

text \<open>
  Texts are within their bounds, the prompt is never empty, and a response is held only while the
  backend waits for one.
\<close>

definition conv_ok :: "conversation \<Rightarrow> bool" where
  "conv_ok c \<longleftrightarrow>
     length (input c) \<le> MAX_TEXT_CHARS \<and> length (utf8 (input c)) \<le> MAX_INPUT_BYTES
     \<and> prompt c \<noteq> [] \<and> length (prompt c) \<le> MAX_TEXT_CHARS
     \<and> (case notice c of None \<Rightarrow> True | Some m \<Rightarrow> length m \<le> MAX_TEXT_CHARS)
     \<and> (conv_status c \<noteq> Waiting \<longrightarrow> input c = [])"

lemmas conv_defs = begin_attempt_def invalidate_attempt_def update_input_def push_input_def
  pop_input_def submit_def conv_receive_def conv_fail_def set_notice_def clear_notice_def
  clear_response_def accepts_def Let_def

lemma chars_imp_bytes: "length s \<le> MAX_TEXT_CHARS \<Longrightarrow> length (utf8 s) \<le> MAX_INPUT_BYTES"
  using length_utf8_bounds(2) [of s] by (simp add: MAX_INPUT_BYTES_def)

lemma append_bounded_length:
  "length t \<le> MAX_TEXT_CHARS \<Longrightarrow> length (append_bounded t v) \<le> MAX_TEXT_CHARS"
  by (simp add: append_bounded_take)

lemma length_lit [simp]: "length (lit s) = length s"
  by (simp add: lit_def)

lemma lit_Nil [simp]: "lit s = [] \<longleftrightarrow> s = []"
  by (simp add: lit_def)

lemma conv_ok_append [genkan_inv]:
  "conv_ok c \<Longrightarrow> conv_status c = Waiting
    \<Longrightarrow> conv_ok (c\<lparr>input := append_bounded (input c) v\<rparr>)"
  by (simp add: conv_ok_def append_bounded_length chars_imp_bytes)

lemma password_bound: "length (lit ''Password'') \<le> MAX_TEXT_CHARS"
  by (simp add: MAX_TEXT_CHARS_def)

lemma conv_ok_receive [genkan_inv]: "conv_ok c \<Longrightarrow> conv_ok (fst (conv_receive a r c))"
  by (cases r) (auto simp: conv_ok_def conv_defs clean_prompt_bounds length_bounded_text
      password_bound simp del: length_lit)

lemma conv_ok_simple [genkan_inv]:
  assumes "conv_ok c"
  shows "conv_ok (fst (begin_attempt c))" "conv_ok (invalidate_attempt c)"
    "conv_ok (set_notice m e c)" "conv_ok (clear_notice c)" "conv_ok (clear_response c)"
    "conv_ok (fst (submit c))" "conv_ok (conv_fail m c)"
  using assms conv_ok_receive [OF assms]
  by (auto simp: conv_ok_def conv_defs length_bounded_text simp del: conv_receive_def
      split: option.splits)

lemma conv_ok_pop [genkan_inv]: "conv_ok c \<Longrightarrow> conv_ok (fst (pop_input c))"
  by (auto simp: conv_ok_def pop_input_def intro!: chars_imp_bytes)

lemma conv_ok_input [genkan_inv]:
  assumes "conv_ok c"
  shows "conv_ok (fst (update_input v c))" "conv_ok (fst (push_input v c))"
  using assms conv_ok_append [OF conv_ok_simple(5) [OF assms], of v] conv_ok_append [OF assms, of v]
  by (auto simp: update_input_def push_input_def Let_def clear_response_def)

lemma conv_ok_step: "conv_ok c \<Longrightarrow> conv_ok (fst (conv_step c op))"
  by (cases op) (simp_all add: genkan_inv)

lemma conv_ok_new: "conv_ok Conversation_new"
  by (simp add: conv_ok_def Conversation_new_def MAX_TEXT_CHARS_def)

interpretation conv: invariant_machine conv_step "\<lambda>c. c = Conversation_new" conv_ok
  by unfold_locales (auto simp: conv_ok_new conv_ok_step)

text \<open>
  A submission needs a prompt of the current attempt that was not answered before: one unit of
  potential while the conversation waits.
\<close>

fun prompts :: "reply \<Rightarrow> nat" where
  "prompts (Received (Some EPrompt)) = 1"
| "prompts _ = 0"

fun submissions :: "reply \<Rightarrow> nat" where
  "submissions (Submitted (Some r)) = 1"
| "submissions _ = 0"

definition pending_prompt :: "conversation \<Rightarrow> nat" where
  "pending_prompt c = (if conv_status c = Waiting then 1 else 0)"

interpretation conv_meter: metered_machine conv_step prompts submissions pending_prompt
proof unfold_locales
  fix c op
  show "pending_prompt (fst (conv_step c op)) + submissions (snd (conv_step c op))
    \<le> pending_prompt c + prompts (snd (conv_step c op))"
  proof (cases op)
    case (CReceive a r)
    then show ?thesis by (cases r) (auto simp: pending_prompt_def conv_defs)
  qed (auto simp: pending_prompt_def conv_defs)
qed

section \<open>Attempts\<close>

lemma Attempt_next_pow: "(Attempt_next ^^ k) (Attempt n) = Attempt (n + of_nat k)"
  by (induction k) (simp_all add: Attempt_next_def)

lemma Attempt_next_pow_neq:
  assumes "0 < k" "k < 2 ^ 64"
  shows "(Attempt_next ^^ k) a \<noteq> a"
proof (cases a)
  case (Attempt n)
  have "of_nat k \<noteq> (0 :: u64)"
    using assms unat_of_nat [of k, where ?'a = 64] by (auto simp: unat_eq_0)
  then show ?thesis by (simp add: Attempt Attempt_next_pow)
qed

fun renewals :: "call list \<Rightarrow> nat" where
  "renewals [] = 0"
| "renewals (op # ops) =
     (if op = CBegin \<or> op = CInvalidate then Suc (renewals ops) else renewals ops)"

lemma conv_step_attempt:
  "conv_attempt (fst (conv_step c op)) =
     (if op = CBegin \<or> op = CInvalidate then Attempt_next (conv_attempt c) else conv_attempt c)"
  by (cases op) (auto simp: conv_defs split: response.splits)

lemma run_attempt:
  "conv_attempt (fst (run conv_step c ops)) = (Attempt_next ^^ renewals ops) (conv_attempt c)"
  by (induction ops arbitrary: c) (auto simp: conv_step_attempt funpow_swap1)

section \<open>Properties\<close>

text \<open>
  Whatever is typed, received and displayed, and in whatever order: the response, the prompt
  and the notice stay within 512 characters (the response within 2048 bytes), there is always a
  prompt to show, and no response text is held unless the backend waits for one.
\<close>

theorem conversation_bounded: "conv_ok (fst (run conv_step Conversation_new calls))"
  by (rule conv.init_run) simp

text \<open>
  A response is submitted at most once per prompt: over any sequence of calls on a new
  conversation, the number of responses handed to the backend is at most the number of prompts
  that were accepted from it.
\<close>

theorem one_response_per_prompt:
  "sum_list (map submissions (snd (run conv_step Conversation_new calls)))
    \<le> sum_list (map prompts (snd (run conv_step Conversation_new calls)))"
  using conv_meter.run_pays [of Conversation_new calls]
  by (simp add: pending_prompt_def Conversation_new_def)

text \<open>
  Replies of an abandoned attempt are inert: once an attempt has been superseded (by fewer
  than \<open>2^64\<close> later attempts, the counter wraps), any reply that carries its number changes
  nothing and has no effect, whatever else happened in between.
\<close>

theorem stale_reply_ignored:
  assumes "0 < renewals calls" "renewals calls < 2 ^ 64"
  shows "conv_receive (conv_attempt c) r (fst (run conv_step c calls))
    = (fst (run conv_step c calls), None)"
  using Attempt_next_pow_neq [OF assms, of "conv_attempt c"]
  by (simp add: conv_receive_def accepts_def run_attempt)

theorem stale_reply_ignored_witness:
  "let c = fst (run conv_step Conversation_new [CUpdate [65], CBegin, CPush [66]])
   in conv_receive (Attempt 1) RSuccess c = (c, None)"
  using stale_reply_ignored [of "[CUpdate [65], CBegin, CPush [66]]" Conversation_new RSuccess]
  by (simp add: Let_def Conversation_new_def)

text \<open>
  Typing keeps the longest prefix that fits: while a response is awaited, the response after
  \<open>push_input\<close> is the old one followed by the typed text, cut to its first 512 characters, and
  the call reports exactly whether anything was added. The byte limit never cuts earlier.
\<close>

theorem push_input_prefix:
  assumes "conv_ok c" "conv_status c = Waiting"
  shows "input (fst (push_input v c)) = take MAX_TEXT_CHARS (input c @ v)
    \<and> (snd (push_input v c) \<longleftrightarrow> v \<noteq> [] \<and> length (input c) < MAX_TEXT_CHARS)"
proof -
  from assms(1) have len: "length (input c) \<le> MAX_TEXT_CHARS" by (simp add: conv_ok_def)
  have "0 < length (utf8 s)" if "s \<noteq> []" for s
    using that length_utf8_bounds(1) [of s] by (metis gr0I leD length_greater_0_conv)
  then have "length (utf8 (take k s)) = 0 \<longleftrightarrow> k = 0 \<or> s = []" for k s
    by (metis length_greater_0_conv less_not_refl list.size(3) take_eq_Nil utf8_simps(1))
  with assms(2) len show ?thesis
    by (auto simp: push_input_def Let_def append_bounded_take)
qed

theorem push_input_prefix_witness:
  "input (fst (push_input [66, 67] (for_preview [65] [] None False True Waiting))) = [65, 66, 67]"
proof -
  have "append_bounded [] [65] = [65]"
    by (simp add: len_utf8_def MAX_TEXT_CHARS_def MAX_INPUT_BYTES_def)
  moreover have "conv_ok (for_preview [65] [] None False True Waiting)"
    using calculation clean_prompt_bounds [of "[]"]
    by (simp add: conv_ok_def for_preview_def MAX_TEXT_CHARS_def MAX_INPUT_BYTES_def utf8_char_def)
  ultimately show ?thesis
    using push_input_prefix [of "for_preview [65] [] None False True Waiting" "[66, 67]"]
    by (simp add: for_preview_def MAX_TEXT_CHARS_def)
qed

end
