(* ===== verification/Lock_Auth_Protocol.thy ===== *)
theory Lock_Auth_Protocol
  imports Genkan_Prelude
begin

text \<open>
  The wire protocol between the locker and its private PAM worker
  (\<open>crates/lock-auth/src/lib.rs\<close>): secrets, messages, their encoding, and the framed
  \<open>Connection\<close> over a Unix stream.

  A stream is what the operating system does with it: the read side is the list of the results
  of successive \<open>read\<close> calls, each with the instant at which the call is made (\<open>Bytes []\<close> is the
  end of the stream, a non-empty \<open>Bytes\<close> is handed out in pieces no longer than the buffer); the
  write side is the list of bytes written so far and a script of write faults. Running out of
  read results means that the reader blocks, which is the value \<open>None\<close>.
\<close>

section \<open>Constants\<close>

definition MAGIC :: "u8 list" where "MAGIC = [71, 78, 75, 65]"
definition VERSION :: u8 where "VERSION = 2"
definition HEADER_BYTES :: nat where "HEADER_BYTES = 10"
definition MAX_PAYLOAD_BYTES :: nat where "MAX_PAYLOAD_BYTES = 16 * 1024"
definition MAX_RESPONSE_BYTES :: nat where "MAX_RESPONSE_BYTES = 8 * 1024"
definition MAX_MESSAGE_BYTES :: nat where "MAX_MESSAGE_BYTES = 4 * 1024"
definition MAX_MESSAGES :: nat where "MAX_MESSAGES = 128"

definition READY :: u8 where "READY = 1"
definition PROMPT :: u8 where "PROMPT = 2"
definition INFO :: u8 where "INFO = 3"
definition ERROR :: u8 where "ERROR = 4"
definition SUCCESS :: u8 where "SUCCESS = 5"
definition FAILURE :: u8 where "FAILURE = 6"
definition RESPONSE :: u8 where "RESPONSE = 7"
definition CANCEL :: u8 where "CANCEL = 8"
definition RETRY :: u8 where "RETRY = 9"
definition BEGIN :: u8 where "BEGIN = 10"

lemmas protocol_constants = MAGIC_def VERSION_def HEADER_BYTES_def MAX_PAYLOAD_BYTES_def
  MAX_RESPONSE_BYTES_def MAX_MESSAGE_BYTES_def

lemmas kind_constants = READY_def PROMPT_def INFO_def ERROR_def SUCCESS_def FAILURE_def
  RESPONSE_def CANCEL_def RETRY_def BEGIN_def

section \<open>Messages\<close>

datatype io_kind = TimedOut | Interrupted | OtherIo

datatype protocol_error = Io io_kind | InvalidPayload | Closed

datatype secret = Secret (expose: "u8 list")

definition Secret_new :: "u8 list \<Rightarrow> protocol_error + secret" where
  "Secret_new value =
     (if length value > MAX_RESPONSE_BYTES \<or> 0 \<in> set value then Inl InvalidPayload
      else Inr (Secret value))"

datatype message =
    MReady (ready_uid: u32) (ready_username: ustring)
  | MPrompt (prompt_id: u64) (prompt_secret: bool) (prompt_text: ustring)
  | MInfo ustring
  | MError ustring
  | MSuccess
  | MFailure
  | MResponse u64 secret
  | MCancel
  | MRetry
  | MBegin

definition text_payload :: "ustring \<Rightarrow> protocol_error + u8 list" where
  "text_payload text =
     (if length (utf8 text) > MAX_MESSAGE_BYTES then Inl InvalidPayload else Inr (utf8 text))"

definition push_text :: "u8 list \<Rightarrow> ustring \<Rightarrow> nat \<Rightarrow> protocol_error + u8 list" where
  "push_text payload text maximum =
     (if length (utf8 text) > maximum then Inl InvalidPayload else Inr (payload @ utf8 text))"

definition decode_text :: "u8 list \<Rightarrow> nat \<Rightarrow> protocol_error + ustring" where
  "decode_text payload maximum =
     (if length payload > maximum \<or> 0 \<in> set payload then Inl InvalidPayload
      else ok_or (from_utf8 payload) InvalidPayload)"

fun encode :: "message \<Rightarrow> protocol_error + u8 \<times> u8 list" where
  "encode (MReady uid username) =
     rbind (push_text (to_be 4 (unat uid)) username MAX_MESSAGE_BYTES)
       (\<lambda>payload. Inr (READY, payload))"
| "encode (MPrompt ident secret text) =
     rbind (push_text (to_be 8 (unat ident) @ [if secret then 1 else 0]) text MAX_MESSAGE_BYTES)
       (\<lambda>payload. Inr (PROMPT, payload))"
| "encode (MInfo text) = rbind (text_payload text) (\<lambda>payload. Inr (INFO, payload))"
| "encode (MError text) = rbind (text_payload text) (\<lambda>payload. Inr (ERROR, payload))"
| "encode MSuccess = Inr (SUCCESS, [])"
| "encode MFailure = Inr (FAILURE, [])"
| "encode (MResponse ident value) = Inr (RESPONSE, to_be 8 (unat ident) @ expose value)"
| "encode MCancel = Inr (CANCEL, [])"
| "encode MRetry = Inr (RETRY, [])"
| "encode MBegin = Inr (BEGIN, [])"

definition decode :: "u8 \<Rightarrow> u8 list \<Rightarrow> protocol_error + message" where
  "decode kind payload =
     (if kind = READY \<and> 4 \<le> length payload then
        rbind (decode_text (drop 4 payload) MAX_MESSAGE_BYTES)
          (\<lambda>username. Inr (MReady (of_nat (from_be (take 4 payload))) username))
      else if kind = PROMPT \<and> 9 \<le> length payload \<and> payload ! 8 \<le> 1 then
        rbind (decode_text (drop 9 payload) MAX_MESSAGE_BYTES)
          (\<lambda>text. Inr (MPrompt (of_nat (from_be (take 8 payload))) (payload ! 8 = 1) text))
      else if kind = INFO then
        rbind (decode_text payload MAX_MESSAGE_BYTES) (\<lambda>text. Inr (MInfo text))
      else if kind = ERROR then
        rbind (decode_text payload MAX_MESSAGE_BYTES) (\<lambda>text. Inr (MError text))
      else if kind = SUCCESS \<and> payload = [] then Inr MSuccess
      else if kind = FAILURE \<and> payload = [] then Inr MFailure
      else if kind = RESPONSE \<and> 8 \<le> length payload \<and> length payload \<le> 8 + MAX_RESPONSE_BYTES
              \<and> 0 \<notin> set (drop 8 payload) then
        rbind (Secret_new (drop 8 payload))
          (\<lambda>value. Inr (MResponse (of_nat (from_be (take 8 payload))) value))
      else if kind = CANCEL \<and> payload = [] then Inr MCancel
      else if kind = RETRY \<and> payload = [] then Inr MRetry
      else if kind = BEGIN \<and> payload = [] then Inr MBegin
      else Inl InvalidPayload)"

section \<open>Streams and connections\<close>

datatype read_result = Bytes "u8 list" | ReadFail io_kind

type_synonym reads = "(nat \<times> read_result) list"

record connection =
  outbound :: "u8 list"
  write_faults :: "(nat \<times> io_kind) option list"
  inbound :: reads

text \<open>
  \<open>write_all\<close>: a fault \<open>(n, k)\<close> is an error of kind \<open>k\<close> after the first \<open>n\<close> bytes were written.
\<close>

definition write_all :: "u8 list \<Rightarrow> connection \<Rightarrow> (protocol_error + unit) \<times> connection" where
  "write_all bytes c =
     (case write_faults c of
        [] \<Rightarrow> (Inr (), c\<lparr>outbound := outbound c @ bytes\<rparr>)
      | None # fs \<Rightarrow> (Inr (), c\<lparr>outbound := outbound c @ bytes, write_faults := fs\<rparr>)
      | Some (n, k) # fs \<Rightarrow>
          (Inl (Io k), c\<lparr>outbound := outbound c @ take n bytes, write_faults := fs\<rparr>))"

definition frame_header :: "u8 \<Rightarrow> u8 list \<Rightarrow> u8 list" where
  "frame_header kind payload = MAGIC @ [VERSION, kind] @ to_be 4 (length payload)"

definition send :: "connection \<Rightarrow> message \<Rightarrow> (protocol_error + unit) \<times> connection" where
  "send c m =
     (case encode m of
        Inl e \<Rightarrow> (Inl e, c)
      | Inr (kind, payload) \<Rightarrow>
          if length payload > MAX_PAYLOAD_BYTES then (Inl InvalidPayload, c)
          else
            (case write_all (frame_header kind payload) c of
               (Inl e, c') \<Rightarrow> (Inl e, c')
             | (Inr _, c') \<Rightarrow> write_all payload c'))"

definition deadline_elapsed :: "nat option \<Rightarrow> nat \<Rightarrow> bool" where
  "deadline_elapsed deadline now = (case deadline of None \<Rightarrow> False | Some d \<Rightarrow> d \<le> now)"

fun read_exact_or_closed ::
  "nat \<Rightarrow> nat option \<Rightarrow> u8 list \<Rightarrow> reads \<Rightarrow> ((protocol_error + u8 list) \<times> reads) option" where
  "read_exact_or_closed 0 deadline acc rs = Some (Inr acc, rs)"
| "read_exact_or_closed (Suc n) deadline acc [] = None"
| "read_exact_or_closed (Suc n) deadline acc ((now, r) # rs) =
     (if deadline_elapsed deadline now then Some (Inl (Io TimedOut), (now, r) # rs)
      else
        (case r of
           Bytes [] \<Rightarrow> Some (Inl Closed, (now, r) # rs)
         | Bytes (b # bs) \<Rightarrow>
             (if length bs \<le> n
              then read_exact_or_closed (n - length bs) deadline (acc @ b # bs) rs
              else Some (Inr (acc @ b # take n bs), (now, Bytes (drop n bs)) # rs))
         | ReadFail Interrupted \<Rightarrow> read_exact_or_closed (Suc n) deadline acc rs
         | ReadFail k \<Rightarrow> Some (Inl (Io k), rs)))"

definition receive_before ::
  "nat option \<Rightarrow> reads \<Rightarrow> ((protocol_error + message) \<times> reads) option" where
  "receive_before deadline rs =
     (case read_exact_or_closed HEADER_BYTES deadline [] rs of
        None \<Rightarrow> None
      | Some (Inl e, rs1) \<Rightarrow> Some (Inl e, rs1)
      | Some (Inr header, rs1) \<Rightarrow>
          if take 4 header \<noteq> MAGIC \<or> header ! 4 \<noteq> VERSION then Some (Inl InvalidPayload, rs1)
          else
            (let len = from_be (drop 6 header) in
             if len > MAX_PAYLOAD_BYTES then Some (Inl InvalidPayload, rs1)
             else
               (case read_exact_or_closed len deadline [] rs1 of
                  None \<Rightarrow> None
                | Some (Inl e, rs2) \<Rightarrow> Some (Inl e, rs2)
                | Some (Inr payload, rs2) \<Rightarrow> Some (decode (header ! 5) payload, rs2))))"

definition receive :: "reads \<Rightarrow> ((protocol_error + message) \<times> reads) option" where
  "receive rs = receive_before None rs"

definition receive_with_deadline ::
  "nat \<Rightarrow> reads \<Rightarrow> ((protocol_error + message) \<times> reads) option" where
  "receive_with_deadline deadline rs = receive_before (Some deadline) rs"

text \<open>
  Sending a list of messages, and receiving a number of messages, stopping at the first error.
\<close>

fun send_all :: "connection \<Rightarrow> message list \<Rightarrow> (protocol_error + unit) \<times> connection" where
  "send_all c [] = (Inr (), c)"
| "send_all c (m # ms) =
     (case send c m of (Inl e, c') \<Rightarrow> (Inl e, c') | (Inr _, c') \<Rightarrow> send_all c' ms)"

fun receive_many ::
  "('s \<Rightarrow> (('e + 'm) \<times> 's) option) \<Rightarrow> nat \<Rightarrow> 's \<Rightarrow> (('e + 'm list) \<times> 's) option" where
  "receive_many recv 0 s = Some (Inr [], s)"
| "receive_many recv (Suc n) s =
     (case recv s of
        None \<Rightarrow> None
      | Some (Inl e, s') \<Rightarrow> Some (Inl e, s')
      | Some (Inr m, s') \<Rightarrow>
          map_option (map_prod (map_sum id (Cons m)) id) (receive_many recv n s'))"

section \<open>Reference notions\<close>

text \<open>
  What the program's own types guarantee of a message: its text is valid UTF-8 without NUL
  (PAM and NSS text comes from C strings) and its secret was built by \<open>Secret::new\<close>.
\<close>

fun message_text :: "message \<Rightarrow> ustring" where
  "message_text (MReady _ t) = t"
| "message_text (MPrompt _ _ t) = t"
| "message_text (MInfo t) = t"
| "message_text (MError t) = t"
| "message_text _ = []"

fun valid_secret :: "message \<Rightarrow> bool" where
  "valid_secret (MResponse _ v) = is_ok (Secret_new (expose v))"
| "valid_secret _ = True"

definition valid_message :: "message \<Rightarrow> bool" where
  "valid_message m \<longleftrightarrow>
     valid_text (message_text m) \<and> 0 \<notin> set (message_text m)
     \<and> length (utf8 (message_text m)) \<le> MAX_MESSAGE_BYTES \<and> valid_secret m"

definition frame :: "message \<Rightarrow> u8 list" where
  "frame m = (case encode m of
                Inl _ \<Rightarrow> []
              | Inr (kind, payload) \<Rightarrow> frame_header kind payload @ payload)"

text \<open>The bytes a list of reads delivers, and that it delivers them without error or end.\<close>

fun delivered :: "reads \<Rightarrow> u8 list" where
  "delivered [] = []"
| "delivered ((_, Bytes bs) # rs) = bs @ delivered rs"
| "delivered ((_, ReadFail _) # rs) = delivered rs"

definition live :: "reads \<Rightarrow> bool" where
  "live rs = list_all
     (\<lambda>(_, r). case r of Bytes bs \<Rightarrow> bs \<noteq> [] | ReadFail k \<Rightarrow> k = Interrupted) rs"

section \<open>Lemmas\<close>

lemma of_nat_u8_zero: "n < 256 \<Longrightarrow> (of_nat n = (0 :: u8)) = (n = 0)"
  by (metis unat_of_nat_u8 of_nat_0 unat_eq_zero)

lemma utf8_char_zero: "scalar_value c \<Longrightarrow> 0 \<in> set (utf8_char c) \<longleftrightarrow> c = 0"
proof -
  assume "scalar_value c"
  then have c: "c < 0x110000" by (auto simp: scalar_value_def)
  have "c div 64 < 32" if "c < 0x800" using that by simp
  moreover have "c div 4096 < 16" if "c < 0x10000" using that by simp
  moreover have "c div 262144 < 5" using c by simp
  ultimately show ?thesis
    by (auto simp: utf8_char_def of_nat_u8_zero eq_commute [of "0 :: u8"] simp del: of_nat_add)
qed

lemma utf8_zero: "valid_text s \<Longrightarrow> 0 \<in> set (utf8 s) \<longleftrightarrow> 0 \<in> set s"
  by (induction s) (auto simp: utf8_char_zero)

lemma decode_text_eq_Inr:
  "decode_text p mx = Inr t
    \<longleftrightarrow> p = utf8 t \<and> valid_text t \<and> 0 \<notin> set t \<and> length (utf8 t) \<le> mx"
  by (auto simp: decode_text_def utf8_zero dest: from_utf8_sound)

lemma push_text_eq_Inr [simp]:
  "push_text p t mx = Inr q \<longleftrightarrow> q = p @ utf8 t \<and> length (utf8 t) \<le> mx"
  by (auto simp: push_text_def)

lemma text_payload_eq_Inr [simp]:
  "text_payload t = Inr q \<longleftrightarrow> q = utf8 t \<and> length (utf8 t) \<le> MAX_MESSAGE_BYTES"
  by (auto simp: text_payload_def)

lemma Secret_new_eq_Inr [simp]:
  "Secret_new v = Inr s \<longleftrightarrow> s = Secret v \<and> length v \<le> MAX_RESPONSE_BYTES \<and> 0 \<notin> set v"
  by (auto simp: Secret_new_def)

lemma Secret_new_ok [simp]:
  "is_ok (Secret_new v) \<longleftrightarrow> length v \<le> MAX_RESPONSE_BYTES \<and> 0 \<notin> set v"
  by (auto simp: is_ok_iff)

lemma kinds_distinct:
  "distinct [READY, PROMPT, INFO, ERROR, SUCCESS, FAILURE, RESPONSE, CANCEL, RETRY, BEGIN]"
  by (simp add: kind_constants)

lemma unat_less_be4: "unat (x :: u32) < 256 ^ 4" and unat_less_be8: "unat (y :: u64) < 256 ^ 8"
  using unsigned_less [of x, where ?'a = nat] unsigned_less [of y, where ?'a = nat] by simp_all

lemma be_id_roundtrip [simp]:
  "of_nat (from_be (to_be 4 (unat (x :: u32)))) = x"
  "of_nat (from_be (to_be 8 (unat (y :: u64)))) = y"
  by (simp_all only: from_be_to_be unat_less_be4 unat_less_be8 unat_of_nat of_nat_unat ucast_id)

text \<open>Encoding and decoding are inverse to each other on valid messages.\<close>

lemma encode_valid:
  assumes "valid_message m"
  obtains k p where "encode m = Inr (k, p)" "length p \<le> MAX_PAYLOAD_BYTES"
  using assms
  by (cases m) (auto simp: valid_message_def push_text_def text_payload_def protocol_constants
      kind_constants)

lemma decode_encode:
  assumes "valid_message m" "encode m = Inr (k, p)"
  shows "decode k p = Inr m"
proof (cases m)
  case (MReady uid name)
  with assms show ?thesis
    by (auto simp: valid_message_def decode_def decode_text_eq_Inr kind_constants)
next
  case (MPrompt ident hidden t)
  with assms show ?thesis
    by (auto simp: valid_message_def decode_def decode_text_eq_Inr kind_constants nth_append
        split: if_splits)
next
  case (MInfo t)
  with assms show ?thesis
    by (auto simp: valid_message_def decode_def decode_text_eq_Inr kind_constants)
next
  case (MError t)
  with assms show ?thesis
    by (auto simp: valid_message_def decode_def decode_text_eq_Inr kind_constants)
next
  case (MResponse ident v)
  with assms show ?thesis
    by (cases v) (auto simp: valid_message_def decode_def kind_constants)
qed (use assms in \<open>auto simp: decode_def kind_constants\<close>)

lemma of_nat_from_be:
  "length bs = 4 \<Longrightarrow> to_be 4 (unat (of_nat (from_be bs) :: u32)) = bs"
  "length bs = 8 \<Longrightarrow> to_be 8 (unat (of_nat (from_be bs) :: u64)) = bs"
  using from_be_less [of bs] to_be_from_be [of bs] by (simp_all add: unat_of_nat)

lemma nth_split_at: "k < length xs \<Longrightarrow> take k xs @ xs ! k # drop (Suc k) xs = xs"
  by (metis id_take_nth_drop)

lemma u8_le_1: "(b :: u8) \<le> 1 \<Longrightarrow> b = (if b = 1 then 1 else 0)"
  by (auto simp: word_le_nat_alt unat_eq_zero[symmetric] le_Suc_eq unat_arith_simps)

lemma encode_decode:
  assumes "decode k p = Inr m"
  shows "encode m = Inr (k, p) \<and> valid_message m"
proof -
  have prompt: "to_be 8 (unat (of_nat (from_be (take 8 p)) :: u64)) @ [if p ! 8 = 1 then 1 else 0]
      @ drop 9 p = p" if "9 \<le> length p" "p ! 8 \<le> 1"
    using that of_nat_from_be(2) [of "take 8 p"] nth_split_at [of 8 p] u8_le_1 [of "p ! 8"]
    by simp
  have head4: "to_be 4 (unat (of_nat (from_be (take 4 p)) :: u32)) @ drop 4 p = p"
    if "4 \<le> length p"
    using that of_nat_from_be(1) [of "take 4 p"] by simp
  have head8: "to_be 8 (unat (of_nat (from_be (take 8 p)) :: u64)) @ drop 8 p = p"
    if "8 \<le> length p"
    using that of_nat_from_be(2) [of "take 8 p"] by simp
  show ?thesis
    using assms prompt head4 head8
    by (auto simp: decode_def valid_message_def decode_text_eq_Inr split: if_splits)
qed

text \<open>Reading: what a successful exact read consumes, and that a live stream always succeeds.\<close>

lemma read_exact_consumes:
  "read_exact_or_closed n d acc rs = Some (Inr bs, rs')
    \<Longrightarrow> \<exists>x. bs = acc @ x \<and> length x = n \<and> delivered rs = x @ delivered rs'"
proof (induction n d acc rs rule: read_exact_or_closed.induct)
  case (3 n d acc now r rs)
  then show ?case
    by (fastforce split: if_splits read_result.splits list.splits io_kind.splits)
qed auto

lemma read_exact_live:
  "live rs \<Longrightarrow> n \<le> length (delivered rs)
    \<Longrightarrow> \<exists>rs'. read_exact_or_closed n None acc rs
              = Some (Inr (acc @ take n (delivered rs)), rs')
           \<and> live rs' \<and> delivered rs' = drop n (delivered rs)"
proof (induction n "None :: nat option" acc rs rule: read_exact_or_closed.induct)
  case (3 n acc now r rs)
  show ?case
  proof (cases r)
    case (Bytes bs)
    then obtain b bs' where bs: "bs = b # bs'" using "3.prems"(1) by (cases bs) (auto simp: live_def)
    show ?thesis
    proof (cases "length bs' \<le> n")
      case True
      with "3.prems" Bytes bs "3.hyps"(1) show ?thesis
        by (auto simp: deadline_elapsed_def live_def)
    next
      case False
      with "3.prems" Bytes bs show ?thesis by (auto simp: deadline_elapsed_def live_def)
    qed
  next
    case (ReadFail k)
    with "3.prems"(1) have "k = Interrupted" by (simp add: live_def)
    with "3.prems" ReadFail "3.hyps"(2) show ?thesis
      by (auto simp: deadline_elapsed_def live_def)
  qed
qed auto

text \<open>Receiving: a returned message accounts for exactly the bytes that were consumed.\<close>

lemma header_frame:
  assumes "length h = 10" "take 4 h = MAGIC" "h ! 4 = VERSION"
  shows "h = MAGIC @ [VERSION, h ! 5] @ drop 6 h"
proof -
  have "take 4 h @ h ! 4 # h ! 5 # drop 6 h = h"
    using assms(1) nth_split_at [of 4 h] Cons_nth_drop_Suc [of 5 h] by simp
  with assms show ?thesis by simp
qed

lemma receive_before_sound:
  assumes "receive_before d rs = Some (Inr m, rs')"
  shows "delivered rs = frame m @ delivered rs'" "valid_message m"
proof -
  from assms obtain h rs1 p where
    h: "read_exact_or_closed HEADER_BYTES d [] rs = Some (Inr h, rs1)"
    and ok: "take 4 h = MAGIC" "h ! 4 = VERSION"
    and p: "read_exact_or_closed (from_be (drop 6 h)) d [] rs1 = Some (Inr p, rs')"
    and m: "decode (h ! 5) p = Inr m"
    by (auto simp: receive_before_def Let_def split: option.splits prod.splits sum.splits if_splits)
  from read_exact_consumes [OF h] have d1: "delivered rs = h @ delivered rs1" and l: "length h = 10"
    by (auto simp: HEADER_BYTES_def)
  from read_exact_consumes [OF p]
  have d2: "delivered rs1 = p @ delivered rs'" and lp: "length p = from_be (drop 6 h)" by auto
  from l have "to_be 4 (length p) = drop 6 h"
    using to_be_from_be [of "drop 6 h"] by (simp add: lp)
  then have "frame m = h @ p"
    using encode_decode [OF m] header_frame [OF l ok] by (simp add: frame_def frame_header_def)
  with d1 d2 show "delivered rs = frame m @ delivered rs'" by simp
  from encode_decode [OF m] show "valid_message m" by simp
qed

lemma frame_valid:
  assumes "valid_message m"
  obtains k p where "frame m = frame_header k p @ p" "length p \<le> MAX_PAYLOAD_BYTES"
    "decode k p = Inr m" "encode m = Inr (k, p)"
proof -
  from assms obtain k p where e: "encode m = Inr (k, p)" "length p \<le> MAX_PAYLOAD_BYTES"
    by (rule encode_valid)
  with decode_encode [OF assms e(1)] that show thesis by (simp add: frame_def)
qed

lemma receive_live:
  assumes "valid_message m" "live rs" "delivered rs = frame m @ rest"
  shows "\<exists>rs'. receive rs = Some (Inr m, rs') \<and> live rs' \<and> delivered rs' = rest"
proof -
  from assms(1) obtain k p where f: "frame m = frame_header k p @ p"
    and p: "length p \<le> MAX_PAYLOAD_BYTES" and d: "decode k p = Inr m"
    by (rule frame_valid)
  let ?h = "frame_header k p"
  have h: "length ?h = HEADER_BYTES" "take 4 ?h = MAGIC" "?h ! 4 = VERSION" "?h ! 5 = k"
      "from_be (drop 6 ?h) = length p"
    using p by (simp_all add: frame_header_def protocol_constants from_be_to_be)
  from read_exact_live [of rs HEADER_BYTES "[]"] assms f h(1)
  obtain rs1 where r1: "read_exact_or_closed HEADER_BYTES None [] rs = Some (Inr ?h, rs1)"
    "live rs1" "delivered rs1 = p @ rest" by auto
  from read_exact_live [of rs1 "length p" "[]"] r1
  obtain rs2 where r2: "read_exact_or_closed (length p) None [] rs1 = Some (Inr p, rs2)"
    "live rs2" "delivered rs2 = rest" by auto
  have "receive rs = Some (Inr m, rs2)"
    using r1(1) r2(1) h p d by (simp add: receive_def receive_before_def Let_def)
  with r2 show ?thesis by auto
qed

section \<open>The framing interface\<close>

text \<open>
  What the two processes rely on: the receiver of a healthy stream that starts with the frame of
  a valid message returns that message and leaves the rest of the stream healthy. Everything a
  conversation needs (messages arrive in order, none is lost, merged or invented) follows.
\<close>

locale framing =
  fixes enc :: "'m \<Rightarrow> 'b list"
    and valid :: "'m \<Rightarrow> bool"
    and bytes_of :: "'s \<Rightarrow> 'b list"
    and healthy :: "'s \<Rightarrow> bool"
    and recv :: "'s \<Rightarrow> (('e + 'm) \<times> 's) option"
  assumes recv_enc: "valid m \<Longrightarrow> healthy s \<Longrightarrow> bytes_of s = enc m @ rest
    \<Longrightarrow> \<exists>s'. recv s = Some (Inr m, s') \<and> healthy s' \<and> bytes_of s' = rest"
begin

lemma recv_sequence:
  "list_all valid ms \<Longrightarrow> healthy s \<Longrightarrow> bytes_of s = concat (map enc ms) @ rest
    \<Longrightarrow> \<exists>s'. receive_many recv (length ms) s = Some (Inr ms, s') \<and> healthy s'
          \<and> bytes_of s' = rest"
proof (induction ms arbitrary: s)
  case Nil
  then show ?case by simp
next
  case (Cons m ms)
  with recv_enc [of m s "concat (map enc ms) @ rest"]
  obtain s' where s': "recv s = Some (Inr m, s')" "healthy s'"
    "bytes_of s' = concat (map enc ms) @ rest" by auto
  with Cons obtain s'' where "receive_many recv (length ms) s' = Some (Inr ms, s'')"
    "healthy s''" "bytes_of s'' = rest" by auto
  with s' show ?case by auto
qed

end

interpretation wire: framing frame valid_message delivered live receive
  by unfold_locales (rule receive_live)

lemma write_all_healthy: "write_faults c = [] \<Longrightarrow> write_all bs c = (Inr (), c\<lparr>outbound := outbound c @ bs\<rparr>)"
  by (simp add: write_all_def)

lemma send_healthy:
  assumes "write_faults c = []" "valid_message m"
  shows "send c m = (Inr (), c\<lparr>outbound := outbound c @ frame m\<rparr>)"
proof -
  from assms(2) obtain k p where "frame m = frame_header k p @ p" "length p \<le> MAX_PAYLOAD_BYTES"
    "encode m = Inr (k, p)" by (rule frame_valid)
  with assms(1) show ?thesis by (simp add: send_def write_all_healthy)
qed

lemma send_all_healthy:
  "write_faults c = [] \<Longrightarrow> list_all valid_message ms
    \<Longrightarrow> send_all c ms = (Inr (), c\<lparr>outbound := outbound c @ concat (map frame ms)\<rparr>)"
  by (induction ms arbitrary: c) (simp_all add: send_healthy)

text \<open>Evaluation on concrete inputs.\<close>

lemma to_be_numeral:
  "to_be (numeral k) v =
     of_nat (v div 256 ^ pred_numeral k) # to_be (pred_numeral k) (v mod 256 ^ pred_numeral k)"
  by (simp add: numeral_eq_Suc)

lemma read_exact_numeral:
  "read_exact_or_closed (numeral n) deadline acc ((now, Bytes bs) # rs) =
     (if deadline_elapsed deadline now then Some (Inl (Io TimedOut), (now, Bytes bs) # rs)
      else if bs = [] then Some (Inl Closed, (now, Bytes bs) # rs)
      else if length bs \<le> numeral n
        then read_exact_or_closed (numeral n - length bs) deadline (acc @ bs) rs
      else Some (Inr (acc @ take (numeral n) bs), (now, Bytes (drop (numeral n) bs)) # rs))"
  by (cases bs) (auto simp: numeral_eq_Suc)

lemmas protocol_eval = to_be_numeral read_exact_numeral deadline_elapsed_def frame_header_def
  protocol_constants kind_constants utf8_char_def scalar_value_def from_be_def

section \<open>Properties\<close>

text \<open>
  C23. Sending and receiving are inverse across any fragmentation: when a list of valid messages
  is sent over a connection without write faults, every send succeeds, and a peer whose stream
  delivers the bytes put on the wire, in pieces of any sizes and with interrupted reads between
  them, receives exactly these messages in this order, and nothing of the stream is left over.
\<close>

theorem send_receive_sequence:
  assumes "list_all valid_message ms" "outbound c = []" "write_faults c = []"
    and "live rs" "delivered rs = outbound (snd (send_all c ms))"
  shows "fst (send_all c ms) = Inr () \<and>
    (\<exists>rs'. receive_many receive (length ms) rs = Some (Inr ms, rs') \<and> delivered rs' = [])"
  using assms wire.recv_sequence [of ms rs "[]"] send_all_healthy [of c ms] by auto

theorem send_receive_sequence_witness:
  "\<exists>rs'. receive_many receive 2 [(0, Bytes [71, 78, 75, 65, 2]), (1, ReadFail Interrupted),
    (2, Bytes [3, 0, 0, 0, 2, 104, 105, 71, 78, 75, 65, 2, 7, 0, 0, 0, 10, 0, 0, 0, 0, 0, 0, 0]),
    (3, Bytes [7, 112, 119])]
    = Some (Inr [MInfo [104, 105], MResponse 7 (Secret [112, 119])], rs') \<and> delivered rs' = []"
proof -
  let ?ms = "[MInfo [104, 105], MResponse 7 (Secret [112, 119])]"
  let ?c = "\<lparr>outbound = [], write_faults = [], inbound = []\<rparr>"
  let ?rs = "[(0, Bytes [71, 78, 75, 65, 2]), (1, ReadFail Interrupted),
    (2, Bytes [3, 0, 0, 0, 2, 104, 105, 71, 78, 75, 65, 2, 7, 0, 0, 0, 10, 0, 0, 0, 0, 0, 0, 0]),
    (3, Bytes [7, 112, 119])] :: reads"
  have "list_all valid_message ?ms"
    by (simp add: valid_message_def scalar_value_def protocol_constants utf8_char_def)
  moreover have "live ?rs" by (simp add: live_def)
  moreover have "delivered ?rs = outbound (snd (send_all ?c ?ms))"
    by (simp add: send_def write_all_def text_payload_def protocol_eval)
  moreover have "length ?ms = 2" by simp
  ultimately show ?thesis
    using send_receive_sequence [of ?ms ?c ?rs] by (metis connection.select_convs(1,2))
qed

text \<open>
  C24. Decoding is canonical: a payload that \<open>decode\<close> accepts is the only encoding of the message
  it returns, and that message satisfies every bound of the protocol (text at most 4 KiB of valid
  UTF-8 without NUL, secrets of at most 8 KiB without NUL).
\<close>

theorem decode_canonical:
  "decode kind payload = Inr m \<Longrightarrow> encode m = Inr (kind, payload) \<and> valid_message m"
  by (rule encode_decode)

theorem decode_canonical_witness:
  "encode (MPrompt 258 True [80, 119]) = Inr (PROMPT, [0, 0, 0, 0, 0, 0, 1, 2, 1, 80, 119])
    \<and> valid_message (MPrompt 258 True [80, 119])"
  by (rule decode_canonical)
    (simp add: decode_def decode_text_eq_Inr kind_constants protocol_constants scalar_value_def
      from_be_def utf8_char_def)

text \<open>
  Whatever the peer writes, with or without a deadline, a message that is received accounts
  for exactly the bytes consumed from the stream (one frame, never more and never less), is within
  the protocol's bounds, and sending it again would put the same bytes on the wire.
\<close>

theorem receive_sound:
  assumes "receive_before deadline rs = Some (Inr m, rs')"
  shows "delivered rs = frame m @ delivered rs' \<and> valid_message m
    \<and> length (frame m) \<le> HEADER_BYTES + MAX_PAYLOAD_BYTES"
proof -
  from receive_before_sound(2) [OF assms] obtain k p where
    "frame m = frame_header k p @ p" "length p \<le> MAX_PAYLOAD_BYTES" by (rule frame_valid)
  with receive_before_sound [OF assms] show ?thesis
    by (simp add: frame_header_def protocol_constants)
qed

theorem receive_sound_witness:
  "valid_message MBegin \<and> delivered [(0, Bytes [71, 78, 75, 65, 2, 10, 0, 0, 0, 0, 1])]
     = frame MBegin @ [1]"
  using receive_sound [of "Some 5" "[(0, Bytes [71, 78, 75, 65, 2, 10, 0, 0, 0, 0, 1])]" MBegin
      "[(0, Bytes [1])]"]
  by (simp add: receive_before_def decode_def protocol_eval)

end
