(* ===== verification/Lock_Render.thy ===== *)
theory Lock_Render
  imports Genkan_Prelude
begin

text \<open>
  The software renderer of the lock surfaces (\<open>crates/session-lock/src/lib.rs\<close> and the drawing
  half of \<open>crates/session-lock/src/runtime.rs\<close>): frames, the placement of the authentication
  overlay, background sampling, overlay filtering, blending, and drawing of a region of a canvas.

  \<open>u32\<close>, \<open>u64\<close>, \<open>u128\<close> and \<open>usize\<close> quantities are natural numbers; the operations the code checks
  are checked here at the same width, and the unchecked ones are shown to stay in range. Channel
  arithmetic is on words, at the width the code uses. A panic (an index or a slice out of range,
  a division by zero) is the value \<open>None\<close>.
\<close>

section \<open>Indexing and loops\<close>

definition nth_opt :: "'a list \<Rightarrow> nat \<Rightarrow> 'a option" where
  "nth_opt xs i = (if i < length xs then Some (xs ! i) else None)"

definition slice4 :: "'a list \<Rightarrow> nat \<Rightarrow> ('a \<times> 'a \<times> 'a \<times> 'a) option" where
  "slice4 xs i =
     (if i + 4 \<le> length xs then Some (xs ! i, xs ! (i + 1), xs ! (i + 2), xs ! (i + 3)) else None)"

text \<open>\<open>target[offset..offset + 4].copy_from_slice(&pixel)\<close>\<close>

definition put_pixel :: "nat \<Rightarrow> u8 list \<Rightarrow> u8 list \<Rightarrow> u8 list option" where
  "put_pixel offset pixel target =
     (if offset + 4 \<le> length target \<and> length pixel = 4
      then Some (take offset target @ pixel @ drop (offset + 4) target) else None)"

text \<open>\<open>for x in xs { body }\<close> with a body that may panic.\<close>

fun for_each :: "'a list \<Rightarrow> ('a \<Rightarrow> 's \<Rightarrow> 's option) \<Rightarrow> 's \<Rightarrow> 's option" where
  "for_each [] body s = Some s"
| "for_each (x # xs) body s = Option.bind (body x s) (for_each xs body)"

definition u32_try :: "nat \<Rightarrow> nat option" where
  "u32_try n = (if n < 2 ^ 32 then Some n else None)"

section \<open>Frames\<close>

record rgba_frame =
  fwidth :: nat
  fheight :: nat
  fpixels :: "u8 list"

definition RgbaFrame_new :: "nat \<Rightarrow> nat \<Rightarrow> u8 list \<Rightarrow> rgba_frame option" where
  "RgbaFrame_new width height pixels =
     Option.bind (checked_mul 32 width height) (\<lambda>n.
     Option.bind (checked_mul 32 n 4) (\<lambda>expected.
       if width > 0 \<and> height > 0 \<and> length pixels = expected
       then Some \<lparr>fwidth = width, fheight = height, fpixels = pixels\<rparr> else None))"

record presentation_frame =
  pwidth :: nat
  pheight :: nat
  background :: "rgba_frame option"
  overlay :: rgba_frame
  overlay_x :: nat
  overlay_y :: nat

definition PresentationFrame_new ::
  "nat \<Rightarrow> nat \<Rightarrow> rgba_frame option \<Rightarrow> rgba_frame \<Rightarrow> nat \<Rightarrow> nat \<Rightarrow> presentation_frame option" where
  "PresentationFrame_new width height bg ov ox oy =
     (if width = 0 \<or> height = 0 then None
      else
        Option.bind (checked_add 32 ox (fwidth ov)) (\<lambda>right.
          if right > width then None
          else
            Option.bind (checked_add 32 oy (fheight ov)) (\<lambda>bottom.
              if bottom > height then None
              else Some \<lparr>pwidth = width, pheight = height, background = bg, overlay = ov,
                         overlay_x = ox, overlay_y = oy\<rparr>)))"

section \<open>Geometry\<close>

record region =
  rx :: nat
  ry :: nat
  rwidth :: nat
  rheight :: nat

definition Region_full :: "nat \<Rightarrow> nat \<Rightarrow> region" where
  "Region_full width height = \<lparr>rx = 0, ry = 0, rwidth = width, rheight = height\<rparr>"

record frame_geom =
  canvas :: "nat \<times> nat"
  overlay_area :: region

definition frame_geometry :: "presentation_frame option \<Rightarrow> frame_geom option" where
  "frame_geometry frame =
     Option.bind frame (\<lambda>frame. Some
       \<lparr>canvas = (pwidth frame, pheight frame),
        overlay_area = \<lparr>rx = overlay_x frame, ry = overlay_y frame,
          rwidth = fwidth (overlay frame), rheight = fheight (overlay frame)\<rparr>\<rparr>)"

datatype redraw_kind = OverlayRedraw | FullRedraw

definition overlay_redraw_kind :: "frame_geom option \<Rightarrow> frame_geom option \<Rightarrow> redraw_kind" where
  "overlay_redraw_kind previous current =
     (if previous = current then OverlayRedraw else FullRedraw)"

definition intersect :: "region \<Rightarrow> region \<Rightarrow> region option" where
  "intersect first second =
     (let left = max (rx first) (rx second);
          top = max (ry first) (ry second);
          right = min (saturating_add 32 (rx first) (rwidth first))
                      (saturating_add 32 (rx second) (rwidth second));
          bottom = min (saturating_add 32 (ry first) (rheight first))
                       (saturating_add 32 (ry second) (rheight second))
      in if left < right \<and> top < bottom
         then Some \<lparr>rx = left, ry = top, rwidth = right - left, rheight = bottom - top\<rparr>
         else None)"

definition div_ceil_u128 :: "nat \<Rightarrow> nat \<Rightarrow> nat option" where
  "div_ceil_u128 numerator denominator =
     (if denominator = 0 then None
      else Option.bind (checked_add 128 numerator (denominator - 1))
             (\<lambda>sum. u32_try (sum div denominator)))"

text \<open>
  \<open>overlay_geometry\<close>: the canvas is the largest rectangle of the frame's aspect that fits, and the
  overlay's bounds are scaled into it, rounding outwards.
\<close>

definition fit_canvas :: "presentation_frame \<Rightarrow> nat \<Rightarrow> nat \<Rightarrow> (nat \<times> nat) option" where
  "fit_canvas frame width height =
     (let source_width = pwidth frame; source_height = pheight frame in
      if width * source_height \<le> source_width * height
      then map_option (\<lambda>canvas_height. (width, canvas_height))
             (u32_try (source_height * width div source_width))
      else map_option (\<lambda>canvas_width. (canvas_width, height))
             (u32_try (source_width * height div source_height)))"

definition overlay_geometry :: "presentation_frame \<Rightarrow> nat \<Rightarrow> nat \<Rightarrow> region option" where
  "overlay_geometry frame width height =
     (let source_width = pwidth frame; source_height = pheight frame in
      if source_width = 0 \<or> source_height = 0 \<or> width = 0 \<or> height = 0 then None
      else
        Option.bind (fit_canvas frame width height) (\<lambda>(canvas_width, canvas_height).
          if canvas_width = 0 \<or> canvas_height = 0 then None
          else
            (let canvas_x = (width - canvas_width) div 2;
                 canvas_y = (height - canvas_height) div 2
             in
               Option.bind (u32_try (overlay_x frame * canvas_width div source_width)) (\<lambda>l.
               Option.bind (u32_try (overlay_y frame * canvas_height div source_height)) (\<lambda>t.
               Option.bind
                 (div_ceil_u128 ((overlay_x frame + fwidth (overlay frame)) * canvas_width)
                    source_width) (\<lambda>r.
               Option.bind
                 (div_ceil_u128 ((overlay_y frame + fheight (overlay frame)) * canvas_height)
                    source_height) (\<lambda>b.
                 let left = canvas_x + l; top = canvas_y + t;
                     right = canvas_x + r; bottom = canvas_y + b
                 in Some \<lparr>rx = left, ry = top, rwidth = right - left,
                          rheight = bottom - top\<rparr>)))))))"

definition overlay_region :: "presentation_frame option \<Rightarrow> nat \<Rightarrow> nat \<Rightarrow> region option" where
  "overlay_region frame width height =
     Option.bind frame (\<lambda>frame. overlay_geometry frame width height)"

definition redraw_region ::
  "redraw_kind \<Rightarrow> u64 \<Rightarrow> u64 \<Rightarrow> presentation_frame option \<Rightarrow> nat \<Rightarrow> nat \<Rightarrow> region" where
  "redraw_region kind rendered_background current_background frame width height =
     (if kind = OverlayRedraw \<and> rendered_background = current_background
      then (case overlay_region frame width height of
              None \<Rightarrow> Region_full width height | Some r \<Rightarrow> r)
      else Region_full width height)"

definition cover_geometry :: "nat \<Rightarrow> nat \<Rightarrow> nat \<Rightarrow> nat \<Rightarrow> (nat \<times> nat \<times> nat \<times> nat) option" where
  "cover_geometry source_width source_height width height =
     (if source_width = 0 \<or> source_height = 0 \<or> width = 0 \<or> height = 0 then None
      else
        (let (scaled_width, scaled_height) =
               (if source_width * height > width * source_height
                then (source_width * height div source_height, height)
                else (width, source_height * width div source_width))
         in Some ((scaled_width - width) div 2, (scaled_height - height) div 2,
                  scaled_width, scaled_height)))"

definition source_coordinate :: "nat \<Rightarrow> nat \<Rightarrow> nat \<Rightarrow> nat \<Rightarrow> nat option" where
  "source_coordinate pos crop scaled source =
     (if scaled = 0 \<or> source = 0 then None
      else Some (min ((pos + crop) * source div scaled) (source - 1)))"

section \<open>Background sampling\<close>

definition FALLBACK_RGB :: "u8 \<times> u8 \<times> u8" where "FALLBACK_RGB = (5, 9, 24)"

record background_sampler =
  sampled :: "rgba_frame option"
  columns :: "nat list"
  crop_y :: nat
  scaled_height :: nat

definition no_background :: background_sampler where
  "no_background = \<lparr>sampled = None, columns = [], crop_y = 0, scaled_height = 1\<rparr>"

fun map_opt :: "('a \<Rightarrow> 'b option) \<Rightarrow> 'a list \<Rightarrow> 'b list option" where
  "map_opt f [] = Some []"
| "map_opt f (x # xs) = Option.bind (f x) (\<lambda>y. map_option (Cons y) (map_opt f xs))"

definition BackgroundSampler_new ::
  "rgba_frame option \<Rightarrow> nat \<Rightarrow> nat \<Rightarrow> background_sampler option" where
  "BackgroundSampler_new frame width height =
     (case frame of
        None \<Rightarrow> Some no_background
      | Some frame \<Rightarrow>
          (case cover_geometry (fwidth frame) (fheight frame) width height of
             None \<Rightarrow> Some no_background
           | Some (cx, cy, sw, sh) \<Rightarrow>
               map_option
                 (\<lambda>cs. \<lparr>sampled = Some frame, columns = cs, crop_y = cy, scaled_height = sh\<rparr>)
                 (map_opt (\<lambda>x. map_option (\<lambda>c. c * 4)
                     (source_coordinate x cx sw (fwidth frame))) [0..<width])))"

text \<open>The row of a sampler without a frame is \<open>None\<close> in the code, here the inner \<open>None\<close>.\<close>

definition source_row :: "background_sampler \<Rightarrow> nat \<Rightarrow> nat option option" where
  "source_row sampler y =
     (case sampled sampler of
        None \<Rightarrow> Some None
      | Some frame \<Rightarrow>
          map_option (\<lambda>c. Some (c * fwidth frame * 4))
            (source_coordinate y (crop_y sampler) (scaled_height sampler) (fheight frame)))"

definition background_pixel ::
  "background_sampler \<Rightarrow> nat option \<Rightarrow> nat \<Rightarrow> (u8 \<times> u8 \<times> u8) option" where
  "background_pixel sampler row x =
     (case (sampled sampler, row) of
        (Some frame, Some row) \<Rightarrow>
          Option.bind (nth_opt (columns sampler) x) (\<lambda>column.
          let offset = row + column in
          Option.bind (nth_opt (fpixels frame) offset) (\<lambda>r.
          Option.bind (nth_opt (fpixels frame) (offset + 1)) (\<lambda>g.
          Option.bind (nth_opt (fpixels frame) (offset + 2)) (\<lambda>b. Some (r, g, b)))))
      | _ \<Rightarrow> Some FALLBACK_RGB)"

section \<open>Overlay filtering\<close>

definition FILTER_SCALE :: nat where "FILTER_SCALE = 65536"

record weighted_sample =
  sindex :: nat
  weight :: nat

record filtered_axis =
  offsets :: "nat list"
  samples :: "weighted_sample list"

definition axis_coordinate :: "filtered_axis \<Rightarrow> nat \<Rightarrow> weighted_sample list option" where
  "axis_coordinate axis pos =
     Option.bind (nth_opt (offsets axis) pos) (\<lambda>start.
     Option.bind (nth_opt (offsets axis) (pos + 1)) (\<lambda>stop.
       if start \<le> stop \<and> stop \<le> length (samples axis)
       then Some (take (stop - start) (drop start (samples axis))) else None))"

text \<open>The samples of one position, when the axis is enlarged (or kept), and when it is reduced.\<close>

definition enlarged_samples :: "nat \<Rightarrow> nat \<Rightarrow> nat \<Rightarrow> weighted_sample list" where
  "enlarged_samples source target pos =
     (let denominator = target * 2;
          centered = saturating_mul 64 (pos * 2 + 1) source - target;
          lower = min (centered div denominator) (source - 1);
          upper = min (saturating_add 32 lower 1) (source - 1);
          upper_weight = (if lower = upper then 0
                          else (centered mod denominator) * FILTER_SCALE div denominator)
      in \<lparr>sindex = lower, weight = FILTER_SCALE - upper_weight\<rparr> #
         (if upper \<noteq> lower \<and> upper_weight \<noteq> 0
          then [\<lparr>sindex = upper, weight = upper_weight\<rparr>] else []))"

definition reduced_weight :: "nat \<Rightarrow> nat \<Rightarrow> nat \<Rightarrow> nat" where
  "reduced_weight start stop index =
     (let span = stop - start;
          sample_start = index * FILTER_SCALE;
          overlap_start = max start sample_start;
          overlap_end = min stop (sample_start + FILTER_SCALE);
          normalized_start = ((overlap_start - start) * FILTER_SCALE + span div 2) div span;
          normalized_end = ((overlap_end - start) * FILTER_SCALE + span div 2) div span
      in normalized_end - normalized_start)"

definition reduced_samples :: "nat \<Rightarrow> nat \<Rightarrow> nat \<Rightarrow> weighted_sample list" where
  "reduced_samples source target pos =
     (let start = pos * source * FILTER_SCALE div target;
          stop = (pos + 1) * source * FILTER_SCALE div target;
          first = start div FILTER_SCALE;
          last = (stop - 1) div FILTER_SCALE
      in map (\<lambda>index. \<lparr>sindex = index, weight = reduced_weight start stop index\<rparr>)
           (filter (\<lambda>index. reduced_weight start stop index \<noteq> 0) [first..<Suc last]))"

text \<open>
  The source computes these products in \<open>u64\<close>. Nothing wraps for frames of less than \<open>2 ^ 24\<close> columns
  and rows.
\<close>

lemma reduced_no_wrap:
  assumes "source < 2 ^ 24" "pos < target" "target \<le> source"
    and "i \<le> j" "j \<le> (pos + 1) * source * FILTER_SCALE div target" "span \<le> j"
  shows "(pos + 1) * source * FILTER_SCALE < 2 ^ 64"
    "(j - i) * FILTER_SCALE + span div 2 < 2 ^ 64"
proof -
  have m: "(pos + 1) * source \<le> target * source" using assms(2) by (intro mult_right_mono) simp_all
  also have "\<dots> \<le> source * source" using assms(3) by simp
  also have "\<dots> < 2 ^ 24 * 2 ^ 24" using assms(1) by (intro mult_strict_mono) simp_all
  finally show "(pos + 1) * source * FILTER_SCALE < 2 ^ 64" by (simp add: FILTER_SCALE_def)
  have "(pos + 1) * source * FILTER_SCALE \<le> target * (source * FILTER_SCALE)"
    using mult_right_mono [OF m, of FILTER_SCALE] by (simp add: mult.assoc)
  then have "(pos + 1) * source * FILTER_SCALE div target \<le> source * FILTER_SCALE"
    using assms(2) div_le_mono [of _ "target * (source * FILTER_SCALE)" target] by fastforce
  with assms(5) have "j \<le> source * FILTER_SCALE" by simp
  with assms(1) have "j < 2 ^ 40" by (simp add: FILTER_SCALE_def)
  then have "(j - i) * FILTER_SCALE < 2 ^ 56" "span div 2 < 2 ^ 40"
    using assms(6) by (simp_all add: FILTER_SCALE_def)
  then show "(j - i) * FILTER_SCALE + span div 2 < 2 ^ 64" by simp
qed

definition position_samples :: "nat \<Rightarrow> nat \<Rightarrow> nat \<Rightarrow> weighted_sample list" where
  "position_samples source target pos =
     (if source \<le> target then enlarged_samples source target pos
      else reduced_samples source target pos)"

fun build_axis :: "(nat \<Rightarrow> weighted_sample list) \<Rightarrow> nat list \<Rightarrow> filtered_axis \<Rightarrow> filtered_axis" where
  "build_axis f [] axis = axis\<lparr>offsets := offsets axis @ [length (samples axis)]\<rparr>"
| "build_axis f (pos # ps) axis =
     build_axis f ps \<lparr>offsets = offsets axis @ [length (samples axis)],
                      samples = samples axis @ f pos\<rparr>"

text \<open>The source size is positive: \<open>source - 1\<close> would underflow.\<close>

definition filtered_axis :: "nat \<Rightarrow> nat \<Rightarrow> filtered_axis option" where
  "filtered_axis source target =
     (if source = 0 \<and> 0 < target then None
      else Some (build_axis (position_samples source target) [0..<target]
                   \<lparr>offsets = [], samples = []\<rparr>))"

record accumulated =
  alpha_weight :: nat
  channel0 :: nat
  channel1 :: nat
  channel2 :: nat

definition accumulate ::
  "rgba_frame \<Rightarrow> weighted_sample \<Rightarrow> weighted_sample \<Rightarrow> accumulated \<Rightarrow> accumulated option" where
  "accumulate frame y x acc =
     (let offset = (sindex y * fwidth frame + sindex x) * 4;
          wt = weight x * weight y
      in map_option
           (\<lambda>(r, g, b, a).
             let alpha = unat a in
             \<lparr>alpha_weight = alpha_weight acc + alpha * wt,
              channel0 = channel0 acc + unat r * alpha * wt,
              channel1 = channel1 acc + unat g * alpha * wt,
              channel2 = channel2 acc + unat b * alpha * wt\<rparr>)
           (slice4 (fpixels frame) offset))"

definition filtered_pixel ::
  "rgba_frame \<Rightarrow> weighted_sample list \<Rightarrow> weighted_sample list \<Rightarrow> (u8 \<times> u8 \<times> u8 \<times> u8) option" where
  "filtered_pixel frame horizontal vertical =
     map_option
       (\<lambda>acc.
         if alpha_weight acc = 0 then (0, 0, 0, 0)
         else
           (let total_weight = FILTER_SCALE * FILTER_SCALE in
            (of_nat (channel0 acc div alpha_weight acc),
             of_nat (channel1 acc div alpha_weight acc),
             of_nat (channel2 acc div alpha_weight acc),
             of_nat ((alpha_weight acc + total_weight div 2) div total_weight))))
       (for_each vertical (\<lambda>y. for_each horizontal (accumulate frame y))
          \<lparr>alpha_weight = 0, channel0 = 0, channel1 = 0, channel2 = 0\<rparr>)"

definition scale_overlay :: "rgba_frame \<Rightarrow> nat \<Rightarrow> nat \<Rightarrow> rgba_frame option" where
  "scale_overlay frame width height =
     (if (fwidth frame, fheight frame) = (width, height) then Some frame
      else
        Option.bind (filtered_axis (fwidth frame) width) (\<lambda>horizontal.
        Option.bind (filtered_axis (fheight frame) height) (\<lambda>vertical.
        Option.bind
          (for_each [0..<height]
             (\<lambda>y pixels.
               Option.bind (axis_coordinate vertical y) (\<lambda>v.
                 for_each [0..<width]
                   (\<lambda>x pixels.
                     Option.bind (axis_coordinate horizontal x) (\<lambda>h.
                     Option.bind (filtered_pixel frame h v) (\<lambda>(r, g, b, a).
                       Some (pixels @ [r, g, b, a])))) pixels))
             [])
          (RgbaFrame_new width height))))"

section \<open>Blending and drawing\<close>

definition blend_channel :: "u8 \<Rightarrow> u8 \<Rightarrow> u8 \<Rightarrow> u8" where
  "blend_channel alpha fore back =
     ucast ((ucast fore * ucast alpha + ucast back * (255 - ucast alpha)) div (255 :: u16))"

fun blend_rgb :: "u8 \<times> u8 \<times> u8 \<Rightarrow> u8 \<times> u8 \<times> u8 \<times> u8 \<Rightarrow> u8 \<times> u8 \<times> u8" where
  "blend_rgb (br, bg, bb) (fr, fg, fb, alpha) =
     (blend_channel alpha fr br, blend_channel alpha fg bg, blend_channel alpha fb bb)"

definition DIM_NUMERATOR :: u16 where "DIM_NUMERATOR = 4"
definition DIM_DENOMINATOR :: u16 where "DIM_DENOMINATOR = 5"

definition dim :: "u8 \<Rightarrow> u8" where
  "dim v = ucast ((ucast v * DIM_NUMERATOR) div DIM_DENOMINATOR)"

fun dimmed :: "u8 \<times> u8 \<times> u8 \<Rightarrow> u8 list" where
  "dimmed (red, green, blue) = [dim blue, dim green, dim red, 255]"

fun undimmed :: "u8 \<times> u8 \<times> u8 \<Rightarrow> u8 list" where
  "undimmed (red, green, blue) = [blue, green, red, 255]"

text \<open>The first loop: the (dimmed) background over the region.\<close>

definition draw_background ::
  "nat \<Rightarrow> nat \<Rightarrow> background_sampler \<Rightarrow> bool \<Rightarrow> region \<Rightarrow> u8 list \<Rightarrow> u8 list option" where
  "draw_background width height sampler authentication area target =
     (let end_x = min (saturating_add 32 (rx area) (rwidth area)) width;
          end_y = min (saturating_add 32 (ry area) (rheight area)) height
      in for_each [ry area..<end_y]
           (\<lambda>y target.
             Option.bind (source_row sampler y) (\<lambda>row.
               for_each [rx area..<end_x]
                 (\<lambda>x target.
                   Option.bind (background_pixel sampler row x) (\<lambda>rgb.
                     put_pixel ((y * width + x) * 4)
                       (if authentication then dimmed rgb else undimmed rgb) target))
                 target))
           target)"

text \<open>
  The second loop, over the part of the region the overlay covers. How the overlay's pixel is
  obtained is the argument \<open>sample\<close>: from the scaled overlay, or by filtering.
\<close>

definition draw_overlay ::
  "nat \<Rightarrow> background_sampler \<Rightarrow> region \<Rightarrow> (nat \<Rightarrow> nat \<Rightarrow> (u8 \<times> u8 \<times> u8 \<times> u8) option)
     \<Rightarrow> u8 list \<Rightarrow> u8 list option" where
  "draw_overlay width sampler area sample target =
     for_each [ry area..<ry area + rheight area]
       (\<lambda>y target.
         Option.bind (source_row sampler y) (\<lambda>row.
           for_each [rx area..<rx area + rwidth area]
             (\<lambda>x target.
               Option.bind (sample x y) (\<lambda>(r, g, b, a).
                 if a = 0 then Some target
                 else
                   Option.bind (background_pixel sampler row x) (\<lambda>rgb.
                     put_pixel ((y * width + x) * 4) (dimmed (blend_rgb rgb (r, g, b, a))) target)))
             target))
       target"

definition cached_sample :: "region \<Rightarrow> rgba_frame \<Rightarrow> nat \<Rightarrow> nat \<Rightarrow> (u8 \<times> u8 \<times> u8 \<times> u8) option" where
  "cached_sample geometry scaled x y =
     slice4 (fpixels scaled) (((y - ry geometry) * fwidth scaled + (x - rx geometry)) * 4)"

definition filtered_sample ::
  "region \<Rightarrow> rgba_frame \<Rightarrow> filtered_axis \<Rightarrow> filtered_axis \<Rightarrow> nat \<Rightarrow> nat
     \<Rightarrow> (u8 \<times> u8 \<times> u8 \<times> u8) option" where
  "filtered_sample geometry ov horizontal vertical x y =
     Option.bind (axis_coordinate vertical (y - ry geometry)) (\<lambda>v.
     Option.bind (axis_coordinate horizontal (x - rx geometry)) (\<lambda>h.
       filtered_pixel ov h v))"

definition draw_opaque_region_cached ::
  "u8 list \<Rightarrow> nat \<Rightarrow> nat \<Rightarrow> presentation_frame option \<Rightarrow> rgba_frame option \<Rightarrow> bool \<Rightarrow> region
     \<Rightarrow> u8 list option" where
  "draw_opaque_region_cached target width height frame scaled_overlay authentication area =
     (let geometry = Option.bind frame (\<lambda>frame. overlay_geometry frame width height) in
      Option.bind (BackgroundSampler_new (Option.bind frame background) width height) (\<lambda>sampler.
      Option.bind (draw_background width height sampler authentication area target) (\<lambda>target.
        case (if authentication then frame else None, geometry) of
          (Some frame, Some geometry) \<Rightarrow>
            (case intersect area geometry of
               None \<Rightarrow> Some target
             | Some covered \<Rightarrow>
                 (case scaled_overlay of
                    Some scaled \<Rightarrow>
                      draw_overlay width sampler covered (cached_sample geometry scaled) target
                  | None \<Rightarrow>
                      Option.bind (filtered_axis (fwidth (overlay frame)) (rwidth geometry)) (\<lambda>h.
                      Option.bind (filtered_axis (fheight (overlay frame)) (rheight geometry)) (\<lambda>v.
                        draw_overlay width sampler covered
                          (filtered_sample geometry (overlay frame) h v) target))))
        | _ \<Rightarrow> Some target)))"

definition draw_opaque_cached ::
  "u8 list \<Rightarrow> nat \<Rightarrow> nat \<Rightarrow> presentation_frame option \<Rightarrow> rgba_frame option \<Rightarrow> bool
     \<Rightarrow> u8 list option" where
  "draw_opaque_cached target width height frame scaled_overlay authentication =
     draw_opaque_region_cached target width height frame scaled_overlay authentication
       (Region_full width height)"

definition draw_opaque ::
  "u8 list \<Rightarrow> nat \<Rightarrow> nat \<Rightarrow> presentation_frame option \<Rightarrow> u8 list option" where
  "draw_opaque target width height frame = draw_opaque_cached target width height frame None True"

section \<open>Previews and buffer sizes\<close>

definition MAX_SURFACE_DIMENSION :: nat where "MAX_SURFACE_DIMENSION = 16384"
definition MAX_SURFACE_PIXELS :: nat where "MAX_SURFACE_PIXELS = 16384 * 16384"
definition MAX_BUFFER_BYTES :: nat where "MAX_BUFFER_BYTES = 256 * 1024 * 1024"

datatype preview_error = InvalidDimensions | Allocation | PreviewPanic

fun swap_channels :: "u8 list \<Rightarrow> u8 list" where
  "swap_channels (b # g # r # a # rest) = r # g # b # a # swap_channels rest"
| "swap_channels rest = rest"

text \<open>
  \<open>render_preview\<close>; \<open>allocates\<close> is whether the allocator has the requested number of bytes.
\<close>

definition render_preview ::
  "(nat \<Rightarrow> bool) \<Rightarrow> presentation_frame \<Rightarrow> nat \<Rightarrow> nat \<Rightarrow> preview_error + rgba_frame" where
  "render_preview allocates frame width height =
     (if width = 0 \<or> height = 0 \<or> width > MAX_SURFACE_DIMENSION \<or> height > MAX_SURFACE_DIMENSION
      then Inl InvalidDimensions
      else
        rbind (ok_or (Option.bind (checked_mul 32 width height) (\<lambda>n. checked_mul 32 n 4))
                 InvalidDimensions) (\<lambda>bytes.
          if bytes > MAX_BUFFER_BYTES then Inl InvalidDimensions
          else if \<not> allocates bytes then Inl Allocation
          else
            rbind (ok_or (draw_opaque (replicate bytes 0) width height (Some frame)) PreviewPanic)
              (\<lambda>pixels. ok_or (RgbaFrame_new width height (swap_channels pixels))
                         InvalidDimensions)))"

datatype size_error = SizeOverflow | EmptySurface | TooLarge

definition buffer_size :: "nat \<Rightarrow> nat \<Rightarrow> nat \<Rightarrow> size_error + nat \<times> nat" where
  "buffer_size width height scale =
     (case (checked_mul 32 width scale, checked_mul 32 height scale) of
        (Some w, Some h) \<Rightarrow>
          if w = 0 \<or> h = 0 then Inl EmptySurface
          else if w > MAX_SURFACE_DIMENSION \<or> h > MAX_SURFACE_DIMENSION then Inl TooLarge
          else Inr (w, h)
      | _ \<Rightarrow> Inl SizeOverflow)"

definition aligned_buffer_capacity :: "nat \<Rightarrow> nat option" where
  "aligned_buffer_capacity bytes =
     map_option (\<lambda>capacity. capacity - capacity mod 64) (checked_add 64 bytes 63)"

section \<open>Well-formed frames\<close>

definition frame_ok :: "rgba_frame \<Rightarrow> bool" where
  "frame_ok f \<longleftrightarrow> 0 < fwidth f \<and> 0 < fheight f \<and> length (fpixels f) = fwidth f * fheight f * 4
     \<and> fwidth f * fheight f * 4 < 2 ^ 32"

definition presentation_ok :: "presentation_frame \<Rightarrow> bool" where
  "presentation_ok f \<longleftrightarrow>
     0 < pwidth f \<and> 0 < pheight f \<and> pwidth f < 2 ^ 32 \<and> pheight f < 2 ^ 32
     \<and> pred_option frame_ok (background f) \<and> frame_ok (overlay f)
     \<and> overlay_x f + fwidth (overlay f) \<le> pwidth f
     \<and> overlay_y f + fheight (overlay f) \<le> pheight f"

lemma RgbaFrame_new_ok: "RgbaFrame_new w h px = Some f \<Longrightarrow> frame_ok f"
  by (auto simp: RgbaFrame_new_def frame_ok_def bind_eq_Some_conv mult.commute split: if_splits)

lemma PresentationFrame_new_ok:
  assumes "PresentationFrame_new w h bg ov ox oy = Some f" "w < 2 ^ 32" "h < 2 ^ 32"
    "pred_option frame_ok bg" "frame_ok ov"
  shows "presentation_ok f"
  using assms
  by (auto simp: PresentationFrame_new_def presentation_ok_def bind_eq_Some_conv
      simp del: power_numeral split: if_splits)

section \<open>Channel arithmetic\<close>

lemma u8_le_255: "unat (x :: u8) \<le> 255"
proof -
  have "unat x < 256" using unsigned_less [of x, where ?'a = nat] by simp
  then show ?thesis by linarith
qed

lemma unat_ucast_u16: "unat (ucast (x :: u8) :: u16) = unat x"
  using u8_le_255 [of x] by (simp add: unsigned_ucast_eq take_bit_nat_eq_self_iff)

text \<open>The weighted sum fits in 16 bits, and the quotient in 8.\<close>

lemma blend_sum_le:
  fixes f a b :: nat
  assumes "f \<le> 255" "b \<le> 255" "a \<le> 255"
  shows "f * a + b * (255 - a) \<le> 255 * 255"
proof -
  have "f * a + b * (255 - a) \<le> 255 * a + 255 * (255 - a)"
    using assms by (intro add_mono mult_right_mono) auto
  also have "\<dots> = 255 * 255" using assms(3) by simp
  finally show ?thesis .
qed

lemma unat_blend_channel [genkan_bounds]:
  "unat (blend_channel a f b) = (unat f * unat a + unat b * (255 - unat a)) div 255"
proof -
  let ?n = "unat f * unat a + unat b * (255 - unat a)"
  have n: "?n \<le> 65025" using blend_sum_le [of "unat f" "unat b" "unat a"] u8_le_255 by simp
  have sub: "unat (255 - ucast a :: u16) = 255 - unat a"
    using u8_le_255 [of a] by (simp add: unat_sub word_le_nat_alt unat_ucast_u16)
  have p1: "unat f * unat a \<le> 65025" and p2: "unat b * (255 - unat a) \<le> 65025"
    using n by linarith+
  have m1: "unat (ucast f * ucast a :: u16) = unat f * unat a"
    using p1 by (simp add: unat_word_ariths unat_ucast_u16)
  have m2: "unat (ucast b * (255 - ucast a) :: u16) = unat b * (255 - unat a)"
    using p2 by (simp add: unat_word_ariths(2) unat_ucast_u16 sub)
  have "unat (ucast f * ucast a + ucast b * (255 - ucast a) :: u16) = ?n"
    using n by (simp add: unat_word_ariths(1) m1 m2)
  then have "unat ((ucast f * ucast a + ucast b * (255 - ucast a)) div (255 :: u16)) = ?n div 255"
    by (simp add: unat_div)
  moreover have "?n div 255 \<le> 255" using n by linarith
  ultimately show ?thesis
    by (simp add: blend_channel_def unsigned_ucast_eq take_bit_nat_eq_self_iff)
qed

lemma unat_dim [genkan_bounds]: "unat (dim v) = unat v * 4 div 5"
proof -
  have v: "unat v * 4 \<le> 1020" using u8_le_255 [of v] by simp
  then have "unat (ucast v * DIM_NUMERATOR) = unat v * 4"
    by (simp add: DIM_NUMERATOR_def unat_word_ariths(2) unat_ucast_u16)
  moreover have "unat v * 4 div 5 < 256" using v by linarith
  ultimately show ?thesis
    by (simp add: dim_def DIM_DENOMINATOR_def unsigned_ucast_eq take_bit_nat_eq_self_iff unat_div)
qed

section \<open>Placement of the overlay\<close>

lemma u32_try_eq_Some [simp]: "u32_try n = Some k \<longleftrightarrow> k = n \<and> n < 2 ^ 32"
  by (auto simp: u32_try_def)

lemma div_ceil_u128_le:
  assumes "div_ceil_u128 (k * c) d = Some r" "k \<le> d"
  shows "r \<le> c"
proof -
  from assms(1) have "0 < d" and r: "r = (k * c + (d - 1)) div d"
    by (auto simp: div_ceil_u128_def bind_eq_Some_conv split: if_splits)
  have "k * c \<le> d * c" using assms(2) by (rule mult_right_mono) simp
  then have "r \<le> (d * c + (d - 1)) div d" unfolding r by (intro div_le_mono) simp
  also have "\<dots> = c" using \<open>0 < d\<close> by (intro div_nat_eqI) auto
  finally show ?thesis .
qed

lemma canvas_fits: "0 < (sw :: nat) \<Longrightarrow> w * sh \<le> sw * h \<Longrightarrow> sh * w div sw \<le> h"
  by (metis div_le_mono mult.commute nonzero_mult_div_cancel_left less_numeral_extra(3))

lemma fit_canvas_within:
  assumes "fit_canvas f w h = Some (cw, ch)" "0 < pwidth f" "0 < pheight f"
  shows "cw \<le> w" "ch \<le> h"
  using assms canvas_fits [of "pwidth f" w "pheight f" h] canvas_fits [of "pheight f" h "pwidth f" w]
  by (auto simp: fit_canvas_def Let_def mult.commute split: if_splits)

lemma overlay_geometry_within:
  assumes "overlay_geometry f w h = Some r" "presentation_ok f"
  shows "rx r + rwidth r \<le> w" "ry r + rheight r \<le> h"
proof -
  from assms(1) obtain cw ch rr bb where c: "fit_canvas f w h = Some (cw, ch)"
    and rr: "div_ceil_u128 ((overlay_x f + fwidth (overlay f)) * cw) (pwidth f) = Some rr"
    and bb: "div_ceil_u128 ((overlay_y f + fheight (overlay f)) * ch) (pheight f) = Some bb"
    and r: "rx r = (w - cw) div 2 + overlay_x f * cw div pwidth f"
      "ry r = (h - ch) div 2 + overlay_y f * ch div pheight f"
      "rwidth r = (w - cw) div 2 + rr - rx r" "rheight r = (h - ch) div 2 + bb - ry r"
    by (auto simp: overlay_geometry_def Let_def bind_eq_Some_conv split: if_splits)
  have ok: "overlay_x f \<le> pwidth f" "overlay_y f \<le> pheight f" "0 < pwidth f" "0 < pheight f"
    using assms(2) by (auto simp: presentation_ok_def)
  have "overlay_x f * cw div pwidth f \<le> cw" "overlay_y f * ch div pheight f \<le> ch"
    using ok by (auto intro!: canvas_fits simp: mult.commute)
  moreover have "rr \<le> cw" "bb \<le> ch"
    using div_ceil_u128_le [OF rr] div_ceil_u128_le [OF bb] assms(2)
    by (simp_all add: presentation_ok_def)
  ultimately show "rx r + rwidth r \<le> w" "ry r + rheight r \<le> h"
    using fit_canvas_within [OF c ok(3,4)] r by linarith+
qed

section \<open>Sampling never panics\<close>

lemma nth_opt_Some [simp]: "i < length xs \<Longrightarrow> nth_opt xs i = Some (xs ! i)"
  by (simp add: nth_opt_def)

lemma map_opt_total: "(\<And>x. x \<in> set xs \<Longrightarrow> f x = Some (g x)) \<Longrightarrow> map_opt f xs = Some (map g xs)"
  by (induction xs) simp_all

lemma cover_geometry_positive:
  assumes "cover_geometry fw fh w h = Some (cx, cy, sw, sh)"
  shows "0 < sw" "0 < sh"
proof -
  have le: "a \<le> b * c div d" if "a * d \<le> b * c" "0 < d" for a b c d :: nat
    using that by (simp add: less_eq_div_iff_mult_less_eq)
  show "0 < sw" "0 < sh"
    using assms le [of w fh fw h] le [of h fw fh w]
    by (auto simp: cover_geometry_def Let_def mult.commute split: if_splits)
qed

lemma source_coordinate_total:
  "0 < scaled \<Longrightarrow> 0 < source \<Longrightarrow> \<exists>c < source. source_coordinate p crop scaled source = Some c"
  by (auto simp: source_coordinate_def)

lemma index_bound:
  fixes x y w h :: nat
  assumes "x < w" "y < h"
  shows "y * w + x < w * h"
proof -
  have "Suc y * w \<le> h * w" using assms(2) by (intro mult_right_mono) simp_all
  then show ?thesis using assms(1) by (simp add: mult.commute)
qed

lemma pixel_offset:
  fixes r c w h :: nat
  assumes "c < w" "r < h"
  shows "(r * w + c) * 4 + 4 \<le> w * h * 4"
proof -
  have "(r * w + c + 1) * 4 \<le> w * h * 4"
    using index_bound [OF assms] by (intro mult_right_mono) simp_all
  then show ?thesis by (simp add: distrib_right)
qed

definition sampler_total :: "nat \<Rightarrow> background_sampler \<Rightarrow> bool" where
  "sampler_total w s \<longleftrightarrow>
     (\<forall>y. \<exists>row. source_row s y = Some row \<and> (\<forall>x < w. \<exists>rgb. background_pixel s row x = Some rgb))"

lemma no_background_total: "sampler_total w no_background"
  by (simp add: sampler_total_def no_background_def source_row_def background_pixel_def
      FALLBACK_RGB_def)

lemma BackgroundSampler_total:
  assumes "pred_option frame_ok bg"
  shows "\<exists>s. BackgroundSampler_new bg w h = Some s \<and> sampler_total w s"
proof (cases bg)
  case None
  then show ?thesis by (simp add: BackgroundSampler_new_def no_background_total)
next
  case (Some f)
  show ?thesis
  proof (cases "cover_geometry (fwidth f) (fheight f) w h")
    case None
    then show ?thesis by (simp add: Some BackgroundSampler_new_def no_background_total)
  next
    case cover: (Some g)
    obtain cx cy sw sh where g: "g = (cx, cy, sw, sh)" by (cases g)
    have f: "0 < fwidth f" "0 < fheight f" "length (fpixels f) = fwidth f * fheight f * 4"
      using assms Some by (auto simp: frame_ok_def)
    have pos: "0 < sw" "0 < sh" using cover_geometry_positive cover g by auto
    let ?col = "\<lambda>x. the (source_coordinate x cx sw (fwidth f)) * 4"
    let ?s = "\<lparr>sampled = Some f, columns = map ?col [0..<w], crop_y = cy, scaled_height = sh\<rparr>"
    have col: "\<exists>c < fwidth f. source_coordinate x cx sw (fwidth f) = Some c" for x
      by (rule source_coordinate_total [OF pos(1) f(1)])
    have "map_opt (\<lambda>x. map_option (\<lambda>c. c * 4) (source_coordinate x cx sw (fwidth f))) [0..<w]
      = Some (map ?col [0..<w])"
      using col by (intro map_opt_total) (metis option.map(2) option.sel)
    then have new: "BackgroundSampler_new bg w h = Some ?s"
      by (simp add: BackgroundSampler_new_def Some cover g)
    have "\<exists>row. source_row ?s y = Some row \<and> (\<forall>x < w. \<exists>rgb. background_pixel ?s row x = Some rgb)" for y
    proof -
      obtain r where r: "r < fheight f" "source_coordinate y cy sh (fheight f) = Some r"
        using source_coordinate_total [OF pos(2) f(2)] by blast
      have "\<exists>rgb. background_pixel ?s (Some (r * fwidth f * 4)) x = Some rgb" if "x < w" for x
      proof -
        obtain c where c: "c < fwidth f" "source_coordinate x cx sw (fwidth f) = Some c"
          using col by blast
        have "(r * fwidth f + c) * 4 + 4 \<le> length (fpixels f)"
          using pixel_offset [OF c(1) r(1)] f(3) by simp
        then show ?thesis using that c(2)
          by (simp add: background_pixel_def Let_def algebra_simps)
      qed
      with r(2) show ?thesis by (intro exI [of _ "Some (r * fwidth f * 4)"]) (simp add: source_row_def)
    qed
    with new show ?thesis unfolding sampler_total_def by blast
  qed
qed

section \<open>Filtered axes\<close>

lemma build_axis_samples: "samples (build_axis f ps ax) = samples ax @ concat (map f ps)"
  by (induction ps arbitrary: ax) simp_all

lemma build_axis_offsets:
  "offsets (build_axis f ps ax) =
     offsets ax @ map (\<lambda>k. length (samples ax) + length (concat (map f (take k ps)))) [0..<Suc (length ps)]"
proof (induction ps arbitrary: ax)
  case Nil
  then show ?case by simp
next
  case (Cons p ps)
  have "[0..<Suc (length (p # ps))] = 0 # map Suc [0..<Suc (length ps)]"
    by (simp add: upt_conv_Cons map_Suc_upt del: upt_Suc)
  then show ?case by (simp add: Cons o_def add.assoc del: upt_Suc)
qed

lemma axis_coordinate_filtered:
  assumes "filtered_axis source target = Some axis" "pos < target"
  shows "axis_coordinate axis pos = Some (position_samples source target pos)"
proof -
  let ?f = "position_samples source target"
  from assms(1) have axis: "axis = build_axis ?f [0..<target] \<lparr>offsets = [], samples = []\<rparr>"
    by (auto simp: filtered_axis_def split: if_splits)
  let ?len = "\<lambda>k. length (concat (map ?f (take k [0..<target])))"
  have off: "nth_opt (offsets axis) k = Some (?len k)" if "k \<le> target" for k
    using that by (simp add: axis build_axis_offsets del: upt_Suc take_upt)
  have split: "concat (map ?f [0..<target])
    = concat (map ?f (take pos [0..<target])) @ ?f pos @ concat (map ?f (drop (Suc pos) [0..<target]))"
    using assms(2) id_take_nth_drop [of pos "[0..<target]"]
    by (metis concat_append concat.simps(2) diff_zero length_upt list.map(2) map_append nth_upt add_0)
  have suc: "?len (Suc pos) = ?len pos + length (?f pos)"
    using assms(2) by (simp add: take_Suc_conv_app_nth del: take_upt)
  show ?thesis
    using off [of pos] off [of "Suc pos"] assms(2) suc split
    by (simp add: axis_coordinate_def build_axis_samples axis del: take_upt drop_upt)
qed

text \<open>
  The weights of every position add up to \<open>FILTER_SCALE\<close>, and the samples lie in the source. When
  an axis is reduced, the rounded weights telescope: what one sample loses its neighbour gains.
\<close>

lemma enlarged_weights:
  assumes "0 < source" "source \<le> target"
  shows "sum_list (map weight (enlarged_samples source target pos)) = FILTER_SCALE"
    and "x \<in> set (enlarged_samples source target pos) \<Longrightarrow> sindex x < source"
proof -
  define d where "d = target * 2"
  define c where "c = saturating_mul 64 (pos * 2 + 1) source - target"
  define lo where "lo = min (c div d) (source - 1)"
  define up where "up = min (saturating_add 32 lo 1) (source - 1)"
  define uw where "uw = (if lo = up then 0 else (c mod d) * FILTER_SCALE div d)"
  have eq: "enlarged_samples source target pos = \<lparr>sindex = lo, weight = FILTER_SCALE - uw\<rparr> #
      (if up \<noteq> lo \<and> uw \<noteq> 0 then [\<lparr>sindex = up, weight = uw\<rparr>] else [])"
    unfolding enlarged_samples_def Let_def uw_def up_def lo_def c_def d_def ..
  have d: "0 < d" using assms by (simp add: d_def)
  then have "c mod d \<le> d" using mod_less_divisor less_imp_le by blast
  then have "FILTER_SCALE * (c mod d) \<le> d * FILTER_SCALE" by (metis mult.commute mult_le_mono2)
  then have "(c mod d) * FILTER_SCALE div d \<le> FILTER_SCALE" using d by (rule canvas_fits [rotated])
  then have "uw \<le> FILTER_SCALE" "up = lo \<Longrightarrow> uw = 0" by (simp_all add: uw_def)
  then show "sum_list (map weight (enlarged_samples source target pos)) = FILTER_SCALE"
    unfolding eq by auto
  have "lo < source" "up < source" using assms by (simp_all add: lo_def up_def)
  then show "x \<in> set (enlarged_samples source target pos) \<Longrightarrow> sindex x < source"
    unfolding eq by (auto split: if_splits)
qed

definition normalized :: "nat \<Rightarrow> nat \<Rightarrow> nat \<Rightarrow> nat" where
  "normalized start stop x = ((x - start) * FILTER_SCALE + (stop - start) div 2) div (stop - start)"

lemma normalized_mono: "x \<le> y \<Longrightarrow> normalized start stop x \<le> normalized start stop y"
  unfolding normalized_def by (intro div_le_mono add_right_mono mult_right_mono diff_le_mono) simp_all

lemma normalized_ends:
  assumes "start < stop"
  shows "normalized start stop start = 0" "normalized start stop stop = FILTER_SCALE"
proof -
  let ?s = "stop - start"
  have s: "?s div 2 < ?s" using assms by simp
  then show "normalized start stop start = 0" by (simp add: normalized_def)
  have "(?s * FILTER_SCALE + ?s div 2) div ?s = FILTER_SCALE"
    using s by (intro div_nat_eqI) auto
  then show "normalized start stop stop = FILTER_SCALE" by (simp add: normalized_def)
qed

lemma telescope:
  fixes f :: "nat \<Rightarrow> nat"
  assumes "a \<le> b" "\<And>i. a \<le> i \<Longrightarrow> i < b \<Longrightarrow> f i \<le> f (Suc i)"
  shows "f a \<le> f b \<and> sum_list (map (\<lambda>i. f (Suc i) - f i) [a..<b]) = f b - f a"
  using assms
proof (induction b)
  case (Suc b)
  show ?case
  proof (cases "a = Suc b")
    case False
    with Suc.prems have ab: "a \<le> b" by simp
    with Suc have "f a \<le> f b" "sum_list (map (\<lambda>i. f (Suc i) - f i) [a..<b]) = f b - f a" by auto
    moreover have "f b \<le> f (Suc b)" using Suc.prems ab by simp
    ultimately show ?thesis using ab by simp
  qed simp
qed simp

lemma sum_list_filter_nonzero: "sum_list (map f (filter (\<lambda>x. f x \<noteq> (0 :: nat)) xs)) = sum_list (map f xs)"
  by (induction xs) auto

lemma reduced_span:
  assumes "0 < target" "target < source"
  shows "pos * source * FILTER_SCALE div target < (pos + 1) * source * FILTER_SCALE div target"
proof -
  have "(pos * source * FILTER_SCALE + target) div target \<le> (pos + 1) * source * FILTER_SCALE div target"
  proof (rule div_le_mono)
    have "target \<le> source * FILTER_SCALE" using assms by (simp add: FILTER_SCALE_def)
    then show "pos * source * FILTER_SCALE + target \<le> (pos + 1) * source * FILTER_SCALE"
      by (simp add: algebra_simps)
  qed
  moreover have "(pos * source * FILTER_SCALE + target) div target
      = Suc (pos * source * FILTER_SCALE div target)"
    using assms(1) div_add_self2 [of target "pos * source * FILTER_SCALE"] by linarith
  ultimately show ?thesis by linarith
qed

lemma reduced_weights:
  assumes "0 < target" "target < source" "pos < target"
  shows "sum_list (map weight (reduced_samples source target pos)) = FILTER_SCALE"
    and "x \<in> set (reduced_samples source target pos) \<Longrightarrow> sindex x < source"
proof -
  define start where "start = pos * source * FILTER_SCALE div target"
  define stop where "stop = (pos + 1) * source * FILTER_SCALE div target"
  define f where "f = start div FILTER_SCALE"
  define l where "l = (stop - 1) div FILTER_SCALE"
  have lt: "start < stop" using reduced_span [OF assms(1,2)] by (simp add: start_def stop_def)
  have S: "0 < FILTER_SCALE" by (simp add: FILTER_SCALE_def)
  have f: "f * FILTER_SCALE \<le> start" "f \<le> l"
    using lt by (simp_all add: f_def l_def div_le_mono)
  have l: "l * FILTER_SCALE < stop" "stop \<le> Suc l * FILTER_SCALE"
  proof -
    have "l * FILTER_SCALE \<le> stop - 1" by (simp add: l_def)
    then show "l * FILTER_SCALE < stop" using lt by linarith
    have "stop - 1 < Suc l * FILTER_SCALE"
      unfolding l_def using dividend_less_div_times [OF S, of "stop - 1"] by (simp add: add.commute)
    then show "stop \<le> Suc l * FILTER_SCALE" by linarith
  qed
  define B where "B i = normalized start stop (max start (min stop (i * FILTER_SCALE)))" for i
  have wt: "reduced_weight start stop i = B (Suc i) - B i" if "f \<le> i" "i \<le> l" for i
  proof -
    have "i * FILTER_SCALE \<le> l * FILTER_SCALE" using that(2) by (rule mult_right_mono) simp
    moreover have "f * FILTER_SCALE \<le> i * FILTER_SCALE" using that(1) by (rule mult_right_mono) simp
    moreover have "start < Suc f * FILTER_SCALE"
      unfolding f_def using dividend_less_div_times [OF S, of start] by (simp add: add.commute)
    ultimately have i: "i * FILTER_SCALE < stop" "start < Suc i * FILTER_SCALE"
      using l(1) unfolding mult_Suc by linarith+
    have "max start (min stop (i * FILTER_SCALE)) = max start (i * FILTER_SCALE)"
      using i(1) by simp
    moreover have "max start (min stop (Suc i * FILTER_SCALE)) = min stop (i * FILTER_SCALE + FILTER_SCALE)"
      using i(2) lt by (simp add: max_def add.commute)
    ultimately show ?thesis
      unfolding reduced_weight_def B_def normalized_def Let_def by (simp only:)
  qed
  have mono: "B i \<le> B (Suc i)" for i
    unfolding B_def by (rule normalized_mono) (auto simp: min_def max_def)
  have ends: "B f = 0" "B (Suc l) = FILTER_SCALE"
    using f(1) l(2) lt normalized_ends [OF lt] by (simp_all add: B_def min_def max_def)
  have eq: "reduced_samples source target pos =
      map (\<lambda>i. \<lparr>sindex = i, weight = reduced_weight start stop i\<rparr>)
        (filter (\<lambda>i. reduced_weight start stop i \<noteq> 0) [f..<Suc l])"
    unfolding reduced_samples_def Let_def f_def l_def start_def stop_def ..
  have "sum_list (map weight (reduced_samples source target pos))
      = sum_list (map (reduced_weight start stop) [f..<Suc l])"
    unfolding eq by (simp only: map_map o_def weighted_sample.select_convs sum_list_filter_nonzero)
  also have "\<dots> = sum_list (map (\<lambda>i. B (Suc i) - B i) [f..<Suc l])"
    using wt by (intro arg_cong [of _ _ sum_list] map_cong) auto
  also have "\<dots> = FILTER_SCALE"
    using telescope [of f "Suc l" B] f(2) mono ends by simp
  finally show "sum_list (map weight (reduced_samples source target pos)) = FILTER_SCALE" .
  have "(pos + 1) * (source * FILTER_SCALE) \<le> target * (source * FILTER_SCALE)"
    using assms(3) by (intro mult_right_mono) simp_all
  then have "stop \<le> target * (source * FILTER_SCALE) div target"
    unfolding stop_def mult.assoc by (rule div_le_mono)
  then have "stop \<le> source * FILTER_SCALE" using assms(1) by simp
  then have "l * FILTER_SCALE < source * FILTER_SCALE" using l(1) by linarith
  then have "l < source" by simp
  then show "x \<in> set (reduced_samples source target pos) \<Longrightarrow> sindex x < source"
    unfolding eq by (auto simp del: upt_Suc)
qed

lemma position_weights:
  assumes "0 < source" "pos < target"
  shows "sum_list (map weight (position_samples source target pos)) = FILTER_SCALE"
    and "x \<in> set (position_samples source target pos) \<Longrightarrow> sindex x < source"
  using assms enlarged_weights [of source target] reduced_weights [of target source pos]
  by (auto simp: position_samples_def not_le split: if_splits)

section \<open>Filtered pixels\<close>

definition samples_ok :: "nat \<Rightarrow> weighted_sample list \<Rightarrow> bool" where
  "samples_ok n xs \<longleftrightarrow> list_all (\<lambda>x. sindex x < n) xs"

lemma position_samples_ok: "0 < source \<Longrightarrow> pos < target \<Longrightarrow> samples_ok source (position_samples source target pos)"
  by (simp add: samples_ok_def list_all_iff position_weights(2))

lemma for_each_cong:
  "(\<And>x. x \<in> set xs \<Longrightarrow> f x = g x) \<Longrightarrow> for_each xs f = for_each xs g"
  by (induction xs) (auto intro!: ext)

lemma for_each_total:
  "(\<And>x s. x \<in> set xs \<Longrightarrow> P s \<Longrightarrow> \<exists>s'. f x s = Some s' \<and> P s') \<Longrightarrow> P s
    \<Longrightarrow> \<exists>s'. for_each xs f s = Some s' \<and> P s'"
  by (induction xs arbitrary: s) (fastforce simp: bind_eq_Some_conv)+

lemma slice4_frame:
  "frame_ok f \<Longrightarrow> c < fwidth f \<Longrightarrow> r < fheight f
    \<Longrightarrow> slice4 (fpixels f) ((r * fwidth f + c) * 4) =
      Some (fpixels f ! ((r * fwidth f + c) * 4), fpixels f ! ((r * fwidth f + c) * 4 + 1),
        fpixels f ! ((r * fwidth f + c) * 4 + 2), fpixels f ! ((r * fwidth f + c) * 4 + 3))"
  using pixel_offset [of c "fwidth f" r "fheight f"] by (simp add: slice4_def frame_ok_def)

lemma accumulate_total:
  assumes "frame_ok f" "sindex x < fwidth f" "sindex y < fheight f"
  shows "\<exists>acc'. accumulate f y x acc = Some acc'"
  using slice4_frame [OF assms] by (simp add: accumulate_def Let_def)

lemma filtered_pixel_total:
  assumes "frame_ok f" "samples_ok (fwidth f) hs" "samples_ok (fheight f) vs"
  shows "\<exists>px. filtered_pixel f hs vs = Some px"
proof -
  have row: "\<exists>acc'. for_each hs (accumulate f y) acc = Some acc' \<and> True"
    if "y \<in> set vs" for y acc
    using assms that by (intro for_each_total) (auto simp: samples_ok_def list_all_iff
        intro!: accumulate_total)
  have "\<exists>acc. for_each vs (\<lambda>y. for_each hs (accumulate f y))
      \<lparr>alpha_weight = 0, channel0 = 0, channel1 = 0, channel2 = 0\<rparr> = Some acc \<and> True"
    by (rule for_each_total) (use row in auto)
  then show ?thesis unfolding filtered_pixel_def by (metis option.map(2))
qed

lemma filtered_sample_total:
  assumes "frame_ok ov" "filtered_axis (fwidth ov) (rwidth g) = Some h"
    "filtered_axis (fheight ov) (rheight g) = Some v"
    and "x - rx g < rwidth g" "y - ry g < rheight g"
  shows "filtered_sample g ov h v x y = filtered_pixel ov
      (position_samples (fwidth ov) (rwidth g) (x - rx g))
      (position_samples (fheight ov) (rheight g) (y - ry g))"
    and "\<exists>px. filtered_sample g ov h v x y = Some px"
proof -
  have ok: "0 < fwidth ov" "0 < fheight ov" using assms(1) by (simp_all add: frame_ok_def)
  show eq: "filtered_sample g ov h v x y = filtered_pixel ov
      (position_samples (fwidth ov) (rwidth g) (x - rx g))
      (position_samples (fheight ov) (rheight g) (y - ry g))"
    using assms by (simp add: filtered_sample_def axis_coordinate_filtered)
  show "\<exists>px. filtered_sample g ov h v x y = Some px"
    unfolding eq using ok assms by (intro filtered_pixel_total position_samples_ok)
qed

section \<open>Painting\<close>

text \<open>
  A canvas of \<open>w\<close> by \<open>h\<close> pixels given by a function from coordinates to the four bytes there:
  the loops of the renderer are pointwise updates of that function.
\<close>

type_synonym picture = "nat \<Rightarrow> nat \<Rightarrow> u8 list"

definition paint :: "nat \<Rightarrow> nat \<Rightarrow> picture \<Rightarrow> u8 list" where
  "paint w h p = concat (map (\<lambda>i. p (i mod w) (i div w)) [0..<w * h])"

definition pixel_at :: "u8 list \<Rightarrow> nat \<Rightarrow> picture" where
  "pixel_at t w x y = take 4 (drop ((y * w + x) * 4) t)"

abbreviation quads :: "picture \<Rightarrow> bool" where
  "quads p \<equiv> \<forall>x y. length (p x y) = 4"

lemma length_concat_quads: "\<forall>x \<in> set xs. length (f x) = 4 \<Longrightarrow> length (concat (map f xs)) = 4 * length xs"
  by (induction xs) auto

lemma length_paint [simp]: "quads p \<Longrightarrow> length (paint w h p) = 4 * (w * h)"
  by (simp add: paint_def length_concat_quads)

lemma concat_quads_split:
  assumes "\<forall>i. length (f i) = 4" "k < n"
  shows "concat (map f [0..<n]) = concat (map f [0..<k]) @ f k @ concat (map f [Suc k..<n])"
    and "length (concat (map f [0..<k])) = 4 * k"
proof -
  have "[0..<n] = [0..<k] @ k # [Suc k..<n]"
    using assms(2) by (metis le0 less_imp_le_nat upt_add_eq_append upt_conv_Cons le_add_diff_inverse)
  then show "concat (map f [0..<n]) = concat (map f [0..<k]) @ f k @ concat (map f [Suc k..<n])"
    by simp
  show "length (concat (map f [0..<k])) = 4 * k" using assms(1) by (simp add: length_concat_quads)
qed

lemma index_split: "x < (w :: nat) \<Longrightarrow> (y * w + x) mod w = x \<and> (y * w + x) div w = y"
  by simp

lemma pixel_at_paint:
  assumes "quads p" "x < w" "y < h"
  shows "pixel_at (paint w h p) w x y = p x y"
proof -
  let ?f = "\<lambda>i. p (i mod w) (i div w)" and ?k = "y * w + x"
  have "\<forall>i. length (?f i) = 4" using assms(1) by simp
  note split = concat_quads_split [OF this index_bound [OF assms(2,3)]]
  have "concat (map ?f [0..<w * h]) = concat (map ?f [0..<?k]) @ ?f ?k @ concat (map ?f [Suc ?k..<w * h])"
    "length (concat (map ?f [0..<?k])) = ?k * 4"
    by (rule split(1)) (simp only: split(2) mult.commute [of 4])
  then show ?thesis
    using assms index_split [of x w y] by (simp only: pixel_at_def paint_def drop_append) simp
qed

lemma paint_cong:
  assumes "\<And>x y. x < w \<Longrightarrow> y < h \<Longrightarrow> p x y = q x y"
  shows "paint w h p = paint w h q"
proof -
  have "p (i mod w) (i div w) = q (i mod w) (i div w)" if "i < w * h" for i
  proof (rule assms)
    from that have "0 < w" by (cases w) auto
    then show "i mod w < w" by simp
    from that show "i div w < h" by (simp add: less_mult_imp_div_less mult.commute)
  qed
  then show ?thesis unfolding paint_def by (metis (no_types, lifting) atLeastLessThan_iff map_cong set_upt)
qed

lemma canvas_is_paint:
  assumes "length t = 4 * (w * h)"
  shows "t = paint w h (pixel_at t w)"
proof -
  have "concat (map (\<lambda>i. take 4 (drop (i * 4) t)) [0..<n]) = take (4 * n) t" if "4 * n \<le> length t" for n
    using that
  proof (induction n)
    case (Suc n)
    then show ?case by (simp add: mult.commute take_add [symmetric] add.commute)
  qed simp
  from this [of "w * h"] assms show ?thesis
    by (simp add: paint_def pixel_at_def)
qed

lemma put_paint:
  assumes "quads p" "length v = 4" "x < w" "y < h"
  shows "put_pixel ((y * w + x) * 4) v (paint w h p)
    = Some (paint w h (\<lambda>x' y'. if x' = x \<and> y' = y then v else p x' y'))"
proof -
  let ?f = "\<lambda>i. p (i mod w) (i div w)"
  let ?g = "\<lambda>i. if i mod w = x \<and> i div w = y then v else p (i mod w) (i div w)"
  let ?k = "y * w + x"
  have k: "?k < w * h" using assms index_bound by blast
  have f: "concat (map ?f [0..<w * h]) = concat (map ?f [0..<?k]) @ ?f ?k @ concat (map ?f [Suc ?k..<w * h])"
    "length (concat (map ?f [0..<?k])) = 4 * ?k"
    using concat_quads_split [of ?f ?k] k assms(1) by auto
  have g: "concat (map ?g [0..<w * h]) = concat (map ?g [0..<?k]) @ ?g ?k @ concat (map ?g [Suc ?k..<w * h])"
    using concat_quads_split [of ?g ?k] k assms(1,2) by auto
  have other: "?g i = ?f i" if "i \<noteq> ?k" for i
    using that mult_div_mod_eq [of w i] by (auto simp: mult.commute)
  have same: "map ?g [0..<?k] = map ?f [0..<?k]" "map ?g [Suc ?k..<w * h] = map ?f [Suc ?k..<w * h]"
    by (rule map_cong [OF refl], rule other, simp)+
  have "?g ?k = v" using index_split [OF assms(3), of y] by simp
  then have g': "concat (map ?g [0..<w * h])
      = concat (map ?f [0..<?k]) @ v @ concat (map ?f [Suc ?k..<w * h])"
    using g by (simp only: same)
  have "?k * 4 + 4 \<le> 4 * (w * h)" using pixel_offset [OF assms(3,4)] by (simp only: mult.commute [of 4])
  moreover have "drop (?k * 4 + 4) (paint w h p) = concat (map ?f [Suc ?k..<w * h])"
    using f assms(1) by (simp only: paint_def drop_append) simp
  moreover have "take (?k * 4) (paint w h p) = concat (map ?f [0..<?k])"
    using f assms(1) by (simp only: paint_def take_append) simp
  ultimately show ?thesis
    using assms(1,2) by (simp add: put_pixel_def) (simp add: paint_def g' cong: map_cong)
qed

text \<open>A loop whose body changes a different part of the picture in every iteration.\<close>

definition over :: "(nat \<Rightarrow> nat \<Rightarrow> bool) \<Rightarrow> (nat \<Rightarrow> nat \<Rightarrow> u8 list \<Rightarrow> u8 list) \<Rightarrow> picture \<Rightarrow> picture" where
  "over R g p = (\<lambda>x y. if R x y then g x y (p x y) else p x y)"

abbreviation keeps_quads :: "(nat \<Rightarrow> nat \<Rightarrow> u8 list \<Rightarrow> u8 list) \<Rightarrow> bool" where
  "keeps_quads g \<equiv> \<forall>x y v. length v = 4 \<longrightarrow> length (g x y v) = 4"

lemma quads_over: "quads p \<Longrightarrow> keeps_quads g \<Longrightarrow> quads (over R g p)"
  by (simp add: over_def)

lemma put_over:
  assumes "quads p" "x < w" "y < h" "length v = 4" "g x y (p x y) = v"
  shows "put_pixel ((y * w + x) * 4) v (paint w h p)
    = Some (paint w h (over (\<lambda>a b. a = x \<and> b = y) g p))"
proof -
  have "(\<lambda>a b. if a = x \<and> b = y then v else p a b) = over (\<lambda>a b. a = x \<and> b = y) g p"
    using assms(5) by (auto intro!: ext simp: over_def)
  with put_paint [OF assms(1,4,2,3)] show ?thesis by simp
qed

lemma over_same:
  "g x y (p x y) = p x y \<Longrightarrow> over (\<lambda>a b. a = x \<and> b = y) g p = p"
  by (auto intro!: ext simp: over_def)

lemma for_each_over:
  assumes "\<And>i p. i \<in> set is \<Longrightarrow> quads p \<Longrightarrow> body i (paint w h p) = Some (paint w h (over (R i) g p))"
    and "keeps_quads g" "distinct is"
    and "\<And>i j x y. i \<in> set is \<Longrightarrow> j \<in> set is \<Longrightarrow> R i x y \<Longrightarrow> R j x y \<Longrightarrow> i = j"
    and "quads p"
  shows "for_each is body (paint w h p) = Some (paint w h (over (\<lambda>x y. \<exists>i \<in> set is. R i x y) g p))"
  using assms
proof (induction "is" arbitrary: p)
  case Nil
  then show ?case by (simp add: over_def)
next
  case (Cons i "is")
  have step: "body i (paint w h p) = Some (paint w h (over (R i) g p))"
    using Cons.prems by simp
  have rest: "for_each is body (paint w h (over (R i) g p))
      = Some (paint w h (over (\<lambda>x y. \<exists>i \<in> set is. R i x y) g (over (R i) g p)))"
  proof (rule Cons.IH)
    show "quads (over (R i) g p)" using Cons.prems by (intro quads_over) auto
  qed (use Cons.prems in auto)
  have "over (\<lambda>x y. \<exists>i \<in> set is. R i x y) g (over (R i) g p)
      = over (\<lambda>x y. \<exists>j \<in> set (i # is). R j x y) g p"
  proof (intro ext)
    fix x y
    have "\<not> (R i x y \<and> (\<exists>j \<in> set is. R j x y))"
      using Cons.prems(3) Cons.prems(4) [of i _ x y] by auto
    then show "over (\<lambda>x y. \<exists>i \<in> set is. R i x y) g (over (R i) g p) x y
      = over (\<lambda>x y. \<exists>j \<in> set (i # is). R j x y) g p x y"
      by (auto simp: over_def)
  qed
  with step rest show ?case by simp
qed

lemma for_each_rect:
  assumes "\<And>x y p. x0 \<le> x \<Longrightarrow> x < x1 \<Longrightarrow> y0 \<le> y \<Longrightarrow> y < y1 \<Longrightarrow> quads p
      \<Longrightarrow> body y x (paint w h p) = Some (paint w h (over (\<lambda>a b. a = x \<and> b = y) g p))"
    and "keeps_quads g" "quads p"
  shows "for_each [y0..<y1] (\<lambda>y. for_each [x0..<x1] (body y)) (paint w h p)
    = Some (paint w h (over (\<lambda>x y. x0 \<le> x \<and> x < x1 \<and> y0 \<le> y \<and> y < y1) g p))"
proof -
  have row: "for_each [x0..<x1] (body y) (paint w h q)
      = Some (paint w h (over (\<lambda>a b. x0 \<le> a \<and> a < x1 \<and> b = y) g q))"
    if "y0 \<le> y" "y < y1" "quads q" for y q
  proof -
    have "for_each [x0..<x1] (body y) (paint w h q)
        = Some (paint w h (over (\<lambda>a b. \<exists>x \<in> set [x0..<x1]. a = x \<and> b = y) g q))"
      using assms(1,2) that by (intro for_each_over) auto
    moreover have "(\<lambda>a b. \<exists>x \<in> set [x0..<x1]. a = x \<and> b = y) = (\<lambda>a b. x0 \<le> a \<and> a < x1 \<and> b = y)"
      by (auto intro!: ext)
    ultimately show ?thesis by simp
  qed
  have "for_each [y0..<y1] (\<lambda>y. for_each [x0..<x1] (body y)) (paint w h p)
      = Some (paint w h (over (\<lambda>a b. \<exists>y \<in> set [y0..<y1]. x0 \<le> a \<and> a < x1 \<and> b = y) g p))"
    using row assms(2,3) by (intro for_each_over) auto
  moreover have "(\<lambda>a b. \<exists>y \<in> set [y0..<y1]. x0 \<le> a \<and> a < x1 \<and> b = y)
      = (\<lambda>x y. x0 \<le> x \<and> x < x1 \<and> y0 \<le> y \<and> y < y1)"
    by (auto intro!: ext)
  ultimately show ?thesis by simp
qed

section \<open>Drawing a region\<close>

definition bg_at :: "background_sampler \<Rightarrow> nat \<Rightarrow> nat \<Rightarrow> u8 \<times> u8 \<times> u8" where
  "bg_at s x y = the (background_pixel s (the (source_row s y)) x)"

lemma sampler_totalD:
  assumes "sampler_total w s"
  obtains row where "source_row s y = Some row"
    "\<And>x. x < w \<Longrightarrow> background_pixel s row x = Some (bg_at s x y)"
  using assms unfolding sampler_total_def bg_at_def by (metis option.sel)

definition base_quad :: "background_sampler \<Rightarrow> bool \<Rightarrow> nat \<Rightarrow> nat \<Rightarrow> u8 list" where
  "base_quad s auth x y = (if auth then dimmed (bg_at s x y) else undimmed (bg_at s x y))"

lemma length_dimmed [simp]: "length (dimmed c) = 4" "length (undimmed c) = 4"
  by (cases c; simp)+

lemma length_base_quad [simp]: "length (base_quad s auth x y) = 4"
  by (simp add: base_quad_def)

definition in_region :: "nat \<Rightarrow> nat \<Rightarrow> region \<Rightarrow> nat \<Rightarrow> nat \<Rightarrow> bool" where
  "in_region w h area x y \<longleftrightarrow>
     rx area \<le> x \<and> x < min (saturating_add 32 (rx area) (rwidth area)) w
     \<and> ry area \<le> y \<and> y < min (saturating_add 32 (ry area) (rheight area)) h"

lemma draw_background_paint:
  assumes "sampler_total w s" "quads p"
  shows "draw_background w h s auth area (paint w h p)
    = Some (paint w h (over (in_region w h area) (\<lambda>x y _. base_quad s auth x y) p))"
proof -
  let ?ex = "min (saturating_add 32 (rx area) (rwidth area)) w"
  let ?ey = "min (saturating_add 32 (ry area) (rheight area)) h"
  let ?body = "\<lambda>y x target. put_pixel ((y * w + x) * 4) (base_quad s auth x y) target"
  have body: "Option.bind (source_row s y) (\<lambda>row. for_each [rx area..<?ex]
        (\<lambda>x target. Option.bind (background_pixel s row x) (\<lambda>rgb.
          put_pixel ((y * w + x) * 4) (if auth then dimmed rgb else undimmed rgb) target)) t)
      = for_each [rx area..<?ex] (?body y) t" for y t
  proof -
    obtain row where row: "source_row s y = Some row"
      "\<And>x. x < w \<Longrightarrow> background_pixel s row x = Some (bg_at s x y)"
      using sampler_totalD [OF assms(1)] by blast
    show ?thesis
      unfolding row(1) Option.bind.simps
      by (intro fun_cong [of "for_each _ _"] for_each_cong) (auto intro!: ext simp: row(2) base_quad_def)
  qed
  have "for_each [ry area..<?ey] (\<lambda>y. for_each [rx area..<?ex] (?body y)) (paint w h p)
      = Some (paint w h (over (\<lambda>x y. rx area \<le> x \<and> x < ?ex \<and> ry area \<le> y \<and> y < ?ey)
          (\<lambda>x y _. base_quad s auth x y) p))"
    using assms(2) by (intro for_each_rect put_over) auto
  moreover have "(\<lambda>x y. rx area \<le> x \<and> x < ?ex \<and> ry area \<le> y \<and> y < ?ey) = in_region w h area"
    by (auto intro!: ext simp: in_region_def)
  ultimately show ?thesis by (simp only: draw_background_def Let_def body)
qed

definition blended :: "background_sampler \<Rightarrow> (nat \<Rightarrow> nat \<Rightarrow> (u8 \<times> u8 \<times> u8 \<times> u8) option)
    \<Rightarrow> nat \<Rightarrow> nat \<Rightarrow> u8 list \<Rightarrow> u8 list" where
  "blended s sample x y old =
     (case the (sample x y) of (r, g, b, a) \<Rightarrow>
        if a = 0 then old else dimmed (blend_rgb (bg_at s x y) (r, g, b, a)))"

lemma keeps_quads_blended: "keeps_quads (blended s sample)"
  by (simp add: blended_def split: prod.split)

definition inside :: "region \<Rightarrow> nat \<Rightarrow> nat \<Rightarrow> bool" where
  "inside area x y \<longleftrightarrow> rx area \<le> x \<and> x < rx area + rwidth area \<and> ry area \<le> y \<and> y < ry area + rheight area"

lemma draw_overlay_paint:
  assumes "sampler_total w s" "quads p" "rx area + rwidth area \<le> w" "ry area + rheight area \<le> h"
    and "\<And>x y. inside area x y \<Longrightarrow> \<exists>px. sample x y = Some px"
  shows "draw_overlay w s area sample (paint w h p)
    = Some (paint w h (over (inside area) (blended s sample) p))"
proof -
  let ?body = "\<lambda>y x target. Option.bind (sample x y) (\<lambda>(r, g, b, a).
      if a = 0 then Some target
      else put_pixel ((y * w + x) * 4) (dimmed (blend_rgb (bg_at s x y) (r, g, b, a))) target)"
  have body: "Option.bind (source_row s y) (\<lambda>row. for_each [rx area..<rx area + rwidth area]
        (\<lambda>x target. Option.bind (sample x y) (\<lambda>(r, g, b, a).
          if a = 0 then Some target
          else Option.bind (background_pixel s row x) (\<lambda>rgb.
            put_pixel ((y * w + x) * 4) (dimmed (blend_rgb rgb (r, g, b, a))) target))) t)
      = for_each [rx area..<rx area + rwidth area] (?body y) t" for y t
  proof -
    obtain row where row: "source_row s y = Some row"
      "\<And>x. x < w \<Longrightarrow> background_pixel s row x = Some (bg_at s x y)"
      using sampler_totalD [OF assms(1)] by blast
    show ?thesis
      unfolding row(1) Option.bind.simps using assms(3)
      by (intro fun_cong [of "for_each _ _"] for_each_cong)
        (auto intro!: ext arg_cong2 [of _ _ _ _ Option.bind] simp: row(2))
  qed
  have "for_each [ry area..<ry area + rheight area]
      (\<lambda>y. for_each [rx area..<rx area + rwidth area] (?body y)) (paint w h p)
    = Some (paint w h (over (\<lambda>x y. rx area \<le> x \<and> x < rx area + rwidth area
        \<and> ry area \<le> y \<and> y < ry area + rheight area) (blended s sample) p))"
  proof (rule for_each_rect)
    fix x y p
    assume *: "rx area \<le> x" "x < rx area + rwidth area" "ry area \<le> y" "y < ry area + rheight area"
      and q: "quads p"
    then obtain r g b a where rgba: "sample x y = Some (r, g, b, a)"
      using assms(5) [of x y] by (auto simp: inside_def)
    have xy: "x < w" "y < h" using * assms(3,4) by linarith+
    show "?body y x (paint w h p)
        = Some (paint w h (over (\<lambda>a b. a = x \<and> b = y) (blended s sample) p))"
    proof (cases "a = 0")
      case True
      then show ?thesis using rgba by (simp add: over_same blended_def)
    next
      case False
      have "put_pixel ((y * w + x) * 4) (dimmed (blend_rgb (bg_at s x y) (r, g, b, a))) (paint w h p)
          = Some (paint w h (over (\<lambda>a b. a = x \<and> b = y) (blended s sample) p))"
        using q xy by (rule put_over) (simp_all add: blended_def rgba False)
      then show ?thesis using rgba False by simp
    qed
  qed (use assms(2) keeps_quads_blended in auto)
  moreover have "(\<lambda>x y. rx area \<le> x \<and> x < rx area + rwidth area
      \<and> ry area \<le> y \<and> y < ry area + rheight area) = inside area"
    by (auto intro!: ext simp: inside_def)
  ultimately show ?thesis by (simp only: draw_overlay_def body)
qed

section \<open>The reference picture\<close>

text \<open>
  What every pixel of a lock surface should be, as a function of its coordinates: the covering
  background, dimmed on the authentication surface and blended with the filtered overlay there.
\<close>

definition overlay_at :: "presentation_frame option \<Rightarrow> nat \<Rightarrow> nat \<Rightarrow> nat \<Rightarrow> nat
    \<Rightarrow> (u8 \<times> u8 \<times> u8 \<times> u8) option" where
  "overlay_at frame w h x y =
     Option.bind frame (\<lambda>f. Option.bind (overlay_geometry f w h) (\<lambda>g.
       if inside g x y
       then filtered_pixel (overlay f) (position_samples (fwidth (overlay f)) (rwidth g) (x - rx g))
              (position_samples (fheight (overlay f)) (rheight g) (y - ry g))
       else None))"

definition the_sampler :: "presentation_frame option \<Rightarrow> nat \<Rightarrow> nat \<Rightarrow> background_sampler" where
  "the_sampler frame w h = the (BackgroundSampler_new (Option.bind frame background) w h)"

definition shade :: "nat \<Rightarrow> nat \<Rightarrow> presentation_frame option \<Rightarrow> bool \<Rightarrow> picture" where
  "shade w h frame auth x y =
     (let rgb = bg_at (the_sampler frame w h) x y in
      case (if auth then overlay_at frame w h x y else None) of
        None \<Rightarrow> if auth then dimmed rgb else undimmed rgb
      | Some (r, g, b, a) \<Rightarrow> dimmed (if a = 0 then rgb else blend_rgb rgb (r, g, b, a)))"

lemma length_shade [simp]: "length (shade w h frame auth x y) = 4"
  by (simp add: shade_def Let_def split: option.split)

text \<open>A sample that differs from another only in invisible pixels blends to the same picture.\<close>

definition same_visible :: "u8 \<times> u8 \<times> u8 \<times> u8 \<Rightarrow> u8 \<times> u8 \<times> u8 \<times> u8 \<Rightarrow> bool" where
  "same_visible p q \<longleftrightarrow> p = q \<or> snd (snd (snd p)) = 0 \<and> snd (snd (snd q)) = 0"

lemma blended_same_visible:
  assumes "sample x y = Some p" "overlay_at frame w h x y = Some q" "same_visible p q"
  shows "blended (the_sampler frame w h) sample x y (base_quad (the_sampler frame w h) True x y)
    = shade w h frame True x y"
  using assms
  by (cases p; cases q) (auto simp: blended_def base_quad_def shade_def Let_def same_visible_def)

lemma saturating_add_small: "a + b < 2 ^ k \<Longrightarrow> saturating_add k a b = a + b"
  by (simp add: saturating_add_def)

text \<open>Regions the runtime draws: within the canvas.\<close>

definition region_ok :: "nat \<Rightarrow> nat \<Rightarrow> region \<Rightarrow> bool" where
  "region_ok w h r \<longleftrightarrow> rx r + rwidth r \<le> w \<and> ry r + rheight r \<le> h"

lemma region_ok_full: "region_ok w h (Region_full w h)"
  by (simp add: region_ok_def Region_full_def)

lemma in_region_inside:
  assumes "region_ok w h r" "w < 2 ^ 32" "h < 2 ^ 32"
  shows "in_region w h r x y \<longleftrightarrow> inside r x y"
proof -
  have "saturating_add 32 (rx r) (rwidth r) = rx r + rwidth r"
    "saturating_add 32 (ry r) (rheight r) = ry r + rheight r"
    using assms by (auto simp: region_ok_def intro!: saturating_add_small)
  then show ?thesis using assms(1) by (auto simp: in_region_def inside_def region_ok_def)
qed

lemma intersect_inside:
  assumes "region_ok w h r" "region_ok w h g" "w < 2 ^ 32" "h < 2 ^ 32"
  shows "case intersect r g of
      None \<Rightarrow> (\<forall>x y. \<not> (inside r x y \<and> inside g x y))
    | Some c \<Rightarrow> region_ok w h c \<and> (\<forall>x y. inside c x y \<longleftrightarrow> inside r x y \<and> inside g x y)"
proof -
  have "saturating_add 32 (rx r) (rwidth r) = rx r + rwidth r"
    "saturating_add 32 (ry r) (rheight r) = ry r + rheight r"
    "saturating_add 32 (rx g) (rwidth g) = rx g + rwidth g"
    "saturating_add 32 (ry g) (rheight g) = ry g + rheight g"
    using assms by (auto simp: region_ok_def intro!: saturating_add_small)
  then show ?thesis
    using assms(1,2) by (auto simp: intersect_def Let_def inside_def region_ok_def)
qed

text \<open>An overlay sampler that agrees with the reference wherever the overlay is.\<close>

definition faithful_sample ::
  "presentation_frame \<Rightarrow> nat \<Rightarrow> nat \<Rightarrow> region \<Rightarrow> (nat \<Rightarrow> nat \<Rightarrow> (u8 \<times> u8 \<times> u8 \<times> u8) option) \<Rightarrow> bool" where
  "faithful_sample f w h g sample \<longleftrightarrow>
     (\<forall>x y. inside g x y \<longrightarrow> (\<exists>p q. sample x y = Some p \<and> overlay_at (Some f) w h x y = Some q
        \<and> same_visible p q))"

lemma filtered_sample_faithful:
  assumes "presentation_ok f" "overlay_geometry f w h = Some g"
    "filtered_axis (fwidth (overlay f)) (rwidth g) = Some hz"
    "filtered_axis (fheight (overlay f)) (rheight g) = Some vt"
  shows "faithful_sample f w h g (filtered_sample g (overlay f) hz vt)"
  unfolding faithful_sample_def
proof (intro allI impI)
  fix x y assume "inside g x y"
  then have xy: "x - rx g < rwidth g" "y - ry g < rheight g" and i: "inside g x y"
    by (auto simp: inside_def)
  have "frame_ok (overlay f)" using assms(1) by (simp add: presentation_ok_def)
  from filtered_sample_total [OF this assms(3,4) xy]
  obtain px where "filtered_sample g (overlay f) hz vt x y = Some px"
    "overlay_at (Some f) w h x y = Some px"
    using assms(2) i by (auto simp: overlay_at_def)
  then show "\<exists>p q. filtered_sample g (overlay f) hz vt x y = Some p
      \<and> overlay_at (Some f) w h x y = Some q \<and> same_visible p q"
    by (auto simp: same_visible_def)
qed

lemma draw_overlay_shade:
  assumes "sampler_total w (the_sampler (Some f) w h)" "quads p" "region_ok w h c"
    and "faithful_sample f w h g sample"
    and "\<And>x y. inside c x y \<longleftrightarrow> inside area x y \<and> inside g x y"
    and "overlay_geometry f w h = Some g"
  shows "draw_overlay w (the_sampler (Some f) w h) c sample
      (paint w h (over (inside area) (\<lambda>x y _. base_quad (the_sampler (Some f) w h) True x y) p))
    = Some (paint w h (over (inside area) (\<lambda>x y _. shade w h (Some f) True x y) p))"
proof -
  let ?s = "the_sampler (Some f) w h"
  let ?p = "over (inside area) (\<lambda>x y _. base_quad ?s True x y) p"
  have "draw_overlay w ?s c sample (paint w h ?p)
      = Some (paint w h (over (inside c) (blended ?s sample) ?p))"
  proof (rule draw_overlay_paint)
    show "quads ?p" using assms(2) by (intro quads_over) auto
    show "\<exists>px. sample x y = Some px" if "inside c x y" for x y
      using that assms(4,5) unfolding faithful_sample_def by blast
  qed (use assms(1,3) in \<open>auto simp: region_ok_def\<close>)
  moreover have "over (inside c) (blended ?s sample) ?p
      = over (inside area) (\<lambda>x y _. shade w h (Some f) True x y) p"
  proof (intro ext)
    fix x y
    show "over (inside c) (blended ?s sample) ?p x y
      = over (inside area) (\<lambda>x y _. shade w h (Some f) True x y) p x y"
    proof (cases "inside c x y")
      case True
      then obtain a b where "sample x y = Some a" "overlay_at (Some f) w h x y = Some b"
        "same_visible a b" "inside area x y"
        using assms(4,5) unfolding faithful_sample_def by blast
      from blended_same_visible [of sample x y, OF this(1-3)] True this(4) show ?thesis by (simp add: over_def)
    next
      case False
      then have "overlay_at (Some f) w h x y = None" if "inside area x y"
        using that assms(5,6) by (simp add: overlay_at_def)
      with False assms(5) show ?thesis by (auto simp: over_def shade_def base_quad_def Let_def)
    qed
  qed
  ultimately show ?thesis by simp
qed

definition scaled_ok :: "presentation_frame option \<Rightarrow> nat \<Rightarrow> nat \<Rightarrow> rgba_frame option \<Rightarrow> bool" where
  "scaled_ok frame w h scaled \<longleftrightarrow>
     (\<forall>f g sc. frame = Some f \<longrightarrow> overlay_geometry f w h = Some g \<longrightarrow> scaled = Some sc
        \<longrightarrow> faithful_sample f w h g (cached_sample g sc))"

lemma draw_region_paint:
  assumes ok: "pred_option presentation_ok frame" "region_ok w h area" "w < 2 ^ 32" "h < 2 ^ 32"
    and sc: "scaled_ok frame w h scaled" and q: "quads p"
  shows "draw_opaque_region_cached (paint w h p) w h frame scaled auth area
    = Some (paint w h (over (inside area) (\<lambda>x y _. shade w h frame auth x y) p))"
proof -
  have "pred_option frame_ok (Option.bind frame background)"
    using ok(1) by (cases frame) (auto simp: presentation_ok_def)
  from BackgroundSampler_total [OF this, of w h]
  have s: "BackgroundSampler_new (Option.bind frame background) w h = Some (the_sampler frame w h)"
    "sampler_total w (the_sampler frame w h)" by (auto simp: the_sampler_def)
  let ?s = "the_sampler frame w h"
  have "in_region w h area = inside area" using in_region_inside [OF ok(2-4)] by (auto intro!: ext)
  then have bg: "draw_background w h ?s auth area (paint w h p)
      = Some (paint w h (over (inside area) (\<lambda>x y _. base_quad ?s auth x y) p))"
    using draw_background_paint [OF s(2) q] by simp
  have base: "over (inside area) (\<lambda>x y _. base_quad ?s auth x y) p
      = over (inside area) (\<lambda>x y _. shade w h frame auth x y) p"
    if "\<And>x y. inside area x y \<Longrightarrow> auth \<Longrightarrow> overlay_at frame w h x y = None"
    using that by (auto intro!: ext simp: over_def base_quad_def shade_def Let_def)
  show ?thesis
  proof (cases "\<exists>f g. auth \<and> frame = Some f \<and> overlay_geometry f w h = Some g")
    case False
    then have "over (inside area) (\<lambda>x y _. base_quad ?s auth x y) p
        = over (inside area) (\<lambda>x y _. shade w h frame auth x y) p"
      by (intro base) (auto simp: overlay_at_def bind_eq_None_conv)
    with False s bg show ?thesis
      by (auto simp: draw_opaque_region_cached_def Let_def split: option.splits)
  next
    case True
    then obtain f g where f: "auth" "frame = Some f" "overlay_geometry f w h = Some g" by auto
    have pok: "presentation_ok f" using ok(1) f(2) by simp
    have "region_ok w h g"
      using overlay_geometry_within [OF f(3) pok] by (simp add: region_ok_def)
    note meet = intersect_inside [OF ok(2) this ok(3,4)]
    show ?thesis
    proof (cases "intersect area g")
      case None
      then have "over (inside area) (\<lambda>x y _. base_quad ?s auth x y) p
          = over (inside area) (\<lambda>x y _. shade w h frame auth x y) p"
        using meet f by (intro base) (auto simp: overlay_at_def)
      with None s bg f show ?thesis by (simp add: draw_opaque_region_cached_def Let_def)
    next
      case (Some c)
      have c: "region_ok w h c" "\<And>x y. inside c x y \<longleftrightarrow> inside area x y \<and> inside g x y"
        using meet Some by auto
      have pos: "0 < fwidth (overlay f)" "0 < fheight (overlay f)"
        using pok by (auto simp: presentation_ok_def frame_ok_def)
      then obtain hz vt where ax: "filtered_axis (fwidth (overlay f)) (rwidth g) = Some hz"
        "filtered_axis (fheight (overlay f)) (rheight g) = Some vt"
        by (auto simp: filtered_axis_def)
      note draw = draw_overlay_shade [of w f h p c g _ area]
      show ?thesis
        using Some s bg f ax c q draw [OF _ _ c(1) filtered_sample_faithful [OF pok f(3) ax] c(2) f(3)]
          draw [OF _ _ c(1) _ c(2) f(3)] sc
        by (cases scaled) (auto simp: draw_opaque_region_cached_def Let_def scaled_ok_def)
    qed
  qed
qed

section \<open>The scaled overlay\<close>

text \<open>Keeping the size is the identity filter on visible pixels.\<close>

lemma enlarged_identity:
  assumes "x < n" "n < 2 ^ 31"
  shows "enlarged_samples n n x = [\<lparr>sindex = x, weight = FILTER_SCALE\<rparr>]"
proof -
  have "(x * 2 + 1) * n < 2 ^ 64"
  proof -
    have "(x * 2 + 1) * n \<le> (2 ^ 31 * 2) * 2 ^ 31"
      using assms by (intro mult_le_mono) linarith+
    then show ?thesis by simp
  qed
  then have "saturating_mul 64 (x * 2 + 1) n - n = x * (n * 2)"
    by (simp add: saturating_mul_def algebra_simps)
  moreover have "min x (n - 1) = x" using assms by simp
  ultimately show ?thesis
    using assms(1) by (simp add: enlarged_samples_def Let_def)
qed

lemma of_nat_scaled_u8:
  fixes r a :: u8
  assumes "0 < unat a" "0 < (W :: nat)"
  shows "of_nat (unat r * unat a * W div (unat a * W)) = r"
proof -
  have "unat r * unat a * W div (unat a * W) = unat r"
    using assms by (simp add: mult.assoc)
  then show ?thesis by simp
qed

lemma filtered_pixel_identity:
  assumes "slice4 (fpixels f) ((y * fwidth f + x) * 4) = Some (r, g, b, a)"
  shows "filtered_pixel f [\<lparr>sindex = x, weight = FILTER_SCALE\<rparr>] [\<lparr>sindex = y, weight = FILTER_SCALE\<rparr>]
    = Some (if a = 0 then (0, 0, 0, 0) else (r, g, b, a))"
proof -
  define W where "W = FILTER_SCALE * FILTER_SCALE"
  have W: "0 < W" by (simp add: W_def FILTER_SCALE_def)
  have acc: "for_each [\<lparr>sindex = y, weight = FILTER_SCALE\<rparr>]
      (\<lambda>y. for_each [\<lparr>sindex = x, weight = FILTER_SCALE\<rparr>] (accumulate f y))
      \<lparr>alpha_weight = 0, channel0 = 0, channel1 = 0, channel2 = 0\<rparr>
    = Some \<lparr>alpha_weight = unat a * W, channel0 = unat r * unat a * W,
        channel1 = unat g * unat a * W, channel2 = unat b * unat a * W\<rparr>"
    using assms by (simp add: accumulate_def Let_def W_def del: mult_Suc)
  have "W div 2 < W" using W by simp
  then have "(unat a * W + W div 2) div W = unat a"
    by (intro div_nat_eqI) (auto simp: mult.commute)
  then have al: "of_nat ((unat a * W + W div 2) div W) = a" by simp
  show ?thesis
    unfolding filtered_pixel_def acc
    using W of_nat_scaled_u8 [of a W] al
    by (cases "a = 0") (simp_all add: Let_def W_def [symmetric] unat_gt_0)
qed

lemma slice4_pixel_at:
  assumes "pixel_at t w x y = [a, b, c, d]"
  shows "slice4 t ((y * w + x) * 4) = Some (a, b, c, d)"
proof -
  define k where "k = (y * w + x) * 4"
  have t: "take 4 (drop k t) = [a, b, c, d]" using assms by (simp add: pixel_at_def k_def)
  then have "length (take 4 (drop k t)) = 4" by simp
  then have l: "k + 4 \<le> length t" by (auto simp: min_def split: if_splits)
  have d: "drop k t = [a, b, c, d] @ drop 4 (drop k t)"
    using append_take_drop_id [of 4 "drop k t"] t by simp
  have "t ! (k + i) = [a, b, c, d] ! i" if "i < 4" for i
  proof -
    have "t ! (k + i) = drop k t ! i" using l by simp
    also have "\<dots> = ([a, b, c, d] @ drop 4 (drop k t)) ! i" using d by (rule arg_cong)
    also have "\<dots> = [a, b, c, d] ! i" using that by (subst nth_append) simp
    finally show ?thesis .
  qed
  from this [of 0] this [of 1] this [of 2] this [of 3] l show ?thesis
    unfolding k_def [symmetric] by (simp add: slice4_def)
qed

lemma rows_are_paint:
  "concat (map (\<lambda>y. concat (map (\<lambda>x. q x y) [0..<w])) [0..<h]) = paint w h q"
proof (induction h)
  case (Suc h)
  have "[0..<w * Suc h] = [0..<w * h] @ map (\<lambda>x. x + w * h) [0..<w]"
    using upt_add_eq_append [of 0 "w * h" w] by (simp add: map_add_upt add.commute)
  moreover have "map (\<lambda>i. q (i mod w) (i div w)) (map (\<lambda>x. x + w * h) [0..<w]) = map (\<lambda>x. q x h) [0..<w]"
    by auto
  ultimately have "paint w (Suc h) q = paint w h q @ concat (map (\<lambda>x. q x h) [0..<w])"
    unfolding paint_def by (simp only: map_append concat_append)
  then show ?case using Suc by simp
qed (simp add: paint_def)

lemma for_each_append:
  assumes "\<And>x acc. x \<in> set xs \<Longrightarrow> f x acc = Some (acc @ g x)"
  shows "for_each xs f acc = Some (acc @ concat (map g xs))"
  using assms by (induction xs arbitrary: acc) simp_all

lemma scale_overlay_filtered:
  assumes ok: "frame_ok ov" "0 < w" "0 < h" "w * h * 4 < 2 ^ 32" and ne: "(fwidth ov, fheight ov) \<noteq> (w, h)"
  defines "q \<equiv> \<lambda>x y. the (filtered_pixel ov (position_samples (fwidth ov) w x)
      (position_samples (fheight ov) h y))"
  shows "scale_overlay ov w h = Some \<lparr>fwidth = w, fheight = h,
    fpixels = paint w h (\<lambda>x y. case q x y of (r, g, b, a) \<Rightarrow> [r, g, b, a])\<rparr>"
proof -
  let ?p = "\<lambda>x y. case q x y of (r, g, b, a) \<Rightarrow> [r, g, b, a]"
  have pos: "0 < fwidth ov" "0 < fheight ov" using ok(1) by (auto simp: frame_ok_def)
  then obtain hz vt where ax: "filtered_axis (fwidth ov) w = Some hz" "filtered_axis (fheight ov) h = Some vt"
    by (auto simp: filtered_axis_def)
  have px: "Option.bind (axis_coordinate hz x) (\<lambda>hs. Option.bind (filtered_pixel ov hs
        (position_samples (fheight ov) h y)) (\<lambda>(r, g, b, a). Some (acc @ [r, g, b, a])))
      = Some (acc @ ?p x y)" if xy: "x < w" "y < h" for x y acc
  proof -
    obtain v where "filtered_pixel ov (position_samples (fwidth ov) w x)
        (position_samples (fheight ov) h y) = Some v"
      using filtered_pixel_total [OF ok(1) position_samples_ok [OF pos(1) xy(1)]
          position_samples_ok [OF pos(2) xy(2)]] by blast
    then show ?thesis using axis_coordinate_filtered [OF ax(1) xy(1)]
      by (cases v) (simp add: q_def)
  qed
  have row: "for_each [0..<w] (\<lambda>x acc. Option.bind (axis_coordinate hz x) (\<lambda>hs. Option.bind
        (filtered_pixel ov hs (position_samples (fheight ov) h y)) (\<lambda>(r, g, b, a).
          Some (acc @ [r, g, b, a])))) acc
      = Some (acc @ concat (map (\<lambda>x. ?p x y) [0..<w]))" if "y < h" for y acc
    using that by (intro for_each_append) (auto simp: px)
  have "for_each [0..<h] (\<lambda>y acc. Option.bind (axis_coordinate vt y) (\<lambda>vs. for_each [0..<w]
        (\<lambda>x acc. Option.bind (axis_coordinate hz x) (\<lambda>hs. Option.bind (filtered_pixel ov hs vs)
          (\<lambda>(r, g, b, a). Some (acc @ [r, g, b, a])))) acc)) []
      = Some ([] @ concat (map (\<lambda>y. concat (map (\<lambda>x. ?p x y) [0..<w])) [0..<h]))"
    by (intro for_each_append) (auto simp: axis_coordinate_filtered [OF ax(2)] row)
  moreover have "RgbaFrame_new w h (paint w h ?p) = Some \<lparr>fwidth = w, fheight = h, fpixels = paint w h ?p\<rparr>"
  proof -
    have "quads ?p" by (auto split: prod.split)
    then have "length (paint w h ?p) = w * h * 4" by (simp add: mult.commute)
    moreover have "checked_mul 32 w h = Some (w * h)" "checked_mul 32 (w * h) 4 = Some (w * h * 4)"
      using ok(4) unfolding checked_mul_eq_Some by linarith+
    ultimately show ?thesis using ok(2,3) by (simp add: RgbaFrame_new_def del: checked_mul_eq_Some)
  qed
  ultimately show ?thesis
    using ne ax unfolding scale_overlay_def rows_are_paint by auto
qed

lemma scale_overlay_faithful:
  assumes ok: "frame_ok ov" "0 < w" "0 < h" "w * h * 4 < 2 ^ 32"
  obtains sc where "scale_overlay ov w h = Some sc" "fwidth sc = w"
    "\<And>x y. x < w \<Longrightarrow> y < h \<Longrightarrow> \<exists>p q. slice4 (fpixels sc) ((y * w + x) * 4) = Some p
      \<and> filtered_pixel ov (position_samples (fwidth ov) w x) (position_samples (fheight ov) h y) = Some q
      \<and> same_visible p q"
proof (cases "(fwidth ov, fheight ov) = (w, h)")
  case True
  then have wh: "fwidth ov = w" "fheight ov = h" by auto
  have "w * h < 1073741824" using ok(4) by (simp add: mult.commute)
  moreover have "w \<le> w * h" "h \<le> w * h" using ok(2,3) by auto
  ultimately have "w < 2147483648" "h < 2147483648" by linarith+
  then have small: "w < 2 ^ 31" "h < 2 ^ 31" by simp_all
  have "\<exists>p q. slice4 (fpixels ov) ((y * w + x) * 4) = Some p
      \<and> filtered_pixel ov (position_samples (fwidth ov) w x) (position_samples (fheight ov) h y) = Some q
      \<and> same_visible p q" if xy: "x < w" "y < h" for x y
  proof -
    obtain r g b a where sl: "slice4 (fpixels ov) ((y * w + x) * 4) = Some (r, g, b, a)"
      using slice4_frame [OF ok(1), of x y] xy wh by blast
    have "position_samples (fwidth ov) w x = [\<lparr>sindex = x, weight = FILTER_SCALE\<rparr>]"
      "position_samples (fheight ov) h y = [\<lparr>sindex = y, weight = FILTER_SCALE\<rparr>]"
      using xy small by (simp_all add: position_samples_def wh enlarged_identity)
    with filtered_pixel_identity [of ov y x r g b a] sl wh
    show ?thesis by (cases "a = 0") (auto simp: same_visible_def)
  qed
  with that [of ov] True show ?thesis by (simp add: scale_overlay_def)
next
  case False
  let ?q = "\<lambda>x y. the (filtered_pixel ov (position_samples (fwidth ov) w x)
      (position_samples (fheight ov) h y))"
  let ?sc = "\<lparr>fwidth = w, fheight = h,
    fpixels = paint w h (\<lambda>x y. case ?q x y of (r, g, b, a) \<Rightarrow> [r, g, b, a])\<rparr>"
  have "\<exists>p q. slice4 (fpixels ?sc) ((y * w + x) * 4) = Some p
      \<and> filtered_pixel ov (position_samples (fwidth ov) w x) (position_samples (fheight ov) h y) = Some q
      \<and> same_visible p q" if xy: "x < w" "y < h" for x y
  proof -
    have pos: "0 < fwidth ov" "0 < fheight ov" using ok(1) by (auto simp: frame_ok_def)
    obtain r g b a where px: "filtered_pixel ov (position_samples (fwidth ov) w x)
        (position_samples (fheight ov) h y) = Some (r, g, b, a)"
      using filtered_pixel_total [OF ok(1) position_samples_ok [OF pos(1) xy(1)]
          position_samples_ok [OF pos(2) xy(2)]] by (metis prod_cases4)
    have "pixel_at (fpixels ?sc) w x y = [r, g, b, a]"
      using pixel_at_paint [OF _ xy, of "\<lambda>x y. case ?q x y of (r, g, b, a) \<Rightarrow> [r, g, b, a]"] px
      by (simp split: prod.split)
    from slice4_pixel_at [OF this] px show ?thesis by (auto simp: same_visible_def)
  qed
  with that [of ?sc] scale_overlay_filtered [OF ok False] show ?thesis by simp
qed

text \<open>The overlay never vanishes, so scaling it always succeeds.\<close>

lemma ceil_above_floor:
  fixes a b c d :: nat
  assumes "0 < d" "0 < b" "0 < c"
  shows "a * c div d < ((a + b) * c + (d - 1)) div d"
proof -
  have "0 < b * c" using assms by simp
  then have "a * c + d \<le> (a + b) * c + (d - 1)" using assms(1) unfolding distrib_right by linarith
  then have "(a * c + d) div d \<le> ((a + b) * c + (d - 1)) div d" by (rule div_le_mono)
  moreover have "(a * c + d) div d = Suc (a * c div d)"
    using assms(1) div_add_self2 [of d "a * c"] by linarith
  ultimately show ?thesis by linarith
qed

lemma overlay_geometry_nonempty:
  assumes "overlay_geometry f w h = Some g" "presentation_ok f"
  shows "0 < rwidth g" "0 < rheight g"
proof -
  have pos: "0 < pwidth f" "0 < pheight f" "0 < fwidth (overlay f)" "0 < fheight (overlay f)"
    using assms(2) by (auto simp: presentation_ok_def frame_ok_def)
  from assms(1) obtain cw ch where c: "0 < cw" "0 < ch"
    and g: "rx g = (w - cw) div 2 + overlay_x f * cw div pwidth f"
      "ry g = (h - ch) div 2 + overlay_y f * ch div pheight f"
      "rwidth g = (w - cw) div 2
        + ((overlay_x f + fwidth (overlay f)) * cw + (pwidth f - 1)) div pwidth f - rx g"
      "rheight g = (h - ch) div 2
        + ((overlay_y f + fheight (overlay f)) * ch + (pheight f - 1)) div pheight f - ry g"
    by (auto simp: overlay_geometry_def div_ceil_u128_def Let_def bind_eq_Some_conv split: if_splits)
  show "0 < rwidth g" "0 < rheight g"
    using g ceil_above_floor [OF pos(1,3) c(1), of "overlay_x f"]
      ceil_above_floor [OF pos(2,4) c(2), of "overlay_y f"] by linarith+
qed

lemma scaled_ok_None: "scaled_ok frame w h None"
  by (simp add: scaled_ok_def)

lemma scaled_ok_scale_overlay:
  assumes "presentation_ok f" "overlay_geometry f w h = Some g" "w * h * 4 < 2 ^ 32"
  obtains sc where "scale_overlay (overlay f) (rwidth g) (rheight g) = Some sc"
    "scaled_ok (Some f) w h (Some sc)"
proof -
  have g: "0 < rwidth g" "0 < rheight g" "rwidth g \<le> w" "rheight g \<le> h"
    using overlay_geometry_nonempty [OF assms(2,1)] overlay_geometry_within [OF assms(2,1)] by auto
  then have "rwidth g * rheight g * 4 \<le> w * h * 4" by (intro mult_le_mono) simp_all
  with assms(3) have "rwidth g * rheight g * 4 < 2 ^ 32" by linarith
  from scale_overlay_faithful [OF _ g(1,2) this] assms(1)
  obtain sc where sc: "scale_overlay (overlay f) (rwidth g) (rheight g) = Some sc"
    "fwidth sc = rwidth g"
    "\<And>x y. x < rwidth g \<Longrightarrow> y < rheight g
      \<Longrightarrow> \<exists>p q. slice4 (fpixels sc) ((y * rwidth g + x) * 4) = Some p
      \<and> filtered_pixel (overlay f) (position_samples (fwidth (overlay f)) (rwidth g) x)
          (position_samples (fheight (overlay f)) (rheight g) y) = Some q \<and> same_visible p q"
    unfolding presentation_ok_def by metis
  have "faithful_sample f w h g (cached_sample g sc)"
    unfolding faithful_sample_def
  proof (intro allI impI)
    fix x y assume i: "inside g x y"
    then have "x - rx g < rwidth g" "y - ry g < rheight g" by (auto simp: inside_def)
    from sc(3) [OF this] assms(2) i
    show "\<exists>p q. cached_sample g sc x y = Some p \<and> overlay_at (Some f) w h x y = Some q \<and> same_visible p q"
      unfolding cached_sample_def sc(2) overlay_at_def by simp
  qed
  with assms(2) sc(1) that show thesis by (simp add: scaled_ok_def)
qed

section \<open>Drawing as a whole\<close>

text \<open>
  The renderer as an interface for the runtime: drawing succeeds on a canvas of the right size
  and makes every pixel of the region the reference pixel, leaving the others alone.
\<close>

definition drawable :: "nat \<Rightarrow> nat \<Rightarrow> presentation_frame option \<Rightarrow> bool" where
  "drawable w h frame \<longleftrightarrow> pred_option presentation_ok frame \<and> w * h * 4 < 2 ^ 32
     \<and> w < 2 ^ 32 \<and> h < 2 ^ 32"

text \<open>What \<open>Surface::scaled_overlay\<close> returns: nothing, or the overlay scaled to its place.\<close>

definition scaled_of :: "presentation_frame option \<Rightarrow> nat \<Rightarrow> nat \<Rightarrow> rgba_frame option" where
  "scaled_of frame w h =
     Option.bind frame (\<lambda>f. Option.bind (overlay_geometry f w h) (\<lambda>g.
       scale_overlay (overlay f) (rwidth g) (rheight g)))"

lemma scaled_ok_scaled_of:
  assumes "drawable w h frame"
  shows "scaled_ok frame w h (scaled_of frame w h)"
proof (cases "\<exists>f g. frame = Some f \<and> overlay_geometry f w h = Some g")
  case True
  then obtain f g where f: "frame = Some f" "overlay_geometry f w h = Some g" by auto
  with assms obtain sc where "scale_overlay (overlay f) (rwidth g) (rheight g) = Some sc"
    "scaled_ok (Some f) w h (Some sc)"
    using scaled_ok_scale_overlay [of f w h g] by (auto simp: drawable_def)
  with f show ?thesis by (simp add: scaled_of_def)
next
  case False
  then show ?thesis by (auto simp: scaled_ok_def)
qed

lemma quads_pixel_at: "length t = 4 * (w * h) \<Longrightarrow> \<exists>p. quads p \<and> t = paint w h p"
proof (intro exI conjI)
  assume len: "length t = 4 * (w * h)"
  let ?p = "\<lambda>x y. if x < w \<and> y < h then pixel_at t w x y else replicate 4 0"
  have "length (pixel_at t w x y) = 4" if "x < w" "y < h" for x y
    using pixel_offset [OF that] len by (simp add: pixel_at_def mult.commute)
  then show "quads ?p" by simp
  show "t = paint w h ?p"
    using canvas_is_paint [OF len] by (subst canvas_is_paint [OF len]) (rule paint_cong, simp)
qed

lemma draw_region_total:
  assumes "drawable w h frame" "region_ok w h area" "length t = 4 * (w * h)"
    and "scaled_ok frame w h scaled"
  obtains t' where "draw_opaque_region_cached t w h frame scaled auth area = Some t'"
    "length t' = 4 * (w * h)"
    "\<And>x y. x < w \<Longrightarrow> y < h \<Longrightarrow> pixel_at t' w x y =
      (if inside area x y then shade w h frame auth x y else pixel_at t w x y)"
proof -
  obtain p where p: "quads p" "t = paint w h p" using quads_pixel_at [OF assms(3)] by auto
  let ?q = "over (inside area) (\<lambda>x y _. shade w h frame auth x y) p"
  have q: "quads ?q" using p(1) by (intro quads_over) auto
  have "draw_opaque_region_cached t w h frame scaled auth area = Some (paint w h ?q)"
    unfolding p(2) using assms p(1) by (intro draw_region_paint) (auto simp: drawable_def)
  then show thesis using q p that by (simp add: pixel_at_paint over_def)
qed

lemma canvas_eqI:
  assumes "length t = 4 * (w * h)" "length t' = 4 * (w * h)"
    "\<And>x y. x < w \<Longrightarrow> y < h \<Longrightarrow> pixel_at t w x y = pixel_at t' w x y"
  shows "t = t'"
proof -
  note canvas_is_paint [OF assms(1)]
  also have "paint w h (pixel_at t w) = paint w h (pixel_at t' w)" using assms(3) by (rule paint_cong)
  also note canvas_is_paint [OF assms(2), symmetric]
  finally show ?thesis .
qed

lemma inside_full: "inside (Region_full w h) x y \<longleftrightarrow> x < w \<and> y < h"
  by (simp add: inside_def Region_full_def)

lemma shade_outside_overlay:
  assumes "background f1 = background f2" "frame_geometry (Some f1) = frame_geometry (Some f2)"
    and "\<And>g. overlay_geometry f2 w h = Some g \<Longrightarrow> \<not> inside g x y"
  shows "shade w h (Some f1) auth x y = shade w h (Some f2) auth x y"
proof -
  have eqs: "pwidth f1 = pwidth f2" "pheight f1 = pheight f2" "overlay_x f1 = overlay_x f2"
    "overlay_y f1 = overlay_y f2" "fwidth (overlay f1) = fwidth (overlay f2)"
    "fheight (overlay f1) = fheight (overlay f2)"
    using assms(2) by (auto simp: frame_geometry_def)
  have "overlay_geometry f1 w h = overlay_geometry f2 w h"
    by (simp only: overlay_geometry_def fit_canvas_def eqs)
  with assms(3) have "overlay_at (Some f1) w h x y = None" "overlay_at (Some f2) w h x y = None"
    by (cases "overlay_geometry f2 w h"; simp add: overlay_at_def)+
  then show ?thesis using assms(1) by (simp add: shade_def the_sampler_def)
qed

section \<open>Properties\<close>

text \<open>
  C33. Drawing never panics, covers everything and is always opaque: for every frame the
  presentation can produce and every canvas within the size limits, a full draw succeeds, and
  every pixel is the reference pixel (background, dimmed and blended with the overlay on the
  authentication surface) with alpha 255, whatever the canvas held before.
\<close>

theorem draw_opaque_total:
  assumes "drawable w h frame" "length t = 4 * (w * h)" "scaled \<in> {None, scaled_of frame w h}"
  shows "\<exists>t'. draw_opaque_cached t w h frame scaled auth = Some t' \<and> length t' = 4 * (w * h)
    \<and> (\<forall>x < w. \<forall>y < h. pixel_at t' w x y = shade w h frame auth x y \<and> pixel_at t' w x y ! 3 = 255)"
proof -
  have "scaled_ok frame w h scaled"
    using assms(3) scaled_ok_None scaled_ok_scaled_of [OF assms(1)] by auto
  from draw_region_total [OF assms(1) region_ok_full assms(2) this]
  obtain t' where "draw_opaque_cached t w h frame scaled auth = Some t'" "length t' = 4 * (w * h)"
    "\<And>x y. x < w \<Longrightarrow> y < h \<Longrightarrow> pixel_at t' w x y = shade w h frame auth x y"
    unfolding draw_opaque_cached_def inside_full by metis
  moreover have "dimmed c ! 3 = 255" "undimmed c ! 3 = 255" for c by (cases c; simp)+
  then have "shade w h frame auth x y ! 3 = 255" for x y
    by (simp add: shade_def Let_def split: option.split)
  ultimately show ?thesis by auto
qed

theorem draw_opaque_total_witness:
  "\<exists>t'. draw_opaque_cached (replicate 8 0) 2 1 None None False = Some t'
    \<and> pixel_at t' 2 1 0 = [24, 9, 5, 255]"
proof -
  have "shade 2 1 None False 1 0 = [24, 9, 5, 255]"
    by (simp add: shade_def bg_at_def the_sampler_def BackgroundSampler_new_def no_background_def
        source_row_def background_pixel_def FALLBACK_RGB_def)
  then show ?thesis
    using draw_opaque_total [of 2 1 None "replicate 8 0" None False] by (auto simp: drawable_def)
qed

text \<open>
  C34. Incremental redraws are exact: when a canvas holds a full drawing of an earlier frame and
  only overlay pixels changed since (same background, same geometry), redrawing just the overlay's
  region gives the very bytes a full redraw of the new frame would have given.
\<close>

theorem partial_redraw_exact:
  assumes "drawable w h (Some old)" "drawable w h (Some new)" "length t = 4 * (w * h)"
    and "background old = background new" "frame_geometry (Some old) = frame_geometry (Some new)"
    and "draw_opaque_cached t w h (Some old) (scaled_of (Some old) w h) auth = Some drawn"
  shows "draw_opaque_region_cached drawn w h (Some new) (scaled_of (Some new) w h) auth
      (redraw_region OverlayRedraw generation generation (Some new) w h)
    = draw_opaque_cached t w h (Some new) (scaled_of (Some new) w h) auth"
proof -
  let ?r = "redraw_region OverlayRedraw generation generation (Some new) w h"
  have r: "region_ok w h ?r"
    "\<And>g. overlay_geometry new w h = Some g \<Longrightarrow> ?r = g"
    "overlay_geometry new w h = None \<Longrightarrow> ?r = Region_full w h"
    using overlay_geometry_within [of new w h] assms(2)
    by (auto simp: redraw_region_def overlay_region_def region_ok_def drawable_def Region_full_def
        split: option.split)
  obtain d where d: "draw_opaque_cached t w h (Some old) (scaled_of (Some old) w h) auth = Some d"
    "length d = 4 * (w * h)"
    "\<And>x y. x < w \<Longrightarrow> y < h \<Longrightarrow> pixel_at d w x y = shade w h (Some old) auth x y"
    using draw_region_total [OF assms(1) region_ok_full assms(3) scaled_ok_scaled_of [OF assms(1)]]
    unfolding draw_opaque_cached_def inside_full by metis
  obtain n where n: "draw_opaque_cached t w h (Some new) (scaled_of (Some new) w h) auth = Some n"
    "length n = 4 * (w * h)"
    "\<And>x y. x < w \<Longrightarrow> y < h \<Longrightarrow> pixel_at n w x y = shade w h (Some new) auth x y"
    using draw_region_total [OF assms(2) region_ok_full assms(3) scaled_ok_scaled_of [OF assms(2)]]
    unfolding draw_opaque_cached_def inside_full by metis
  obtain m where m: "draw_opaque_region_cached d w h (Some new) (scaled_of (Some new) w h) auth ?r = Some m"
    "length m = 4 * (w * h)"
    "\<And>x y. x < w \<Longrightarrow> y < h \<Longrightarrow> pixel_at m w x y =
      (if inside ?r x y then shade w h (Some new) auth x y else pixel_at d w x y)"
    using draw_region_total [OF assms(2) r(1) d(2) scaled_ok_scaled_of [OF assms(2)]] by metis
  have "pixel_at m w x y = pixel_at n w x y" if xy: "x < w" "y < h" for x y
  proof (cases "inside ?r x y")
    case False
    then have "shade w h (Some old) auth x y = shade w h (Some new) auth x y"
      using r(2,3) xy by (intro shade_outside_overlay [OF assms(4,5)]) (auto simp: inside_full)
    with False m(3) n(3) d(3) xy show ?thesis by simp
  qed (use m(3) n(3) xy in simp)
  then have "m = n" by (rule canvas_eqI [OF m(2) n(2)])
  with d(1) m(1) n(1) assms(6) show ?thesis by simp
qed

definition dot :: "u8 list \<Rightarrow> presentation_frame" where
  "dot px = \<lparr>pwidth = 1, pheight = 1, background = None,
     overlay = \<lparr>fwidth = 1, fheight = 1, fpixels = px\<rparr>, overlay_x = 0, overlay_y = 0\<rparr>"

theorem partial_redraw_exact_witness:
  "\<exists>drawn. draw_opaque_cached (replicate 4 0) 1 1 (Some (dot [1, 2, 3, 0]))
      (scaled_of (Some (dot [1, 2, 3, 0])) 1 1) True = Some drawn
    \<and> draw_opaque_region_cached drawn 1 1 (Some (dot [9, 9, 9, 255]))
        (scaled_of (Some (dot [9, 9, 9, 255])) 1 1) True
        (redraw_region OverlayRedraw 7 7 (Some (dot [9, 9, 9, 255])) 1 1)
      = draw_opaque_cached (replicate 4 0) 1 1 (Some (dot [9, 9, 9, 255]))
        (scaled_of (Some (dot [9, 9, 9, 255])) 1 1) True"
proof -
  have dr: "drawable 1 1 (Some (dot [a, b, c, d]))" for a b c d
    by (simp add: drawable_def presentation_ok_def frame_ok_def dot_def)
  have len: "length (replicate 4 (0 :: u8)) = 4 * (1 * 1)" by simp
  obtain drawn where "draw_opaque_cached (replicate 4 0) 1 1 (Some (dot [1, 2, 3, 0]))
      (scaled_of (Some (dot [1, 2, 3, 0])) 1 1) True = Some drawn"
    unfolding draw_opaque_cached_def
    by (rule draw_region_total [OF dr [of 1 2 3 0] region_ok_full len scaled_ok_scaled_of [OF dr [of 1 2 3 0]]])
  with partial_redraw_exact [OF dr [of 1 2 3 0] dr [of 9 9 9 255], of "replicate 4 0" True drawn 7]
  show ?thesis by (auto simp: dot_def frame_geometry_def)
qed

text \<open>
  Scaling the overlay once and reusing it changes nothing: drawing with the cached scaled
  overlay and filtering every pixel anew give the same bytes.
\<close>

theorem cached_overlay_exact:
  assumes "drawable w h frame" "region_ok w h area" "length t = 4 * (w * h)"
  shows "draw_opaque_region_cached t w h frame (scaled_of frame w h) auth area
    = draw_opaque_region_cached t w h frame None auth area"
proof -
  obtain p where p: "quads p" "t = paint w h p" using quads_pixel_at [OF assms(3)] by auto
  show ?thesis
    unfolding p(2) using assms p(1) scaled_ok_scaled_of [OF assms(1)] scaled_ok_None
    by (simp add: draw_region_paint drawable_def)
qed

theorem cached_overlay_exact_witness:
  "draw_opaque_region_cached (replicate 4 0) 1 1 (Some (dot [9, 9, 9, 255]))
      (scaled_of (Some (dot [9, 9, 9, 255])) 1 1) True (Region_full 1 1)
    = draw_opaque_region_cached (replicate 4 0) 1 1 (Some (dot [9, 9, 9, 255])) None True
      (Region_full 1 1)"
  by (rule cached_overlay_exact)
    (simp_all add: drawable_def presentation_ok_def frame_ok_def dot_def region_ok_def Region_full_def)

text \<open>
  Resampling is a weighted mean: for every position of a filtered axis (enlarged, kept or
  reduced) the lookup succeeds, all samples lie in the source, and the integer weights add up to
  exactly 65536, so rounding never brightens, darkens or reads outside the overlay.
\<close>

theorem filtered_axis_weights:
  assumes "0 < source" "pos < target" "filtered_axis source target = Some axis"
  shows "\<exists>xs. axis_coordinate axis pos = Some xs \<and> sum_list (map weight xs) = FILTER_SCALE
    \<and> list_all (\<lambda>x. sindex x < source) xs"
  using axis_coordinate_filtered [OF assms(3,2)] position_weights [OF assms(1,2)]
  by (simp add: list_all_iff)

theorem filtered_axis_weights_witness:
  "\<exists>xs. axis_coordinate (the (filtered_axis 5 2)) 1 = Some xs \<and> sum_list (map weight xs) = 65536"
  using filtered_axis_weights [of 5 1 2 "the (filtered_axis 5 2)"]
  by (auto simp: filtered_axis_def FILTER_SCALE_def)

text \<open>
  Blending and dimming stay in range: the 16-bit products and sums never wrap, the blended
  channel is the exact weighted mean rounded down and lies between the two inputs, and dimming is
  exactly four fifths, rounded down.
\<close>

theorem blend_exact:
  "unat (blend_channel a f b) = (unat f * unat a + unat b * (255 - unat a)) div 255
    \<and> min (unat f) (unat b) \<le> unat (blend_channel a f b)
    \<and> unat (blend_channel a f b) \<le> max (unat f) (unat b)
    \<and> unat (dim f) = unat f * 4 div 5"
proof -
  let ?n = "unat f * unat a + unat b * (255 - unat a)"
  have a: "unat a + (255 - unat a) = 255" using u8_le_255 [of a] by simp
  have "min (unat f) (unat b) * 255 \<le> ?n"
  proof -
    have "min (unat f) (unat b) * 255 = min (unat f) (unat b) * unat a
        + min (unat f) (unat b) * (255 - unat a)" by (metis a distrib_left)
    also have "\<dots> \<le> ?n" by (intro add_mono mult_right_mono) auto
    finally show ?thesis .
  qed
  then have "min (unat f) (unat b) \<le> ?n div 255" by (simp add: less_eq_div_iff_mult_less_eq)
  moreover have "?n \<le> max (unat f) (unat b) * 255"
  proof -
    have "?n \<le> max (unat f) (unat b) * unat a + max (unat f) (unat b) * (255 - unat a)"
      by (intro add_mono mult_right_mono) auto
    also have "\<dots> = max (unat f) (unat b) * 255" by (metis a distrib_left)
    finally show ?thesis .
  qed
  then have "?n div 255 \<le> max (unat f) (unat b)"
    using div_le_mono [of ?n "max (unat f) (unat b) * 255" 255] by simp
  ultimately show ?thesis by (simp add: unat_blend_channel unat_dim)
qed

end
