(* ===== verification/Lock_Runtime.thy ===== *)
theory Lock_Runtime
  imports Lock_Render Output_Selection Machines
begin

text \<open>
  The session-lock runtime (\<open>crates/session-lock/src/lib.rs\<close>, \<open>runtime.rs\<close>): the lock's life
  cycle, the surfaces with their buffers, redraw scheduling, the hand-over of the authentication
  surface between outputs, and the event loop.

  The compositor and the Wayland libraries are the environment: their events are the inputs of a
  machine, and the results of the calls the runtime makes to them (allocating a pool, attaching a
  buffer, obtaining presentation feedback, the final round trip, writing to a readiness pipe) are
  part of the input, so every theorem holds for all of them. What the runtime does to the outside
  is recorded in the field \<open>wire\<close>. The \<open>Presentation\<close> trait object is a value of type \<open>'p\<close> with
  a record of operations. Features that exist only for tests are left out, as are the texts of
  error messages.
\<close>

section \<open>Life cycle\<close>

datatype lifecycle = Requesting | Locked | Denied | Aborted | Unlocking

datatype lock_event = LockConfirmed | LockFinishedEv | RuntimeFailed | PresentationFailed

datatype action = NoAction | ReportReady | Abort | UnlockAndSynchronize

record lock_state =
  lifecycle :: lifecycle
  presentation_failed :: bool

definition State_new :: lock_state where
  "State_new = \<lparr>lifecycle = Requesting, presentation_failed = False\<rparr>"

fun state_update :: "lock_state \<Rightarrow> lock_event \<Rightarrow> lock_state \<times> action" where
  "state_update s LockConfirmed =
     (if lifecycle s = Requesting then (s\<lparr>lifecycle := Locked\<rparr>, ReportReady) else (s, NoAction))"
| "state_update s LockFinishedEv =
     (if lifecycle s = Requesting then (s\<lparr>lifecycle := Denied\<rparr>, Abort)
      else (s\<lparr>lifecycle := Aborted\<rparr>, Abort))"
| "state_update s RuntimeFailed = (s\<lparr>lifecycle := Aborted\<rparr>, Abort)"
| "state_update s PresentationFailed = (s\<lparr>presentation_failed := True\<rparr>, NoAction)"

definition authorize_unlock :: "lock_state \<Rightarrow> lock_state \<times> action" where
  "authorize_unlock s =
     (if lifecycle s \<noteq> Locked then (s, NoAction)
      else (s\<lparr>lifecycle := Unlocking\<rparr>, UnlockAndSynchronize))"

definition lock_confirmation_action :: "lock_state \<Rightarrow> bool \<Rightarrow> lock_state \<times> action" where
  "lock_confirmation_action s blocked =
     (if blocked then (s, NoAction) else state_update s LockConfirmed)"

section \<open>The presentation interface\<close>

datatype refresh = RUnchanged | RFrame | ROverlay | RFailed

datatype key_input = KText ustring | KBackspace | KSubmit | KCancel | KNextPage

record 'p presentation_ops =
  p_receive_latest :: "'p \<Rightarrow> 'p \<times> refresh"
  p_receive_deferred :: "'p \<Rightarrow> 'p \<times> refresh"
  p_frame :: "'p \<Rightarrow> presentation_frame option"
  p_lock_confirmed :: "'p \<Rightarrow> 'p"
  p_input :: "'p \<Rightarrow> key_input \<Rightarrow> 'p \<times> bool"
  p_take_authorization :: "'p \<Rightarrow> 'p \<times> bool"

definition record_presentation_failure :: "refresh \<Rightarrow> lock_state \<Rightarrow> lock_state" where
  "record_presentation_failure refresh s =
     (if refresh = RFailed then fst (state_update s PresentationFailed) else s)"

section \<open>Redraw scheduling\<close>

definition BUFFER_COUNT :: nat where "BUFFER_COUNT = 2"

record redraw_state =
  frame_pending :: bool
  redraw_pending :: "redraw_kind option"
  geometry_pending :: bool
  role_pending :: bool

definition redraw_request :: "redraw_kind \<Rightarrow> redraw_state \<Rightarrow> redraw_state \<times> bool" where
  "redraw_request kind r =
     (let r = (if redraw_pending r \<noteq> Some FullRedraw then r\<lparr>redraw_pending := Some kind\<rparr> else r)
      in (r, \<not> frame_pending r))"

definition request_geometry :: "redraw_state \<Rightarrow> redraw_state" where
  "request_geometry r = r\<lparr>redraw_pending := Some FullRedraw, geometry_pending := True\<rparr>"

definition request_role_change :: "redraw_state \<Rightarrow> redraw_state" where
  "request_role_change r =
     r\<lparr>redraw_pending := Some FullRedraw, geometry_pending := True, role_pending := True\<rparr>"

definition request_media :: "redraw_state \<Rightarrow> redraw_state \<times> bool" where
  "request_media r =
     (if redraw_pending r = Some OverlayRedraw then (r, False) else redraw_request FullRedraw r)"

definition redraw_can_progress :: "nat \<Rightarrow> bool \<Rightarrow> bool" where
  "redraw_can_progress current_buffer_count reusable \<longleftrightarrow>
     reusable \<or> current_buffer_count < BUFFER_COUNT"

definition should_render :: "redraw_state \<Rightarrow> nat \<Rightarrow> bool \<Rightarrow> bool" where
  "should_render r current_buffer_count reusable \<longleftrightarrow>
     redraw_pending r \<noteq> None
     \<and> (geometry_pending r
        \<or> (\<not> frame_pending r \<and> redraw_can_progress current_buffer_count reusable))"

definition request_frame_callback :: "redraw_state \<Rightarrow> bool" where
  "request_frame_callback r \<longleftrightarrow> \<not> frame_pending r"

definition redraw_committed :: "bool \<Rightarrow> redraw_state \<Rightarrow> redraw_state" where
  "redraw_committed requested_frame_callback r =
     r\<lparr>redraw_pending := None, geometry_pending := False, role_pending := False,
       frame_pending := frame_pending r \<or> requested_frame_callback\<rparr>"

definition frame_done :: "redraw_state \<Rightarrow> redraw_state" where
  "frame_done r = r\<lparr>frame_pending := False\<rparr>"

datatype overlay_progress = OPNone | OPPartial | OPFull | OPBlocked

definition overlay_progress :: "redraw_state \<Rightarrow> nat \<Rightarrow> bool \<Rightarrow> bool \<Rightarrow> bool \<Rightarrow> overlay_progress" where
  "overlay_progress r buffer_count reusable current_background_reusable include_pending_full =
     (if redraw_pending r = Some FullRedraw \<and> include_pending_full then
        (if should_render r buffer_count reusable then OPFull else OPBlocked)
      else if redraw_pending r \<noteq> Some OverlayRedraw then OPNone
      else if \<not> should_render r buffer_count reusable then OPBlocked
      else if geometry_pending r \<or> \<not> current_background_reusable then OPFull
      else OPPartial)"

record progress_summary =
  partial :: bool
  full :: bool
  blocked :: bool
  unblocked :: bool

definition should_poll_deferred :: "refresh \<Rightarrow> progress_summary \<Rightarrow> bool" where
  "should_poll_deferred priority progress =
     (case priority of
        RUnchanged \<Rightarrow>
          if blocked progress then unblocked progress else \<not> partial progress \<or> full progress
      | ROverlay \<Rightarrow> full progress \<or> (blocked progress \<and> unblocked progress)
      | RFrame \<Rightarrow> False
      | RFailed \<Rightarrow> False)"

definition should_allow_overlay_full :: "bool \<Rightarrow> progress_summary \<Rightarrow> bool" where
  "should_allow_overlay_full poll_deferred progress \<longleftrightarrow> poll_deferred \<or> full progress"

definition select_reusable_buffer :: "redraw_kind \<Rightarrow> u64 \<Rightarrow> (nat \<times> u64) list \<Rightarrow> nat option" where
  "select_reusable_buffer requested background_generation reusable =
     (let first = (case reusable of [] \<Rightarrow> None | (index, _) # _ \<Rightarrow> Some index) in
      if requested = OverlayRedraw then
        (case find (\<lambda>(_, generation). generation = background_generation) reusable of
           Some (index, _) \<Rightarrow> Some index
         | None \<Rightarrow> first)
      else first)"

section \<open>Handing over the authentication surface\<close>

definition AUTHENTICATION_RETIREMENT_TIMEOUT :: nat where
  "AUTHENTICATION_RETIREMENT_TIMEOUT = 1000000000"

datatype retirement = AwaitingCommit (deadline: nat) | AwaitingPresentation (deadline: nat)

definition retirement_begin :: "nat \<Rightarrow> retirement" where
  "retirement_begin now = AwaitingCommit (now + AUTHENTICATION_RETIREMENT_TIMEOUT)"

fun retirement_committed :: "retirement \<Rightarrow> retirement" where
  "retirement_committed (AwaitingCommit d) = AwaitingPresentation d"
| "retirement_committed r = r"

fun retirement_discarded :: "retirement \<Rightarrow> retirement" where
  "retirement_discarded (AwaitingPresentation d) = AwaitingCommit d"
| "retirement_discarded r = r"

fun accepts_presentation :: "retirement \<Rightarrow> bool" where
  "accepts_presentation (AwaitingPresentation d) = True"
| "accepts_presentation r = False"

definition retirement_expired :: "retirement \<Rightarrow> nat \<Rightarrow> bool" where
  "retirement_expired r now \<longleftrightarrow> deadline r \<le> now"

text \<open>
  \<open>select_authentication_index\<close>: the preferred output when it is configured, otherwise the
  configured output that already has the role, otherwise the preferred configured one.
\<close>

definition select_authentication_index ::
  "(ustring option \<times> bool \<times> bool) list \<Rightarrow> ustring option \<Rightarrow> nat option" where
  "select_authentication_index outputs requested =
     (let enumerated = zip [0..<length outputs] outputs;
          named = map (\<lambda>(index, name, _, _). (index, name));
          desired = select (named enumerated) requested;
          fallback =
            (case position (\<lambda>(_, configured, auth). configured \<and> auth) outputs of
               Some i \<Rightarrow> Some i
             | None \<Rightarrow>
                 select (named (filter (\<lambda>(_, _, configured, _). configured) enumerated)) requested)
      in case desired of
           Some index \<Rightarrow> if fst (snd (outputs ! index)) then desired else fallback
         | None \<Rightarrow> fallback)"

section \<open>Surfaces and the runtime\<close>

record cached_overlay =
  cache_source :: rgba_frame
  cache_size :: "nat \<times> nat"
  cache_frame :: rgba_frame

text \<open>
  \<open>CachedOverlay::matches\<close> compares the address of the pixel data, which the cache keeps alive, so
  a match means equal pixels; frames with equal pixels at different addresses are rescaled to an
  equal result. Comparing the frames themselves gives the same overlay in either case.
\<close>

definition cache_matches :: "cached_overlay \<Rightarrow> rgba_frame \<Rightarrow> nat \<times> nat \<Rightarrow> bool" where
  "cache_matches c source dims \<longleftrightarrow> cache_size c = dims \<and> cache_source c = source"

text \<open>
  A buffer is \<open>active\<close> from the moment it is attached until the compositor releases it;
  \<open>SlotPool::canvas\<close> gives access to the pixels of an inactive buffer only.
\<close>

record surface_buffer =
  b_size :: "nat \<times> nat"
  b_geometry_generation :: u64
  b_role_generation :: u64
  b_background_generation :: u64
  b_canvas :: "u8 list"
  b_active :: bool

record surface =
  s_output :: nat
  output_name :: "ustring option"
  wl_surface :: nat
  s_size :: "(nat \<times> nat) option"
  s_scale :: int
  geometry_generation :: u64
  role_generation :: u64
  buffers :: "surface_buffer list"
  overlay_cache :: "cached_overlay option"
  authentication :: bool
  redraw :: redraw_state
  first_presented :: bool

datatype lock_error = ConnectError | MissingProtocol | RuntimeError | LockFinished

datatype wire_effect =
    ReadyWritten nat
  | Committed nat bool "u8 list"
  | Unlocked

record 'p runtime =
  ops :: "'p presentation_ops"
  output_state :: "(nat \<times> ustring option) list"
  keyboards :: "(nat \<times> nat) list"
  next_surface :: nat
  session_lock :: bool
  surfaces :: "surface list"
  rt_state :: lock_state
  presentation :: 'p
  presentation_geometry :: "frame_geom option"
  background_generation :: u64
  authentication_output :: "ustring option"
  retiring_authentication :: "nat option"
  authentication_retirement :: "retirement option"
  retirement_feedback :: "nat option"
  ready :: "nat list"
  failure :: "lock_error option"
  terminate :: bool
  panicked :: bool
  wire :: "wire_effect list"

definition current_frame :: "'p runtime \<Rightarrow> presentation_frame option" where
  "current_frame rt = p_frame (ops rt) (presentation rt)"

definition fail :: "lock_error \<Rightarrow> 'p runtime \<Rightarrow> 'p runtime" where
  "fail error rt =
     rt\<lparr>rt_state := fst (state_update (rt_state rt) RuntimeFailed),
        failure := (case failure rt of None \<Rightarrow> Some error | Some e \<Rightarrow> Some e),
        terminate := True\<rparr>"

definition record_full_frame :: "'p runtime \<Rightarrow> 'p runtime" where
  "record_full_frame rt =
     rt\<lparr>presentation_geometry := frame_geometry (current_frame rt),
        background_generation := background_generation rt + 1\<rparr>"

definition classify_overlay_redraw :: "'p runtime \<Rightarrow> 'p runtime \<times> redraw_kind" where
  "classify_overlay_redraw rt =
     (let current = frame_geometry (current_frame rt);
          kind = overlay_redraw_kind (presentation_geometry rt) current
      in (if kind = FullRedraw
          then rt\<lparr>presentation_geometry := current,
                  background_generation := background_generation rt + 1\<rparr>
          else rt, kind))"

definition redraw_surface :: "(redraw_state \<Rightarrow> redraw_state) \<Rightarrow> surface \<Rightarrow> surface" where
  "redraw_surface f s = s\<lparr>redraw := f (redraw s)\<rparr>"

definition redraw_all_surfaces :: "redraw_kind \<Rightarrow> 'p runtime \<Rightarrow> 'p runtime" where
  "redraw_all_surfaces kind rt =
     rt\<lparr>surfaces := map (\<lambda>s. if s_size s \<noteq> None \<and> (kind = FullRedraw \<or> authentication s)
                            then redraw_surface (\<lambda>r. fst (redraw_request kind r)) s else s)
                     (surfaces rt)\<rparr>"

definition redraw_media :: "'p runtime \<Rightarrow> 'p runtime" where
  "redraw_media rt =
     (if terminate rt then rt
      else rt\<lparr>surfaces := map (\<lambda>s. if s_size s \<noteq> None
                                  then redraw_surface (\<lambda>r. fst (request_media r)) s else s)
                           (surfaces rt)\<rparr>)"

definition apply_refresh :: "refresh \<Rightarrow> 'p runtime \<Rightarrow> 'p runtime" where
  "apply_refresh refresh rt =
     (case refresh of
        RUnchanged \<Rightarrow> rt
      | RFrame \<Rightarrow> redraw_media (record_full_frame rt)
      | ROverlay \<Rightarrow> (case classify_overlay_redraw rt of (rt, kind) \<Rightarrow> redraw_all_surfaces kind rt)
      | RFailed \<Rightarrow> redraw_media (record_full_frame rt))"

definition set_authentication :: "nat \<Rightarrow> bool \<Rightarrow> 'p runtime \<Rightarrow> 'p runtime" where
  "set_authentication index auth rt =
     (let s = surfaces rt ! index in
      if authentication s = auth then rt
      else
        (let s = s\<lparr>authentication := auth, overlay_cache := None,
                   role_generation := role_generation s + 1\<rparr>;
             s = (if s_size s \<noteq> None then redraw_surface request_role_change s else s)
         in rt\<lparr>surfaces := (surfaces rt)[index := s]\<rparr>))"

definition refresh_authentication_output :: "nat \<Rightarrow> 'p runtime \<Rightarrow> 'p runtime" where
  "refresh_authentication_output now rt =
     (let candidates = map (\<lambda>s. (output_name s, s_size s \<noteq> None, authentication s)) (surfaces rt);
          selected = select_authentication_index candidates (authentication_output rt)
      in if retiring_authentication rt \<noteq> None then rt
         else
           (let current = position authentication (surfaces rt) in
            if current = selected then rt
            else
              (case current of
                 Some c \<Rightarrow>
                   set_authentication c False
                     (rt\<lparr>retiring_authentication := Some (s_output (surfaces rt ! c)),
                         authentication_retirement := Some (retirement_begin now),
                         retirement_feedback := None\<rparr>)
               | None \<Rightarrow>
                   (case selected of
                      Some i \<Rightarrow> set_authentication i True rt
                    | None \<Rightarrow> rt))))"

definition expire_authentication_retirement :: "nat \<Rightarrow> nat \<Rightarrow> 'p runtime \<Rightarrow> 'p runtime" where
  "expire_authentication_retirement now now' rt =
     (if \<not> (case authentication_retirement rt of
               None \<Rightarrow> False | Some r \<Rightarrow> retirement_expired r now) then rt
      else
        (let retiring = retiring_authentication rt;
             rt = rt\<lparr>retirement_feedback := None, authentication_retirement := None,
                     retiring_authentication := None\<rparr>
         in case Option.bind retiring (\<lambda>out.
                   position (\<lambda>s. s_output s = out \<and> s_size s \<noteq> None) (surfaces rt)) of
              Some index \<Rightarrow> set_authentication index True rt
            | None \<Rightarrow> refresh_authentication_output now' rt))"

definition new_surface :: "nat \<Rightarrow> ustring option \<Rightarrow> nat \<Rightarrow> surface" where
  "new_surface out name wl =
     \<lparr>s_output = out, output_name = name, wl_surface = wl, s_size = None, s_scale = 1,
      geometry_generation = 0, role_generation = 0, buffers = [], overlay_cache = None,
      authentication = False,
      redraw = \<lparr>frame_pending = False, redraw_pending = Some FullRedraw,
                geometry_pending = False, role_pending = False\<rparr>,
      first_presented = False\<rparr>"

definition add_surface :: "nat \<Rightarrow> nat \<Rightarrow> 'p runtime \<Rightarrow> lock_error + 'p runtime" where
  "add_surface now out rt =
     (if list_ex (\<lambda>s. s_output s = out) (surfaces rt) then Inr rt
      else if \<not> session_lock rt then Inl RuntimeError
      else
        (let name = Option.bind (map_of (output_state rt) out) id;
             rt = rt\<lparr>surfaces := surfaces rt @ [new_surface out name (next_surface rt)],
                     next_surface := next_surface rt + 1\<rparr>
         in Inr (refresh_authentication_output now rt)))"

text \<open>Calls that stop at the first error leave the effects of the earlier ones behind.\<close>

fun add_surfaces :: "nat \<Rightarrow> nat list \<Rightarrow> 'p runtime \<Rightarrow> 'p runtime \<times> lock_error option" where
  "add_surfaces now [] rt = (rt, None)"
| "add_surfaces now (out # outs) rt =
     (case add_surface now out rt of
        Inl e \<Rightarrow> (rt, Some e)
      | Inr rt \<Rightarrow> add_surfaces now outs rt)"

definition reconcile_outputs :: "nat \<Rightarrow> 'p runtime \<Rightarrow> 'p runtime \<times> lock_error option" where
  "reconcile_outputs now rt =
     (if terminate rt then (rt, None) else add_surfaces now (map fst (output_state rt)) rt)"

section \<open>Rendering a surface\<close>

text \<open>What the environment answers while a surface is rendered.\<close>

record render_env =
  pool_ok :: bool
  create_ok :: bool
  fresh_canvas :: "nat \<Rightarrow> u8 list"
  feedback :: "nat option"
  attach_ok :: bool

definition configured_size :: "surface \<Rightarrow> (size_error + nat \<times> nat) option" where
  "configured_size s =
     map_option (\<lambda>(width, height). buffer_size width height (nat (max (s_scale s) 1))) (s_size s)"

text \<open>\<open>Surface::scaled_overlay\<close>; the outer \<open>None\<close> is a panic while scaling.\<close>

definition scaled_overlay ::
  "presentation_frame option \<Rightarrow> nat \<Rightarrow> nat \<Rightarrow> surface \<Rightarrow> (surface \<times> rgba_frame option) option" where
  "scaled_overlay frame width height s =
     (if \<not> authentication s then Some (s\<lparr>overlay_cache := None\<rparr>, None)
      else
        (case frame of
           None \<Rightarrow> Some (s, None)
         | Some f \<Rightarrow>
             (case overlay_geometry f width height of
                None \<Rightarrow> Some (s, None)
              | Some target \<Rightarrow>
                  (let dims = (rwidth target, rheight target) in
                   case overlay_cache s of
                     Some c \<Rightarrow>
                       if cache_matches c (overlay f) dims then Some (s, Some (cache_frame c))
                       else
                         map_option
                           (\<lambda>sc. (s\<lparr>overlay_cache := Some \<lparr>cache_source = overlay f,
                                      cache_size = dims, cache_frame = sc\<rparr>\<rparr>, Some sc))
                           (scale_overlay (overlay f) (rwidth target) (rheight target))
                   | None \<Rightarrow>
                       map_option
                         (\<lambda>sc. (s\<lparr>overlay_cache := Some \<lparr>cache_source = overlay f,
                                    cache_size = dims, cache_frame = sc\<rparr>\<rparr>, Some sc))
                         (scale_overlay (overlay f) (rwidth target) (rheight target))))))"

definition retain_buffers :: "nat \<times> nat \<Rightarrow> surface \<Rightarrow> surface" where
  "retain_buffers dims s =
     s\<lparr>buffers := filter (\<lambda>b. b_size b = dims
                            \<and> b_geometry_generation b = geometry_generation s
                            \<and> b_role_generation b = role_generation s) (buffers s)\<rparr>"

definition reusable_buffers :: "nat \<times> nat \<Rightarrow> surface \<Rightarrow> (nat \<times> u64) list" where
  "reusable_buffers dims s =
     map (\<lambda>(i, b). (i, b_background_generation b))
       (filter (\<lambda>(_, b). b_size b = dims \<and> \<not> b_active b) (zip [0..<length (buffers s)] (buffers s)))"

datatype prepared =
    Prepared surface nat
  | NoBuffer surface
  | PrepareError surface lock_error
  | DrawPanic

text \<open>Drawing into a reusable buffer, or into a new one when there is none.\<close>

definition draw_reused ::
  "presentation_frame option \<Rightarrow> u64 \<Rightarrow> redraw_kind \<Rightarrow> nat \<times> nat \<Rightarrow> rgba_frame option \<Rightarrow> surface
     \<Rightarrow> nat \<Rightarrow> prepared" where
  "draw_reused frame generation requested dims scaled s i =
     (let b = buffers s ! i; w = fst dims; h = snd dims;
          full_redraw = requested = FullRedraw \<or> b_background_generation b \<noteq> generation;
          damaged = redraw_region requested (b_background_generation b) generation frame w h;
          drawn = (if \<not> full_redraw
                   then draw_opaque_region_cached (b_canvas b) w h frame scaled (authentication s)
                          damaged
                   else draw_opaque_cached (b_canvas b) w h frame scaled (authentication s))
      in case drawn of
           None \<Rightarrow> DrawPanic
         | Some t \<Rightarrow>
             Prepared (s\<lparr>buffers := (buffers s)[i := b\<lparr>b_canvas := t,
               b_background_generation :=
                 (if full_redraw then generation else b_background_generation b)\<rparr>]\<rparr>) i)"

definition draw_fresh ::
  "render_env \<Rightarrow> presentation_frame option \<Rightarrow> u64 \<Rightarrow> nat \<times> nat \<Rightarrow> nat \<Rightarrow> rgba_frame option
     \<Rightarrow> surface \<Rightarrow> prepared" where
  "draw_fresh env frame generation dims bytes scaled s =
     (if BUFFER_COUNT \<le> length (buffers s) then NoBuffer s
      else if aligned_buffer_capacity bytes = None \<or> \<not> pool_ok env \<or> \<not> create_ok env
        then PrepareError s RuntimeError
      else
        (case draw_opaque_cached (fresh_canvas env bytes) (fst dims) (snd dims) frame scaled
                (authentication s) of
           None \<Rightarrow> DrawPanic
         | Some t \<Rightarrow>
             Prepared (s\<lparr>buffers := buffers s @ [\<lparr>b_size = dims,
                 b_geometry_generation = geometry_generation s,
                 b_role_generation = role_generation s,
                 b_background_generation = generation, b_canvas = t, b_active = False\<rparr>]\<rparr>)
               (length (buffers s))))"

datatype render_result = Rendered | RenderError lock_error | RenderPanic

definition put_surface :: "nat \<Rightarrow> surface \<Rightarrow> 'p runtime \<Rightarrow> 'p runtime" where
  "put_surface index s rt = rt\<lparr>surfaces := (surfaces rt)[index := s]\<rparr>"

text \<open>The presentation feedback for the retiring surface could not be obtained: keep the role.\<close>

definition keep_role :: "nat \<Rightarrow> surface \<Rightarrow> 'p runtime \<Rightarrow> 'p runtime" where
  "keep_role index s rt =
     (put_surface index (redraw_surface request_role_change
        (s\<lparr>authentication := True, overlay_cache := None,
           role_generation := role_generation s + 1\<rparr>)) rt)
       \<lparr>retiring_authentication := None, authentication_retirement := None,
        retirement_feedback := None\<rparr>"

definition commit_surface ::
  "render_env \<Rightarrow> bool \<Rightarrow> nat \<Rightarrow> surface \<Rightarrow> nat \<Rightarrow> 'p runtime \<Rightarrow> 'p runtime \<times> render_result" where
  "commit_surface env retiring index s i rt =
     (if \<not> attach_ok env then (put_surface index s rt, RenderError RuntimeError)
      else
        (let b = buffers s ! i;
             s = s\<lparr>buffers := (buffers s)[i := b\<lparr>b_active := True\<rparr>]\<rparr>;
             s = redraw_surface (\<lambda>r. redraw_committed (request_frame_callback r) r) s;
             s = s\<lparr>first_presented := True\<rparr>;
             rt = put_surface index s rt;
             rt = rt\<lparr>wire := wire rt @ [Committed (s_output s) (authentication s) (b_canvas b)]\<rparr>
         in (if retiring
             then rt\<lparr>authentication_retirement :=
                      map_option retirement_committed (authentication_retirement rt)\<rparr>
             else rt, Rendered)))"

definition render :: "render_env \<Rightarrow> nat \<Rightarrow> 'p runtime \<Rightarrow> 'p runtime \<times> render_result" where
  "render env index rt =
     (let s = surfaces rt ! index in
      case configured_size s of
        None \<Rightarrow> (rt, RenderError RuntimeError)
      | Some (Inl _) \<Rightarrow> (rt, RenderError RuntimeError)
      | Some (Inr (w, h)) \<Rightarrow>
          (case Option.bind (checked_mul 32 w h) (\<lambda>n.
                  if n \<le> MAX_SURFACE_PIXELS then checked_mul 64 n 4 else None) of
             None \<Rightarrow> (rt, RenderError RuntimeError)
           | Some bytes \<Rightarrow>
               if bytes > MAX_BUFFER_BYTES then (rt, RenderError RuntimeError)
               else
                 (let requested = (case redraw_pending (redraw s) of
                                     None \<Rightarrow> FullRedraw | Some k \<Rightarrow> k);
                      frame = current_frame rt;
                      retiring = role_pending (redraw s) \<and> \<not> authentication s
                        \<and> retiring_authentication rt = Some (s_output s)
                  in case scaled_overlay frame w h s of
                       None \<Rightarrow> (rt, RenderPanic)
                     | Some (s, scaled) \<Rightarrow>
                         (let s = retain_buffers (w, h) s;
                              prepared =
                                (case select_reusable_buffer requested (background_generation rt)
                                        (reusable_buffers (w, h) s) of
                                   Some i \<Rightarrow> draw_reused frame (background_generation rt) requested
                                               (w, h) scaled s i
                                 | None \<Rightarrow> draw_fresh env frame (background_generation rt) (w, h)
                                             bytes scaled s)
                          in case prepared of
                               DrawPanic \<Rightarrow> (rt, RenderPanic)
                             | NoBuffer s \<Rightarrow> (put_surface index s rt, Rendered)
                             | PrepareError s e \<Rightarrow> (put_surface index s rt, RenderError e)
                             | Prepared s i \<Rightarrow>
                                 if retiring
                                 then
                                   (case feedback env of
                                      None \<Rightarrow> (keep_role index s rt, Rendered)
                                    | Some fb \<Rightarrow>
                                        commit_surface env True index s i
                                          (rt\<lparr>retirement_feedback := Some fb\<rparr>))
                                 else commit_surface env False index s i rt))))"

section \<open>Rendering all surfaces\<close>

text \<open>
  What both passes over the surfaces compute per surface: its buffers of the current generations,
  whether one can be drawn into now, and whether one of those holds the current background.
\<close>

definition inspect_surface ::
  "u64 \<Rightarrow> surface \<Rightarrow> (lock_error + surface \<times> bool \<times> bool) option" where
  "inspect_surface generation s =
     (case configured_size s of
        None \<Rightarrow> None
      | Some (Inl _) \<Rightarrow> Some (Inl RuntimeError)
      | Some (Inr dims) \<Rightarrow>
          (let s = retain_buffers dims s;
               free = filter (\<lambda>b. \<not> b_active b) (buffers s)
           in Some (Inr (s, free \<noteq> [],
                list_ex (\<lambda>b. b_background_generation b = generation) free))))"

fun maintain_scan ::
  "u64 \<Rightarrow> bool \<Rightarrow> nat \<Rightarrow> surface list \<Rightarrow> surface list \<times> lock_error option \<times> nat list" where
  "maintain_scan generation allow_overlay_full i [] = ([], None, [])"
| "maintain_scan generation allow_overlay_full i (s # ss) =
     (case inspect_surface generation s of
        Some (Inl e) \<Rightarrow> (s # ss, Some e, [])
      | None \<Rightarrow>
          (let (ss', e, is) = maintain_scan generation allow_overlay_full (i + 1) ss
           in (s # ss', e, is))
      | Some (Inr (s, reusable, current)) \<Rightarrow>
          (let progress = overlay_progress (redraw s) (length (buffers s)) reusable current False;
               ready = should_render (redraw s) (length (buffers s)) reusable
                 \<and> (allow_overlay_full \<or> progress \<noteq> OPFull);
               (ss', e, is) = maintain_scan generation allow_overlay_full (i + 1) ss
           in (s # ss', e, if ready then i # is else is)))"

fun render_all :: "(nat \<Rightarrow> render_env) \<Rightarrow> nat list \<Rightarrow> 'p runtime \<Rightarrow> 'p runtime \<times> render_result" where
  "render_all env [] rt = (rt, Rendered)"
| "render_all env (i # is) rt =
     (case render (env i) i rt of
        (rt, Rendered) \<Rightarrow> render_all env is rt
      | (rt, r) \<Rightarrow> (rt, r))"

text \<open>\<open>sort_by_key\<close> on the role is stable: wallpaper surfaces first.\<close>

definition maintain_surfaces ::
  "(nat \<Rightarrow> render_env) \<Rightarrow> bool \<Rightarrow> 'p runtime \<Rightarrow> 'p runtime \<times> render_result" where
  "maintain_surfaces env allow_overlay_full rt =
     (let (ss, e, is) = maintain_scan (background_generation rt) allow_overlay_full 0 (surfaces rt);
          rt = rt\<lparr>surfaces := ss\<rparr>
      in case e of
           Some e \<Rightarrow> (rt, RenderError e)
         | None \<Rightarrow>
             render_all env
               (filter (\<lambda>i. \<not> authentication (ss ! i)) is @ filter (\<lambda>i. authentication (ss ! i)) is)
               rt)"

fun partial_scan ::
  "u64 \<Rightarrow> nat \<Rightarrow> surface list \<Rightarrow> surface list \<times> lock_error option \<times> nat list \<times> progress_summary" where
  "partial_scan generation i [] =
     ([], None, [], \<lparr>partial = False, full = False, blocked = False, unblocked = False\<rparr>)"
| "partial_scan generation i (s # ss) =
     (case inspect_surface generation s of
        Some (Inl e) \<Rightarrow>
          (s # ss, Some e, [],
           \<lparr>partial = False, full = False, blocked = False, unblocked = False\<rparr>)
      | None \<Rightarrow>
          (let (ss', e, is, sm) = partial_scan generation (i + 1) ss in (s # ss', e, is, sm))
      | Some (Inr (s, reusable, current)) \<Rightarrow>
          (let (ss', e, is, sm) = partial_scan generation (i + 1) ss in
           case overlay_progress (redraw s) (length (buffers s)) reusable current True of
             OPNone \<Rightarrow> (s # ss', e, is, sm\<lparr>unblocked := True\<rparr>)
           | OPPartial \<Rightarrow> (s # ss', e, i # is, sm\<lparr>unblocked := True, partial := True\<rparr>)
           | OPFull \<Rightarrow> (s # ss', e, is, sm\<lparr>unblocked := True, full := True\<rparr>)
           | OPBlocked \<Rightarrow> (s # ss', e, is, sm\<lparr>blocked := True\<rparr>)))"

definition commit_partial_overlays ::
  "(nat \<Rightarrow> render_env) \<Rightarrow> 'p runtime \<Rightarrow> 'p runtime \<times> progress_summary \<times> render_result" where
  "commit_partial_overlays env rt =
     (let (ss, e, is, sm) = partial_scan (background_generation rt) 0 (surfaces rt);
          rt = rt\<lparr>surfaces := ss\<rparr>
      in case e of
           Some e \<Rightarrow> (rt, sm, RenderError e)
         | None \<Rightarrow> (case render_all env is rt of (rt, r) \<Rightarrow> (rt, sm, r)))"

section \<open>Actions\<close>

text \<open>Which readiness pipes accept the message, and whether the final round trip succeeds.\<close>

record apply_env =
  ready_ok :: "nat \<Rightarrow> bool"
  roundtrip_ok :: bool

definition ready_apply :: "apply_env \<Rightarrow> 'p runtime \<Rightarrow> 'p runtime \<times> bool" where
  "ready_apply env rt =
     (rt\<lparr>ready := [], wire := wire rt @ map ReadyWritten (takeWhile (ready_ok env) (ready rt))\<rparr>,
      list_all (ready_ok env) (ready rt))"

definition apply_action :: "apply_env \<Rightarrow> action \<Rightarrow> 'p runtime \<Rightarrow> 'p runtime" where
  "apply_action env act rt =
     (case act of
        NoAction \<Rightarrow> rt
      | ReportReady \<Rightarrow>
          (let (rt, ok) = ready_apply env rt;
               rt = (if ok then rt else fail RuntimeError rt)
           in if terminate rt then rt
              else
                redraw_all_surfaces FullRedraw
                  (record_full_frame
                    (rt\<lparr>presentation := p_lock_confirmed (ops rt) (presentation rt)\<rparr>)))
      | Abort \<Rightarrow> fail LockFinished rt
      | UnlockAndSynchronize \<Rightarrow>
          (let rt = (if session_lock rt
                     then
                       (let rt = rt\<lparr>session_lock := False, wire := wire rt @ [Unlocked]\<rparr>
                        in if roundtrip_ok env then rt else fail RuntimeError rt)
                     else rt)
           in rt\<lparr>terminate := True\<rparr>))"

section \<open>Event handlers\<close>

definition locked :: "apply_env \<Rightarrow> 'p runtime \<Rightarrow> 'p runtime" where
  "locked env rt =
     (let (st, act) = lock_confirmation_action (rt_state rt) (failure rt \<noteq> None \<or> terminate rt)
      in apply_action env act (rt\<lparr>rt_state := st\<rparr>))"

definition finished :: "apply_env \<Rightarrow> 'p runtime \<Rightarrow> 'p runtime" where
  "finished env rt =
     (let (st, act) = state_update (rt_state rt) LockFinishedEv
      in apply_action env act (rt\<lparr>rt_state := st\<rparr>))"

definition configure :: "nat \<Rightarrow> nat \<Rightarrow> nat \<times> nat \<Rightarrow> 'p runtime \<Rightarrow> 'p runtime" where
  "configure now wl new_size rt =
     (case position (\<lambda>s. wl_surface s = wl) (surfaces rt) of
        None \<Rightarrow> fail RuntimeError rt
      | Some index \<Rightarrow>
          (let s = surfaces rt ! index;
               rt = (if s_size s \<noteq> Some new_size
                     then put_surface index (redraw_surface request_geometry
                            (s\<lparr>s_size := Some new_size,
                               geometry_generation := geometry_generation s + 1\<rparr>)) rt
                     else rt)
           in refresh_authentication_output now rt))"

definition scale_factor_changed :: "nat \<Rightarrow> int \<Rightarrow> 'p runtime \<Rightarrow> 'p runtime" where
  "scale_factor_changed wl scale rt =
     (case position (\<lambda>s. wl_surface s = wl) (surfaces rt) of
        None \<Rightarrow> rt
      | Some index \<Rightarrow>
          (let s = surfaces rt ! index; scale = max scale 1 in
           if s_scale s \<noteq> scale
           then put_surface index (redraw_surface request_geometry
                  (s\<lparr>s_scale := scale, geometry_generation := geometry_generation s + 1\<rparr>)) rt
           else rt))"

definition frame_callback :: "nat \<Rightarrow> 'p runtime \<Rightarrow> 'p runtime" where
  "frame_callback wl rt =
     (if terminate rt then rt
      else
        (case position (\<lambda>s. wl_surface s = wl) (surfaces rt) of
           None \<Rightarrow> rt
         | Some index \<Rightarrow> put_surface index (redraw_surface frame_done (surfaces rt ! index)) rt))"

definition info_name :: "'p runtime \<Rightarrow> nat \<Rightarrow> ustring option" where
  "info_name rt out = Option.bind (map_of (output_state rt) out) id"

definition new_output :: "nat \<Rightarrow> nat \<Rightarrow> 'p runtime \<Rightarrow> 'p runtime" where
  "new_output now out rt =
     (if session_lock rt \<and> \<not> terminate rt
      then
        (case position (\<lambda>s. s_output s = out) (surfaces rt) of
           Some index \<Rightarrow>
             refresh_authentication_output now
               (put_surface index ((surfaces rt ! index)\<lparr>output_name := info_name rt out\<rparr>) rt)
         | None \<Rightarrow>
             (case add_surface now out rt of Inl e \<Rightarrow> fail e rt | Inr rt \<Rightarrow> rt))
      else rt)"

definition update_output :: "nat \<Rightarrow> nat \<Rightarrow> 'p runtime \<Rightarrow> 'p runtime" where
  "update_output now out rt =
     refresh_authentication_output now
       (case position (\<lambda>s. s_output s = out) (surfaces rt) of
          Some index \<Rightarrow>
            put_surface index ((surfaces rt ! index)\<lparr>output_name := info_name rt out\<rparr>) rt
        | None \<Rightarrow> rt)"

definition output_destroyed :: "nat \<Rightarrow> nat \<Rightarrow> 'p runtime \<Rightarrow> 'p runtime" where
  "output_destroyed now out rt =
     (let rt = (if retiring_authentication rt = Some out
                then rt\<lparr>retiring_authentication := None, authentication_retirement := None,
                        retirement_feedback := None\<rparr>
                else rt)
      in refresh_authentication_output now
           (rt\<lparr>surfaces := filter (\<lambda>s. s_output s \<noteq> out) (surfaces rt)\<rparr>))"

definition presented :: "nat \<Rightarrow> nat \<Rightarrow> 'p runtime \<Rightarrow> 'p runtime" where
  "presented now fb rt =
     (if retirement_feedback rt \<noteq> Some fb
         \<or> \<not> (case authentication_retirement rt of
               None \<Rightarrow> False | Some r \<Rightarrow> accepts_presentation r)
      then rt
      else refresh_authentication_output now
             (rt\<lparr>retirement_feedback := None, authentication_retirement := None,
                 retiring_authentication := None\<rparr>))"

definition discarded :: "nat \<Rightarrow> nat \<Rightarrow> 'p runtime \<Rightarrow> 'p runtime" where
  "discarded fb wl rt =
     (if retirement_feedback rt \<noteq> Some fb then rt
      else
        (let rt = rt\<lparr>retirement_feedback := None,
                     authentication_retirement :=
                       map_option retirement_discarded (authentication_retirement rt)\<rparr>
         in case position (\<lambda>s. wl_surface s = wl) (surfaces rt) of
              None \<Rightarrow> rt
            | Some index \<Rightarrow>
                put_surface index (redraw_surface request_role_change (surfaces rt ! index)) rt))"

datatype keysym = KeyBackSpace | KeyReturn | KeyKPEnter | KeyEscape | KeyTab | KeyOther

definition key_input_of :: "keysym \<Rightarrow> ustring option \<Rightarrow> key_input option" where
  "key_input_of key text =
     (case key of
        KeyBackSpace \<Rightarrow> Some KBackspace
      | KeyReturn \<Rightarrow> Some KSubmit
      | KeyKPEnter \<Rightarrow> Some KSubmit
      | KeyEscape \<Rightarrow> Some KCancel
      | KeyTab \<Rightarrow> Some KNextPage
      | KeyOther \<Rightarrow>
          (case text of
             None \<Rightarrow> None
           | Some t \<Rightarrow> if list_ex is_control t then None else Some (KText t)))"

definition handle_key :: "keysym \<Rightarrow> ustring option \<Rightarrow> 'p runtime \<Rightarrow> 'p runtime" where
  "handle_key key text rt =
     (case key_input_of key text of
        None \<Rightarrow> rt
      | Some k \<Rightarrow>
          (let (p, changed) = p_input (ops rt) (presentation rt) k;
               rt = rt\<lparr>presentation := p\<rparr>
           in if changed
              then (case classify_overlay_redraw rt of (rt, kind) \<Rightarrow> redraw_all_surfaces kind rt)
              else rt))"

definition new_keyboard :: "nat \<Rightarrow> nat option \<Rightarrow> 'p runtime \<Rightarrow> 'p runtime" where
  "new_keyboard seat acquired rt =
     (if list_ex (\<lambda>(known, _). known = seat) (keyboards rt) then rt
      else
        (case acquired of
           Some k \<Rightarrow> rt\<lparr>keyboards := keyboards rt @ [(seat, k)]\<rparr>
         | None \<Rightarrow> fail RuntimeError rt))"

definition remove_keyboard :: "nat \<Rightarrow> 'p runtime \<Rightarrow> 'p runtime" where
  "remove_keyboard seat rt =
     rt\<lparr>keyboards := filter (\<lambda>(known, _). known \<noteq> seat) (keyboards rt)\<rparr>"

section \<open>The event loop\<close>

record tick_env =
  at_reconcile :: nat
  at_expiry :: nat
  at_restore :: nat
  tick_apply :: apply_env
  partial_env :: "nat \<Rightarrow> render_env"
  full_env :: "nat \<Rightarrow> render_env"

definition refresh_priority :: "'p runtime \<Rightarrow> 'p runtime \<times> refresh" where
  "refresh_priority rt =
     (let (p, refresh) = p_receive_latest (ops rt) (presentation rt)
      in (rt\<lparr>presentation := p, rt_state := record_presentation_failure refresh (rt_state rt)\<rparr>,
          refresh))"

definition refresh_presentation :: "'p runtime \<Rightarrow> 'p runtime \<times> refresh" where
  "refresh_presentation rt =
     (let (p, refresh) = p_receive_deferred (ops rt) (presentation rt)
      in (rt\<lparr>presentation := p, rt_state := record_presentation_failure refresh (rt_state rt)\<rparr>,
          refresh))"

text \<open>The authorization is taken from the presentation and consumed at once.\<close>

definition settle_authorization :: "apply_env \<Rightarrow> 'p runtime \<Rightarrow> 'p runtime" where
  "settle_authorization env rt =
     (let (p, authorized) = p_take_authorization (ops rt) (presentation rt);
          rt = rt\<lparr>presentation := p\<rparr>
      in if authorized
         then (case authorize_unlock (rt_state rt) of
                 (st, act) \<Rightarrow> apply_action env act (rt\<lparr>rt_state := st\<rparr>))
         else rt)"

definition settle_render :: "'p runtime \<times> render_result \<Rightarrow> 'p runtime" where
  "settle_render x =
     (case x of
        (rt, Rendered) \<Rightarrow> rt
      | (rt, RenderError e) \<Rightarrow> fail e rt
      | (rt, RenderPanic) \<Rightarrow> rt\<lparr>panicked := True\<rparr>)"

definition draw_phase :: "tick_env \<Rightarrow> refresh \<Rightarrow> 'p runtime \<Rightarrow> 'p runtime" where
  "draw_phase env priority rt =
     (let (rt, progress, r) = commit_partial_overlays (partial_env env) (apply_refresh priority rt)
      in if r \<noteq> Rendered then settle_render (rt, r)
         else
           (let poll_deferred = should_poll_deferred priority progress;
                rt = (if poll_deferred
                      then (case refresh_presentation rt of (rt, refresh) \<Rightarrow> apply_refresh refresh rt)
                      else rt)
            in settle_render
                 (maintain_surfaces (full_env env)
                    (should_allow_overlay_full poll_deferred progress) rt)))"

definition tick :: "tick_env \<Rightarrow> 'p runtime \<Rightarrow> 'p runtime" where
  "tick env rt =
     (if terminate rt then rt
      else
        (case reconcile_outputs (at_reconcile env) rt of
           (rt, Some e) \<Rightarrow> fail e rt
         | (rt, None) \<Rightarrow>
             (let rt = expire_authentication_retirement (at_expiry env) (at_restore env) rt;
                  (rt, priority) = refresh_priority rt;
                  rt = settle_authorization (tick_apply env) rt
              in if terminate rt then rt else draw_phase env priority rt)))"

datatype lock_input =
    ILocked apply_env
  | IFinished apply_env
  | IConfigure nat nat "nat \<times> nat"
  | IScale nat int
  | IFrame nat
  | INewOutput nat nat
  | IUpdateOutput nat nat
  | IOutputDestroyed nat nat
  | IPresented nat nat
  | IDiscarded nat nat
  | IKey keysym "ustring option"
  | INewKeyboard nat "nat option"
  | IRemoveKeyboard nat
  | IReleased nat nat
  | IOutputs "(nat \<times> ustring option) list"
  | IDispatchError
  | ITick tick_env

text \<open>The compositor releases a buffer; smithay-client-toolkit keeps track of it.\<close>

definition buffer_released :: "nat \<Rightarrow> nat \<Rightarrow> 'p runtime \<Rightarrow> 'p runtime" where
  "buffer_released wl i rt =
     (case position (\<lambda>s. wl_surface s = wl) (surfaces rt) of
        None \<Rightarrow> rt
      | Some index \<Rightarrow>
          (let s = surfaces rt ! index in
           if i < length (buffers s)
           then put_surface index
                  (s\<lparr>buffers := (buffers s)[i := (buffers s ! i)\<lparr>b_active := False\<rparr>]\<rparr>) rt
           else rt))"

fun handle :: "'p runtime \<Rightarrow> lock_input \<Rightarrow> 'p runtime" where
  "handle rt (ILocked env) = locked env rt"
| "handle rt (IFinished env) = finished env rt"
| "handle rt (IConfigure now wl dims) = configure now wl dims rt"
| "handle rt (IScale wl scale) = scale_factor_changed wl scale rt"
| "handle rt (IFrame wl) = frame_callback wl rt"
| "handle rt (INewOutput now out) = new_output now out rt"
| "handle rt (IUpdateOutput now out) = update_output now out rt"
| "handle rt (IOutputDestroyed now out) = output_destroyed now out rt"
| "handle rt (IPresented now fb) = presented now fb rt"
| "handle rt (IDiscarded fb wl) = discarded fb wl rt"
| "handle rt (IKey key text) = handle_key key text rt"
| "handle rt (INewKeyboard seat acquired) = new_keyboard seat acquired rt"
| "handle rt (IRemoveKeyboard seat) = remove_keyboard seat rt"
| "handle rt (IReleased wl i) = buffer_released wl i rt"
| "handle rt (IOutputs infos) = rt\<lparr>output_state := infos\<rparr>"
| "handle rt IDispatchError = fail RuntimeError rt"
| "handle rt (ITick env) = tick env rt"

text \<open>A step of the runtime; its output is what the step added to \<open>wire\<close>.\<close>

definition lock_step :: "('p runtime, lock_input, wire_effect list) machine" where
  "lock_step rt i =
     (if panicked rt then (rt, [])
      else (let rt' = handle rt i in (rt', drop (length (wire rt)) (wire rt'))))"

definition Runtime_new ::
  "'p presentation_ops \<Rightarrow> 'p \<Rightarrow> nat list \<Rightarrow> ustring option \<Rightarrow> (nat \<times> ustring option) list
     \<Rightarrow> 'p runtime" where
  "Runtime_new pops p fds auth_output outputs =
     \<lparr>ops = pops, output_state = outputs, keyboards = [], next_surface = 0, session_lock = False,
      surfaces = [], rt_state = State_new, presentation = p,
      presentation_geometry = frame_geometry (p_frame pops p), background_generation = 1,
      authentication_output = auth_output, retiring_authentication = None,
      authentication_retirement = None, retirement_feedback = None, ready = fds, failure = None,
      terminate = False, panicked = False, wire = []\<rparr>"

text \<open>
  \<open>run\<close> up to its loop: after the first round trip the shared-memory format, the outputs and the
  lock manager must be there, and every output gets a surface. The loop starts only if all of it
  succeeds.
\<close>

definition start ::
  "bool \<Rightarrow> bool \<Rightarrow> bool \<Rightarrow> nat \<Rightarrow> 'p runtime \<Rightarrow> lock_error + 'p runtime" where
  "start roundtrip argb8888 lock_manager now rt =
     (if \<not> roundtrip then Inl RuntimeError
      else if \<not> argb8888 then Inl MissingProtocol
      else if output_state rt = [] then Inl MissingProtocol
      else if \<not> lock_manager then Inl MissingProtocol
      else
        (case add_surfaces now (map fst (output_state rt)) (rt\<lparr>session_lock := True\<rparr>) of
           (rt, None) \<Rightarrow> Inr rt
         | (rt, Some e) \<Rightarrow> Inl e))"

definition run_result :: "'p runtime \<Rightarrow> lock_error + unit" where
  "run_result rt = (case failure rt of None \<Rightarrow> Inr () | Some e \<Rightarrow> Inl e)"

section \<open>Quiet operations\<close>

text \<open>
  Everything but the three actions is \<open>quiet\<close>: it only commits buffers, and it may fail the lock
  but never confirms or releases it.
\<close>

definition commits :: "wire_effect list \<Rightarrow> bool" where
  "commits = list_all (\<lambda>e. case e of Committed _ _ _ \<Rightarrow> True | _ \<Rightarrow> False)"

definition wire_quiet :: "'p runtime \<Rightarrow> 'p runtime \<Rightarrow> bool" where
  "wire_quiet rt rt' \<longleftrightarrow> (\<exists>ws. wire rt' = wire rt @ ws \<and> commits ws)"

definition state_quiet :: "'p runtime \<Rightarrow> 'p runtime \<Rightarrow> bool" where
  "state_quiet rt rt' \<longleftrightarrow>
     (lifecycle (rt_state rt') = lifecycle (rt_state rt) \<or> lifecycle (rt_state rt') = Aborted)
     \<and> session_lock rt' = session_lock rt \<and> ready rt' = ready rt \<and> ops rt' = ops rt
     \<and> (failure rt \<noteq> None \<longrightarrow> failure rt' \<noteq> None) \<and> (terminate rt \<longrightarrow> terminate rt')
     \<and> (terminate rt' \<longrightarrow> terminate rt \<or> failure rt' \<noteq> None)"

definition quiet :: "'p runtime \<Rightarrow> 'p runtime \<Rightarrow> bool" where
  "quiet rt rt' \<longleftrightarrow> wire_quiet rt rt' \<and> state_quiet rt rt'"

lemma commits_simps [simp]:
  "commits []" "commits (Committed o' a c # ws) = commits ws" "commits (xs @ ys) = (commits xs \<and> commits ys)"
  by (simp_all add: commits_def)

lemma quiet_refl [simp]: "quiet rt rt"
  by (simp add: quiet_def wire_quiet_def state_quiet_def)

lemma wire_quiet_trans: "wire_quiet a b \<Longrightarrow> wire_quiet b c \<Longrightarrow> wire_quiet a c"
  unfolding wire_quiet_def by (metis append.assoc commits_simps(3))

lemma state_quiet_trans: "state_quiet a b \<Longrightarrow> state_quiet b c \<Longrightarrow> state_quiet a c"
  unfolding state_quiet_def by metis

lemma quiet_trans [trans]: "quiet a b \<Longrightarrow> quiet b c \<Longrightarrow> quiet a c"
  unfolding quiet_def using wire_quiet_trans state_quiet_trans by blast

lemma quiet_fields:
  assumes "wire rt' = wire rt" "lifecycle (rt_state rt') = lifecycle (rt_state rt)"
    "session_lock rt' = session_lock rt" "ready rt' = ready rt" "ops rt' = ops rt"
    "failure rt' = failure rt" "terminate rt' = terminate rt"
  shows "quiet rt rt'"
  using assms by (simp add: quiet_def wire_quiet_def state_quiet_def)

lemma quiet_fail [simp]: "quiet rt (fail e rt)"
  by (simp add: quiet_def wire_quiet_def state_quiet_def fail_def split: option.split)

lemma quiet_put_surface [simp]: "quiet rt (put_surface i s rt)"
  by (rule quiet_fields) (simp_all add: put_surface_def)

lemma quiet_set_authentication [simp]: "quiet rt (set_authentication i b rt)"
  by (rule quiet_fields) (simp_all add: set_authentication_def Let_def)

lemma quiet_record_full_frame [simp]: "quiet rt (record_full_frame rt)"
  by (rule quiet_fields) (simp_all add: record_full_frame_def)

lemma quiet_redraw_all_surfaces [simp]: "quiet rt (redraw_all_surfaces k rt)"
  by (rule quiet_fields) (simp_all add: redraw_all_surfaces_def)

lemma quiet_redraw_media [simp]: "quiet rt (redraw_media rt)"
  by (rule quiet_fields) (simp_all add: redraw_media_def)

lemma quiet_classify [simp]: "quiet rt (fst (classify_overlay_redraw rt))"
  by (rule quiet_fields) (simp_all add: classify_overlay_redraw_def Let_def)

lemma quiet_apply_refresh [simp]: "quiet rt (apply_refresh r rt)"
  using quiet_trans [OF quiet_record_full_frame quiet_redraw_media]
    quiet_trans [OF quiet_classify quiet_redraw_all_surfaces, of rt]
  by (cases r) (auto simp: apply_refresh_def split: prod.split)

lemma quiet_refresh_authentication [simp]: "quiet rt (refresh_authentication_output now rt)"
proof -
  have "quiet rt (set_authentication c False (rt\<lparr>retiring_authentication := a,
      authentication_retirement := b, retirement_feedback := None\<rparr>))" for c a b
    by (rule quiet_trans [OF _ quiet_set_authentication]) (simp add: quiet_fields)
  then show ?thesis
    by (auto simp: refresh_authentication_output_def Let_def split: option.split)
qed

lemma quiet_expire [simp]: "quiet rt (expire_authentication_retirement now now' rt)"
proof -
  let ?rt = "rt\<lparr>retirement_feedback := None, authentication_retirement := None,
    retiring_authentication := None\<rparr>"
  have "quiet rt ?rt" by (simp add: quiet_fields)
  from quiet_trans [OF this quiet_set_authentication] quiet_trans [OF this quiet_refresh_authentication]
  show ?thesis by (auto simp: expire_authentication_retirement_def Let_def split: option.split)
qed

lemma quiet_add_surface: "add_surface now out rt = Inr rt' \<Longrightarrow> quiet rt rt'"
  by (auto simp: add_surface_def Let_def split: if_splits
      intro!: quiet_trans [OF _ quiet_refresh_authentication] quiet_fields)

lemma quiet_add_surfaces: "quiet rt (fst (add_surfaces now outs rt))"
  by (induction outs arbitrary: rt)
    (auto split: sum.split intro: quiet_trans [OF quiet_add_surface])

lemma quiet_reconcile [simp]: "quiet rt (fst (reconcile_outputs now rt))"
  by (simp add: reconcile_outputs_def quiet_add_surfaces)

lemma quiet_keep_role [simp]: "quiet rt (keep_role i s rt)"
  by (rule quiet_fields) (simp_all add: keep_role_def put_surface_def)

lemma quiet_commit_surface: "quiet rt (fst (commit_surface env retiring index s i rt))"
  by (auto simp: commit_surface_def quiet_def wire_quiet_def state_quiet_def put_surface_def Let_def)

lemma quiet_render: "quiet rt (fst (render env index rt))"
proof -
  have fb: "quiet rt (fst (commit_surface env True index s i (rt\<lparr>retirement_feedback := fb\<rparr>)))" for s i fb
    by (rule quiet_trans [OF _ quiet_commit_surface]) (simp add: quiet_fields)
  show ?thesis
    unfolding render_def Let_def
    by (auto split: option.split sum.split prepared.split simp: quiet_commit_surface fb)
qed

lemma quiet_render_all: "quiet rt (fst (render_all env is rt))"
proof (induction "is" arbitrary: rt)
  case (Cons i "is")
  have "quiet rt (fst (render (env i) i rt))" by (rule quiet_render)
  from quiet_trans [OF this Cons] this show ?case
    by (auto split: prod.split render_result.split)
qed simp

lemma quiet_surfaces [simp]: "quiet rt (rt\<lparr>surfaces := ss\<rparr>)"
  by (rule quiet_fields) simp_all

lemma quiet_maintain: "quiet rt (fst (maintain_surfaces env b rt))"
  using quiet_trans [OF quiet_surfaces quiet_render_all]
  by (auto simp: maintain_surfaces_def Let_def split: prod.split option.split)

lemma quiet_partial: "quiet rt (fst (commit_partial_overlays env rt))"
proof -
  have "quiet rt (fst (render_all env is (rt\<lparr>surfaces := ss\<rparr>)))" for "is" ss
    by (rule quiet_trans [OF quiet_surfaces quiet_render_all])
  then have "quiet rt rt'" if "render_all env is (rt\<lparr>surfaces := ss\<rparr>) = (rt', r)" for "is" ss rt' r
    using that by (metis fst_conv)
  then show ?thesis
    by (auto simp: commit_partial_overlays_def Let_def split: prod.split option.split)
qed

lemma quiet_handlers [simp]:
  "quiet rt (configure now wl dims rt)"
  "quiet rt (scale_factor_changed wl scale rt)"
  "quiet rt (frame_callback wl rt)"
  "quiet rt (update_output now out rt)"
  "quiet rt (buffer_released wl i rt)"
  by (auto simp: configure_def scale_factor_changed_def frame_callback_def update_output_def
      buffer_released_def Let_def split: option.split
      intro!: quiet_trans [OF _ quiet_refresh_authentication])

lemma quiet_output_handlers [simp]:
  "quiet rt (new_output now out rt)"
  "quiet rt (output_destroyed now out rt)"
  "quiet rt (presented now fb rt)"
  "quiet rt (discarded fb wl rt)"
proof -
  show "quiet rt (new_output now out rt)"
    by (auto simp: new_output_def quiet_add_surface split: option.split sum.split
        intro!: quiet_trans [OF _ quiet_refresh_authentication])
  show "quiet rt (output_destroyed now out rt)"
    by (auto simp: output_destroyed_def Let_def
        intro!: quiet_trans [OF _ quiet_refresh_authentication] quiet_fields)
  show "quiet rt (presented now fb rt)"
    by (auto simp: presented_def intro!: quiet_trans [OF _ quiet_refresh_authentication] quiet_fields)
  show "quiet rt (discarded fb wl rt)"
    by (auto simp: discarded_def Let_def split: option.split
        intro!: quiet_trans [OF _ quiet_put_surface] quiet_fields)
qed

lemma quiet_handle_key [simp]: "quiet rt (handle_key key text rt)"
proof -
  have "quiet rt (redraw_all_surfaces k (fst (classify_overlay_redraw (rt\<lparr>presentation := p\<rparr>))))" for p k
    by (rule quiet_trans [OF _ quiet_trans [OF quiet_classify quiet_redraw_all_surfaces]])
      (simp add: quiet_fields)
  then have "quiet rt (redraw_all_surfaces k rt')"
    if "classify_overlay_redraw (rt\<lparr>presentation := p\<rparr>) = (rt', k)" for p rt' k
    using that by (metis fst_conv)
  then show ?thesis
    by (auto simp: handle_key_def Let_def quiet_fields split: option.split prod.split)
qed

lemma quiet_keyboard [simp]: "quiet rt (new_keyboard seat k rt)" "quiet rt (remove_keyboard seat rt)"
  by (auto simp: new_keyboard_def remove_keyboard_def quiet_fields split: option.split)

lemma lifecycle_presentation_failure [simp]:
  "lifecycle (record_presentation_failure r st) = lifecycle st"
  by (simp add: record_presentation_failure_def)

lemma quiet_refreshes [simp]:
  "quiet rt (fst (refresh_priority rt))" "quiet rt (fst (refresh_presentation rt))"
  by (auto simp: refresh_priority_def refresh_presentation_def split: prod.split intro!: quiet_fields)

lemma quiet_settle_render: "quiet rt (fst x) \<Longrightarrow> quiet rt (settle_render x)"
  by (cases x; cases "snd x")
    (auto simp: settle_render_def quiet_trans [OF _ quiet_fail]
      intro: quiet_trans [OF _ quiet_fields])

lemma quiet_draw_phase: "quiet rt (draw_phase env priority rt)"
proof -
  obtain rt1 progress r where p: "commit_partial_overlays (partial_env env) (apply_refresh priority rt)
      = (rt1, progress, r)" by (cases "commit_partial_overlays (partial_env env) (apply_refresh priority rt)")
  have "quiet rt (fst (commit_partial_overlays (partial_env env) (apply_refresh priority rt)))"
    by (rule quiet_trans [OF quiet_apply_refresh quiet_partial])
  then have q1: "quiet rt rt1" by (simp add: p)
  have q2: "quiet rt1 (case refresh_presentation rt1 of (rt, refresh) \<Rightarrow> apply_refresh refresh rt)"
    using quiet_trans [OF quiet_refreshes(2) quiet_apply_refresh, of rt1] by (auto split: prod.split)
  show ?thesis
    using q1 quiet_trans [OF q1 q2]
    by (auto simp: draw_phase_def p Let_def intro!: quiet_settle_render intro: quiet_trans [OF _ quiet_maintain])
qed

section \<open>The two steps that are not quiet\<close>

definition authorization_granted :: "'p runtime \<Rightarrow> bool" where
  "authorization_granted rt \<longleftrightarrow>
     snd (p_take_authorization (ops rt) (fst (p_receive_latest (ops rt) (presentation rt))))"

definition releasing :: "'p runtime \<Rightarrow> 'p runtime \<Rightarrow> bool" where
  "releasing rt rt' \<longleftrightarrow>
     lifecycle (rt_state rt) = Locked \<and> \<not> terminate rt \<and> authorization_granted rt
     \<and> (\<exists>ws. wire rt' = wire rt @ ws @ (if session_lock rt then [Unlocked] else []) \<and> commits ws)
     \<and> \<not> session_lock rt' \<and> terminate rt' \<and> lifecycle (rt_state rt') \<in> {Unlocking, Aborted}
     \<and> ready rt' = ready rt \<and> ops rt' = ops rt \<and> (failure rt \<noteq> None \<longrightarrow> failure rt' \<noteq> None)"

definition confirming :: "'p runtime \<Rightarrow> 'p runtime \<Rightarrow> bool" where
  "confirming rt rt' \<longleftrightarrow>
     lifecycle (rt_state rt) = Requesting \<and> \<not> terminate rt \<and> failure rt = None
     \<and> (\<exists>n. wire rt' = wire rt @ map ReadyWritten (take n (ready rt)))
     \<and> session_lock rt' = session_lock rt \<and> lifecycle (rt_state rt') \<in> {Locked, Aborted}
     \<and> ready rt' = [] \<and> ops rt' = ops rt \<and> (terminate rt' \<longrightarrow> failure rt' \<noteq> None)"

lemma presentation_unchanged [simp]:
  "presentation (set_authentication i b rt) = presentation rt"
  "presentation (refresh_authentication_output now rt) = presentation rt"
  "presentation (expire_authentication_retirement now now' rt) = presentation rt"
proof -
  show s: "presentation (set_authentication i b rt) = presentation rt" for i b and rt :: "'a runtime"
    by (simp add: set_authentication_def Let_def)
  show r: "presentation (refresh_authentication_output now rt) = presentation rt" for now and rt :: "'a runtime"
    by (simp add: refresh_authentication_output_def Let_def s split: option.split)
  show "presentation (expire_authentication_retirement now now' rt) = presentation rt"
    by (simp add: expire_authentication_retirement_def Let_def s r split: option.split)
qed

lemma presentation_add_surface: "add_surface now out rt = Inr rt' \<Longrightarrow> presentation rt' = presentation rt"
  by (auto simp: add_surface_def Let_def split: if_splits)

lemma presentation_add_surfaces: "presentation (fst (add_surfaces now outs rt)) = presentation rt"
  by (induction outs arbitrary: rt) (auto split: sum.split simp: presentation_add_surface)

lemma presentation_reconcile: "presentation (fst (reconcile_outputs now rt)) = presentation rt"
  by (simp add: reconcile_outputs_def presentation_add_surfaces)

lemma quietD:
  assumes "quiet rt rt'"
  obtains ws where "wire rt' = wire rt @ ws" "commits ws"
    "lifecycle (rt_state rt') = lifecycle (rt_state rt) \<or> lifecycle (rt_state rt') = Aborted"
    "session_lock rt' = session_lock rt" "ready rt' = ready rt" "ops rt' = ops rt"
    "failure rt \<noteq> None \<longrightarrow> failure rt' \<noteq> None" "terminate rt \<longrightarrow> terminate rt'"
    "terminate rt' \<longrightarrow> terminate rt \<or> failure rt' \<noteq> None"
  using assms by (auto simp: quiet_def wire_quiet_def state_quiet_def)

text \<open>Settling an authorization releases the lock exactly when it was granted while locked.\<close>

lemma settle_authorization_cases:
  defines "granted \<equiv> \<lambda>rt :: 'p runtime. snd (p_take_authorization (ops rt) (presentation rt))"
  assumes "granted (rt :: 'p runtime)" "lifecycle (rt_state rt) = Locked"
  shows "wire (settle_authorization env rt) = wire rt @ (if session_lock rt then [Unlocked] else [])"
    "\<not> session_lock (settle_authorization env rt)" "terminate (settle_authorization env rt)"
    "lifecycle (rt_state (settle_authorization env rt)) \<in> {Unlocking, Aborted}"
    "ready (settle_authorization env rt) = ready rt" "ops (settle_authorization env rt) = ops rt"
    "failure rt \<noteq> None \<longrightarrow> failure (settle_authorization env rt) \<noteq> None"
  using assms
  by (auto simp: settle_authorization_def authorize_unlock_def apply_action_def fail_def Let_def
      granted_def split: prod.split option.split)

lemma settle_authorization_quiet:
  assumes "\<not> (snd (p_take_authorization (ops rt) (presentation rt)) \<and> lifecycle (rt_state rt) = Locked)"
  shows "quiet rt (settle_authorization env rt)"
  using assms
  by (auto simp: settle_authorization_def authorize_unlock_def apply_action_def Let_def
      split: prod.split intro!: quiet_fields)

lemma tick_cases: "quiet rt (tick env rt) \<or> releasing rt (tick env rt)"
proof (cases "terminate rt")
  case True
  then show ?thesis by (simp add: tick_def)
next
  case False
  obtain rt1 e where r1: "reconcile_outputs (at_reconcile env) rt = (rt1, e)" by fastforce
  have q1: "quiet rt rt1" and p1: "presentation rt1 = presentation rt"
    using quiet_reconcile [of rt "at_reconcile env"] presentation_reconcile [of "at_reconcile env" rt]
    by (simp_all add: r1)
  show ?thesis
  proof (cases e)
    case (Some x)
    then show ?thesis using quiet_trans [OF q1 quiet_fail] by (simp add: tick_def False r1)
  next
    case None
    define rt2 where "rt2 = expire_authentication_retirement (at_expiry env) (at_restore env) rt1"
    obtain rt3 priority where r3: "refresh_priority rt2 = (rt3, priority)" by fastforce
    have q3: "quiet rt rt3"
      using quiet_trans [OF q1 quiet_trans [OF quiet_expire quiet_refreshes(1)]] r3
      by (metis fst_conv rt2_def)
    have p3: "presentation rt3 = fst (p_receive_latest (ops rt) (presentation rt))"
    proof -
      have "ops rt2 = ops rt" "presentation rt2 = presentation rt"
        using quiet_trans [OF q1 quiet_expire] p1 by (auto simp: rt2_def elim: quietD)
      then show ?thesis using r3 by (auto simp: refresh_priority_def split: prod.splits)
    qed
    define rt4 where "rt4 = settle_authorization (tick_apply env) rt3"
    have tick: "tick env rt = (if terminate rt4 then rt4 else draw_phase env priority rt4)"
      by (simp add: tick_def False r1 None r3 rt2_def [symmetric] rt4_def Let_def)
    from q3 obtain ws where f3: "wire rt3 = wire rt @ ws" "commits ws" "session_lock rt3 = session_lock rt"
      "ready rt3 = ready rt" "ops rt3 = ops rt" "failure rt \<noteq> None \<longrightarrow> failure rt3 \<noteq> None"
      "lifecycle (rt_state rt3) = lifecycle (rt_state rt) \<or> lifecycle (rt_state rt3) = Aborted"
      by (rule quietD)
    show ?thesis
    proof (cases "snd (p_take_authorization (ops rt3) (presentation rt3)) \<and> lifecycle (rt_state rt3) = Locked")
      case True
      note s = settle_authorization_cases [of rt3 "tick_apply env", folded rt4_def]
      have "releasing rt rt4"
        using True s f3 p3 False by (auto simp: releasing_def authorization_granted_def)
      then show ?thesis using s True by (simp add: tick)
    next
      case False
      then have "quiet rt3 rt4" unfolding rt4_def by (rule settle_authorization_quiet)
      then have "quiet rt rt4" by (rule quiet_trans [OF q3])
      with quiet_trans [OF this quiet_draw_phase] show ?thesis by (simp add: tick)
    qed
  qed
qed

lemma locked_cases: "quiet rt (locked env rt) \<or> confirming rt (locked env rt)"
proof (cases "failure rt \<noteq> None \<or> terminate rt \<or> lifecycle (rt_state rt) \<noteq> Requesting")
  case True
  then have "locked env rt = rt\<lparr>rt_state := rt_state rt\<rparr>"
    by (auto simp: locked_def lock_confirmation_action_def apply_action_def)
  then show ?thesis by simp
next
  case False
  define rt1 where "rt1 = rt\<lparr>rt_state := (rt_state rt)\<lparr>lifecycle := Locked\<rparr>, ready := [],
    wire := wire rt @ map ReadyWritten (takeWhile (ready_ok env) (ready rt))\<rparr>"
  define rt2 where "rt2 = (if list_all (ready_ok env) (ready rt) then rt1 else fail RuntimeError rt1)"
  have eq: "locked env rt = (if terminate rt2 then rt2 else redraw_all_surfaces FullRedraw
      (record_full_frame (rt2\<lparr>presentation := p_lock_confirmed (ops rt2) (presentation rt2)\<rparr>)))"
    using False
    by (simp add: locked_def lock_confirmation_action_def apply_action_def ready_apply_def Let_def
        rt2_def rt1_def)
  have "\<exists>n. map ReadyWritten (takeWhile (ready_ok env) (ready rt)) = map ReadyWritten (take n (ready rt))"
    by (metis takeWhile_eq_take)
  then have c2: "confirming rt rt2"
    using False by (auto simp: confirming_def rt2_def rt1_def fail_def split: option.split)
  have "confirming rt (locked env rt)"
    using c2 unfolding eq
    by (auto simp: confirming_def redraw_all_surfaces_def record_full_frame_def)
  then show ?thesis ..
qed

lemma finished_quiet: "quiet rt (finished env rt)"
  by (auto simp: finished_def apply_action_def quiet_def wire_quiet_def state_quiet_def fail_def
      split: option.split)

lemma handle_cases:
  "quiet rt (handle rt i) \<or> (\<exists>env. i = ILocked env) \<and> confirming rt (handle rt i)
    \<or> (\<exists>env. i = ITick env) \<and> releasing rt (handle rt i)"
  using tick_cases locked_cases finished_quiet by (cases i) (auto simp: quiet_fields)

section \<open>Runs of the lock\<close>

definition started :: "'p runtime \<Rightarrow> bool" where
  "started rt \<longleftrightarrow> (\<exists>pops p fds auth outs r a l now.
     start r a l now (Runtime_new pops p fds auth outs) = Inr rt)"

lemma started_facts:
  assumes "started rt"
  shows "session_lock rt" "commits (wire rt)" "lifecycle (rt_state rt) \<noteq> Locked"
    "terminate rt \<longrightarrow> failure rt \<noteq> None"
proof -
  from assms obtain pops p fds auth outs r a l now where
    "start r a l now (Runtime_new pops p fds auth outs) = Inr rt" by (auto simp: started_def)
  then have "rt = fst (add_surfaces now (map fst outs)
      ((Runtime_new pops p fds auth outs)\<lparr>session_lock := True\<rparr>))"
    by (auto simp: start_def Runtime_new_def split: if_splits prod.splits option.splits)
  then have "quiet ((Runtime_new pops p fds auth outs)\<lparr>session_lock := True\<rparr>) rt"
    by (simp add: quiet_add_surfaces)
  then show "session_lock rt" "commits (wire rt)" "lifecycle (rt_state rt) \<noteq> Locked"
    "terminate rt \<longrightarrow> failure rt \<noteq> None"
    by (rule quietD; auto simp: Runtime_new_def State_new_def)+
qed

lemma lock_step_cases:
  "fst (lock_step rt i) = rt \<or> quiet rt (fst (lock_step rt i))
    \<or> (\<exists>env. i = ILocked env) \<and> confirming rt (fst (lock_step rt i))
    \<or> (\<exists>env. i = ITick env) \<and> releasing rt (fst (lock_step rt i))"
  using handle_cases [of rt i] by (auto simp: lock_step_def Let_def)

lemma lock_step_quiet_or:
  obtains "quiet rt (fst (lock_step rt i))"
  | env where "i = ILocked env" "confirming rt (fst (lock_step rt i))"
  | env where "i = ITick env" "releasing rt (fst (lock_step rt i))"
  using lock_step_cases [of rt i] by (metis quiet_refl)

lemma run_snoc: "fst (run step s (xs @ [x])) = fst (step (fst (run step s xs)) x)"
  by (simp add: run_append)

lemma commits_no_unlock: "commits ws \<Longrightarrow> Unlocked \<notin> set ws"
  by (induction ws) (auto simp: commits_def)

lemma commits_no_ready: "commits ws \<Longrightarrow> ReadyWritten fd \<notin> set ws"
  by (induction ws) (auto simp: commits_def)

lemma locked_after_confirmation:
  assumes "started rt" "lifecycle (rt_state (fst (run lock_step rt ins))) = Locked"
  shows "\<exists>env. ILocked env \<in> set ins"
  using assms(2)
proof (induction ins rule: rev_induct)
  case Nil
  then show ?case using started_facts(3) [OF assms(1)] by simp
next
  case (snoc i ins)
  let ?s = "fst (run lock_step rt ins)"
  show ?case
  proof (rule lock_step_quiet_or [of ?s i])
    assume "quiet ?s (fst (lock_step ?s i))"
    then have "lifecycle (rt_state ?s) = Locked"
      using snoc.prems by (auto simp: run_snoc elim: quietD)
    with snoc.IH show ?thesis by auto
  next
    fix env assume "i = ILocked env"
    then show ?thesis by auto
  next
    fix env assume "releasing ?s (fst (lock_step ?s i))"
    then show ?thesis using snoc.prems by (auto simp: run_snoc releasing_def)
  qed
qed

text \<open>The invariant behind the release of the lock.\<close>

definition release_inv :: "'p runtime \<Rightarrow> bool" where
  "release_inv rt \<longleftrightarrow>
     (Unlocked \<in> set (wire rt) \<longleftrightarrow> \<not> session_lock rt)
     \<and> (terminate rt \<and> failure rt = None \<longrightarrow> \<not> session_lock rt)"

lemma release_inv_quiet: "release_inv rt \<Longrightarrow> quiet rt rt' \<Longrightarrow> release_inv rt'"
  by (erule quietD) (auto simp: release_inv_def dest: commits_no_unlock)

lemma release_inv_confirming: "release_inv rt \<Longrightarrow> confirming rt rt' \<Longrightarrow> release_inv rt'"
  by (auto simp: release_inv_def confirming_def)

lemma release_inv_releasing: "release_inv rt \<Longrightarrow> releasing rt rt' \<Longrightarrow> release_inv rt'"
  by (auto simp: release_inv_def releasing_def)

lemma release_inv_step: "release_inv rt \<Longrightarrow> release_inv (fst (lock_step rt i))"
  using lock_step_quiet_or release_inv_quiet release_inv_confirming release_inv_releasing by metis

lemma release_inv_started: "started rt \<Longrightarrow> release_inv rt"
  using started_facts [of rt] commits_no_unlock by (auto simp: release_inv_def)

lemma terminate_latched: "terminate rt \<Longrightarrow> terminate (fst (lock_step rt i))"
  by (rule lock_step_quiet_or [of rt i]) (auto simp: confirming_def releasing_def elim: quietD)

interpretation ending: latched_machine lock_step terminate
  by unfold_locales (rule terminate_latched)

interpretation lock_release: invariant_machine lock_step started release_inv
  by unfold_locales (auto simp: release_inv_step release_inv_started)

text \<open>The lock object is spent by releasing it.\<close>

definition unlocks :: "wire_effect list \<Rightarrow> nat" where
  "unlocks ws = count_list ws Unlocked"

lemma commits_unlocks: "commits ws \<Longrightarrow> count_list ws Unlocked = 0"
  using commits_no_unlock by (simp add: count_list_0_iff)

lemma lock_step_output: "wire (fst (lock_step rt i)) = wire rt @ ws \<Longrightarrow> snd (lock_step rt i) = ws"
  by (auto simp: lock_step_def Let_def split: if_splits)

interpretation lock_meter: metered_machine lock_step "\<lambda>_. 0" unlocks "\<lambda>rt. if session_lock rt then 1 else 0"
proof unfold_locales
  fix rt :: "'a runtime" and i
  show "(if session_lock (fst (lock_step rt i)) then 1 else 0) + unlocks (snd (lock_step rt i))
    \<le> (if session_lock rt then 1 else 0) + 0"
  proof (rule lock_step_quiet_or [of rt i])
    assume "quiet rt (fst (lock_step rt i))"
    then obtain ws where "wire (fst (lock_step rt i)) = wire rt @ ws" "commits ws"
      "session_lock (fst (lock_step rt i)) = session_lock rt" by (rule quietD)
    then show ?thesis by (simp add: lock_step_output unlocks_def commits_unlocks)
  next
    fix env assume "confirming rt (fst (lock_step rt i))"
    then obtain n where "wire (fst (lock_step rt i)) = wire rt @ map ReadyWritten (take n (ready rt))"
      "session_lock (fst (lock_step rt i)) = session_lock rt" by (auto simp: confirming_def)
    moreover have "count_list (map ReadyWritten xs) Unlocked = 0" for xs
      by (simp add: count_list_0_iff image_iff)
    ultimately show ?thesis by (simp add: lock_step_output unlocks_def)
  next
    fix env assume "releasing rt (fst (lock_step rt i))"
    then obtain ws where "wire (fst (lock_step rt i)) = wire rt @ ws @ (if session_lock rt then [Unlocked] else [])"
      "commits ws" "\<not> session_lock (fst (lock_step rt i))" by (auto simp: releasing_def)
    then show ?thesis by (simp add: lock_step_output unlocks_def commits_unlocks)
  qed
qed

section \<open>The authentication surface\<close>

text \<open>
  At most one surface has the authentication role, none while the role is being handed over, and
  a hand-over always has a deadline. Surfaces belong to different outputs.
\<close>

definition roles_ok :: "nat list \<Rightarrow> bool list \<Rightarrow> bool \<Rightarrow> bool \<Rightarrow> bool" where
  "roles_ok outs auths retiring timed \<longleftrightarrow>
     distinct outs \<and> length (filter id auths) \<le> 1 \<and> (retiring \<longrightarrow> True \<notin> set auths)
     \<and> (retiring \<longleftrightarrow> timed)"

definition handover_ok :: "'p runtime \<Rightarrow> bool" where
  "handover_ok rt \<longleftrightarrow> roles_ok (map s_output (surfaces rt)) (map authentication (surfaces rt))
     (retiring_authentication rt \<noteq> None) (authentication_retirement rt \<noteq> None)"

definition same_roles :: "'p runtime \<Rightarrow> 'p runtime \<Rightarrow> bool" where
  "same_roles rt rt' \<longleftrightarrow>
     map s_output (surfaces rt') = map s_output (surfaces rt)
     \<and> map authentication (surfaces rt') = map authentication (surfaces rt)
     \<and> (retiring_authentication rt' = None) = (retiring_authentication rt = None)
     \<and> (authentication_retirement rt' = None) = (authentication_retirement rt = None)"

lemma handover_same_roles: "handover_ok rt \<Longrightarrow> same_roles rt rt' \<Longrightarrow> handover_ok rt'"
  by (simp add: handover_ok_def same_roles_def)

lemma same_roles_refl [simp]: "same_roles rt rt"
  by (simp add: same_roles_def)

lemma same_roles_trans: "same_roles a b \<Longrightarrow> same_roles b c \<Longrightarrow> same_roles a c"
  by (simp add: same_roles_def)

lemma filter_no_True: "True \<notin> set auths \<Longrightarrow> filter id auths = []"
  by (auto simp: filter_empty_conv)

lemma filter_update_True:
  "True \<notin> set auths \<Longrightarrow> length (filter id (auths[i := b])) \<le> 1"
  by (induction auths arbitrary: i) (auto split: nat.split simp: filter_no_True)

lemma filter_update_False:
  "position id auths = Some c \<Longrightarrow> length (filter id auths) \<le> 1 \<Longrightarrow> True \<notin> set (auths[c := False])"
  by (induction auths arbitrary: c) (auto split: if_splits simp: filter_empty_conv)

lemma position_map: "position P (map f xs) = position (P \<circ> f) xs"
  by (induction xs) auto

lemma same_roles_put:
  assumes "s_output s = s_output (surfaces rt ! i)" "authentication s = authentication (surfaces rt ! i)"
  shows "same_roles rt (put_surface i s rt)"
proof (cases "i < length (surfaces rt)")
  case True
  then show ?thesis
    using assms by (simp add: same_roles_def put_surface_def map_update) (metis list_update_id nth_map)
next
  case False
  then show ?thesis by (simp add: same_roles_def put_surface_def list_update_beyond)
qed

lemma set_authentication_roles:
  assumes "i < length (surfaces rt)"
  shows "map s_output (surfaces (set_authentication i b rt)) = map s_output (surfaces rt)"
    "map authentication (surfaces (set_authentication i b rt)) = (map authentication (surfaces rt))[i := b]"
    "retiring_authentication (set_authentication i b rt) = retiring_authentication rt"
    "authentication_retirement (set_authentication i b rt) = authentication_retirement rt"
proof -
  have "map s_output (surfaces (set_authentication i b rt)) = map s_output (surfaces rt)
    \<and> map authentication (surfaces (set_authentication i b rt)) = (map authentication (surfaces rt))[i := b]"
  proof (cases "authentication (surfaces rt ! i) = b")
    case True
    then have "(map authentication (surfaces rt))[i := b] = map authentication (surfaces rt)"
      using assms list_update_id [of "map authentication (surfaces rt)" i] by simp
    with True show ?thesis by (simp add: set_authentication_def Let_def)
  next
    case False
    have "(map s_output (surfaces rt))[i := s_output (surfaces rt ! i)] = map s_output (surfaces rt)"
      using assms by (metis list_update_id nth_map)
    with False show ?thesis
      by (simp add: set_authentication_def Let_def redraw_surface_def map_update)
  qed
  then show "map s_output (surfaces (set_authentication i b rt)) = map s_output (surfaces rt)"
    "map authentication (surfaces (set_authentication i b rt)) = (map authentication (surfaces rt))[i := b]"
    by simp_all
qed (simp_all add: set_authentication_def Let_def)

lemma select_index_bound:
  assumes "select_authentication_index cs req = Some i"
  shows "i < length cs"
proof -
  have sel: "i < length cs" if "select (map (\<lambda>(index, name, _, _). (index, name)) xs) req = Some i"
    "set xs \<subseteq> set (zip [0..<length cs] cs)" for xs
  proof -
    from connector.sel_member [OF that(1)] have "i \<in> fst ` set xs" by force
    with that(2) have "i \<in> fst ` set (zip [0..<length cs] cs)" by blast
    then show ?thesis by (auto dest: set_zip_leftD)
  qed
  show ?thesis
    using assms sel [of "zip [0..<length cs] cs"]
      sel [of "filter (\<lambda>(_, _, configured, _). configured) (zip [0..<length cs] cs)"]
    by (auto simp: select_authentication_index_def Let_def dest: position_Some
        split: option.splits if_splits)
qed

lemma handover_refresh [genkan_inv]:
  assumes "handover_ok rt"
  shows "handover_ok (refresh_authentication_output now rt)"
proof -
  let ?as = "map authentication (surfaces rt)"
  let ?cs = "map (\<lambda>s. (output_name s, s_size s \<noteq> None, authentication s)) (surfaces rt)"
  have pos: "position id ?as = position authentication (surfaces rt)"
    by (simp add: position_map comp_def)
  show ?thesis
  proof (cases "retiring_authentication rt = None")
    case False
    then show ?thesis using assms by (simp add: refresh_authentication_output_def Let_def)
  next
    case True
    have to_none: "handover_ok (set_authentication c False (rt\<lparr>retiring_authentication := Some x,
        authentication_retirement := Some y, retirement_feedback := None\<rparr>))"
      if "position authentication (surfaces rt) = Some c" for c x y
      using assms that position_Some [OF that] filter_update_False [of ?as c] pos
      by (simp add: handover_ok_def roles_ok_def set_authentication_roles filter_no_True)
    have to_one: "handover_ok (set_authentication i True rt)"
      if "position authentication (surfaces rt) = None"
        "select_authentication_index ?cs (authentication_output rt) = Some i" for i
    proof -
      have "True \<notin> set ?as" using that(1) by auto
      moreover have "i < length (surfaces rt)" using select_index_bound [OF that(2)] by simp
      ultimately show ?thesis
        using assms True filter_update_True [of ?as i True]
        by (simp add: handover_ok_def roles_ok_def set_authentication_roles)
    qed
    show ?thesis
      using assms True to_none to_one
      by (auto simp: refresh_authentication_output_def Let_def split: option.split)
  qed
qed

lemma handover_cleared:
  assumes "handover_ok rt" "True \<notin> set (map authentication (surfaces rt))"
  shows "handover_ok (rt\<lparr>retirement_feedback := None, authentication_retirement := None,
    retiring_authentication := None\<rparr>)"
  using assms by (simp add: handover_ok_def roles_ok_def)

lemma handover_no_role:
  "handover_ok rt \<Longrightarrow> authentication_retirement rt \<noteq> None \<Longrightarrow> True \<notin> set (map authentication (surfaces rt))"
  by (simp add: handover_ok_def roles_ok_def)

lemma handover_expire [genkan_inv]:
  assumes "handover_ok rt"
  shows "handover_ok (expire_authentication_retirement now now' rt)"
proof (cases "authentication_retirement rt")
  case None
  then show ?thesis using assms by (simp add: expire_authentication_retirement_def)
next
  case (Some r)
  let ?rt = "rt\<lparr>retirement_feedback := None, authentication_retirement := None,
    retiring_authentication := None\<rparr>"
  have none: "True \<notin> set (map authentication (surfaces ?rt))" and ok: "handover_ok ?rt"
    using handover_no_role [OF assms] handover_cleared [OF assms] Some by simp_all
  have "handover_ok (set_authentication i True ?rt)" if "i < length (surfaces ?rt)" for i
    using ok filter_update_True [OF none, of i True] that
    by (simp add: handover_ok_def roles_ok_def set_authentication_roles)
  then show ?thesis
    using assms Some handover_refresh [OF ok]
    by (auto simp: expire_authentication_retirement_def Let_def bind_eq_Some_conv dest: position_Some
        split: option.split)
qed

lemma handover_presented [genkan_inv]: "handover_ok rt \<Longrightarrow> handover_ok (presented now fb rt)"
  using handover_cleared [of rt] handover_no_role [of rt]
  by (auto simp: presented_def handover_refresh split: option.splits)

lemma handover_output_destroyed [genkan_inv]:
  assumes "handover_ok rt"
  shows "handover_ok (output_destroyed now out rt)"
proof -
  have len: "length (filter authentication (filter P ss)) \<le> length (filter authentication ss)"
    for P and ss :: "surface list" by (induction ss) auto
  have ok: "handover_ok (rt\<lparr>surfaces := filter (\<lambda>s. s_output s \<noteq> out) (surfaces rt)\<rparr>)"
    using assms le_trans [OF len]
    by (auto simp: handover_ok_def roles_ok_def filter_map comp_def distinct_map_filter)
  moreover have "handover_ok (rt\<lparr>retiring_authentication := None, authentication_retirement := None,
      retirement_feedback := None, surfaces := filter (\<lambda>s. s_output s \<noteq> out) (surfaces rt)\<rparr>)"
    using ok by (simp add: handover_ok_def roles_ok_def)
  ultimately show ?thesis by (simp add: output_destroyed_def Let_def handover_refresh)
qed

lemma handover_add_surface [genkan_inv]:
  assumes "handover_ok rt" "add_surface now out rt = Inr rt'"
  shows "handover_ok rt'"
proof -
  have "handover_ok (rt\<lparr>surfaces := surfaces rt @ [new_surface out name wl], next_surface := n\<rparr>)"
    if "\<not> list_ex (\<lambda>s. s_output s = out) (surfaces rt)" for name wl n
    using assms(1) that
    by (auto simp: handover_ok_def roles_ok_def new_surface_def list_ex_iff filter_map comp_def)
  with assms show ?thesis
    by (auto simp: add_surface_def Let_def intro!: handover_refresh split: if_splits)
qed

lemma handover_add_surfaces [genkan_inv]:
  "handover_ok rt \<Longrightarrow> handover_ok (fst (add_surfaces now outs rt))"
  by (induction outs arbitrary: rt) (auto split: sum.split simp: handover_add_surface)

lemma handover_reconcile [genkan_inv]: "handover_ok rt \<Longrightarrow> handover_ok (fst (reconcile_outputs now rt))"
  by (simp add: reconcile_outputs_def handover_add_surfaces)

lemma roles_pointwise:
  assumes "\<And>s. s_output (f s) = s_output s" "\<And>s. authentication (f s) = authentication s"
  shows "same_roles rt (rt\<lparr>surfaces := map f (surfaces rt)\<rparr>)"
  using assms by (simp add: same_roles_def comp_def)

lemma same_roles_redraws [simp]:
  "same_roles rt (redraw_all_surfaces k rt)" "same_roles rt (redraw_media rt)"
  "same_roles rt (record_full_frame rt)" "same_roles rt (fst (classify_overlay_redraw rt))"
  "same_roles rt (fail e rt)"
  by (auto simp: same_roles_def redraw_all_surfaces_def redraw_media_def record_full_frame_def
      classify_overlay_redraw_def fail_def redraw_surface_def Let_def)

lemma same_roles_apply_refresh [simp]: "same_roles rt (apply_refresh r rt)"
  using same_roles_trans [OF same_roles_redraws(3) same_roles_redraws(2)]
    same_roles_trans [OF same_roles_redraws(4) same_roles_redraws(1), of rt]
  by (cases r) (auto simp: apply_refresh_def split: prod.split)

lemma retain_fields [simp]:
  "s_output (retain_buffers d s) = s_output s" "authentication (retain_buffers d s) = authentication s"
  by (simp_all add: retain_buffers_def)

lemma scaled_overlay_fields:
  "scaled_overlay f w h s = Some (s', sc)
    \<Longrightarrow> s_output s' = s_output s \<and> authentication s' = authentication s"
  by (auto simp: scaled_overlay_def Let_def split: if_splits option.splits)

lemma prepared_fields:
  "draw_reused f g k d sc s i = Prepared s' j \<Longrightarrow> s_output s' = s_output s \<and> authentication s' = authentication s"
  "draw_fresh env f g d b sc s = Prepared s' j \<Longrightarrow> s_output s' = s_output s \<and> authentication s' = authentication s"
  "draw_fresh env f g d b sc s = NoBuffer s' \<Longrightarrow> s' = s"
  "draw_fresh env f g d b sc s = PrepareError s' e \<Longrightarrow> s' = s"
  by (auto simp: draw_reused_def draw_fresh_def Let_def split: if_splits option.splits)

lemma draw_reused_prepared:
  "draw_reused f g k d sc s i \<noteq> NoBuffer s'" "draw_reused f g k d sc s i \<noteq> PrepareError s' e"
  by (auto simp: draw_reused_def Let_def split: option.splits)

lemma same_roles_commit:
  assumes "s_output s = s_output (surfaces rt ! i)" "authentication s = authentication (surfaces rt ! i)"
  shows "same_roles rt (fst (commit_surface env retiring i s j rt))"
  using same_roles_put [OF assms] same_roles_put [of "s\<lparr>buffers := b, redraw := r, first_presented := True\<rparr>" rt i for b r]
    assms
  by (auto simp: commit_surface_def Let_def redraw_surface_def same_roles_def put_surface_def)

lemma handover_keep_role:
  assumes "handover_ok rt" "retiring_authentication rt \<noteq> None" "s_output s = s_output (surfaces rt ! i)"
  shows "handover_ok (keep_role i s rt)"
proof -
  have none: "True \<notin> set (map authentication (surfaces rt))"
    using assms(1,2) by (simp add: handover_ok_def roles_ok_def)
  have outs: "map s_output ((surfaces rt)[i := s']) = map s_output (surfaces rt)"
    if "s_output s' = s_output s" for s'
  proof (cases "i < length (surfaces rt)")
    case True
    then show ?thesis using that assms(3) by (simp add: map_update) (metis list_update_id nth_map)
  qed (simp add: list_update_beyond)
  show ?thesis
    using assms(1) outs filter_update_True [OF none, of i True]
    by (simp add: keep_role_def put_surface_def handover_ok_def roles_ok_def redraw_surface_def map_update)
qed

lemma handover_fields:
  "handover_ok (rt\<lparr>retirement_feedback := fb\<rparr>) = handover_ok rt"
  "handover_ok (rt\<lparr>presentation := p\<rparr>) = handover_ok rt"
  "handover_ok (rt\<lparr>panicked := b\<rparr>) = handover_ok rt"
  "handover_ok (rt\<lparr>rt_state := st\<rparr>) = handover_ok rt"
  "handover_ok (rt\<lparr>output_state := os\<rparr>) = handover_ok rt"
  "handover_ok (rt\<lparr>keyboards := ks\<rparr>) = handover_ok rt"
  by (simp_all add: handover_ok_def)

text \<open>Every way \<open>render\<close> can end, and the surface it leaves behind.\<close>

lemma render_outcome:
  obtains "fst (render env i rt) = rt"
  | s where "s_output s = s_output (surfaces rt ! i)" "authentication s = authentication (surfaces rt ! i)"
      "fst (render env i rt) = put_surface i s rt"
  | s where "s_output s = s_output (surfaces rt ! i)" "retiring_authentication rt \<noteq> None"
      "fst (render env i rt) = keep_role i s rt"
  | s j retiring rt' where "s_output s = s_output (surfaces rt ! i)"
      "authentication s = authentication (surfaces rt ! i)"
      "rt' = rt \<or> (\<exists>fb. rt' = rt\<lparr>retirement_feedback := Some fb\<rparr>)"
      "fst (render env i rt) = fst (commit_surface env retiring i s j rt')"
proof -
  let ?s = "surfaces rt ! i"
  show thesis
  proof (cases "fst (render env i rt) = rt")
    case False
    then obtain w h bytes s1 sc where
      size: "configured_size ?s = Some (Inr (w, h))"
      and bytes: "Option.bind (checked_mul 32 w h) (\<lambda>n. if n \<le> MAX_SURFACE_PIXELS
          then checked_mul 64 n 4 else None) = Some bytes" "\<not> bytes > MAX_BUFFER_BYTES"
      and sc: "scaled_overlay (current_frame rt) w h ?s = Some (s1, sc)"
      by (auto simp: render_def Let_def split: option.splits sum.splits if_splits)
    define s2 where "s2 = retain_buffers (w, h) s1"
    have s2: "s_output s2 = s_output ?s" "authentication s2 = authentication ?s"
      using scaled_overlay_fields [OF sc] by (simp_all add: s2_def)
    define requested where "requested = (case redraw_pending (redraw ?s) of None \<Rightarrow> FullRedraw | Some k \<Rightarrow> k)"
    define prepared where "prepared = (case select_reusable_buffer requested (background_generation rt)
          (reusable_buffers (w, h) s2) of
        Some i \<Rightarrow> draw_reused (current_frame rt) (background_generation rt) requested (w, h) sc s2 i
      | None \<Rightarrow> draw_fresh env (current_frame rt) (background_generation rt) (w, h) bytes sc s2)"
    define retiring where "retiring = (role_pending (redraw ?s) \<and> \<not> authentication ?s
      \<and> retiring_authentication rt = Some (s_output ?s))"
    have eq: "render env i rt = (case prepared of
        DrawPanic \<Rightarrow> (rt, RenderPanic)
      | NoBuffer s \<Rightarrow> (put_surface i s rt, Rendered)
      | PrepareError s e \<Rightarrow> (put_surface i s rt, RenderError e)
      | Prepared s j \<Rightarrow> if retiring
          then (case feedback env of None \<Rightarrow> (keep_role i s rt, Rendered)
                | Some fb \<Rightarrow> commit_surface env True i s j (rt\<lparr>retirement_feedback := Some fb\<rparr>))
          else commit_surface env False i s j rt)"
      unfolding render_def Let_def size sum.case option.case prod.case bytes(1) if_not_P [OF bytes(2)] sc
        prepared_def requested_def retiring_def s2_def ..
    have fresh: "s' = s2" if "prepared = NoBuffer s' \<or> prepared = PrepareError s' e" for s' e
      using that prepared_fields(3,4) draw_reused_prepared
      by (auto simp: prepared_def split: option.splits)
    have kept: "s_output s' = s_output ?s \<and> authentication s' = authentication ?s"
      if P: "prepared = Prepared s' j" for s' j
    proof (cases "select_reusable_buffer requested (background_generation rt) (reusable_buffers (w, h) s2)")
      case None
      with P have "draw_fresh env (current_frame rt) (background_generation rt) (w, h) bytes sc s2 = Prepared s' j"
        by (simp add: prepared_def)
      from prepared_fields(2) [OF this] s2 show ?thesis by simp
    next
      case (Some k)
      with P have "draw_reused (current_frame rt) (background_generation rt) requested (w, h) sc s2 k = Prepared s' j"
        by (simp add: prepared_def)
      from prepared_fields(1) [OF this] s2 show ?thesis by simp
    qed
    show thesis
    proof (cases prepared)
      case (Prepared s' j)
      note d = kept [OF Prepared]
      show thesis
      proof (cases "retiring \<and> feedback env = None")
        case True
        then show thesis using d that(3) [of s'] by (simp add: eq Prepared retiring_def)
      next
        case False
        show thesis
        proof (cases retiring)
          case True
          with False obtain fb where fb: "feedback env = Some fb" by auto
          have "fst (render env i rt) = fst (commit_surface env True i s' j (rt\<lparr>retirement_feedback := Some fb\<rparr>))"
            by (simp add: eq Prepared True fb)
          with d show thesis by (intro that(4)) auto
        next
          case False
          then have "fst (render env i rt) = fst (commit_surface env False i s' j rt)"
            by (simp add: eq Prepared)
          with d show thesis by (intro that(4)) auto
        qed
      qed
    next
      case (NoBuffer s')
      then show thesis using fresh [of s'] s2 that(2) [of s'] by (simp add: eq)
    next
      case (PrepareError s' e)
      then show thesis using fresh [of s' e] s2 that(2) [of s'] by (simp add: eq)
    next
      case DrawPanic
      then show thesis using that(1) by (simp add: eq)
    qed
  qed (rule that(1))
qed

lemma handover_render [genkan_inv]:
  assumes "handover_ok rt"
  shows "handover_ok (fst (render env i rt))"
proof (rule render_outcome [of env i rt])
  fix s j retiring rt'
  assume s: "s_output s = s_output (surfaces rt ! i)" "authentication s = authentication (surfaces rt ! i)"
    and rt': "rt' = rt \<or> (\<exists>fb. rt' = rt\<lparr>retirement_feedback := Some fb\<rparr>)"
    and eq: "fst (render env i rt) = fst (commit_surface env retiring i s j rt')"
  have "handover_ok rt'" "surfaces rt' = surfaces rt" using rt' assms by (auto simp: handover_fields)
  then show ?thesis
    using same_roles_commit [of s rt' i] s handover_same_roles unfolding eq by metis
qed (use assms handover_same_roles same_roles_put handover_keep_role in \<open>metis\<close>)+

lemma handover_render_all [genkan_inv]: "handover_ok rt \<Longrightarrow> handover_ok (fst (render_all env is rt))"
proof (induction "is" arbitrary: rt)
  case (Cons i "is")
  from handover_render [OF Cons.prems] have "handover_ok (fst (render (env i) i rt))" .
  with Cons.IH [OF this] show ?case by (auto split: prod.split render_result.split)
qed simp

lemma inspect_fields:
  "inspect_surface g s = Some (Inr (s', r, c)) \<Longrightarrow> s_output s' = s_output s \<and> authentication s' = authentication s"
  by (auto simp: inspect_surface_def Let_def split: option.splits sum.splits)

abbreviation roles_of :: "surface list \<Rightarrow> nat list \<times> bool list" where
  "roles_of ss \<equiv> (map s_output ss, map authentication ss)"

lemma maintain_scan_roles:
  "maintain_scan g b i ss = (ss', r) \<Longrightarrow> roles_of ss' = roles_of ss"
proof (induction ss arbitrary: i ss' r)
  case (Cons s ss)
  obtain ss1 e "is" where rest: "maintain_scan g b (i + 1) ss = (ss1, e, is)" by (metis prod_cases3)
  note IH = Cons.IH [OF rest]
  show ?case
    using Cons.prems rest IH
    by (auto simp: Let_def split: option.splits sum.splits prod.splits dest: inspect_fields)
qed simp

lemma partial_scan_roles:
  "partial_scan g i ss = (ss', r) \<Longrightarrow> roles_of ss' = roles_of ss"
proof (induction ss arbitrary: i ss' r)
  case (Cons s ss)
  obtain ss1 e "is" sm where rest: "partial_scan g (i + 1) ss = (ss1, e, is, sm)" by (metis prod_cases4)
  note IH = Cons.IH [OF rest]
  show ?case
    using Cons.prems rest IH
    by (auto simp: Let_def split: option.splits sum.splits prod.splits overlay_progress.splits
        dest: inspect_fields)
qed simp

lemma handover_surfaces:
  "handover_ok rt \<Longrightarrow> roles_of ss = roles_of (surfaces rt) \<Longrightarrow> handover_ok (rt\<lparr>surfaces := ss\<rparr>)"
  by (simp add: handover_ok_def)

lemma handover_maintain [genkan_inv]:
  assumes "handover_ok rt"
  shows "handover_ok (fst (maintain_surfaces env b rt))"
proof -
  obtain ss e "is" where scan: "maintain_scan (background_generation rt) b 0 (surfaces rt) = (ss, e, is)"
    by (metis prod_cases3)
  have "handover_ok (rt\<lparr>surfaces := ss\<rparr>)"
    using assms maintain_scan_roles [OF scan] by (rule handover_surfaces)
  then show ?thesis
    by (simp add: maintain_surfaces_def Let_def scan handover_render_all split: option.split)
qed

lemma handover_partial [genkan_inv]:
  assumes "handover_ok rt"
  shows "handover_ok (fst (commit_partial_overlays env rt))"
proof -
  obtain ss e "is" sm where scan: "partial_scan (background_generation rt) 0 (surfaces rt) = (ss, e, is, sm)"
    by (metis prod_cases4)
  have "handover_ok (rt\<lparr>surfaces := ss\<rparr>)"
    using assms partial_scan_roles [OF scan] by (rule handover_surfaces)
  from handover_render_all [OF this, of env "is"] this show ?thesis
    by (auto simp: commit_partial_overlays_def Let_def scan split: option.split prod.split)
qed

lemma handover_fail [simp]: "handover_ok (fail e rt) = handover_ok rt"
  by (simp add: handover_ok_def fail_def)

lemma handover_refreshes [simp]:
  "handover_ok (fst (refresh_priority rt)) = handover_ok rt"
  "handover_ok (fst (refresh_presentation rt)) = handover_ok rt"
  by (auto simp: refresh_priority_def refresh_presentation_def handover_ok_def split: prod.split)

lemma handover_apply_refresh [genkan_inv]: "handover_ok rt \<Longrightarrow> handover_ok (apply_refresh r rt)"
  using same_roles_apply_refresh handover_same_roles by blast

lemma handover_settle_render: "handover_ok (fst x) \<Longrightarrow> handover_ok (settle_render x)"
  by (cases x; cases "snd x") (auto simp: settle_render_def handover_fields)

lemma handover_draw_phase [genkan_inv]:
  assumes "handover_ok rt"
  shows "handover_ok (draw_phase env priority rt)"
proof -
  obtain rt1 progress r where p: "commit_partial_overlays (partial_env env) (apply_refresh priority rt)
      = (rt1, progress, r)" by (metis prod_cases3)
  have ok: "handover_ok rt1"
    using handover_partial [OF handover_apply_refresh [OF assms, of priority], of "partial_env env"] p by simp
  have "handover_ok (fst (refresh_presentation rt1))" using ok by simp
  then have "handover_ok (case refresh_presentation rt1 of (rt, refresh) \<Rightarrow> apply_refresh refresh rt)"
    by (cases "refresh_presentation rt1") (simp add: handover_apply_refresh)
  with ok show ?thesis
    by (auto simp: draw_phase_def p Let_def handover_maintain intro!: handover_settle_render)
qed

lemma handover_apply_action [genkan_inv]: "handover_ok rt \<Longrightarrow> handover_ok (apply_action env act rt)"
proof -
  assume ok: "handover_ok rt"
  have "handover_ok (redraw_all_surfaces k (record_full_frame rt'))" if "handover_ok rt'" for k and rt' :: "'a runtime"
    using that same_roles_trans [OF same_roles_redraws(3) same_roles_redraws(1)] handover_same_roles by blast
  with ok show ?thesis
    by (cases act) (auto simp: apply_action_def ready_apply_def Let_def handover_ok_def fail_def)
qed

lemma handover_tick [genkan_inv]:
  assumes "handover_ok rt"
  shows "handover_ok (tick env rt)"
proof -
  obtain rt1 e where r1: "reconcile_outputs (at_reconcile env) rt = (rt1, e)" by fastforce
  have ok1: "handover_ok rt1" using handover_reconcile [OF assms, of "at_reconcile env"] r1 by simp
  define rt2 where "rt2 = expire_authentication_retirement (at_expiry env) (at_restore env) rt1"
  obtain rt3 priority where r3: "refresh_priority rt2 = (rt3, priority)" by fastforce
  have "handover_ok rt2" unfolding rt2_def by (rule handover_expire [OF ok1])
  then have "handover_ok rt3" using r3 by (metis fst_conv handover_refreshes(1))
  then have "handover_ok (settle_authorization (tick_apply env) rt3)"
    by (auto simp: settle_authorization_def Let_def handover_fields
        intro!: handover_apply_action split: prod.split)
  with assms ok1 show ?thesis
    by (auto simp: tick_def r1 r3 rt2_def [symmetric] Let_def handover_draw_phase split: option.split)
qed

lemma handover_handlers [genkan_inv]:
  assumes "handover_ok rt"
  shows "handover_ok (configure now wl dims rt)" "handover_ok (scale_factor_changed wl scale rt)"
    "handover_ok (frame_callback wl rt)" "handover_ok (update_output now out rt)"
    "handover_ok (buffer_released wl i rt)" "handover_ok (new_output now out rt)"
    "handover_ok (discarded fb wl rt)" "handover_ok (handle_key key text rt)"
    "handover_ok (new_keyboard seat k rt)" "handover_ok (remove_keyboard seat rt)"
proof -
  have put: "handover_ok (put_surface j s rt')"
    if "handover_ok rt'" "s_output s = s_output (surfaces rt' ! j)"
      "authentication s = authentication (surfaces rt' ! j)" for rt' :: "'a runtime" and j s
    using that handover_same_roles same_roles_put by metis
  show "handover_ok (configure now wl dims rt)"
    using assms by (auto simp: configure_def Let_def redraw_surface_def split: option.split
        intro!: handover_refresh put)
  show "handover_ok (scale_factor_changed wl scale rt)"
    using assms by (auto simp: scale_factor_changed_def Let_def redraw_surface_def split: option.split intro!: put)
  show "handover_ok (frame_callback wl rt)"
    using assms by (auto simp: frame_callback_def redraw_surface_def split: option.split intro!: put)
  show "handover_ok (update_output now out rt)"
    using assms by (auto simp: update_output_def split: option.split intro!: handover_refresh put)
  show "handover_ok (buffer_released wl i rt)"
    using assms by (auto simp: buffer_released_def Let_def split: option.split intro!: put)
  show "handover_ok (new_output now out rt)"
    using assms by (auto simp: new_output_def handover_add_surface split: option.split sum.split
        intro!: handover_refresh put)
  have "handover_ok (rt\<lparr>retirement_feedback := None, authentication_retirement :=
      map_option retirement_discarded (authentication_retirement rt)\<rparr>)"
    using assms by (simp add: handover_ok_def)
  then show "handover_ok (discarded fb wl rt)"
    using assms by (auto simp: discarded_def Let_def redraw_surface_def split: option.split intro!: put)
  have "handover_ok (redraw_all_surfaces k (fst (classify_overlay_redraw (rt\<lparr>presentation := p\<rparr>))))" for k p
    by (rule handover_same_roles [OF _ same_roles_trans [OF same_roles_redraws(4) same_roles_redraws(1)]])
      (simp add: handover_fields assms)
  then show "handover_ok (handle_key key text rt)"
    using assms by (auto simp: handle_key_def Let_def handover_fields split: option.split prod.split)
      (metis fst_conv)
  show "handover_ok (new_keyboard seat k rt)" "handover_ok (remove_keyboard seat rt)"
    using assms by (auto simp: new_keyboard_def remove_keyboard_def handover_fields split: option.split)
qed

lemma handover_handle: "handover_ok rt \<Longrightarrow> handover_ok (handle rt i)"
  by (cases i)
    (simp_all add: locked_def finished_def handover_fields handover_handlers handover_tick
      handover_presented handover_output_destroyed handover_apply_action split: prod.split)

lemma handover_step: "handover_ok rt \<Longrightarrow> handover_ok (fst (lock_step rt i))"
  by (simp add: lock_step_def Let_def handover_handle)

lemma handover_started:
  assumes "started rt"
  shows "handover_ok rt"
proof -
  from assms obtain pops p fds auth outs r a l now where
    "start r a l now (Runtime_new pops p fds auth outs) = Inr rt" by (auto simp: started_def)
  then have "rt = fst (add_surfaces now (map fst outs)
      ((Runtime_new pops p fds auth outs)\<lparr>session_lock := True\<rparr>))"
    by (auto simp: start_def Runtime_new_def split: if_splits prod.splits option.splits)
  moreover have "handover_ok ((Runtime_new pops p fds auth outs)\<lparr>session_lock := True\<rparr>)"
    by (simp add: handover_ok_def roles_ok_def Runtime_new_def)
  ultimately show ?thesis by (simp add: handover_add_surfaces)
qed

interpretation lock_roles: invariant_machine lock_step started handover_ok
  by unfold_locales (auto simp: handover_step handover_started)

text \<open>When an output is configured, some output is selected, and the selected one is configured.\<close>

lemma select_index_total:
  assumes "list_ex (\<lambda>(_, configured, _). configured) cs"
  shows "select_authentication_index cs req \<noteq> None"
proof -
  let ?conf = "filter (\<lambda>(_, _, configured, _). configured) (zip [0..<length cs] cs)"
  from assms obtain x where "x \<in> set cs" "fst (snd x)" by (auto simp: list_ex_iff)
  then obtain j where "j < length cs" "fst (snd (cs ! j))" by (auto simp: in_set_conv_nth)
  moreover from this(1) have "(j, cs ! j) \<in> set (zip [0..<length cs] cs)"
    by (auto simp: in_set_zip intro!: exI [of _ j])
  moreover obtain a c b where x: "cs ! j = (a, c, b)" by (metis prod_cases3)
  ultimately have "(j, a, c, b) \<in> set (zip [0..<length cs] cs)" "c" by simp_all
  then have "(j, a, c, b) \<in> set ?conf" by simp
  then have "?conf \<noteq> []" by (metis empty_iff list.set(1))
  then have "select (map (\<lambda>(index, name, _, _). (index, name)) ?conf) req \<noteq> None"
    using connector.sel_None by simp
  then show ?thesis
    by (auto simp: select_authentication_index_def Let_def split: option.split)
qed

section \<open>A concrete locker\<close>

text \<open>
  For the witnesses: a presentation that grants one authorization as soon as the lock is confirmed,
  a single unnamed output, and an environment in which every call succeeds.
\<close>

definition demo_ops :: "bool presentation_ops" where
  "demo_ops = \<lparr>p_receive_latest = (\<lambda>p. (p, RUnchanged)), p_receive_deferred = (\<lambda>p. (p, RUnchanged)),
     p_frame = (\<lambda>_. None), p_lock_confirmed = (\<lambda>_. True), p_input = (\<lambda>p _. (p, False)),
     p_take_authorization = (\<lambda>p. (False, p))\<rparr>"

definition demo_runtime :: "bool runtime" where
  "demo_runtime = projr (start True True True 0 (Runtime_new demo_ops False [3] None [(1, None)]))"

definition demo_apply :: apply_env where
  "demo_apply = \<lparr>ready_ok = (\<lambda>_. True), roundtrip_ok = True\<rparr>"

definition demo_tick :: tick_env where
  "demo_tick = \<lparr>at_reconcile = 1, at_expiry = 1, at_restore = 1, tick_apply = demo_apply,
     partial_env = (\<lambda>_. \<lparr>pool_ok = True, create_ok = True, fresh_canvas = (\<lambda>n. replicate n 0),
       feedback = None, attach_ok = True\<rparr>),
     full_env = (\<lambda>_. \<lparr>pool_ok = True, create_ok = True, fresh_canvas = (\<lambda>n. replicate n 0),
       feedback = None, attach_ok = True\<rparr>)\<rparr>"

lemmas demo_defs = demo_ops_def demo_runtime_def demo_apply_def demo_tick_def

lemmas runtime_eval = start_def Runtime_new_def add_surface_def new_surface_def
  refresh_authentication_output_def select_authentication_index_def select_def
  external_candidates_def set_authentication_def lock_step_def locked_def State_new_def
  lock_confirmation_action_def apply_action_def ready_apply_def redraw_all_surfaces_def
  record_full_frame_def tick_def reconcile_outputs_def expire_authentication_retirement_def
  refresh_priority_def settle_authorization_def authorize_unlock_def current_frame_def
  frame_geometry_def redraw_surface_def record_presentation_failure_def

lemma demo_start: "start True True True 0 (Runtime_new demo_ops False [3] None [(1, None)])
    = Inr demo_runtime"
  by (simp add: demo_defs runtime_eval)

lemma demo_started: "started demo_runtime"
  unfolding started_def using demo_start by blast

section \<open>Properties\<close>

definition the_run :: "'p runtime \<Rightarrow> lock_input list \<Rightarrow> 'p runtime" where
  "the_run rt ins = fst (run lock_step rt ins)"

lemma the_run_snoc: "the_run rt (ins @ [i]) = fst (lock_step (the_run rt ins) i)"
  by (simp add: the_run_def run_snoc)

lemma demo_unlocks:
  "wire (the_run demo_runtime [ILocked demo_apply, ITick demo_tick]) = [ReadyWritten 3, Unlocked]"
  by (simp add: the_run_def demo_defs runtime_eval Let_def)

text \<open>
  The unlock request leaves in the iteration that was granted the authorization: it was not on the
  wire before it and is right after it.
\<close>

lemma unlock_authorized:
  assumes "started rt" "Unlocked \<in> set (wire (the_run rt ins))"
  shows "\<exists>pre env post. ins = pre @ ITick env # post \<and> (\<exists>e. ILocked e \<in> set pre)
    \<and> lifecycle (rt_state (the_run rt pre)) = Locked \<and> authorization_granted (the_run rt pre)
    \<and> Unlocked \<notin> set (wire (the_run rt pre))
    \<and> Unlocked \<in> set (wire (the_run rt (pre @ [ITick env])))"
  using assms(2)
proof (induction ins rule: rev_induct)
  case Nil
  then show ?case using started_facts(2) [OF assms(1)] commits_no_unlock by (auto simp: the_run_def)
next
  case (snoc i ins)
  let ?s = "the_run rt ins"
  show ?case
  proof (cases "Unlocked \<in> set (wire ?s)")
    case True
    from snoc.IH [OF this] obtain pre env post where "ins = pre @ ITick env # post"
      "\<exists>e. ILocked e \<in> set pre" "lifecycle (rt_state (the_run rt pre)) = Locked"
      "authorization_granted (the_run rt pre)" "Unlocked \<notin> set (wire (the_run rt pre))"
      "Unlocked \<in> set (wire (the_run rt (pre @ [ITick env])))" by blast
    then show ?thesis
      by (intro exI [of _ pre] exI [of _ env] exI [of _ "post @ [i]"]) simp
  next
    case False
    show ?thesis
    proof (rule lock_step_quiet_or [of ?s i])
      assume "quiet ?s (fst (lock_step ?s i))"
      then show ?thesis using snoc.prems False
        by (auto simp: the_run_snoc dest: commits_no_unlock elim!: quietD)
    next
      fix env assume "confirming ?s (fst (lock_step ?s i))"
      then show ?thesis using snoc.prems False by (auto simp: the_run_snoc confirming_def)
    next
      fix env assume i: "i = ITick env" and r: "releasing ?s (fst (lock_step ?s i))"
      then have "lifecycle (rt_state ?s) = Locked" "authorization_granted ?s"
        by (auto simp: releasing_def)
      moreover from this(1) obtain e where "ILocked e \<in> set ins"
        using locked_after_confirmation [OF assms(1)] by (auto simp: the_run_def)
      ultimately show ?thesis using i False snoc.prems
        by (intro exI [of _ ins] exI [of _ env] exI [of _ "[]"]) auto
    qed
  qed
qed

text \<open>
  C1. The session is unlocked only by authentication: in every run of the locker, whatever the
  compositor, the keyboard and the system do, if the lock is released then the release happens in
  an iteration of the event loop that took an authorization from the presentation: it was granted
  when that iteration began, with the life cycle \<open>Locked\<close> and after the compositor had confirmed the
  lock, the unlock request had not been sent before that iteration, and has been sent after it.
\<close>

theorem unlock_requires_authorization:
  assumes "started rt" "Unlocked \<in> set (wire (the_run rt ins))"
  shows "\<exists>pre env post. ins = pre @ ITick env # post \<and> (\<exists>e. ILocked e \<in> set pre)
    \<and> lifecycle (rt_state (the_run rt pre)) = Locked \<and> authorization_granted (the_run rt pre)
    \<and> Unlocked \<notin> set (wire (the_run rt pre))
    \<and> Unlocked \<in> set (wire (the_run rt (pre @ [ITick env])))"
  using assms by (rule unlock_authorized)

theorem unlock_requires_authorization_witness:
  "\<exists>pre env post. [ILocked demo_apply, ITick demo_tick] = pre @ ITick env # post
    \<and> (\<exists>e. ILocked e \<in> set pre) \<and> lifecycle (rt_state (the_run demo_runtime pre)) = Locked
    \<and> authorization_granted (the_run demo_runtime pre)
    \<and> Unlocked \<notin> set (wire (the_run demo_runtime pre))
    \<and> Unlocked \<in> set (wire (the_run demo_runtime (pre @ [ITick env])))"
  by (rule unlock_requires_authorization [OF demo_started]) (simp add: demo_unlocks)

text \<open>
  C2. The locker fails closed: the lock is released at most once, and the locker ends without an
  error only if it has released the lock. A failure of any kind, before or after confirmation,
  makes it end with an error and, unless an authorization had been granted, still locked.
\<close>

theorem lock_fails_closed:
  assumes "started rt"
  shows "sum_list (map unlocks (snd (run lock_step rt ins))) \<le> 1
    \<and> (terminate (the_run rt ins) \<and> run_result (the_run rt ins) = Inr ()
        \<longrightarrow> Unlocked \<in> set (wire (the_run rt ins)))
    \<and> (session_lock (the_run rt ins) \<longleftrightarrow> Unlocked \<notin> set (wire (the_run rt ins)))"
proof -
  have "release_inv (the_run rt ins)" unfolding the_run_def by (rule lock_release.init_run [OF assms])
  moreover have "sum_list (map unlocks (snd (run lock_step rt ins))) \<le> 1"
    using lock_meter.run_pays [of rt ins] started_facts(1) [OF assms] by (simp split: if_splits)
  ultimately show ?thesis
    by (auto simp: release_inv_def run_result_def split: option.splits)
qed

theorem lock_fails_closed_witness:
  "sum_list (map unlocks (snd (run lock_step demo_runtime [ILocked demo_apply, ITick demo_tick]))) \<le> 1
    \<and> \<not> session_lock (the_run demo_runtime [ILocked demo_apply, ITick demo_tick])"
  using lock_fails_closed [OF demo_started, of "[ILocked demo_apply, ITick demo_tick]"] demo_unlocks
  by simp

text \<open>
  C12. Readiness means locked: a readiness message is written only after the compositor confirmed
  the lock, and only to a pipe that was registered for it.
\<close>

theorem ready_after_confirmation:
  assumes "started rt" "ReadyWritten fd \<in> set (wire (the_run rt ins))"
  shows "(\<exists>e. ILocked e \<in> set ins) \<and> fd \<in> set (ready rt)"
proof -
  have "(ReadyWritten fd \<in> set (wire (the_run rt ins)) \<longrightarrow> (\<exists>e. ILocked e \<in> set ins) \<and> fd \<in> set (ready rt))
    \<and> set (ready (the_run rt ins)) \<subseteq> set (ready rt)"
  proof (induction ins rule: rev_induct)
    case Nil
    then show ?case using started_facts(2) [OF assms(1)] commits_no_ready by (auto simp: the_run_def)
  next
    case (snoc i ins)
    let ?s = "the_run rt ins"
    show ?case
    proof (rule lock_step_quiet_or [of ?s i])
      assume "quiet ?s (fst (lock_step ?s i))"
      then show ?thesis using snoc by (auto simp: the_run_snoc dest: commits_no_ready elim!: quietD)
    next
      fix env assume "i = ILocked env" "confirming ?s (fst (lock_step ?s i))"
      then show ?thesis using snoc by (auto simp: the_run_snoc confirming_def dest!: in_set_takeD)
    next
      fix env assume "releasing ?s (fst (lock_step ?s i))"
      then show ?thesis using snoc
        by (auto simp: the_run_snoc releasing_def dest: commits_no_ready split: if_splits)
    qed
  qed
  with assms(2) show ?thesis by simp
qed

theorem ready_after_confirmation_witness:
  "3 \<in> set (ready demo_runtime) \<and> (\<exists>e. ILocked e \<in> set [ILocked demo_apply, ITick demo_tick])"
  using ready_after_confirmation [OF demo_started, of 3 "[ILocked demo_apply, ITick demo_tick]"]
    demo_unlocks by simp

text \<open>
  C17. There is never more than one place to type a password: at every moment of every run at most
  one surface has the authentication role, none has it while the role is being handed over to
  another output, every hand-over has a deadline, and no two surfaces belong to the same output.
\<close>

theorem one_authentication_surface:
  assumes "started rt"
  shows "length (filter authentication (surfaces (the_run rt ins))) \<le> 1
    \<and> (retiring_authentication (the_run rt ins) \<noteq> None
        \<longrightarrow> filter authentication (surfaces (the_run rt ins)) = []
          \<and> authentication_retirement (the_run rt ins) \<noteq> None)
    \<and> distinct (map s_output (surfaces (the_run rt ins)))"
proof -
  have "handover_ok (the_run rt ins)" unfolding the_run_def by (rule lock_roles.init_run [OF assms])
  then show ?thesis
    by (auto simp: handover_ok_def roles_ok_def filter_map comp_def filter_empty_conv)
qed

theorem one_authentication_surface_witness:
  "length (filter authentication (surfaces (the_run demo_runtime [ILocked demo_apply]))) \<le> 1"
  using one_authentication_surface [OF demo_started, of "[ILocked demo_apply]"] by blast

text \<open>
  C18. A hand-over cannot hang: when its deadline has passed, the next iteration ends it, and if any
  output is configured then afterwards some surface has the authentication role.
\<close>

theorem handover_expires:
  assumes "handover_ok rt" "authentication_retirement rt = Some r" "deadline r \<le> now"
  shows "retiring_authentication (expire_authentication_retirement now now' rt) = None
    \<and> authentication_retirement (expire_authentication_retirement now now' rt) = None
    \<and> (list_ex (\<lambda>s. s_size s \<noteq> None) (surfaces rt)
        \<longrightarrow> list_ex authentication (surfaces (expire_authentication_retirement now now' rt)))"
proof -
  let ?rt = "rt\<lparr>retirement_feedback := None, authentication_retirement := None,
    retiring_authentication := None\<rparr>"
  have none: "True \<notin> set (map authentication (surfaces rt))"
    using handover_no_role [OF assms(1)] assms(2) by simp
  have cur: "position authentication (surfaces rt) = None" using none by auto
  have set_role: "list_ex authentication (surfaces (set_authentication i True ?rt))"
    if "i < length (surfaces ?rt)" for i
  proof -
    have "True \<in> set (map authentication (surfaces (set_authentication i True ?rt)))"
      using that by (simp add: set_authentication_roles set_update_memI)
    then show ?thesis by (auto simp: list_ex_iff)
  qed
  let ?cs = "map (\<lambda>s. (output_name s, s_size s \<noteq> None, authentication s)) (surfaces rt)"
  have fields: "retiring_authentication (set_authentication i True ?rt) = None"
    "authentication_retirement (set_authentication i True ?rt) = None" for i
    by (simp_all add: set_authentication_def Let_def)
  have refresh: "refresh_authentication_output now' ?rt = (case select_authentication_index ?cs
      (authentication_output rt) of None \<Rightarrow> ?rt | Some i \<Rightarrow> set_authentication i True ?rt)"
    by (simp add: refresh_authentication_output_def Let_def cur split: option.split)
  have "list_ex (\<lambda>(_, configured, _). configured) ?cs \<longleftrightarrow> list_ex (\<lambda>s. s_size s \<noteq> None) (surfaces rt)"
    by (auto simp: list_ex_iff)
  then have sel: "select_authentication_index ?cs (authentication_output rt) \<noteq> None"
    if "list_ex (\<lambda>s. s_size s \<noteq> None) (surfaces rt)"
    using that select_index_total by blast
  have bound: "select_authentication_index ?cs (authentication_output rt) = Some i
      \<Longrightarrow> i < length (surfaces ?rt)" for i
    using select_index_bound [of ?cs] by simp
  let ?found = "Option.bind (retiring_authentication rt)
      (\<lambda>out. position (\<lambda>s. s_output s = out \<and> s_size s \<noteq> None) (surfaces rt))"
  have eq: "expire_authentication_retirement now now' rt = (case ?found of
      Some i \<Rightarrow> set_authentication i True ?rt | None \<Rightarrow> refresh_authentication_output now' ?rt)"
    using assms(2,3) by (simp add: expire_authentication_retirement_def retirement_expired_def Let_def)
  show ?thesis
  proof (cases ?found)
    case None
    then show ?thesis
      unfolding eq None option.case refresh
      using fields set_role sel bound
      by (cases "select_authentication_index ?cs (authentication_output rt)") auto
  next
    case (Some i)
    then have "i < length (surfaces ?rt)"
      by (auto simp: bind_eq_Some_conv dest: position_Some)
    then show ?thesis unfolding eq Some option.case using fields set_role by simp
  qed
qed

definition demo_retiring :: "bool runtime" where
  "demo_retiring = demo_runtime\<lparr>surfaces := [(new_surface 1 None 0)\<lparr>s_size := Some (8, 8)\<rparr>],
     retiring_authentication := Some 1, authentication_retirement := Some (AwaitingCommit 5)\<rparr>"

theorem handover_expires_witness:
  "list_ex authentication (surfaces (expire_authentication_retirement 6 6 demo_retiring))"
proof -
  have "handover_ok demo_retiring"
    by (simp add: handover_ok_def roles_ok_def demo_retiring_def new_surface_def)
  then show ?thesis
    using handover_expires [of demo_retiring "AwaitingCommit 5" 6 6]
    by (simp add: demo_retiring_def new_surface_def)
qed

end
