(* ===== verification/Lock_Worker.thy ===== *)
theory Lock_Worker
  imports Lock_Auth_Protocol
begin

text \<open>
  The private authentication worker (\<open>crates/lock-auth/src/main.rs\<close>): the process that holds the
  PAM transaction and talks to the locker over the protocol of \<open>Lock_Auth_Protocol\<close>.

  PAM, NSS and the operating system are parameters. PAM is an interaction tree: \<open>pam_authenticate\<close>,
  \<open>pam_get_user\<close> and \<open>pam_end\<close> may call the conversation callback any number of times, with any
  arguments that depend on the earlier replies, before they return; \<open>'w\<close> is whatever state they
  keep between calls. NSS is a function of the key and the buffer size. Memory of C strings is the
  list of its readable bytes. As in \<open>Lock_Auth_Protocol\<close>, \<open>None\<close> is a read that blocks for ever.
  The worker's state carries two history variables that the program does not have: the messages
  handed to \<open>send\<close>, and the contents of the response buffers at the moment they were freed.
\<close>

section \<open>Constants\<close>

definition SERVICE :: ustring where "SERVICE = lit ''genkan-lock''"
definition INITIAL_NSS_BUFFER :: nat where "INITIAL_NSS_BUFFER = 1024"
definition MAX_NSS_BUFFER :: nat where "MAX_NSS_BUFFER = 1024 * 1024"
definition MAX_USERNAME_BYTES :: nat where "MAX_USERNAME_BYTES = 256 * 4"

lemmas worker_constants = INITIAL_NSS_BUFFER_def MAX_NSS_BUFFER_def MAX_USERNAME_BYTES_def

text \<open>The documented values of the PAM and errno constants on Linux.\<close>

abbreviation PAM_SUCCESS :: int where "PAM_SUCCESS \<equiv> 0"
abbreviation PAM_CONV_ERR :: int where "PAM_CONV_ERR \<equiv> 19"
abbreviation PAM_DISALLOW_NULL_AUTHTOK :: int where "PAM_DISALLOW_NULL_AUTHTOK \<equiv> 1"
abbreviation PAM_MAX_NUM_MSG :: int where "PAM_MAX_NUM_MSG \<equiv> 32"
abbreviation PAM_PROMPT_ECHO_OFF :: int where "PAM_PROMPT_ECHO_OFF \<equiv> 1"
abbreviation PAM_PROMPT_ECHO_ON :: int where "PAM_PROMPT_ECHO_ON \<equiv> 2"
abbreviation PAM_ERROR_MSG :: int where "PAM_ERROR_MSG \<equiv> 3"
abbreviation PAM_TEXT_INFO :: int where "PAM_TEXT_INFO \<equiv> 4"
abbreviation ERANGE :: int where "ERANGE \<equiv> 34"

section \<open>Text from C\<close>

text \<open>\<open>strnlen\<close> and \<open>strlen\<close> on the readable bytes at a pointer.\<close>

definition strnlen :: "u8 list \<Rightarrow> nat \<Rightarrow> nat" where
  "strnlen mem n = length (takeWhile (\<lambda>b. b \<noteq> 0) (take n mem))"

definition strlen :: "u8 list \<Rightarrow> nat" where
  "strlen mem = length (takeWhile (\<lambda>b. b \<noteq> 0) mem)"

text \<open>
  \<open>String::from_utf8_lossy\<close>: valid sequences decode, and every maximal prefix of a sequence that
  cannot be completed becomes one replacement character.
\<close>

definition REPLACEMENT :: uchar where "REPLACEMENT = 0xFFFD"

definition second3 :: "nat \<Rightarrow> u8 \<Rightarrow> bool" where
  "second3 x b \<longleftrightarrow>
     (let y = unat b in
      if x = 0xE0 then 0xA0 \<le> y \<and> y < 0xC0
      else if x = 0xED then 0x80 \<le> y \<and> y < 0xA0
      else 0x80 \<le> y \<and> y < 0xC0)"

definition second4 :: "nat \<Rightarrow> u8 \<Rightarrow> bool" where
  "second4 x b \<longleftrightarrow>
     (let y = unat b in
      if x = 0xF0 then 0x90 \<le> y \<and> y < 0xC0
      else if x = 0xF4 then 0x80 \<le> y \<and> y < 0x90
      else 0x80 \<le> y \<and> y < 0xC0)"

fun from_utf8_lossy :: "u8 list \<Rightarrow> ustring" where
  "from_utf8_lossy [] = []"
| "from_utf8_lossy (b0 # bs) =
     (let x = unat b0 in
      if x < 128 then x # from_utf8_lossy bs
      else if 194 \<le> x \<and> x < 224 then
        (case bs of
           b1 # r \<Rightarrow>
             if continuation b1
             then ((x - 192) * 64 + (unat b1 - 128)) # from_utf8_lossy r
             else REPLACEMENT # from_utf8_lossy bs
         | [] \<Rightarrow> [REPLACEMENT])
      else if 224 \<le> x \<and> x < 240 then
        (case bs of
           b1 # r \<Rightarrow>
             if second3 x b1 then
               (case r of
                  b2 # r2 \<Rightarrow>
                    if continuation b2
                    then ((x - 224) * 4096 + (unat b1 - 128) * 64 + (unat b2 - 128))
                           # from_utf8_lossy r2
                    else REPLACEMENT # from_utf8_lossy r
                | [] \<Rightarrow> [REPLACEMENT])
             else REPLACEMENT # from_utf8_lossy bs
         | [] \<Rightarrow> [REPLACEMENT])
      else if 240 \<le> x \<and> x < 245 then
        (case bs of
           b1 # r \<Rightarrow>
             if second4 x b1 then
               (case r of
                  b2 # r2 \<Rightarrow>
                    if continuation b2 then
                      (case r2 of
                         b3 # r3 \<Rightarrow>
                           if continuation b3
                           then ((x - 240) * 262144 + (unat b1 - 128) * 4096
                                  + (unat b2 - 128) * 64 + (unat b3 - 128)) # from_utf8_lossy r3
                           else REPLACEMENT # from_utf8_lossy r2
                       | [] \<Rightarrow> [REPLACEMENT])
                    else REPLACEMENT # from_utf8_lossy r
                | [] \<Rightarrow> [REPLACEMENT])
             else REPLACEMENT # from_utf8_lossy bs
         | [] \<Rightarrow> [REPLACEMENT])
      else REPLACEMENT # from_utf8_lossy bs)"

declare from_utf8_lossy.simps(2) [simp del]

text \<open>\<open>while result.len() > MAX_MESSAGE_BYTES { result.pop(); }\<close>\<close>

function pop_to_bound :: "nat \<Rightarrow> ustring \<Rightarrow> ustring" where
  "pop_to_bound bound s = (if length (utf8 s) > bound then pop_to_bound bound (butlast s) else s)"
  by pat_completeness auto
termination
proof (relation "measure (\<lambda>(_, s). length s)")
  fix bound :: nat and s :: ustring
  assume "length (utf8 s) > bound"
  then have "s \<noteq> []" by auto
  then show "((bound, butlast s), (bound, s)) \<in> measure (\<lambda>(_, s). length s)" by simp
qed simp

declare pop_to_bound.simps [simp del]

definition bounded_message :: "u8 list \<Rightarrow> ustring option" where
  "bounded_message mem =
     (let len = strnlen mem (MAX_MESSAGE_BYTES + 1) in
      if len > MAX_MESSAGE_BYTES then None
      else Some (pop_to_bound MAX_MESSAGE_BYTES (from_utf8_lossy (take len mem))))"

definition bounded_username :: "u8 list \<Rightarrow> u8 list option" where
  "bounded_username mem =
     (let len = strnlen mem (MAX_USERNAME_BYTES + 1) in
      if len > MAX_USERNAME_BYTES then None else Some (take len mem))"

section \<open>NSS lookups\<close>

definition next_nss_buffer :: "int \<Rightarrow> nat \<Rightarrow> nat option" where
  "next_nss_buffer status sz =
     (if status = ERANGE \<and> sz < MAX_NSS_BUFFER then Some (min (sz * 2) MAX_NSS_BUFFER) else None)"

text \<open>
  The retry loop of both lookups: \<open>call sz\<close> is the status of the reentrant NSS function with a
  buffer of that size and the entry it found, if any. A buffer of size zero never occurs; the
  guard on it makes the loop total for every argument.
\<close>

function nss_loop :: "(nat \<Rightarrow> int \<times> 'e option) \<Rightarrow> nat \<Rightarrow> 'e option" where
  "nss_loop call sz =
     (case call sz of (status, result) \<Rightarrow>
        (case next_nss_buffer status sz of
           Some next_sz \<Rightarrow> if sz = 0 then None else nss_loop call next_sz
         | None \<Rightarrow> if status \<noteq> 0 then None else result))"
  by pat_completeness auto
termination
  by (relation "measure (\<lambda>(_, sz). MAX_NSS_BUFFER - sz)")
    (auto simp: next_nss_buffer_def split: if_splits)

declare nss_loop.simps [simp del]

type_synonym getpwuid = "u32 \<Rightarrow> nat \<Rightarrow> int \<times> u8 list option"
type_synonym getpwnam = "u8 list \<Rightarrow> nat \<Rightarrow> int \<times> u32 option"

definition username_for_uid :: "getpwuid \<Rightarrow> u32 \<Rightarrow> ustring option" where
  "username_for_uid getpwuid_r uid =
     (case nss_loop (getpwuid_r uid) INITIAL_NSS_BUFFER of
        None \<Rightarrow> None
      | Some pw_name \<Rightarrow> from_utf8 (take (strlen pw_name) pw_name))"

definition username_uid :: "getpwnam \<Rightarrow> u8 list \<Rightarrow> u32 option" where
  "username_uid getpwnam_r username =
     (if 0 \<in> set username then None else nss_loop (getpwnam_r username) INITIAL_NSS_BUFFER)"

section \<open>The conversation with the locker\<close>

record worker =
  link :: connection
  history :: "message list"
  freed :: "u8 list list"

definition worker_send :: "worker \<Rightarrow> message \<Rightarrow> (protocol_error + unit) \<times> worker" where
  "worker_send k m =
     (case send (link k) m of (r, c) \<Rightarrow> (r, k\<lparr>link := c, history := history k @ [m]\<rparr>))"

definition worker_receive :: "worker \<Rightarrow> ((protocol_error + message) \<times> worker) option" where
  "worker_receive k =
     (case receive (inbound (link k)) of
        None \<Rightarrow> None
      | Some (r, rs) \<Rightarrow> Some (r, k\<lparr>link := (link k)\<lparr>inbound := rs\<rparr>\<rparr>))"

record pam_conversation_state =
  peer :: worker
  next_id :: u64
  cancelled :: bool

definition pam_prompt ::
  "ustring \<Rightarrow> bool \<Rightarrow> pam_conversation_state
    \<Rightarrow> ((unit + secret) \<times> pam_conversation_state) option" where
  "pam_prompt t hidden s =
     (if unat (next_id s) > MAX_MESSAGES then Some (Inl (), s)
      else
        (let ident = next_id s; s1 = s\<lparr>next_id := next_id s + 1\<rparr> in
         case worker_send (peer s1) (MPrompt ident hidden t) of
           (Inl _, k) \<Rightarrow> Some (Inl (), s1\<lparr>peer := k\<rparr>)
         | (Inr _, k) \<Rightarrow>
             (case worker_receive k of
                None \<Rightarrow> None
              | Some (r, k') \<Rightarrow>
                  (let s2 = s1\<lparr>peer := k'\<rparr> in
                   case r of
                     Inl _ \<Rightarrow> Some (Inl (), s2)
                   | Inr (MResponse response_id v) \<Rightarrow>
                       if response_id = ident then Some (Inr v, s2) else Some (Inl (), s2)
                   | Inr MCancel \<Rightarrow> Some (Inl (), s2\<lparr>cancelled := True\<rparr>)
                   | Inr _ \<Rightarrow> Some (Inl (), s2)))))"

definition pam_notice ::
  "ustring \<Rightarrow> bool \<Rightarrow> pam_conversation_state \<Rightarrow> pam_conversation_state" where
  "pam_notice t is_error s =
     (let m = (if is_error then MError t else MInfo t) in
      s\<lparr>peer := snd (worker_send (peer s) m)\<rparr>)"

section \<open>The conversation callback\<close>

text \<open>
  A response is a buffer (\<open>None\<close> is the null pointer) of its bytes with the terminator;
  \<open>PendingResponses\<close> owns an array of them until it is released to PAM or dropped.
\<close>

record pam_message =
  msg_style :: int
  msg :: "u8 list option"

record pam_response =
  resp :: "u8 list option"
  resp_retcode :: int

record pending_responses =
  pointer :: "pam_response list option"
  pending_count :: nat

definition calloc_responses :: "nat \<Rightarrow> pam_response list" where
  "calloc_responses n = replicate n \<lparr>resp = None, resp_retcode = 0\<rparr>"

definition as_mut :: "pending_responses \<Rightarrow> pam_response list" where
  "as_mut p = (case pointer p of None \<Rightarrow> [] | Some rs \<Rightarrow> take (pending_count p) rs)"

definition set_response :: "nat \<Rightarrow> u8 list \<Rightarrow> pending_responses \<Rightarrow> pending_responses" where
  "set_response i buffer p =
     p\<lparr>pointer := Some ((as_mut p)[i := \<lparr>resp = Some buffer, resp_retcode = 0\<rparr>])\<rparr>"

definition release :: "pending_responses \<Rightarrow> pam_response list option" where
  "release p = pointer p"

definition zeroized :: "u8 list \<Rightarrow> u8 list" where
  "zeroized buffer = replicate (strlen buffer) 0 @ drop (strlen buffer) buffer"

fun clear_responses :: "pam_response list \<Rightarrow> pam_response list \<times> u8 list list" where
  "clear_responses [] = ([], [])"
| "clear_responses (r # rs) =
     (case clear_responses rs of (rs', bufs) \<Rightarrow>
        (case resp r of
           None \<Rightarrow> (r # rs', bufs)
         | Some buffer \<Rightarrow> (r\<lparr>resp := None\<rparr> # rs', zeroized buffer # bufs)))"

definition drop_pending ::
  "pending_responses \<Rightarrow> pam_conversation_state \<Rightarrow> pam_conversation_state" where
  "drop_pending p s =
     (case pointer p of
        None \<Rightarrow> s
      | Some _ \<Rightarrow>
          s\<lparr>peer := (peer s)\<lparr>freed := freed (peer s) @ snd (clear_responses (as_mut p))\<rparr>\<rparr>)"

text \<open>
  The arguments of one call of the callback, with the answers of the allocator during the call:
  \<open>messages\<close> is \<open>None\<close> for a null array, and an entry of it is \<open>None\<close> for a null pointer; \<open>responses\<close>
  is \<open>None\<close> for a null output pointer and otherwise holds what the output storage contains.
\<close>

record pam_call =
  call_count :: int
  messages :: "pam_message option list option"
  responses :: "pam_response list option option"
  data_null :: bool
  calloc_ok :: bool
  malloc_ok :: "nat \<Rightarrow> bool"

text \<open>
  The loop over the messages completes, refuses one of them (an early return), or unwinds: the body
  would panic where \<open>output[index]\<close> is out of range.
\<close>

datatype loop_end = Completed | Refused | Unwound

fun conversation_loop ::
  "(nat \<Rightarrow> bool) \<Rightarrow> nat \<Rightarrow> pam_message option list \<Rightarrow> pending_responses
    \<Rightarrow> pam_conversation_state \<Rightarrow> (loop_end \<times> pending_responses \<times> pam_conversation_state) option"
where
  "conversation_loop malloc index [] allocated s = Some (Completed, allocated, s)"
| "conversation_loop malloc index (m # ms) allocated s =
     (case Option.bind m msg of
        None \<Rightarrow> Some (Refused, allocated, s)
      | Some mem \<Rightarrow>
          (case bounded_message mem of
             None \<Rightarrow> Some (Refused, allocated, s)
           | Some t \<Rightarrow>
               (let style = msg_style (the m) in
                if style = PAM_PROMPT_ECHO_ON \<or> style = PAM_PROMPT_ECHO_OFF then
                  (case pam_prompt t (style = PAM_PROMPT_ECHO_OFF) s of
                     None \<Rightarrow> None
                   | Some (Inl _, s1) \<Rightarrow> Some (Refused, allocated, s1)
                   | Some (Inr v, s1) \<Rightarrow>
                       if \<not> malloc index then Some (Refused, allocated, s1)
                       else if index \<ge> length (as_mut allocated) then Some (Unwound, allocated, s1)
                       else conversation_loop malloc (Suc index) ms
                              (set_response index (expose v @ [0]) allocated) s1)
                else if style = PAM_TEXT_INFO then
                  conversation_loop malloc (Suc index) ms allocated (pam_notice t False s)
                else if style = PAM_ERROR_MSG then
                  conversation_loop malloc (Suc index) ms allocated (pam_notice t True s)
                else Some (Refused, allocated, s))))"

text \<open>
  The body gets the output storage and leaves it: it answers with a status (\<open>None\<close> if it unwinds,
  which also drops the pending responses) and writes through \<open>responses\<close> only on success.
\<close>

type_synonym output_slot = "pam_response list option option"

definition pam_conversation_inner ::
  "pam_call \<Rightarrow> output_slot \<Rightarrow> pam_conversation_state
    \<Rightarrow> ((int option \<times> output_slot) \<times> pam_conversation_state) option" where
  "pam_conversation_inner call slot s =
     (if call_count call \<le> 0 \<or> call_count call > PAM_MAX_NUM_MSG \<or> messages call = None
         \<or> slot = None \<or> data_null call
      then Some ((Some PAM_CONV_ERR, slot), s)
      else
        (let n = nat (call_count call); ms = take n (the (messages call)) in
         if \<not> calloc_ok call then Some ((Some PAM_CONV_ERR, slot), s)
         else
           (case conversation_loop (malloc_ok call) 0 ms
                   \<lparr>pointer = Some (calloc_responses n), pending_count = n\<rparr> s of
              None \<Rightarrow> None
            | Some (Refused, allocated, s1) \<Rightarrow>
                Some ((Some PAM_CONV_ERR, slot), drop_pending allocated s1)
            | Some (Unwound, allocated, s1) \<Rightarrow> Some ((None, slot), drop_pending allocated s1)
            | Some (Completed, allocated, s1) \<Rightarrow>
                Some ((Some PAM_SUCCESS, Some (release allocated)), s1))))"

text \<open>
  The exported callback stores null through \<open>responses\<close> if there is storage, runs the body, and turns
  a panic of it (\<open>catch_unwind\<close>) into an error. PAM gets the status and finds in the storage what
  the callback left there, nothing if it passed none.
\<close>

type_synonym pam_reply = "int \<times> pam_response list option"

definition pam_conversation ::
  "pam_call \<Rightarrow> pam_conversation_state \<Rightarrow> (pam_reply \<times> pam_conversation_state) option" where
  "pam_conversation call s =
     (let cleared = (case responses call of None \<Rightarrow> None | Some _ \<Rightarrow> Some None) in
      case pam_conversation_inner call cleared s of
        None \<Rightarrow> None
      | Some ((status, slot), s1) \<Rightarrow>
          Some (((case status of None \<Rightarrow> PAM_CONV_ERR | Some st \<Rightarrow> st),
                 (case slot of None \<Rightarrow> None | Some out \<Rightarrow> out)), s1))"

section \<open>PAM transactions\<close>

datatype 'r pam = Return 'r | Converse pam_call "pam_reply \<Rightarrow> 'r pam"

primrec run_pam ::
  "'r pam \<Rightarrow> pam_conversation_state \<Rightarrow> ('r \<times> pam_conversation_state) option" where
  "run_pam (Return r) = (\<lambda>s. Some (r, s))"
| "run_pam (Converse call k) =
     (\<lambda>s. case pam_conversation call s of
            None \<Rightarrow> None
          | Some (reply, s') \<Rightarrow> run_pam (k reply) s')"

text \<open>
  The four PAM functions the worker calls; \<open>pam_start\<close> answers its status and whether the handle
  is non-null, \<open>pam_get_user\<close> its status and the user name (\<open>None\<close> is null).
\<close>

record 'w pam_api =
  pam_start :: "u8 list \<Rightarrow> u8 list \<Rightarrow> 'w \<Rightarrow> int \<times> bool \<times> 'w"
  pam_authenticate :: "int \<Rightarrow> 'w \<Rightarrow> (int \<times> 'w) pam"
  pam_get_user :: "'w \<Rightarrow> (int \<times> u8 list option \<times> 'w) pam"
  pam_end :: "int \<Rightarrow> 'w \<Rightarrow> (int \<times> 'w) pam"

definition pam_uid ::
  "'w pam_api \<Rightarrow> getpwnam \<Rightarrow> 'w \<Rightarrow> pam_conversation_state
    \<Rightarrow> (u32 option \<times> 'w \<times> pam_conversation_state) option" where
  "pam_uid api getpwnam_r w s =
     (case run_pam (pam_get_user api w) s of
        None \<Rightarrow> None
      | Some ((status, username, w1), s1) \<Rightarrow>
          (case username of
             None \<Rightarrow> Some (None, w1, s1)
           | Some mem \<Rightarrow>
               if status \<noteq> PAM_SUCCESS then Some (None, w1, s1)
               else
                 (case bounded_username mem of
                    None \<Rightarrow> Some (None, w1, s1)
                  | Some name \<Rightarrow> Some (username_uid getpwnam_r name, w1, s1))))"

definition authenticate ::
  "'w pam_api \<Rightarrow> getpwnam \<Rightarrow> ustring \<Rightarrow> u32 \<Rightarrow> 'w \<Rightarrow> pam_conversation_state
    \<Rightarrow> (bool \<times> 'w \<times> pam_conversation_state) option" where
  "authenticate api getpwnam_r username uid w s =
     (if 0 \<in> set (utf8 SERVICE) \<or> 0 \<in> set (utf8 username) then Some (False, w, s)
      else
        (case pam_start api (utf8 SERVICE) (utf8 username) w of (started, has_handle, w1) \<Rightarrow>
           if started \<noteq> PAM_SUCCESS \<or> \<not> has_handle then Some (False, w1, s)
           else
             (case run_pam (pam_authenticate api PAM_DISALLOW_NULL_AUTHTOK w1) s of
                None \<Rightarrow> None
              | Some ((status, w2), s2) \<Rightarrow>
                  (case (if status = PAM_SUCCESS
                         then map_option (map_prod (\<lambda>found. found = Some uid) id)
                                (pam_uid api getpwnam_r w2 s2)
                         else Some (False, w2, s2)) of
                     None \<Rightarrow> None
                   | Some (same_user, w3, s3) \<Rightarrow>
                       (case run_pam (pam_end api status w3) s3 of
                          None \<Rightarrow> None
                        | Some ((ended, w4), s4) \<Rightarrow>
                            Some (same_user \<and> ended = PAM_SUCCESS, w4, s4))))))"

section \<open>What a conversation step may do\<close>

lemma read_exact_suffix:
  "read_exact_or_closed n d acc rs = Some (r, rs') \<Longrightarrow> \<exists>x. delivered rs = x @ delivered rs'"
proof (induction n d acc rs rule: read_exact_or_closed.induct)
  case (3 n d acc now q rs)
  show ?case
  proof (cases "deadline_elapsed d now")
    case True
    with "3.prems" show ?thesis by auto
  next
    case False
    show ?thesis
    proof (cases q)
      case (Bytes bs)
      show ?thesis
      proof (cases bs)
        case Nil
        with Bytes False "3.prems" show ?thesis by simp
      next
        case (Cons b bs')
        show ?thesis
        proof (cases "length bs' \<le> n")
          case True
          with Cons Bytes False 3 show ?thesis by auto
        next
          case more: False
          have "b # bs' = (b # take n bs') @ drop n bs'" by simp
          moreover have "rs' = (now, Bytes (drop n bs')) # rs"
            using more Cons Bytes False "3.prems" by simp
          ultimately show ?thesis unfolding Cons Bytes by (metis append_assoc delivered.simps(2))
        qed
      qed
    next
      case (ReadFail k)
      with False 3 show ?thesis by (cases k) auto
    qed
  qed
qed auto

lemma receive_suffix:
  assumes "receive rs = Some (r, rs')"
  shows "\<exists>x. delivered rs = x @ delivered rs'"
proof -
  obtain h rs1 where h: "read_exact_or_closed HEADER_BYTES None [] rs = Some (h, rs1)"
    using assms by (auto simp: receive_def receive_before_def split: option.splits)
  from read_exact_suffix [OF h] obtain x where x: "delivered rs = x @ delivered rs1" ..
  have "rs' = rs1 \<or> (\<exists>n q. read_exact_or_closed n None [] rs1 = Some (q, rs'))"
    using assms h
    by (auto simp: receive_def receive_before_def Let_def
        split: option.splits prod.splits sum.splits if_splits)
  then have "\<exists>y. delivered rs1 = y @ delivered rs'" using read_exact_suffix by fastforce
  with x show ?thesis by auto
qed

lemma worker_send_state [simp]:
  "inbound (link (snd (worker_send k m))) = inbound (link k)"
  "history (snd (worker_send k m)) = history k @ [m]"
  "freed (snd (worker_send k m)) = freed k"
  by (auto simp: worker_send_def send_def write_all_def
      split: prod.splits sum.splits list.splits option.splits)

lemma worker_receive_state:
  assumes "worker_receive k = Some (r, k')"
  shows "history k' = history k" "freed k' = freed k"
    "\<exists>x. delivered (inbound (link k)) = x @ delivered (inbound (link k'))"
    "\<And>m. r = Inr m \<Longrightarrow> valid_message m
       \<and> delivered (inbound (link k)) = frame m @ delivered (inbound (link k'))"
proof -
  from assms obtain rs where rs: "receive (inbound (link k)) = Some (r, rs)"
    and k': "k' = k\<lparr>link := (link k)\<lparr>inbound := rs\<rparr>\<rparr>"
    by (auto simp: worker_receive_def split: option.splits prod.splits)
  show "history k' = history k" "freed k' = freed k" by (simp_all add: k')
  show "\<exists>x. delivered (inbound (link k)) = x @ delivered (inbound (link k'))"
    using receive_suffix [OF rs] by (simp add: k')
  show "valid_message m \<and> delivered (inbound (link k)) = frame m @ delivered (inbound (link k'))"
    if "r = Inr m" for m
    using receive_before_sound [where d = None and m = m] rs that by (simp add: k' receive_def)
qed

text \<open>
  The outcomes of a prompt: refused at the message limit, not sent, or sent and answered; only an
  answer that carries the prompt's own identifier is a response.
\<close>

lemma pam_prompt_cases:
  assumes "pam_prompt t hidden s = Some (r, s')"
  obtains "unat (next_id s) > MAX_MESSAGES" "r = Inl ()" "s' = s"
  | e where "unat (next_id s) \<le> MAX_MESSAGES" "r = Inl ()"
      "worker_send (peer s) (MPrompt (next_id s) hidden t) = (Inl e, peer s')"
      "next_id s' = next_id s + 1" "cancelled s' = cancelled s"
  | k a where "unat (next_id s) \<le> MAX_MESSAGES"
      "worker_send (peer s) (MPrompt (next_id s) hidden t) = (Inr (), k)"
      "worker_receive k = Some (a, peer s')"
      "next_id s' = next_id s + 1"
      "cancelled s' \<longleftrightarrow> cancelled s \<or> a = Inr MCancel"
      "r = (case a of Inr (MResponse i v) \<Rightarrow> if i = next_id s then Inr v else Inl () | _ \<Rightarrow> Inl ())"
proof (cases "unat (next_id s) > MAX_MESSAGES")
  case True
  with assms have "r = Inl ()" "s' = s" by (simp_all add: pam_prompt_def)
  with True that(1) show thesis by simp
next
  case False
  obtain q k where q: "worker_send (peer s) (MPrompt (next_id s) hidden t) = (q, k)"
    by (cases "worker_send (peer s) (MPrompt (next_id s) hidden t)")
  show thesis
  proof (cases q)
    case (Inl e)
    with False q assms have "r = Inl ()" "s' = s\<lparr>next_id := next_id s + 1, peer := k\<rparr>"
      by (simp_all add: pam_prompt_def)
    with False q Inl that(2) [of e] show thesis by simp
  next
    case (Inr u)
    with False q assms obtain a k' where a: "worker_receive k = Some (a, k')"
      by (cases "worker_receive k") (auto simp: pam_prompt_def)
    from False q Inr a assms
    have outcome: "(case a of
             Inl _ \<Rightarrow> (Inl (), s\<lparr>next_id := next_id s + 1, peer := k'\<rparr>)
           | Inr (MResponse i v) \<Rightarrow>
               if i = next_id s then (Inr v, s\<lparr>next_id := next_id s + 1, peer := k'\<rparr>)
               else (Inl (), s\<lparr>next_id := next_id s + 1, peer := k'\<rparr>)
           | Inr MCancel \<Rightarrow> (Inl (), s\<lparr>next_id := next_id s + 1, peer := k', cancelled := True\<rparr>)
           | Inr _ \<Rightarrow> (Inl (), s\<lparr>next_id := next_id s + 1, peer := k'\<rparr>)) = (r, s')"
      by (simp add: pam_prompt_def Let_def split: sum.splits message.splits if_splits)
    have "r = (case a of Inr (MResponse i v) \<Rightarrow> if i = next_id s then Inr v else Inl () | _ \<Rightarrow> Inl ())
        \<and> peer s' = k' \<and> next_id s' = next_id s + 1
        \<and> (cancelled s' \<longleftrightarrow> cancelled s \<or> a = Inr MCancel)"
    proof (cases a)
      case (Inl e)
      with outcome show ?thesis by auto
    next
      case (Inr m)
      with outcome show ?thesis by (cases m) (auto split: if_splits)
    qed
    with False q Inr a that(3) [of k a] show thesis by simp
  qed
qed

lemma pam_prompt_secret:
  assumes "pam_prompt t hidden s = Some (Inr v, s')"
  shows "0 \<notin> set (expose v)"
  using assms
proof (cases rule: pam_prompt_cases)
  case (3 k a)
  then obtain i where "a = Inr (MResponse i v)"
    by (auto split: sum.splits message.splits if_splits)
  with worker_receive_state(4) [OF 3(3)] show ?thesis by (simp add: valid_message_def)
qed simp_all

text \<open>
  Responses owned by the callback: as many slots as messages, each null or a NUL-terminated copy
  of a secret. Dropping them overwrites every byte before the buffer is freed.
\<close>

definition response_ok :: "pam_response \<Rightarrow> bool" where
  "response_ok r = (case resp r of None \<Rightarrow> True
     | Some b \<Rightarrow> b \<noteq> [] \<and> hd (rev b) = 0 \<and> 0 \<notin> set (butlast b))"

definition pending_ok :: "pending_responses \<Rightarrow> bool" where
  "pending_ok p = (case pointer p of None \<Rightarrow> False
     | Some rs \<Rightarrow> length rs = pending_count p \<and> list_all response_ok rs)"

definition wiped :: "u8 list \<Rightarrow> bool" where
  "wiped b = list_all (\<lambda>x. x = 0) b"

lemma strlen_terminated: "0 \<notin> set v \<Longrightarrow> strlen (v @ [0]) = length v"
  by (induction v) (auto simp: strlen_def)

lemma zeroized_wiped:
  assumes "response_ok r" "resp r = Some b"
  shows "wiped (zeroized b)"
proof -
  from assms obtain v where "b = v @ [0]" "0 \<notin> set v"
    by (cases b rule: rev_cases) (auto simp: response_ok_def)
  then show ?thesis by (simp add: zeroized_def strlen_terminated wiped_def list_all_iff)
qed

lemma clear_responses_wiped:
  "list_all response_ok rs \<Longrightarrow> list_all wiped (snd (clear_responses rs))"
  by (induction rs) (auto split: prod.splits option.splits intro: zeroized_wiped)

lemma as_mut_ok: "pending_ok p \<Longrightarrow> pointer p = Some (as_mut p)"
  by (auto simp: pending_ok_def as_mut_def split: option.splits)

lemma pending_ok_init [simp]:
  "pending_ok \<lparr>pointer = Some (calloc_responses n), pending_count = n\<rparr>"
  by (simp add: pending_ok_def calloc_responses_def response_ok_def list_all_iff)

lemma pending_ok_set:
  assumes "pending_ok p" "0 \<notin> set v"
  shows "pending_ok (set_response i (v @ [0]) p)"
proof -
  have "length (as_mut p) = pending_count p" "list_all response_ok (as_mut p)"
    using assms(1) as_mut_ok [OF assms(1)] by (auto simp: pending_ok_def)
  with assms(2) show ?thesis
    by (auto simp: pending_ok_def set_response_def response_ok_def list_all_iff
        dest!: subsetD [OF set_update_subset_insert])
qed

lemma drop_pending_state:
  assumes "pending_ok p"
  shows "\<exists>bs. list_all wiped bs
    \<and> drop_pending p s = s\<lparr>peer := (peer s)\<lparr>freed := freed (peer s) @ bs\<rparr>\<rparr>"
proof -
  have "list_all response_ok (as_mut p)"
    using assms as_mut_ok [OF assms] by (simp add: pending_ok_def)
  from clear_responses_wiped [OF this] as_mut_ok [OF assms] show ?thesis
    by (auto simp: drop_pending_def)
qed

text \<open>The two ways an attempt ends: PAM was never started, or the whole transaction ran.\<close>

lemma authenticate_cases:
  assumes "authenticate api getpwnam_r username uid w s = Some (ok, w', s')"
  obtains (unstarted) "\<not> ok" "s' = s"
  | (ran) w1 status w2 s2 same w3 s3 ended where
      "pam_start api (utf8 SERVICE) (utf8 username) w = (PAM_SUCCESS, True, w1)"
      "run_pam (pam_authenticate api PAM_DISALLOW_NULL_AUTHTOK w1) s = Some ((status, w2), s2)"
      "(if status = PAM_SUCCESS
        then map_option (map_prod (\<lambda>found. found = Some uid) id) (pam_uid api getpwnam_r w2 s2)
        else Some (False, w2, s2)) = Some (same, w3, s3)"
      "run_pam (pam_end api status w3) s3 = Some ((ended, w'), s')"
      "ok \<longleftrightarrow> same \<and> ended = PAM_SUCCESS"
proof (cases "0 \<in> set (utf8 SERVICE) \<or> 0 \<in> set (utf8 username)")
  case True
  with assms that(1) show thesis by (simp add: authenticate_def)
next
  case names: False
  obtain started has_handle w1 where
    st: "pam_start api (utf8 SERVICE) (utf8 username) w = (started, has_handle, w1)"
    by (rule prod_cases3)
  show thesis
  proof (cases "started \<noteq> PAM_SUCCESS \<or> \<not> has_handle")
    case True
    with names st assms have "\<not> ok" "s' = s" by (auto simp: authenticate_def)
    with that(1) show thesis by simp
  next
    case False
    with names st assms obtain status w2 s2 where
      a: "run_pam (pam_authenticate api PAM_DISALLOW_NULL_AUTHTOK w1) s = Some ((status, w2), s2)"
      by (auto simp: authenticate_def split: option.splits)
    with False names st assms obtain same w3 s3 where
      u: "(if status = PAM_SUCCESS
           then map_option (map_prod (\<lambda>found. found = Some uid) id) (pam_uid api getpwnam_r w2 s2)
           else Some (False, w2, s2)) = Some (same, w3, s3)"
      by (auto simp: authenticate_def simp del: map_option_eq_Some split: option.splits)
    from False names st a u assms obtain ended where
      e: "run_pam (pam_end api status w3) s3 = Some ((ended, w'), s')"
      and ok: "ok \<longleftrightarrow> same \<and> ended = PAM_SUCCESS"
      by (auto simp: authenticate_def simp del: map_option_eq_Some split: option.splits)
    from False have "started = PAM_SUCCESS" "has_handle" by simp_all
    with st that(2) a u e ok show thesis by simp
  qed
qed

section \<open>Text sent to the locker\<close>

lemma second3_iff:
  assumes "224 \<le> x" "x < 240"
  shows "second3 x b1 \<and> continuation b2 \<longleftrightarrow> continuation b1 \<and> continuation b2
    \<and> 0x800 \<le> (x - 224) * 4096 + (unat b1 - 128) * 64 + (unat b2 - 128)
    \<and> \<not> (0xD800 \<le> (x - 224) * 4096 + (unat b1 - 128) * 64 + (unat b2 - 128)
         \<and> (x - 224) * 4096 + (unat b1 - 128) * 64 + (unat b2 - 128) < 0xE000)"
proof -
  consider "x = 224" | "225 \<le> x" "x < 237" | "x = 237" | "238 \<le> x" using assms by linarith
  then show ?thesis using assms by cases (auto simp: second3_def continuation_def Let_def)
qed

lemma second4_iff:
  assumes "240 \<le> x" "x < 245"
  shows "second4 x b1 \<and> continuation b2 \<and> continuation b3 \<longleftrightarrow>
    continuation b1 \<and> continuation b2 \<and> continuation b3
    \<and> 0x10000 \<le> (x - 240) * 262144 + (unat b1 - 128) * 4096 + (unat b2 - 128) * 64 + (unat b3 - 128)
    \<and> (x - 240) * 262144 + (unat b1 - 128) * 4096 + (unat b2 - 128) * 64 + (unat b3 - 128) < 0x110000"
proof -
  consider "x = 240" | "241 \<le> x" "x < 244" | "x = 244" using assms by linarith
  then show ?thesis using assms by cases (auto simp: second4_def continuation_def Let_def)
qed


lemma from_utf8_lossy_exact: "from_utf8 bs = Some s \<Longrightarrow> from_utf8_lossy bs = s"
proof (induction bs arbitrary: s rule: length_induct)
  case (1 bs)
  show ?case
  proof (cases bs)
    case Nil
    with 1 show ?thesis by simp
  next
    case (Cons b0 r0)
    consider "unat b0 < 128" | "194 \<le> unat b0" "unat b0 < 224" | "224 \<le> unat b0" "unat b0 < 240"
      | "240 \<le> unat b0" "unat b0 < 245"
      using 1 Cons by (auto simp: from_utf8.simps(2) Let_def split: if_splits)
    then show ?thesis
    proof cases
      case low: 1
      with 1 Cons show ?thesis by (auto simp: from_utf8.simps(2) from_utf8_lossy.simps(2))
    next
      case two: 2
      with 1 Cons show ?thesis
        by (auto simp: from_utf8.simps(2) from_utf8_lossy.simps(2) split: list.splits if_splits)
    next
      case three: 3
      let ?c = "\<lambda>b1 b2 :: u8. (unat b0 - 224) * 4096 + (unat b1 - 128) * 64 + (unat b2 - 128)"
      from three 1(2) Cons obtain b1 b2 r t where r: "r0 = b1 # b2 # r" "from_utf8 r = Some t"
        and s: "s = ?c b1 b2 # t" and c: "continuation b1" "continuation b2"
          "0x800 \<le> ?c b1 b2" "\<not> (0xD800 \<le> ?c b1 b2 \<and> ?c b1 b2 < 0xE000)"
        by (auto simp: from_utf8.simps(2) Let_def split: list.splits if_splits)
      from c have ok: "second3 (unat b0) b1" "continuation b2"
        using second3_iff [OF three, of b1 b2] by blast+
      have "from_utf8_lossy r = t" using 1(1) Cons r by simp
      with three r s ok Cons show ?thesis by (simp add: from_utf8_lossy.simps(2))
    next
      case four: 4
      let ?c = "\<lambda>b1 b2 b3 :: u8. (unat b0 - 240) * 262144 + (unat b1 - 128) * 4096
        + (unat b2 - 128) * 64 + (unat b3 - 128)"
      from four 1(2) Cons obtain b1 b2 b3 r t where r: "r0 = b1 # b2 # b3 # r" "from_utf8 r = Some t"
        and s: "s = ?c b1 b2 b3 # t" and c: "continuation b1" "continuation b2" "continuation b3"
          "0x10000 \<le> ?c b1 b2 b3" "?c b1 b2 b3 < 0x110000"
        by (auto simp: from_utf8.simps(2) Let_def split: list.splits if_splits)
      from c have ok: "second4 (unat b0) b1" "continuation b2" "continuation b3"
        using second4_iff [OF four, of b1 b2 b3] by blast+
      have "from_utf8_lossy r = t" using 1(1) Cons r by simp
      with four r s ok Cons show ?thesis by (simp add: from_utf8_lossy.simps(2))
    qed
  qed
qed

lemma utf8_char_nonzero: "scalar_value c \<Longrightarrow> utf8_char c = bs \<Longrightarrow> 0 \<notin> set bs \<Longrightarrow> c \<noteq> 0"
  using utf8_char_zero by blast

lemma scalar_replacement [simp]: "scalar_value REPLACEMENT" "REPLACEMENT \<noteq> 0"
  by (simp_all add: scalar_value_def REPLACEMENT_def)

definition text_ok :: "ustring \<Rightarrow> bool" where
  "text_ok s \<longleftrightarrow> valid_text s \<and> 0 \<notin> set s"

lemma text_ok_simps [simp]: "text_ok []" "text_ok (c # s) \<longleftrightarrow> scalar_value c \<and> c \<noteq> 0 \<and> text_ok s"
  by (auto simp: text_ok_def)


text \<open>
  One step of the lossy decoder on NUL-free bytes consumes at least one byte and produces one
  valid non-NUL character: the decoded one or the replacement character.
\<close>

definition lossy_step :: "u8 list \<Rightarrow> bool" where
  "lossy_step bs \<longleftrightarrow> (\<exists>c r. from_utf8_lossy bs = c # from_utf8_lossy r \<and> scalar_value c \<and> c \<noteq> 0
     \<and> length r < length bs \<and> set r \<subseteq> set bs)"

lemma lossy_hit:
  "from_utf8_lossy (b0 # bs) = c # from_utf8_lossy r \<Longrightarrow> scalar_value c \<and> utf8_char c = cs
    \<Longrightarrow> 0 \<notin> set cs \<Longrightarrow> length r < length (b0 # bs) \<Longrightarrow> set r \<subseteq> set (b0 # bs)
    \<Longrightarrow> lossy_step (b0 # bs)"
  using utf8_char_nonzero [of c cs] unfolding lossy_step_def by blast

lemma lossy_repl:
  "from_utf8_lossy (b0 # bs) = REPLACEMENT # from_utf8_lossy r \<Longrightarrow> length r \<le> length bs
    \<Longrightarrow> set r \<subseteq> set bs \<Longrightarrow> lossy_step (b0 # bs)"
  using scalar_replacement unfolding lossy_step_def by fastforce

lemma lossy_step2:
  assumes "194 \<le> unat b0" "unat b0 < 224" "0 \<notin> set (b0 # bs)"
  shows "lossy_step (b0 # bs)"
proof (cases "\<exists>b1 r. bs = b1 # r \<and> continuation b1")
  case True
  then obtain b1 r where r: "bs = b1 # r" "continuation b1" by blast
  from utf8_char_decode2 [OF assms(1,2) r(2)] r assms show ?thesis
    by (intro lossy_hit) (auto simp: from_utf8_lossy.simps(2) [of b0] Let_def)
next
  case False
  with assms show ?thesis
    by (intro lossy_repl [of b0 bs bs]) (auto simp: from_utf8_lossy.simps(2) [of b0] Let_def split: list.split)
qed

lemma lossy_step3:
  assumes "224 \<le> unat b0" "unat b0 < 240" "0 \<notin> set (b0 # bs)"
  shows "lossy_step (b0 # bs)"
proof (cases "\<exists>b1 r. bs = b1 # r \<and> second3 (unat b0) b1")
  case True
  then obtain b1 r where r: "bs = b1 # r" "second3 (unat b0) b1" by blast
  show ?thesis
  proof (cases "\<exists>b2 r2. r = b2 # r2 \<and> continuation b2")
    case True
    then obtain b2 r2 where r2: "r = b2 # r2" "continuation b2" by blast
    with r second3_iff [OF assms(1,2), of b1 b2] utf8_char_decode3 [OF assms(1,2), of b1 b2]
    show ?thesis
      using assms by (intro lossy_hit [of _ _ _ r2 "[b0, b1, b2]"]) (auto simp: from_utf8_lossy.simps(2) [of b0] Let_def)
  next
    case False
    with r assms show ?thesis
      by (intro lossy_repl [of b0 bs r]) (auto simp: from_utf8_lossy.simps(2) [of b0] Let_def split: list.split)
  qed
next
  case False
  with assms show ?thesis
    by (intro lossy_repl [of b0 bs bs]) (auto simp: from_utf8_lossy.simps(2) [of b0] Let_def split: list.split)
qed

lemma lossy_step4:
  assumes "240 \<le> unat b0" "unat b0 < 245" "0 \<notin> set (b0 # bs)"
  shows "lossy_step (b0 # bs)"
proof (cases "\<exists>b1 r. bs = b1 # r \<and> second4 (unat b0) b1")
  case True
  then obtain b1 r where r: "bs = b1 # r" "second4 (unat b0) b1" by blast
  show ?thesis
  proof (cases "\<exists>b2 r2. r = b2 # r2 \<and> continuation b2")
    case True
    then obtain b2 r2 where r2: "r = b2 # r2" "continuation b2" by blast
    show ?thesis
    proof (cases "\<exists>b3 r3. r2 = b3 # r3 \<and> continuation b3")
      case True
      then obtain b3 r3 where r3: "r2 = b3 # r3" "continuation b3" by blast
      with r r2 second4_iff [OF assms(1,2), of b1 b2 b3]
        utf8_char_decode4 [OF assms(1,2), of b1 b2 b3]
      show ?thesis
        using assms by (intro lossy_hit [of _ _ _ r3 "[b0, b1, b2, b3]"]) (auto simp: from_utf8_lossy.simps(2) [of b0] Let_def)
    next
      case False
      with r r2 assms show ?thesis
        by (intro lossy_repl [of b0 bs r2]) (auto simp: from_utf8_lossy.simps(2) [of b0] Let_def split: list.split)
    qed
  next
    case False
    with r assms show ?thesis
      by (intro lossy_repl [of b0 bs r]) (auto simp: from_utf8_lossy.simps(2) [of b0] Let_def split: list.split)
  qed
next
  case False
  with assms show ?thesis
    by (intro lossy_repl [of b0 bs bs]) (auto simp: from_utf8_lossy.simps(2) [of b0] Let_def split: list.split)
qed

lemma from_utf8_lossy_step:
  assumes "0 \<notin> set (b0 # bs)"
  shows "lossy_step (b0 # bs)"
proof -
  consider "unat b0 < 128" | "194 \<le> unat b0" "unat b0 < 224" | "224 \<le> unat b0" "unat b0 < 240"
    | "240 \<le> unat b0" "unat b0 < 245" | "128 \<le> unat b0" "unat b0 < 194 \<or> 245 \<le> unat b0"
    by linarith
  then show ?thesis
  proof cases
    case 1
    have "scalar_value (unat b0)" "utf8_char (unat b0) = [b0]"
      using 1 by (auto simp: scalar_value_def utf8_char_def)
    with 1 assms show ?thesis
      by (intro lossy_hit [of b0 bs "unat b0" bs "[b0]"]) (auto simp: from_utf8_lossy.simps(2) [of b0] Let_def)
  next
    case 5
    then show ?thesis by (intro lossy_repl [of b0 bs bs]) (auto simp: from_utf8_lossy.simps(2) [of b0] Let_def)
  qed (use assms lossy_step2 lossy_step3 lossy_step4 in blast)+
qed

lemma from_utf8_lossy_ok: "0 \<notin> set bs \<Longrightarrow> text_ok (from_utf8_lossy bs)"
proof (induction bs rule: length_induct)
  case (1 bs)
  show ?case
  proof (cases bs)
    case Nil
    then show ?thesis by simp
  next
    case (Cons b0 r0)
    from from_utf8_lossy_step [of b0 r0] 1(2) Cons obtain c r where
      "from_utf8_lossy bs = c # from_utf8_lossy r" "scalar_value c" "c \<noteq> 0"
      "length r < length bs" "set r \<subseteq> set bs" unfolding lossy_step_def by blast
    with 1 show ?thesis by auto
  qed
qed

lemma pop_to_bound_fits: "length (utf8 (pop_to_bound bound s)) \<le> bound"
proof (induction bound s rule: pop_to_bound.induct)
  case (1 bound s)
  then show ?case by (subst pop_to_bound.simps) simp
qed

lemma pop_to_bound_id [simp]: "length (utf8 s) \<le> bound \<Longrightarrow> pop_to_bound bound s = s"
  by (simp add: pop_to_bound.simps)

lemma text_ok_butlast: "text_ok s \<Longrightarrow> text_ok (butlast s)"
  by (cases s rule: rev_cases) (auto simp: text_ok_def)

lemma pop_to_bound_ok: "text_ok s \<Longrightarrow> text_ok (pop_to_bound bound s)"
proof (induction bound s rule: pop_to_bound.induct)
  case (1 bound s)
  then show ?case by (subst pop_to_bound.simps) (simp add: text_ok_butlast)
qed

lemma take_strnlen: "take (strnlen mem n) mem = takeWhile (\<lambda>b. b \<noteq> 0) (take n mem)"
  by (metis strnlen_def takeWhile_eq_take take_take takeWhile_eq_take length_take min.absorb1
      length_takeWhile_le min.bounded_iff)

lemma bounded_message_ok:
  assumes "bounded_message mem = Some t"
  shows "text_ok t" "length (utf8 t) \<le> MAX_MESSAGE_BYTES"
proof -
  from assms have t: "t = pop_to_bound MAX_MESSAGE_BYTES
      (from_utf8_lossy (take (strnlen mem (MAX_MESSAGE_BYTES + 1)) mem))"
    by (simp add: bounded_message_def Let_def split: if_splits)
  have "0 \<notin> set (take (strnlen mem (MAX_MESSAGE_BYTES + 1)) mem)"
    unfolding take_strnlen by (auto dest: set_takeWhileD)
  then show "text_ok t" unfolding t by (intro pop_to_bound_ok from_utf8_lossy_ok)
  show "length (utf8 t) \<le> MAX_MESSAGE_BYTES" unfolding t by (rule pop_to_bound_fits)
qed

lemma bounded_message_valid:
  assumes "bounded_message mem = Some t"
  shows "valid_message (MPrompt i hidden t)" "valid_message (MInfo t)" "valid_message (MError t)"
  using bounded_message_ok [OF assms] by (simp_all add: valid_message_def text_ok_def)

section \<open>The interface of a conversation\<close>

text \<open>
  PAM reaches the worker's state only through the callback, and the callback changes it only by
  prompts and notices whose text passed \<open>bounded_message\<close>, and by dropping the responses of a
  failed call. A preorder on states that these three keep therefore holds across the callback,
  across every PAM function, and across a whole attempt.
\<close>

locale conversation_order =
  fixes R :: "pam_conversation_state \<Rightarrow> pam_conversation_state \<Rightarrow> bool"
  assumes R_refl: "R s s"
    and R_trans: "R a b \<Longrightarrow> R b c \<Longrightarrow> R a c"
    and R_prompt: "bounded_message mem = Some t \<Longrightarrow> pam_prompt t hidden s = Some (r, s') \<Longrightarrow> R s s'"
    and R_notice: "bounded_message mem = Some t \<Longrightarrow> R s (pam_notice t is_error s)"
    and R_drop: "pending_ok p \<Longrightarrow> R s (drop_pending p s)"
begin

lemma R_loop:
  "conversation_loop malloc i ms p s = Some (b, p', s') \<Longrightarrow> pending_ok p
    \<Longrightarrow> R s s' \<and> pending_ok p'"
proof (induction malloc i ms p s rule: conversation_loop.induct)
  case (1 malloc i p s)
  then show ?case by (simp add: R_refl)
next
  case (2 malloc i m ms p s)
  show ?case
  proof (cases "Option.bind m msg")
    case None
    with 2 show ?thesis by (simp add: R_refl)
  next
    case (Some mem)
    show ?thesis
    proof (cases "bounded_message mem")
      case None
      with Some 2 show ?thesis by (simp add: R_refl)
    next
      case t: (Some t)
      let ?style = "msg_style (the m)"
      consider (prompt) "?style = PAM_PROMPT_ECHO_ON \<or> ?style = PAM_PROMPT_ECHO_OFF"
        | (info) "?style = PAM_TEXT_INFO" | (error) "?style = PAM_ERROR_MSG"
        | (other) "?style \<notin> {PAM_PROMPT_ECHO_ON, PAM_PROMPT_ECHO_OFF, PAM_TEXT_INFO, PAM_ERROR_MSG}"
        by blast
      then show ?thesis
      proof cases
        case prompt
        with 2 Some t obtain r s1 where
          p1: "pam_prompt t (?style = PAM_PROMPT_ECHO_OFF) s = Some (r, s1)"
          by (cases "pam_prompt t (?style = PAM_PROMPT_ECHO_OFF) s") (auto simp: Let_def)
        note s1 = R_prompt [OF t p1]
        show ?thesis
        proof (cases "\<exists>v. r = Inr v \<and> malloc i \<and> i < length (as_mut p)")
          case False
          with 2 Some t prompt p1 s1 show ?thesis by (cases r) (auto simp: Let_def not_less split: if_splits)
        next
          case True
          then obtain v where v: "r = Inr v" "malloc i" "\<not> i \<ge> length (as_mut p)" by auto
          have "pending_ok (set_response i (expose v @ [0]) p)"
            using pending_ok_set [OF "2.prems"(2)] pam_prompt_secret p1 v(1) by blast
          with 2 Some t prompt p1 v have "R s1 s' \<and> pending_ok p'" by (simp add: Let_def)
          with R_trans [OF s1] show ?thesis by blast
        qed
      next
        case info
        with 2 Some t have "R (pam_notice t False s) s' \<and> pending_ok p'" by (simp add: Let_def)
        with R_trans [OF R_notice [OF t]] show ?thesis by blast
      next
        case error
        with 2 Some t have "R (pam_notice t True s) s' \<and> pending_ok p'" by (simp add: Let_def)
        with R_trans [OF R_notice [OF t]] show ?thesis by blast
      next
        case other
        with 2 Some t show ?thesis by (simp add: R_refl)
      qed
    qed
  qed
qed

lemma R_callback: "pam_conversation call s = Some (reply, s') \<Longrightarrow> R s s'"
  by (auto simp: pam_conversation_def pam_conversation_inner_def Let_def R_refl
      split: if_splits option.splits prod.splits loop_end.splits
      dest!: R_loop intro: R_trans [OF _ R_drop])

lemma R_pam: "run_pam tree s = Some (r, s') \<Longrightarrow> R s s'"
proof (induction tree arbitrary: s)
  case (Return x)
  then show ?case by (simp add: R_refl)
next
  case (Converse call k)
  then obtain reply s1 where c: "pam_conversation call s = Some (reply, s1)"
    and k: "run_pam (k reply) s1 = Some (r, s')" by (auto split: option.splits)
  from R_callback [OF c] Converse.IH [OF _ k] show ?case by (auto intro: R_trans)
qed

lemma R_uid: "pam_uid api getpwnam_r w s = Some (u, w', s') \<Longrightarrow> R s s'"
  by (auto simp: pam_uid_def split: option.splits if_splits dest: R_pam)

lemma R_authenticate:
  assumes "authenticate api getpwnam_r username uid w s = Some (ok, w', s')"
  shows "R s s'"
  using assms
proof (cases rule: authenticate_cases)
  case unstarted
  then show ?thesis by (simp add: R_refl)
next
  case (ran w1 status w2 s2 same w3 s3 ended)
  from ran(3) have "R s2 s3" by (auto simp: R_refl split: if_splits dest: R_uid)
  with R_pam [OF ran(2)] R_pam [OF ran(4)] show ?thesis by (blast intro: R_trans)
qed

end

section \<open>Interpretations\<close>

text \<open>Input is only consumed.\<close>

definition consumes :: "pam_conversation_state \<Rightarrow> pam_conversation_state \<Rightarrow> bool" where
  "consumes s s' \<longleftrightarrow>
     (\<exists>x. delivered (inbound (link (peer s))) = x @ delivered (inbound (link (peer s'))))"

text \<open>
  Everything sent is a prompt or a notice within the protocol's bounds; the prompts carry the
  consecutive identifiers from the old \<open>next_id\<close> to the new one, which never passes the limit.
\<close>

fun prompt_ids :: "message list \<Rightarrow> nat list" where
  "prompt_ids [] = []"
| "prompt_ids (MPrompt i _ _ # ms) = unat i # prompt_ids ms"
| "prompt_ids (_ # ms) = prompt_ids ms"

fun conversational :: "message \<Rightarrow> bool" where
  "conversational (MPrompt _ _ _) = True"
| "conversational (MInfo _) = True"
| "conversational (MError _) = True"
| "conversational _ = False"

definition speaks :: "pam_conversation_state \<Rightarrow> pam_conversation_state \<Rightarrow> bool" where
  "speaks s s' \<longleftrightarrow>
     (\<exists>ms. history (peer s') = history (peer s) @ ms
        \<and> list_all (\<lambda>m. conversational m \<and> valid_message m) ms
        \<and> prompt_ids ms = [unat (next_id s) ..< unat (next_id s')])
     \<and> next_id s \<le> next_id s'
     \<and> unat (next_id s') \<le> max (unat (next_id s)) (MAX_MESSAGES + 1)"

text \<open>Every buffer freed was overwritten first; a cancellation is never forgotten.\<close>

definition wipes :: "pam_conversation_state \<Rightarrow> pam_conversation_state \<Rightarrow> bool" where
  "wipes s s' \<longleftrightarrow> (\<exists>bs. freed (peer s') = freed (peer s) @ bs \<and> list_all wiped bs)
     \<and> (cancelled s \<longrightarrow> cancelled s')"

lemma prompt_ids_append [simp]: "prompt_ids (a @ b) = prompt_ids a @ prompt_ids b"
  by (induction a rule: prompt_ids.induct) simp_all

lemma next_id_step:
  assumes "unat (i :: u64) \<le> MAX_MESSAGES"
  shows "unat (i + 1) = Suc (unat i)" "i \<le> i + 1"
proof -
  have "unat i + 1 < 2 ^ 64" using assms by (simp add: MAX_MESSAGES_def)
  then show "unat (i + 1) = Suc (unat i)" by (simp add: unat_plus_if')
  then show "i \<le> i + 1" by (simp add: word_le_nat_alt)
qed

lemma pam_prompt_effect:
  assumes "pam_prompt t hidden s = Some (r, s')"
  shows "(s' = s \<or> unat (next_id s) \<le> MAX_MESSAGES \<and> next_id s' = next_id s + 1
           \<and> history (peer s') = history (peer s) @ [MPrompt (next_id s) hidden t])
    \<and> freed (peer s') = freed (peer s) \<and> consumes s s' \<and> (cancelled s \<longrightarrow> cancelled s')"
  using assms
proof (cases rule: pam_prompt_cases)
  case 1
  then show ?thesis by (simp add: consumes_def)
next
  case (2 e)
  then show ?thesis
    using worker_send_state [of "peer s" "MPrompt (next_id s) hidden t"] by (simp add: consumes_def)
next
  case (3 k a)
  then show ?thesis
    using worker_send_state [of "peer s" "MPrompt (next_id s) hidden t"]
      worker_receive_state(1-3) [OF 3(3)] by (simp add: consumes_def)
qed

interpretation reads: conversation_order consumes
proof unfold_locales
  show "consumes s s" for s by (simp add: consumes_def)
  show "consumes a c" if "consumes a b" "consumes b c" for a b c
    using that unfolding consumes_def by (metis append_assoc)
  show "consumes s s'" if "pam_prompt t hidden s = Some (r, s')" for t hidden s r s'
    using pam_prompt_effect [OF that] by blast
  show "consumes s (pam_notice t is_error s)" for t is_error s
    by (simp add: consumes_def pam_notice_def Let_def)
  show "consumes s (drop_pending p s)" for p s
    by (simp add: consumes_def drop_pending_def split: option.splits)
qed

lemma speaks_trans:
  assumes "speaks a b" "speaks b c"
  shows "speaks a c"
proof -
  from assms obtain ms1 ms2 where
    h: "history (peer b) = history (peer a) @ ms1" "history (peer c) = history (peer b) @ ms2"
    and ok: "list_all (\<lambda>m. conversational m \<and> valid_message m) (ms1 @ ms2)"
    and i: "prompt_ids ms1 = [unat (next_id a) ..< unat (next_id b)]"
      "prompt_ids ms2 = [unat (next_id b) ..< unat (next_id c)]"
    and le: "next_id a \<le> next_id b" "next_id b \<le> next_id c"
    and m: "unat (next_id b) \<le> max (unat (next_id a)) (MAX_MESSAGES + 1)"
      "unat (next_id c) \<le> max (unat (next_id b)) (MAX_MESSAGES + 1)"
    unfolding speaks_def by auto
  have "prompt_ids (ms1 @ ms2) = [unat (next_id a) ..< unat (next_id c)]"
    using i le upt_add_eq_append [of "unat (next_id a)" "unat (next_id b)"
        "unat (next_id c) - unat (next_id b)"] by (simp add: word_le_nat_alt)
  with h ok le m show ?thesis unfolding speaks_def by (intro conjI exI [of _ "ms1 @ ms2"]) auto
qed

interpretation speech: conversation_order speaks
proof unfold_locales
  show "speaks s s" for s by (simp add: speaks_def)
  show "speaks a c" if "speaks a b" "speaks b c" for a b c using that by (rule speaks_trans)
  show "speaks s s'" if "bounded_message mem = Some t" "pam_prompt t hidden s = Some (r, s')"
    for mem t hidden s r s'
    using pam_prompt_effect [OF that(2)] bounded_message_valid(1) [OF that(1)] next_id_step
    by (auto simp: speaks_def)
  show "speaks s (pam_notice t is_error s)" if "bounded_message mem = Some t" for mem t is_error s
    using bounded_message_valid(2,3) [OF that] by (simp add: speaks_def pam_notice_def Let_def)
  show "speaks s (drop_pending p s)" for p s
    by (simp add: speaks_def drop_pending_def split: option.splits)
qed

interpretation hygiene: conversation_order wipes
proof unfold_locales
  show "wipes s s" for s by (simp add: wipes_def)
  show "wipes a c" if "wipes a b" "wipes b c" for a b c
    using that unfolding wipes_def by (metis append_assoc list_all_append)
  show "wipes s s'" if "pam_prompt t hidden s = Some (r, s')" for t hidden s r s'
    using pam_prompt_effect [OF that] by (simp add: wipes_def)
  show "wipes s (pam_notice t is_error s)" for t is_error s
    by (simp add: wipes_def pam_notice_def Let_def)
  show "wipes s (drop_pending p s)" if "pending_ok p" for p s
    using drop_pending_state [OF that, of s] by (auto simp: wipes_def)
qed

section \<open>The worker process\<close>

lemma authenticate_consumes:
  "authenticate api getpwnam_r username uid w s = Some (ok, w', s')
    \<Longrightarrow> length (delivered (inbound (link (peer s')))) \<le> length (delivered (inbound (link (peer s))))"
  by (drule reads.R_authenticate) (auto simp: consumes_def)

lemma frame_nonempty: "valid_message m \<Longrightarrow> frame m \<noteq> []"
  by (erule frame_valid) (simp add: frame_header_def)

lemma worker_receive_consumes:
  "worker_receive k = Some (Inr m, k')
    \<Longrightarrow> length (delivered (inbound (link k'))) < length (delivered (inbound (link k)))"
  by (drule worker_receive_state(4)) (auto dest: frame_nonempty)

definition new_conversation :: "worker \<Rightarrow> pam_conversation_state" where
  "new_conversation k = \<lparr>peer = k, next_id = 1, cancelled = False\<rparr>"

lemma attempt_consumes:
  assumes "authenticate api getpwnam_r username uid w (new_conversation k) = Some (ok, w1, s)"
    and "worker_send (peer s) m = (r, k1)" and "worker_receive k1 = Some (Inr m', k2)"
  shows "length (delivered (inbound (link k2))) < length (delivered (inbound (link k)))"
  using authenticate_consumes [OF assms(1)] worker_receive_consumes [OF assms(3)]
    worker_send_state(1) [of "peer s" m] assms(2)
  by (simp add: new_conversation_def)

text \<open>
  The attempts of a session. The loop ends because every further attempt costs a \<open>Retry\<close> message,
  which takes bytes from the stream.
\<close>

function attempts ::
  "'w pam_api \<Rightarrow> getpwnam \<Rightarrow> ustring \<Rightarrow> u32 \<Rightarrow> 'w \<Rightarrow> worker
    \<Rightarrow> ((unit + unit) \<times> 'w \<times> worker) option" where
  "attempts api getpwnam_r username uid w k =
     (case authenticate api getpwnam_r username uid w (new_conversation k) of
        None \<Rightarrow> None
      | Some (ok, w1, s) \<Rightarrow>
          if ok \<and> \<not> cancelled s then
            (case worker_send (peer s) MSuccess of (r, k1) \<Rightarrow> Some (map_err (\<lambda>_. ()) r, w1, k1))
          else
            (case worker_send (peer s) MFailure of
               (Inl _, k1) \<Rightarrow> Some (Inl (), w1, k1)
             | (Inr _, k1) \<Rightarrow>
                 (case worker_receive k1 of
                    None \<Rightarrow> None
                  | Some (r, k2) \<Rightarrow>
                      if r = Inr MRetry then attempts api getpwnam_r username uid w1 k2
                      else if r = Inr MCancel then Some (Inr (), w1, k2)
                      else Some (Inl (), w1, k2))))"
  by pat_completeness auto
termination
  by (relation "measure (\<lambda>(api, getpwnam_r, username, uid, w, k).
      length (delivered (inbound (link k))))") (auto intro: attempt_consumes [OF _ sym])

declare attempts.simps [simp del]

definition await_begin :: "worker \<Rightarrow> ((unit + unit) \<times> worker) option" where
  "await_begin k =
     (case worker_receive k of
        None \<Rightarrow> None
      | Some (r, k') \<Rightarrow> Some (if r = Inr MBegin then Inr () else Inl (), k'))"

text \<open>
  Process set-up. \<open>str::parse::<i32>\<close> accepts an optional sign and decimal digits in range.
\<close>

definition digits_value :: "ustring \<Rightarrow> int option" where
  "digits_value ds =
     (if ds = [] \<or> \<not> list_all (\<lambda>c. 48 \<le> c \<and> c \<le> 57) ds then None
      else Some (foldl (\<lambda>acc c. acc * 10 + (int c - 48)) 0 ds))"

definition parse_i32 :: "ustring \<Rightarrow> int option" where
  "parse_i32 s =
     (let v = (case s of
                 [] \<Rightarrow> None
               | c # r \<Rightarrow> if c = 45 then map_option uminus (digits_value r)
                          else if c = 43 then digits_value r else digits_value s) in
      case v of
        None \<Rightarrow> None
      | Some n \<Rightarrow> if - (2 ^ 31) \<le> n \<and> n < 2 ^ 31 then Some n else None)"

definition parse_argument :: "u8 list \<Rightarrow> int option" where
  "parse_argument a = Option.bind (from_utf8 a) parse_i32"

definition parse_arguments :: "u8 list list \<Rightarrow> unit + int \<times> int" where
  "parse_arguments argv =
     (case drop 1 argv of
        flag1 # fd_text # flag2 # pid_text # rest \<Rightarrow>
          (if flag1 \<noteq> utf8 (lit ''--fd'') then Inl ()
           else
             (case parse_argument fd_text of
                Some fd \<Rightarrow>
                  (if fd \<noteq> 3 \<or> flag2 \<noteq> utf8 (lit ''--parent-pid'') then Inl ()
                   else
                     (case parse_argument pid_text of
                        Some pid \<Rightarrow> if pid > 1 \<and> rest = [] then Inr (fd, pid) else Inl ()
                      | None \<Rightarrow> Inl ()))
              | None \<Rightarrow> Inl ()))
      | _ \<Rightarrow> Inl ())"

record worker_environment =
  argv :: "u8 list list"
  prctl_status :: int
  getppid :: int
  getfd_flags :: "int \<Rightarrow> int"
  setfd_status :: "int \<Rightarrow> int \<Rightarrow> int"
  close_range_status :: int
  getuid :: u32
  geteuid :: u32
  getgid :: u32
  getegid :: u32

abbreviation FD_CLOEXEC :: int where "FD_CLOEXEC \<equiv> 1"

definition bind_to_parent :: "worker_environment \<Rightarrow> int \<Rightarrow> unit + unit" where
  "bind_to_parent env parent_pid =
     (if prctl_status env \<noteq> 0 \<or> getppid env \<noteq> parent_pid then Inl () else Inr ())"

definition set_close_on_exec :: "worker_environment \<Rightarrow> int \<Rightarrow> unit + unit" where
  "set_close_on_exec env fd =
     (let flags = getfd_flags env fd in
      if flags < 0 \<or> setfd_status env fd (or flags FD_CLOEXEC) \<noteq> 0 then Inl () else Inr ())"

definition close_extra_descriptors :: "worker_environment \<Rightarrow> unit + unit" where
  "close_extra_descriptors env = (if close_range_status env = 0 then Inr () else Inl ())"

definition prepare_worker :: "worker_environment \<Rightarrow> getpwuid \<Rightarrow> unit + ustring" where
  "prepare_worker env getpwuid_r =
     rbind (parse_arguments (argv env)) (\<lambda>(fd, parent_pid).
     rbind (bind_to_parent env parent_pid) (\<lambda>_.
     rbind (set_close_on_exec env fd) (\<lambda>_.
     rbind (close_extra_descriptors env) (\<lambda>_.
       if geteuid env \<noteq> getuid env \<or> getegid env \<noteq> getgid env then Inl ()
       else ok_or (username_for_uid getpwuid_r (getuid env)) ()))))"

definition worker_run ::
  "worker_environment \<Rightarrow> getpwuid \<Rightarrow> 'w pam_api \<Rightarrow> getpwnam \<Rightarrow> 'w \<Rightarrow> connection
    \<Rightarrow> ((unit + unit) \<times> 'w \<times> worker) option" where
  "worker_run env getpwuid_r api getpwnam_r w c =
     (let k = \<lparr>link = c, history = [], freed = []\<rparr> in
      case prepare_worker env getpwuid_r of
        Inl _ \<Rightarrow> Some (Inl (), w, k)
      | Inr username \<Rightarrow>
          (case worker_send k (MReady (getuid env) username) of
             (Inl _, k1) \<Rightarrow> Some (Inl (), w, k1)
           | (Inr _, k1) \<Rightarrow>
               (case await_begin k1 of
                  None \<Rightarrow> None
                | Some (Inl _, k2) \<Rightarrow> Some (Inl (), w, k2)
                | Some (Inr _, k2) \<Rightarrow> attempts api getpwnam_r username (getuid env) w k2)))"

section \<open>What a success message means\<close>

text \<open>
  A complete PAM transaction that vouches for \<open>uid\<close>: it was started for the service and the user,
  authentication succeeded, the user PAM ended up with resolves to \<open>uid\<close>, and it was ended
  without error.
\<close>

definition vouched ::
  "'w pam_api \<Rightarrow> getpwnam \<Rightarrow> ustring \<Rightarrow> u32 \<Rightarrow> 'w \<Rightarrow> pam_conversation_state \<Rightarrow> 'w
    \<Rightarrow> pam_conversation_state \<Rightarrow> bool" where
  "vouched api getpwnam_r username uid w s w' s' \<longleftrightarrow>
     (\<exists>w1 w2 s2 w3 s3 mem name.
        pam_start api (utf8 SERVICE) (utf8 username) w = (PAM_SUCCESS, True, w1)
      \<and> run_pam (pam_authenticate api PAM_DISALLOW_NULL_AUTHTOK w1) s = Some ((PAM_SUCCESS, w2), s2)
      \<and> run_pam (pam_get_user api w2) s2 = Some ((PAM_SUCCESS, Some mem, w3), s3)
      \<and> bounded_username mem = Some name \<and> username_uid getpwnam_r name = Some uid
      \<and> run_pam (pam_end api PAM_SUCCESS w3) s3 = Some ((PAM_SUCCESS, w'), s'))"

lemma pam_uid_Some:
  assumes "pam_uid api getpwnam_r w s = Some (Some u, w', s')"
  obtains mem name where "run_pam (pam_get_user api w) s = Some ((PAM_SUCCESS, Some mem, w'), s')"
    "bounded_username mem = Some name" "username_uid getpwnam_r name = Some u"
  using assms by (auto simp: pam_uid_def split: option.splits if_splits)

lemma authenticate_vouched:
  assumes "authenticate api getpwnam_r username uid w s = Some (True, w', s')"
  shows "vouched api getpwnam_r username uid w s w' s'"
  using assms
proof (cases rule: authenticate_cases)
  case (ran w1 status w2 s2 same w3 s3 ended)
  then have same: "same" "ended = PAM_SUCCESS" by simp_all
  with ran(3) have st: "status = PAM_SUCCESS"
    and u: "pam_uid api getpwnam_r w2 s2 = Some (Some uid, w3, s3)"
    by (auto split: if_splits)
  from u show ?thesis
    by (rule pam_uid_Some) (use ran st same in \<open>auto simp: vouched_def\<close>)
qed simp

lemma attempt_history:
  assumes "authenticate api getpwnam_r username uid w (new_conversation k) = Some (ok, w', s)"
    and "MSuccess \<notin> set (history k)"
  shows "MSuccess \<notin> set (history (peer s))"
  using speech.R_authenticate [OF assms(1)] assms(2)
  by (auto simp: speaks_def new_conversation_def list_all_iff dest!: bspec [of _ _ MSuccess])

text \<open>The rounds of a session: the last one succeeds or stops, every other one is retried.\<close>

lemma attempts_induct [consumes 1, case_names success stop retry]:
  assumes "attempts api nam name uid w k = Some (r, w', k')"
    and success: "\<And>w k s. authenticate api nam name uid w (new_conversation k) = Some (True, w', s)
      \<Longrightarrow> \<not> cancelled s \<Longrightarrow> k' = snd (worker_send (peer s) MSuccess) \<Longrightarrow> P w k"
    and stop: "\<And>w k ok s. authenticate api nam name uid w (new_conversation k) = Some (ok, w', s)
      \<Longrightarrow> history k' = history (peer s) @ [MFailure]
      \<Longrightarrow> outbound (link k') = outbound (link (snd (worker_send (peer s) MFailure))) \<Longrightarrow> P w k"
    and retry: "\<And>w k ok w1 s k1 k2.
      authenticate api nam name uid w (new_conversation k) = Some (ok, w1, s)
      \<Longrightarrow> worker_send (peer s) MFailure = (Inr (), k1)
      \<Longrightarrow> worker_receive k1 = Some (Inr MRetry, k2) \<Longrightarrow> P w1 k2 \<Longrightarrow> P w k"
  shows "P w k"
  using assms(1)
proof (induction "length (delivered (inbound (link k)))" arbitrary: w k rule: less_induct)
  case less
  obtain ok w1 s where a: "authenticate api nam name uid w (new_conversation k) = Some (ok, w1, s)"
    using less.prems by (auto simp: attempts.simps split: option.splits)
  obtain q k1 where q: "worker_send (peer s) MFailure = (q, k1)" by fastforce
  consider "ok" "\<not> cancelled s" | e where "\<not> (ok \<and> \<not> cancelled s)" "q = Inl e"
    | "\<not> (ok \<and> \<not> cancelled s)" "q = Inr ()" by (cases q) auto
  then show ?case
  proof cases
    case 1
    with a less.prems have "authenticate api nam name uid w (new_conversation k) = Some (True, w', s)"
      "k' = snd (worker_send (peer s) MSuccess)"
      by (auto simp: attempts.simps split: prod.splits)
    with 1 success show ?thesis by blast
  next
    case 2
    with a q less.prems have "w' = w1" "k' = k1" by (simp_all add: attempts.simps)
    with a q stop [of w k ok s] worker_send_state(2) [of "peer s" MFailure] show ?thesis by simp
  next
    case 3
    with a q less.prems obtain m k2 where m: "worker_receive k1 = Some (m, k2)"
      by (auto simp: attempts.simps split: option.splits)
    show ?thesis
    proof (cases "m = Inr MRetry")
      case True
      with 3 a q m less.prems have "attempts api nam name uid w1 k2 = Some (r, w', k')"
        by (auto simp: attempts.simps [of _ _ _ _ w k] split: if_splits)
      moreover have "length (delivered (inbound (link k2))) < length (delivered (inbound (link k)))"
        using attempt_consumes [OF a q] m True by simp
      ultimately show ?thesis using retry [OF a] q 3 m True less.hyps by simp
    next
      case False
      with 3 a q m less.prems have "w' = w1" "k' = k2"
        by (auto simp: attempts.simps split: if_splits)
      moreover have "outbound (link k2) = outbound (link k1)"
        using m by (auto simp: worker_receive_def split: option.splits)
      ultimately show ?thesis
        using a q stop [of w k ok s] worker_send_state(2) [of "peer s" MFailure]
          worker_receive_state(1) [OF m] by simp
    qed
  qed
qed

lemma attempts_success:
  assumes "attempts api nam name uid w k = Some (r, w', k')"
  shows "MSuccess \<notin> set (history k) \<longrightarrow> MSuccess \<in> set (history k') \<longrightarrow>
    (\<exists>ka w0 s. history k' = history (peer s) @ [MSuccess] \<and> MSuccess \<notin> set (history (peer s))
      \<and> vouched api nam name uid w0 (new_conversation ka) w' s \<and> \<not> cancelled s)"
  using assms
proof (induction rule: attempts_induct)
  case (success w k s)
  with attempt_history [OF success(1)] authenticate_vouched [OF success(1)] show ?case by auto
next
  case (stop w k ok s)
  with attempt_history [OF stop(1)] show ?case by auto
next
  case (retry w k ok w1 s k1 k2)
  from retry(2) have "history k1 = history (peer s) @ [MFailure]"
    using worker_send_state(2) [of "peer s" MFailure] by simp
  with retry attempt_history [OF retry(1)] worker_receive_state(1) [OF retry(3)] show ?case by auto
qed

text \<open>The responses of a completed callback: one for each prompt, in its own slot.\<close>

definition is_prompt :: "pam_message option \<Rightarrow> bool" where
  "is_prompt m = (case m of None \<Rightarrow> False
     | Some m' \<Rightarrow> msg_style m' = PAM_PROMPT_ECHO_ON \<or> msg_style m' = PAM_PROMPT_ECHO_OFF)"

lemma as_mut_set [simp]: "as_mut (set_response i b p) = (as_mut p)[i := \<lparr>resp = Some b, resp_retcode = 0\<rparr>]"
  by (simp add: as_mut_def set_response_def split: option.splits)

lemma set_response_count [simp]: "pending_count (set_response i b p) = pending_count p"
  by (simp add: set_response_def)

lemma loop_responses:
  "conversation_loop malloc i ms p s = Some (Completed, p', s') \<Longrightarrow> i + length ms \<le> length (as_mut p)
    \<Longrightarrow> \<forall>j \<ge> i. j < length (as_mut p) \<longrightarrow> resp (as_mut p ! j) = None
    \<Longrightarrow> pending_count p' = pending_count p \<and> length (as_mut p') = length (as_mut p)
        \<and> (\<forall>j < i. as_mut p' ! j = as_mut p ! j)
        \<and> (\<forall>j < length ms. resp (as_mut p' ! (i + j)) \<noteq> None \<longleftrightarrow> is_prompt (ms ! j))"
proof (induction malloc i ms p s rule: conversation_loop.induct)
  case (1 malloc i p s)
  then show ?case by simp
next
  case (2 malloc i m ms p s)
  from "2.prems"(1) obtain mem t where m: "Option.bind m msg = Some mem"
    and t: "bounded_message mem = Some t" by (auto split: option.splits)
  then have m': "m = Some (the m)" by (cases m) auto
  show ?case
  proof (cases "is_prompt m")
    case True
    then have st: "msg_style (the m) = PAM_PROMPT_ECHO_ON \<or> msg_style (the m) = PAM_PROMPT_ECHO_OFF"
      using m' by (auto simp: is_prompt_def split: option.splits)
    with m t "2.prems"(1) obtain v s1 where
      v: "pam_prompt t (msg_style (the m) = PAM_PROMPT_ECHO_OFF) s = Some (Inr v, s1)" "malloc i" "\<not> i \<ge> length (as_mut p)"
      and l: "conversation_loop malloc (Suc i) ms (set_response i (expose v @ [0]) p) s1
        = Some (Completed, p', s')"
      by (auto simp: Let_def split: option.splits sum.splits if_splits)
    let ?p = "set_response i (expose v @ [0]) p"
    have len: "length (as_mut ?p) = length (as_mut p)" "i < length (as_mut p)"
      using "2.prems"(2) by simp_all
    have slot: "resp (as_mut p' ! i) \<noteq> None \<and> length (as_mut p') = length (as_mut p)
        \<and> pending_count p' = pending_count p \<and> (\<forall>j < i. as_mut p' ! j = as_mut p ! j)
        \<and> (\<forall>j < length ms. resp (as_mut p' ! (Suc i + j)) \<noteq> None \<longleftrightarrow> is_prompt (ms ! j))"
      using "2.IH"(1) [OF m t refl st v(1) refl refl _ _ l] v(2,3) len "2.prems"(2,3) by auto
    then show ?thesis using True by (auto simp: less_Suc_eq_0_disj)
  next
    case False
    then have st: "msg_style (the m) \<noteq> PAM_PROMPT_ECHO_ON \<and> msg_style (the m) \<noteq> PAM_PROMPT_ECHO_OFF"
      using m' by (auto simp: is_prompt_def split: option.splits)
    obtain e where "conversation_loop malloc (Suc i) ms p (pam_notice t e s) = Some (Completed, p', s')"
      and "msg_style (the m) = (if e then PAM_ERROR_MSG else PAM_TEXT_INFO)"
      using m t st "2.prems"(1) by (auto simp: Let_def split: if_splits)
    then have "pending_count p' = pending_count p \<and> length (as_mut p') = length (as_mut p)
        \<and> (\<forall>j < Suc i. as_mut p' ! j = as_mut p ! j)
        \<and> (\<forall>j < length ms. resp (as_mut p' ! (Suc i + j)) \<noteq> None \<longleftrightarrow> is_prompt (ms ! j))"
      using "2.IH"(2,3) [OF m t refl _] st "2.prems"(2,3) by (cases e) (simp_all del: not_None_eq)
    then have "resp (as_mut p' ! i) = None \<and> length (as_mut p') = length (as_mut p)
        \<and> pending_count p' = pending_count p \<and> (\<forall>j < i. as_mut p' ! j = as_mut p ! j)
        \<and> (\<forall>j < length ms. resp (as_mut p' ! (Suc i + j)) \<noteq> None \<longleftrightarrow> is_prompt (ms ! j))"
      using "2.prems"(2,3) by (simp del: not_None_eq)
    then show ?thesis using False by (auto simp: less_Suc_eq_0_disj)
  qed
qed

text \<open>The body never unwinds: the index of a response is below their number.\<close>

lemma loop_never_unwinds:
  "conversation_loop malloc i ms p s = Some (e, p', s') \<Longrightarrow> i + length ms \<le> length (as_mut p)
    \<Longrightarrow> e \<noteq> Unwound"
proof (induction malloc i ms p s rule: conversation_loop.induct)
  case (2 malloc i m ms p s)
  then show ?case by (auto simp: Let_def split: option.splits sum.splits if_splits) blast+
qed auto

lemma body_never_unwinds:
  assumes "pam_conversation_inner call slot s = Some ((status, slot'), s')"
  shows "status \<noteq> None"
proof -
  let ?n = "nat (call_count call)"
  have "length (as_mut \<lparr>pointer = Some (calloc_responses ?n), pending_count = ?n\<rparr>) = ?n"
    by (simp add: as_mut_def calloc_responses_def)
  then have "conversation_loop (malloc_ok call) 0 (take ?n ms)
      \<lparr>pointer = Some (calloc_responses ?n), pending_count = ?n\<rparr> s \<noteq> Some (Unwound, p', s1)" for ms p' s1
    using loop_never_unwinds by fastforce
  with assms show ?thesis
    by (auto simp: pam_conversation_inner_def Let_def split: if_splits option.splits loop_end.splits)
qed

text \<open>On a connection without write faults the bytes on the wire are the frames of the history.\<close>

definition on_wire :: "worker \<Rightarrow> bool" where
  "on_wire k \<longleftrightarrow> write_faults (link k) = [] \<and> outbound (link k) = concat (map frame (history k))"

definition keeps_wire :: "pam_conversation_state \<Rightarrow> pam_conversation_state \<Rightarrow> bool" where
  "keeps_wire s s' \<longleftrightarrow> (on_wire (peer s) \<longrightarrow> on_wire (peer s'))"

lemma worker_send_wire:
  "valid_message m \<Longrightarrow> on_wire k
    \<Longrightarrow> fst (worker_send k m) = Inr () \<and> on_wire (snd (worker_send k m))"
  by (simp add: worker_send_def on_wire_def send_healthy)

lemma worker_receive_wire: "worker_receive k = Some (r, k') \<Longrightarrow> on_wire k' = on_wire k"
  by (auto simp: worker_receive_def on_wire_def split: option.splits)

interpretation wire_order: conversation_order keeps_wire
proof unfold_locales
  show "keeps_wire s s" for s by (simp add: keeps_wire_def)
  show "keeps_wire a c" if "keeps_wire a b" "keeps_wire b c" for a b c
    using that by (simp add: keeps_wire_def)
  show "keeps_wire s s'" if t: "bounded_message mem = Some t" and p: "pam_prompt t hidden s = Some (r, s')"
    for mem t hidden s r s'
    using p
  proof (cases rule: pam_prompt_cases)
    case (2 e)
    then show ?thesis
      using worker_send_wire [OF bounded_message_valid(1) [OF t], of "peer s" "next_id s" hidden]
      by (auto simp: keeps_wire_def)
  next
    case (3 k a)
    then show ?thesis
      using worker_send_wire [OF bounded_message_valid(1) [OF t], of "peer s" "next_id s" hidden]
        worker_receive_wire [OF 3(3)] by (simp add: keeps_wire_def)
  qed (simp add: keeps_wire_def)
  show "keeps_wire s (pam_notice t is_error s)" if "bounded_message mem = Some t" for mem t is_error s
    using worker_send_wire bounded_message_valid(2,3) [OF that]
    by (simp add: keeps_wire_def pam_notice_def Let_def)
  show "keeps_wire s (drop_pending p s)" for p s
    by (simp add: keeps_wire_def on_wire_def drop_pending_def split: option.splits)
qed

lemma valid_success_failure [simp]: "valid_message MSuccess" "valid_message MFailure"
  by (simp_all add: valid_message_def)

lemma attempt_wire:
  "authenticate api nam name uid w (new_conversation k) = Some (ok, w', s) \<Longrightarrow> on_wire k
    \<Longrightarrow> on_wire (peer s)"
  using wire_order.R_authenticate by (force simp: keeps_wire_def new_conversation_def)

lemma attempt_valid:
  "authenticate api nam name uid w (new_conversation k) = Some (ok, w', s)
    \<Longrightarrow> list_all valid_message (history k) \<Longrightarrow> list_all valid_message (history (peer s))"
  by (drule speech.R_authenticate) (auto simp: speaks_def new_conversation_def list_all_iff)

lemma attempts_wire:
  assumes "attempts api nam name uid w k = Some (r, w', k')"
  shows "on_wire k \<longrightarrow> list_all valid_message (history k)
    \<longrightarrow> outbound (link k') = concat (map frame (history k')) \<and> list_all valid_message (history k')"
  using assms
proof (induction rule: attempts_induct)
  case (success w k s)
  with attempt_wire [OF success(1)] attempt_valid [OF success(1)]
    worker_send_wire [of MSuccess "peer s"]
  show ?case by (simp add: on_wire_def)
next
  case (stop w k ok s)
  with attempt_wire [OF stop(1)] attempt_valid [OF stop(1)] worker_send_wire [of MFailure "peer s"]
  show ?case by (simp add: on_wire_def)
next
  case (retry w k ok w1 s k1 k2)
  have "on_wire k2 \<and> list_all valid_message (history k2)"
    if "on_wire k" "list_all valid_message (history k)"
    using that retry(2) attempt_wire [OF retry(1)] attempt_valid [OF retry(1)]
      worker_send_wire [of MFailure "peer s"] worker_receive_wire [OF retry(3)]
      worker_receive_state(1) [OF retry(3)] worker_send_state(2) [of "peer s" MFailure] by simp
  with retry(4) show ?case by blast
qed

text \<open>The stages of a run.\<close>

lemma worker_run_cases:
  assumes "worker_run env uids api nams w c = Some (r, w', k)"
  obtains (silent) "history k = []" "outbound (link k) = outbound c"
  | (ready) username where "username_for_uid uids (getuid env) = Some username"
      "history k = [MReady (getuid env) username]"
      "outbound (link k) = outbound (link (snd (worker_send \<lparr>link = c, history = [], freed = []\<rparr>
        (MReady (getuid env) username))))"
  | (began) username k1 k2 where "username_for_uid uids (getuid env) = Some username"
      "worker_send \<lparr>link = c, history = [], freed = []\<rparr> (MReady (getuid env) username) = (Inr (), k1)"
      "worker_receive k1 = Some (Inr MBegin, k2)"
      "attempts api nams username (getuid env) w k2 = Some (r, w', k)"
proof (cases "prepare_worker env uids")
  case (Inl e)
  with assms that(1) show thesis by (auto simp: worker_run_def)
next
  case (Inr username)
  let ?k = "\<lparr>link = c, history = [], freed = []\<rparr>" and ?m = "MReady (getuid env) username"
  from Inr have u: "username_for_uid uids (getuid env) = Some username"
    by (auto simp: prepare_worker_def split: if_splits)
  obtain q k1 where q: "worker_send ?k ?m = (q, k1)" by fastforce
  then have h1: "history k1 = [?m]" using worker_send_state(2) [of ?k ?m] by simp
  show thesis
  proof (cases q)
    case (Inl e)
    with assms Inr q h1 u that(2) show thesis by (simp add: worker_run_def)
  next
    case ok: (Inr v)
    with assms Inr q obtain a k2 where a: "worker_receive k1 = Some (a, k2)"
      by (auto simp: worker_run_def await_begin_def split: option.splits)
    show thesis
    proof (cases "a = Inr MBegin")
      case True
      with assms Inr q ok a have "attempts api nams username (getuid env) w k2 = Some (r, w', k)"
        by (simp add: worker_run_def await_begin_def)
      with that(3) u q ok a True show thesis by simp
    next
      case False
      with assms Inr q ok a have "k = k2" by (simp add: worker_run_def await_begin_def)
      moreover have "outbound (link k2) = outbound (link k1)"
        using a by (auto simp: worker_receive_def split: option.splits)
      ultimately show thesis
        using that(2) [OF u] q h1 worker_receive_state(1) [OF a] by simp
    qed
  qed
qed

text \<open>What a whole run sends.\<close>

lemma worker_run_vouched:
  assumes "worker_run env uids api nams w c = Some (r, w', k)" "MSuccess \<in> set (history k)"
  shows "\<exists>username ka w0 s. username_for_uid uids (getuid env) = Some username
    \<and> vouched api nams username (getuid env) w0 (new_conversation ka) w' s \<and> \<not> cancelled s
    \<and> history k = history (peer s) @ [MSuccess] \<and> MSuccess \<notin> set (history (peer s))"
  using assms(1)
proof (cases rule: worker_run_cases)
  case (began username k1 k2)
  have "MSuccess \<notin> set (history k2)"
    using began(2) worker_send_state(2) [of "\<lparr>link = c, history = [], freed = []\<rparr>"
        "MReady (getuid env) username"] worker_receive_state(1) [OF began(3)] by simp
  with attempts_success [OF began(4)] assms(2) began(1) show ?thesis by blast
qed (use assms(2) in simp_all)

lemma worker_run_wire:
  assumes "worker_run env uids api nams w c = Some (r, w', k)"
    and "outbound c = []" "write_faults c = []"
    and "\<And>name. username_for_uid uids (getuid env) = Some name \<Longrightarrow> valid_message (MReady (getuid env) name)"
  shows "outbound (link k) = concat (map frame (history k)) \<and> list_all valid_message (history k)"
proof -
  let ?k = "\<lparr>link = c, history = [], freed = []\<rparr>"
  have k0: "on_wire ?k" using assms(2,3) by (simp add: on_wire_def)
  show ?thesis
    using assms(1)
  proof (cases rule: worker_run_cases)
    case silent
    then show ?thesis using assms(2) by simp
  next
    case (ready username)
    then show ?thesis
      using worker_send_wire [OF assms(4) [OF ready(1)] k0] assms(4) by (simp add: on_wire_def)
  next
    case (began username k1 k2)
    have "on_wire k2" "history k2 = [MReady (getuid env) username]"
      using worker_send_wire [OF assms(4) [OF began(1)] k0] began(2)
        worker_receive_wire [OF began(3)] worker_receive_state(1) [OF began(3)]
        worker_send_state(2) [of ?k "MReady (getuid env) username"] by simp_all
    then have "on_wire k2" "list_all valid_message (history k2)"
      using assms(4) [OF began(1)] by simp_all
    then show ?thesis using attempts_wire [OF began(4)] by simp
  qed
qed

text \<open>The history of a session only grows, so the first message stays the announcement.\<close>

lemma attempts_history:
  assumes "attempts api nam name uid w k = Some (r, w', k')"
  shows "\<exists>ms. history k' = history k @ ms"
  using assms
proof (induction rule: attempts_induct)
  case (success w k s)
  with speech.R_authenticate [OF success(1)] show ?case
    by (auto simp: speaks_def new_conversation_def)
next
  case (stop w k ok s)
  with speech.R_authenticate [OF stop(1)] show ?case
    by (auto simp: speaks_def new_conversation_def)
next
  case (retry w k ok w1 s k1 k2)
  from retry(2) have "history k1 = history (peer s) @ [MFailure]"
    using worker_send_state(2) [of "peer s" MFailure] by simp
  with retry speech.R_authenticate [OF retry(1)] worker_receive_state(1) [OF retry(3)] show ?case
    by (auto simp: speaks_def new_conversation_def)
qed

lemma worker_run_announces:
  assumes "worker_run env uids api nams w c = Some (r, w', k)" "history k \<noteq> []"
  obtains username ms where "username_for_uid uids (getuid env) = Some username"
    "history k = MReady (getuid env) username # ms"
  using assms(1)
proof (cases rule: worker_run_cases)
  case silent
  with assms(2) show ?thesis by simp
next
  case (ready username)
  with that show ?thesis by simp
next
  case (began username k1 k2)
  have "history k2 = [MReady (getuid env) username]"
    using began(2) worker_send_state(2) [of "\<lparr>link = c, history = [], freed = []\<rparr>"
        "MReady (getuid env) username"] worker_receive_state(1) [OF began(3)] by simp
  with attempts_history [OF began(4)] that [OF began(1)] show ?thesis by auto
qed

text \<open>The NSS retry loop as a search over the eleven buffer sizes.\<close>

lemma nss_loop_iff:
  "i \<le> 10 \<Longrightarrow> nss_loop call (1024 * 2 ^ i) = Some e \<longleftrightarrow>
     (\<exists>n. i \<le> n \<and> n \<le> 10 \<and> (\<forall>m. i \<le> m \<and> m < n \<longrightarrow> fst (call (1024 * 2 ^ m)) = ERANGE)
        \<and> call (1024 * 2 ^ n) = (0, Some e))"
proof (induction "10 - i" arbitrary: i)
  case 0
  then have i: "i = 10" by simp
  obtain st res where c: "call 1048576 = (st, res)" by fastforce
  have "nss_loop call 1048576 = (if st \<noteq> 0 then None else res)"
    by (subst nss_loop.simps) (simp add: c next_nss_buffer_def MAX_NSS_BUFFER_def)
  then show ?case using c by (auto simp: i)
next
  case (Suc d)
  then have i: "i < 10" by simp
  obtain st res where c: "call (1024 * 2 ^ i) = (st, res)" by fastforce
  have lt: "(2 :: nat) ^ i * 2 \<le> 2 ^ 10"
    using power_increasing [of "Suc i" 10 "2 :: nat"] i by simp
  show ?case
  proof (cases "st = ERANGE")
    case True
    have "next_nss_buffer st (1024 * 2 ^ i) = Some (1024 * 2 ^ Suc i)"
      using True lt by (simp add: next_nss_buffer_def MAX_NSS_BUFFER_def)
    then have "nss_loop call (1024 * 2 ^ i) = nss_loop call (1024 * 2 ^ Suc i)"
      by (subst nss_loop.simps) (simp add: c del: power_Suc)
    moreover have "nss_loop call (1024 * 2 ^ Suc i) = Some e \<longleftrightarrow>
       (\<exists>n. Suc i \<le> n \<and> n \<le> 10 \<and> (\<forall>m. Suc i \<le> m \<and> m < n \<longrightarrow> fst (call (1024 * 2 ^ m)) = ERANGE)
          \<and> call (1024 * 2 ^ n) = (0, Some e))"
      using Suc i by (intro Suc.hyps(1)) auto
    ultimately show ?thesis
      using c True by (metis Suc_leD Suc_leI fst_conv le_neq_implies_less prod.inject zero_neq_numeral)
  next
    case False
    then have "nss_loop call (1024 * 2 ^ i) = (if st \<noteq> 0 then None else res)"
      by (subst nss_loop.simps) (simp add: c next_nss_buffer_def)
    with c False i show ?thesis
      by (auto dest!: spec [of _ i] intro!: exI [of _ i] simp: le_less)
  qed
qed

section \<open>A concrete session\<close>

text \<open>
  A PAM stack that asks once for a password without echo and accepts the answer \<open>pw\<close>, and a
  locker that begins, answers prompt 1, and is not asked again.
\<close>

definition demo_call :: pam_call where
  "demo_call = \<lparr>call_count = 1, messages = Some [Some \<lparr>msg_style = 1, msg = Some [80, 0]\<rparr>],
     responses = Some (Some []), data_null = False, calloc_ok = True, malloc_ok = (\<lambda>_. True)\<rparr>"

definition demo_api :: "unit pam_api" where
  "demo_api = \<lparr>pam_start = (\<lambda>_ _ w. (0, True, w)),
     pam_authenticate = (\<lambda>_ w. Converse demo_call (\<lambda>reply.
       Return (if reply = (0, Some [\<lparr>resp = Some [112, 119, 0], resp_retcode = 0\<rparr>]) then 0 else 7, w))),
     pam_get_user = (\<lambda>w. Return (0, Some [97, 0], w)),
     pam_end = (\<lambda>_ w. Return (0, w))\<rparr>"

definition demo_env :: worker_environment where
  "demo_env = \<lparr>argv = [[], utf8 (lit ''--fd''), [51], utf8 (lit ''--parent-pid''), [52, 50]],
     prctl_status = 0, getppid = 42, getfd_flags = (\<lambda>_. 0), setfd_status = (\<lambda>_ _. 0),
     close_range_status = 0, getuid = 1000, geteuid = 1000, getgid = 100, getegid = 100\<rparr>"

definition demo_link :: connection where
  "demo_link = \<lparr>outbound = [], write_faults = [],
     inbound = [(0, Bytes [71, 78, 75, 65, 2, 10, 0, 0, 0, 0]),
       (2, Bytes [71, 78, 75, 65, 2, 7, 0, 0, 0, 10, 0, 0, 0, 0, 0, 0, 0, 1, 112, 119])]\<rparr>"

definition demo_uids :: getpwuid where "demo_uids uid sz = (0, Some [97, 0])"
definition demo_nams :: getpwnam where "demo_nams name sz = (0, Some 1000)"

definition demo_history :: "message list" where
  "demo_history = [MReady 1000 [97], MPrompt 1 True [80], MSuccess]"

lemmas demo_defs = demo_call_def demo_api_def demo_env_def demo_link_def demo_uids_def demo_nams_def

lemma demo_prepare: "prepare_worker demo_env demo_uids = Inr [97]"
  by (simp add: prepare_worker_def demo_defs parse_arguments_def parse_argument_def parse_i32_def
      digits_value_def bind_to_parent_def set_close_on_exec_def close_extra_descriptors_def
      username_for_uid_def nss_loop.simps next_nss_buffer_def strlen_def from_utf8.simps(2)
      lit_def utf8_char_def Let_def)

lemma demo_message: "bounded_message [80, 0] = Some [80]"
  by (simp add: bounded_message_def strnlen_def from_utf8_lossy.simps(2) Let_def
      MAX_MESSAGE_BYTES_def pop_to_bound.simps utf8_char_def)

lemmas worker_eval = worker_send_def worker_receive_def receive_def receive_before_def decode_def
  send_def write_all_def protocol_eval

lemma worker_send_healthy:
  "write_faults (link k) = [] \<Longrightarrow> valid_message m
    \<Longrightarrow> worker_send k m = (Inr (), k\<lparr>link := (link k)\<lparr>outbound := outbound (link k) @ frame m\<rparr>,
          history := history k @ [m]\<rparr>)"
  by (simp add: worker_send_def send_healthy)

lemma demo_valid: "list_all valid_message demo_history"
  by (simp add: demo_history_def valid_message_def scalar_value_def utf8_char_def
      MAX_MESSAGE_BYTES_def)

definition demo_worker :: "message list \<Rightarrow> reads \<Rightarrow> worker" where
  "demo_worker ms rs = \<lparr>link = \<lparr>outbound = concat (map frame ms), write_faults = [], inbound = rs\<rparr>,
     history = ms, freed = []\<rparr>"

abbreviation demo_response :: reads where
  "demo_response \<equiv>
     [(2, Bytes [71, 78, 75, 65, 2, 7, 0, 0, 0, 10, 0, 0, 0, 0, 0, 0, 0, 1, 112, 119])]"

lemma demo_send: "valid_message m \<Longrightarrow> worker_send (demo_worker ms rs) m = (Inr (), demo_worker (ms @ [m]) rs)"
  by (simp add: demo_worker_def worker_send_healthy)

lemma demo_worker_fresh: "\<lparr>link = demo_link, history = [], freed = []\<rparr> = demo_worker [] (inbound demo_link)"
  by (simp add: demo_worker_def demo_link_def)

lemma demo_begin:
  "worker_receive (demo_worker ms (inbound demo_link)) = Some (Inr MBegin, demo_worker ms demo_response)"
  by (simp add: demo_worker_def demo_link_def worker_eval)

lemma demo_answer:
  "worker_receive (demo_worker ms demo_response) = Some (Inr (MResponse 1 (Secret [112, 119])),
     demo_worker ms [])"
  by (simp add: demo_worker_def worker_eval)

lemma demo_prompt:
  "pam_prompt [80] True (new_conversation (demo_worker [MReady 1000 [97]] demo_response)) =
    Some (Inr (Secret [112, 119]),
      \<lparr>peer = demo_worker [MReady 1000 [97], MPrompt 1 True [80]] [], next_id = 2, cancelled = False\<rparr>)"
  using demo_valid
  by (simp add: pam_prompt_def new_conversation_def MAX_MESSAGES_def demo_send demo_answer
      demo_history_def del: One_nat_def)

lemma demo_callback:
  "pam_conversation demo_call (new_conversation (demo_worker [MReady 1000 [97]] demo_response)) =
    Some ((0, Some [\<lparr>resp = Some [112, 119, 0], resp_retcode = 0\<rparr>]),
      \<lparr>peer = demo_worker [MReady 1000 [97], MPrompt 1 True [80]] [], next_id = 2, cancelled = False\<rparr>)"
  by (simp add: pam_conversation_def pam_conversation_inner_def demo_call_def demo_message
      demo_prompt calloc_responses_def set_response_def as_mut_def release_def Let_def)

lemma demo_authenticate:
  "authenticate demo_api demo_nams [97] 1000 ()
     (new_conversation (demo_worker [MReady 1000 [97]] demo_response)) =
    Some (True, (),
      \<lparr>peer = demo_worker [MReady 1000 [97], MPrompt 1 True [80]] [], next_id = 2, cancelled = False\<rparr>)"
proof -
  have names: "0 \<notin> set (utf8 SERVICE)" "0 \<notin> set (utf8 [97])"
    by (simp_all add: SERVICE_def lit_def utf8_char_def)
  have "username_uid demo_nams [97] = Some 1000"
    by (simp add: username_uid_def demo_nams_def nss_loop.simps next_nss_buffer_def)
  moreover have "bounded_username [97, 0] = Some [97]"
    by (simp add: bounded_username_def strnlen_def MAX_USERNAME_BYTES_def Let_def)
  ultimately show ?thesis
    using names
    by (simp add: authenticate_def pam_uid_def demo_api_def demo_callback)
qed

lemma demo_run:
  "worker_run demo_env demo_uids demo_api demo_nams () demo_link =
    Some (Inr (), (), demo_worker demo_history [])"
proof -
  have v: "valid_message (MReady 1000 [97])" "valid_message MSuccess"
    using demo_valid by (simp_all add: demo_history_def)
  have "getuid demo_env = 1000" by (simp add: demo_env_def)
  then show ?thesis
    by (simp add: worker_run_def demo_prepare demo_worker_fresh demo_send v await_begin_def demo_begin
        attempts.simps demo_authenticate demo_history_def)
qed

section \<open>Properties\<close>

text \<open>
  C4. The worker says \<open>Success\<close> only for the right user: when a run of the worker, with any PAM
  stack, any user database and any locker, hands \<open>Success\<close> to the connection, then it is its very
  last message, and a complete PAM transaction for the name of the process's own uid vouched for
  that uid in the attempt before it (authentication succeeded, PAM's final user resolves to the
  same uid, and the transaction was ended without error), and the locker did not cancel.
\<close>

theorem worker_success_authorized:
  assumes "worker_run env uids api nams w c = Some (r, w', k)" "MSuccess \<in> set (history k)"
  shows "\<exists>username ka w0 s. username_for_uid uids (getuid env) = Some username
    \<and> vouched api nams username (getuid env) w0 (new_conversation ka) w' s \<and> \<not> cancelled s
    \<and> history k = history (peer s) @ [MSuccess] \<and> MSuccess \<notin> set (history (peer s))"
  using assms by (rule worker_run_vouched)

theorem worker_success_authorized_witness:
  "\<exists>ka w0 s. vouched demo_api demo_nams [97] 1000 w0 (new_conversation ka) () s \<and> \<not> cancelled s
    \<and> history (demo_worker demo_history []) = history (peer s) @ [MSuccess]"
proof -
  have u: "username_for_uid demo_uids (getuid demo_env) = Some [97]"
    by (simp add: username_for_uid_def demo_uids_def demo_env_def nss_loop.simps
        next_nss_buffer_def strlen_def from_utf8.simps(2))
  have "MSuccess \<in> set (history (demo_worker demo_history []))"
    by (simp add: demo_worker_def demo_history_def)
  from worker_success_authorized [OF demo_run this] u show ?thesis
    by (auto simp: demo_env_def)
qed

text \<open>
  Prompt discipline: whatever the PAM stack does during one attempt, the prompts the worker
  sends are numbered 1, 2, 3, ... without gap or repetition, there are at most 128 of them, and
  everything it sends is a prompt or a notice within the bounds of the protocol.
\<close>

theorem prompts_numbered:
  assumes "authenticate api nams username uid w (new_conversation k) = Some (ok, w', s)"
  shows "\<exists>ms. history (peer s) = history k @ ms \<and> prompt_ids ms = [1 ..< unat (next_id s)]
    \<and> length (prompt_ids ms) \<le> MAX_MESSAGES
    \<and> list_all (\<lambda>m. conversational m \<and> valid_message m) ms"
  using speech.R_authenticate [OF assms]
  by (auto simp: speaks_def new_conversation_def)

theorem prompts_numbered_witness:
  "\<exists>ms. demo_history = MReady 1000 [97] # ms @ [MSuccess] \<and> prompt_ids ms = [1 ..< 2]"
  using prompts_numbered [OF demo_authenticate]
  by (auto simp: demo_worker_def demo_history_def)

text \<open>
  C22. The conversation callback, called by PAM with any arguments: it either fails with
  \<open>PAM_CONV_ERR\<close> and a null response pointer, or succeeds with exactly one response per message,
  non-null exactly for the prompts, each NUL-terminated with no NUL inside; and every response
  buffer it frees on an error path is overwritten with zeros before, secrets included.
\<close>

theorem callback_contract:
  assumes "pam_conversation call s = Some ((status, out), s')"
  shows "(status = PAM_CONV_ERR \<and> out = None
      \<or> status = PAM_SUCCESS \<and> (\<exists>rs ms. out = Some rs \<and> messages call = Some ms
          \<and> length rs = nat (call_count call) \<and> list_all response_ok rs
          \<and> (nat (call_count call) \<le> length ms \<longrightarrow>
              (\<forall>i < length rs. resp (rs ! i) \<noteq> None \<longleftrightarrow> is_prompt (ms ! i)))))
    \<and> (\<exists>bs. freed (peer s') = freed (peer s) @ bs \<and> list_all wiped bs)"
proof -
  let ?n = "nat (call_count call)"
  let ?p = "\<lparr>pointer = Some (calloc_responses ?n), pending_count = ?n\<rparr>"
  have p: "as_mut ?p = calloc_responses ?n" by (simp add: as_mut_def calloc_responses_def)
  have freed: "\<exists>bs. freed (peer s') = freed (peer s) @ bs \<and> list_all wiped bs"
    using hygiene.R_callback [OF assms] by (simp add: wipes_def)
  consider "status = PAM_CONV_ERR" "out = None"
    | ms p' where "messages call = Some ms" "status = PAM_SUCCESS" "out = release p'"
      "conversation_loop (malloc_ok call) 0 (take ?n ms) ?p s = Some (Completed, p', s')"
    using assms
    by (auto simp: pam_conversation_def pam_conversation_inner_def Let_def
        split: if_splits option.splits loop_end.splits)
  then show ?thesis
  proof cases
    case 1
    with freed show ?thesis by simp
  next
    case (2 ms p')
    have ok: "pending_ok p'" using hygiene.R_loop [OF 2(4)] by simp
    have "length (calloc_responses ?n) = ?n" by (simp add: calloc_responses_def)
    with loop_responses [OF 2(4)] p
    have r: "length (as_mut p') = ?n"
      "\<forall>j < length (take ?n ms). resp (as_mut p' ! j) \<noteq> None \<longleftrightarrow> is_prompt (take ?n ms ! j)"
      by (auto simp: calloc_responses_def)
    have "list_all response_ok (as_mut p')" using ok as_mut_ok [OF ok] by (simp add: pending_ok_def)
    with r 2 as_mut_ok [OF ok] freed show ?thesis by (auto simp: release_def)
  qed
qed

theorem callback_contract_witness:
  "list_all response_ok [\<lparr>resp = Some [112, 119, 0], resp_retcode = 0\<rparr>] \<and> call_count demo_call = 1"
  using callback_contract [OF demo_callback] by (auto simp: demo_call_def)

text \<open>
  User lookup terminates within the buffer cap and decides by the first size that is large
  enough: it returns a uid exactly when the name has no NUL, NSS answers \<open>ERANGE\<close> for the sizes
  1024, 2048, ... below some power of two of at most 1 MiB, and succeeds with that uid there.
\<close>

theorem username_uid_search:
  "username_uid nams name = Some u \<longleftrightarrow> 0 \<notin> set name
    \<and> (\<exists>n \<le> 10. (\<forall>m < n. fst (nams name (1024 * 2 ^ m)) = ERANGE)
         \<and> nams name (1024 * 2 ^ n) = (0, Some u))"
  using nss_loop_iff [of 0 "nams name" u] by (auto simp: username_uid_def INITIAL_NSS_BUFFER_def)

theorem username_uid_search_witness:
  "username_uid (\<lambda>name sz. if sz < 4096 then (34, None) else (0, Some 1000)) [97] = Some 1000"
  unfolding username_uid_search by (auto intro!: exI [of _ 2] simp: less_2_cases_iff)

text \<open>
  Text from PAM: a message is refused exactly when it is longer than 4096 bytes; otherwise it
  becomes valid NUL-free text of at most 4096 bytes, and well-formed UTF-8 is passed on unchanged.
\<close>

theorem bounded_message_faithful:
  fixes mem :: "u8 list"
  defines "bytes \<equiv> takeWhile (\<lambda>b. b \<noteq> 0) (take (MAX_MESSAGE_BYTES + 1) mem)"
  shows "(bounded_message mem = None \<longleftrightarrow> length bytes > MAX_MESSAGE_BYTES)
    \<and> (\<forall>t. bounded_message mem = Some t \<longrightarrow>
         text_ok t \<and> length (utf8 t) \<le> MAX_MESSAGE_BYTES
         \<and> (\<forall>u. from_utf8 bytes = Some u \<longrightarrow> t = u))"
proof (intro conjI allI impI)
  have b: "take (strnlen mem (MAX_MESSAGE_BYTES + 1)) mem = bytes"
    unfolding bytes_def by (rule take_strnlen)
  have l: "strnlen mem (MAX_MESSAGE_BYTES + 1) = length bytes"
    by (simp add: strnlen_def bytes_def)
  show "bounded_message mem = None \<longleftrightarrow> length bytes > MAX_MESSAGE_BYTES"
    using l by (simp add: bounded_message_def Let_def)
  fix t
  assume t: "bounded_message mem = Some t"
  show "text_ok t" "length (utf8 t) \<le> MAX_MESSAGE_BYTES" using bounded_message_ok [OF t] .
  fix u
  assume u: "from_utf8 bytes = Some u"
  have "length (utf8 u) \<le> MAX_MESSAGE_BYTES"
    using from_utf8_sound [OF u] t l by (simp add: bounded_message_def Let_def split: if_splits)
  moreover have "t = pop_to_bound MAX_MESSAGE_BYTES (from_utf8_lossy bytes)"
    using t b by (simp add: bounded_message_def Let_def split: if_splits)
  ultimately show "t = u" using from_utf8_lossy_exact [OF u] by simp
qed

theorem bounded_message_faithful_witness: "bounded_message [80, 0] = Some [80] \<and> text_ok [80]"
  using bounded_message_faithful [of "[80, 0]"] demo_message by simp

text \<open>
  C19. Worker and locker agree on the conversation: when writes do not fail and the user's name
  fits a message, the bytes of a whole run are exactly the frames of the messages the worker sent,
  every one of them valid, so a locker whose stream delivers these bytes in any pieces receives
  the worker's history, in order and complete.
\<close>

theorem worker_history_received:
  assumes "worker_run env uids api nams w c = Some (r, w', k)"
    and "outbound c = []" "write_faults c = []"
    and "\<And>name. username_for_uid uids (getuid env) = Some name \<Longrightarrow> valid_message (MReady (getuid env) name)"
    and "live rs" "delivered rs = outbound (link k)"
  shows "\<exists>rs'. receive_many receive (length (history k)) rs = Some (Inr (history k), rs')
    \<and> delivered rs' = []"
  using wire.recv_sequence [of "history k" rs "[]"] worker_run_wire [OF assms(1-4)] assms(5,6) by auto

theorem worker_history_received_witness:
  "\<exists>rs'. receive_many receive 3 [(0, Bytes (concat (map frame demo_history)))]
    = Some (Inr demo_history, rs')"
proof -
  have "valid_message (MReady (getuid demo_env) name)"
    if "username_for_uid demo_uids (getuid demo_env) = Some name" for name
    using that demo_valid by (simp add: username_for_uid_def demo_uids_def demo_env_def nss_loop.simps
        next_nss_buffer_def strlen_def from_utf8.simps(2) demo_history_def)
  moreover have "live [(0, Bytes (concat (map frame demo_history)))]"
    using frame_nonempty [of MSuccess] by (simp add: live_def demo_history_def)
  ultimately show ?thesis
    using worker_history_received [OF demo_run, of "[(0, Bytes (concat (map frame demo_history)))]"]
    by (auto simp: demo_link_def demo_worker_def demo_history_def numeral_3_eq_3)
qed

end
