(* ===== verification/Locker_Client.thy ===== *)
theory Locker_Client
  imports Lock_Auth_Protocol Machines
begin

text \<open>
  The locker's end of the authentication worker (\<open>src/locker/auth.rs\<close>): spawning the worker with a
  controlled set of descriptors, the handshake, the thread that turns worker messages into events,
  and the client operations the presentation calls.

  The reader thread is a machine of its own: \<open>reader_step\<close> is one receive or one publication, and
  a run of the client interleaves reader steps with client operations in any order. A blocked
  thread (no message yet, a full queue, a child that does not exit) is a step that changes nothing.
  The operating system appears as results of its calls.
\<close>

section \<open>Model\<close>

definition CHILD_SOCKET_FD :: nat where "CHILD_SOCKET_FD = 3"
definition EVENT_CAPACITY :: nat where "EVENT_CAPACITY = 128"
definition READY_TIMEOUT :: nat where "READY_TIMEOUT = 2000"

datatype auth_event =
    EvPrompt u64 bool ustring
  | EvNotice bool ustring
  | EvSuccess
  | EvFailure

datatype client_error =
    WorkerNotFound
  | SpawnFailed io_kind
  | UnexpectedWorker
  | ProtocolFailed protocol_error

record identity =
  id_uid :: u32
  id_username :: ustring
  id_display_name :: ustring

text \<open>\<open>waitpid\<close>, called until it is not interrupted: did the child exit with status zero?\<close>

datatype wait_result = ExitStatus int | KilledBySignal | WaitFail io_kind

fun wait_child :: "wait_result list \<Rightarrow> (io_kind + bool) option" where
  "wait_child [] = None"
| "wait_child (ExitStatus code # ws) = Some (Inr (code = 0))"
| "wait_child (KilledBySignal # ws) = Some (Inr False)"
| "wait_child (WaitFail k # ws) = (if k = Interrupted then wait_child ws else Some (Inl k))"

subsection \<open>The reader thread\<close>

datatype reader =
    Reading reads
  | Publishing auth_event reads
  | Closing auth_event
  | ReaderDone

record client =
  writer :: connection
  events :: "auth_event list option"
  joined :: bool
  reader_thread :: reader
  waits :: "wait_result list"
  child_killed :: bool
  child_reaped :: bool
  arrived :: nat

text \<open>
  A \<open>SIGKILL\<close> reaches the child unless it was reaped already, in which case the call fails and its
  result is ignored. Waiting for a child that was killed does not block for ever. It is reaped when
  \<open>waitpid\<close> returns it; a \<open>waitpid\<close> that fails leaves it as it is.
\<close>

definition kill_child :: "client \<Rightarrow> client" where
  "kill_child c = (if child_reaped c then c else c\<lparr>child_killed := True\<rparr>)"

definition child_waits :: "client \<Rightarrow> wait_result list" where
  "child_waits c = waits c @ (if child_killed c then [KilledBySignal] else [])"

definition reap :: "(io_kind + bool) \<Rightarrow> client \<Rightarrow> client" where
  "reap status c = c\<lparr>child_reaped := (child_reaped c \<or> \<not> isl status)\<rparr>"

definition give_up :: "client \<Rightarrow> client" where
  "give_up c =
     (let c1 = kill_child c in
      case wait_child (child_waits c1) of
        None \<Rightarrow> c1
      | Some status \<Rightarrow> (reap status c1)\<lparr>reader_thread := Closing EvFailure\<rparr>)"

definition send_terminal :: "client \<Rightarrow> bool \<Rightarrow> client" where
  "send_terminal c success =
     (case wait_child (child_waits c) of
        None \<Rightarrow> c
      | Some status \<Rightarrow>
          (let clean_exit = (status = Inr True);
               event = (if success \<and> clean_exit then EvSuccess else EvFailure)
           in (reap status c)\<lparr>reader_thread := Closing event\<rparr>))"

definition reader_step :: "client \<Rightarrow> client" where
  "reader_step c =
     (case reader_thread c of
        Reading rs \<Rightarrow>
          (case receive rs of
             None \<Rightarrow> c
           | Some (r, rs') \<Rightarrow>
               (case r of
                  Inr (MPrompt ident hidden t) \<Rightarrow>
                    c\<lparr>reader_thread := Publishing (EvPrompt ident hidden t) rs'\<rparr>
                | Inr (MInfo t) \<Rightarrow> c\<lparr>reader_thread := Publishing (EvNotice False t) rs'\<rparr>
                | Inr (MError t) \<Rightarrow> c\<lparr>reader_thread := Publishing (EvNotice True t) rs'\<rparr>
                | Inr MSuccess \<Rightarrow> send_terminal c True
                | Inr MFailure \<Rightarrow> c\<lparr>reader_thread := Publishing EvFailure rs'\<rparr>
                | _ \<Rightarrow> give_up c))
      | Publishing e rs \<Rightarrow>
          (case events c of
             None \<Rightarrow> give_up c
           | Some q \<Rightarrow>
               if length q < EVENT_CAPACITY
               then c\<lparr>events := Some (q @ [e]), reader_thread := Reading rs\<rparr> else c)
      | Closing e \<Rightarrow>
          (case events c of
             None \<Rightarrow> c\<lparr>reader_thread := ReaderDone\<rparr>
           | Some q \<Rightarrow>
               if length q < EVENT_CAPACITY
               then c\<lparr>events := Some (q @ [e]), reader_thread := ReaderDone\<rparr> else c)
      | ReaderDone \<Rightarrow> c)"

subsection \<open>Spawning the worker\<close>

text \<open>
  The descriptor table of a process maps a descriptor to what is open there and whether it is
  closed on exec; the file actions of \<open>posix_spawn\<close> run in the child, in order, before the exec.
  \<open>dup2\<close> of a descriptor onto itself clears its close-on-exec flag, as POSIX asks of spawn actions.
\<close>

datatype resource = Socket | DevNull | Private nat

type_synonym fd_table = "nat \<rightharpoonup> resource \<times> bool"

datatype file_action = AddDup2 nat nat | AddClose nat | AddOpenNull nat | AddCloseFrom nat

fun run_action :: "file_action \<Rightarrow> fd_table \<Rightarrow> fd_table" where
  "run_action (AddDup2 a b) t = t(b := map_option (\<lambda>(r, _). (r, False)) (t a))"
| "run_action (AddClose a) t = t(a := None)"
| "run_action (AddOpenNull a) t = t(a := Some (DevNull, False))"
| "run_action (AddCloseFrom n) t = (\<lambda>fd. if n \<le> fd then None else t fd)"

definition exec_table :: "fd_table \<Rightarrow> fd_table" where
  "exec_table t = (\<lambda>fd. case t fd of Some (r, False) \<Rightarrow> Some (r, False) | _ \<Rightarrow> None)"

definition spawn_actions :: "nat \<Rightarrow> file_action list" where
  "spawn_actions child_socket =
     [AddDup2 child_socket CHILD_SOCKET_FD]
     @ (if child_socket \<noteq> CHILD_SOCKET_FD then [AddClose child_socket] else [])
     @ [AddOpenNull 0, AddOpenNull 1, AddOpenNull 2, AddCloseFrom 4]"

text \<open>
  The results of the system: of initialising the actions and adding each of them (0 is success),
  of the successive \<open>posix_spawn\<close> calls, and of \<open>pidfd_open\<close>.
\<close>

definition ETXTBSY :: int where "ETXTBSY = 26"

record spawn_env =
  init_status :: int
  action_status :: "file_action \<Rightarrow> int"
  spawn_status :: "nat \<Rightarrow> int"
  pidfd_ok :: bool
  spawn_waits :: "wait_result list"

fun spawn_retry :: "(nat \<Rightarrow> int) \<Rightarrow> nat \<Rightarrow> nat \<Rightarrow> int \<times> nat" where
  "spawn_retry results 0 attempts = (results attempts, attempts)"
| "spawn_retry results (Suc left) attempts =
     (if results attempts \<noteq> ETXTBSY then (results attempts, attempts)
      else spawn_retry results left (attempts + 1))"

text \<open>Whether a child was created, and whether it was killed and reaped again.\<close>

record child_fate =
  created :: bool
  killed :: bool
  reaped :: bool

definition no_child :: child_fate where
  "no_child = \<lparr>created = False, killed = False, reaped = False\<rparr>"

definition kill_and_wait :: "wait_result list \<Rightarrow> child_fate" where
  "kill_and_wait ws = \<lparr>created = True, killed = True, reaped = (wait_child ws \<noteq> None)\<rparr>"

definition spawn_worker ::
  "u8 list \<Rightarrow> nat \<Rightarrow> spawn_env \<Rightarrow> (client_error + unit) \<times> child_fate" where
  "spawn_worker path child_socket env =
     (if 0 \<in> set path then (Inl WorkerNotFound, no_child)
      else if init_status env \<noteq> 0 then (Inl (SpawnFailed OtherIo), no_child)
      else if \<exists>a \<in> set (spawn_actions child_socket). action_status env a \<noteq> 0
        then (Inl (SpawnFailed OtherIo), no_child)
      else if fst (spawn_retry (spawn_status env) 9 0) \<noteq> 0
        then (Inl (SpawnFailed OtherIo), no_child)
      else if \<not> pidfd_ok env then (Inl (SpawnFailed OtherIo), kill_and_wait (spawn_waits env))
      else (Inr (), \<lparr>created = True, killed = False, reaped = False\<rparr>))"

subsection \<open>The client\<close>

record start_env =
  pair_ok :: bool
  child_socket_fd :: nat
  spawn :: spawn_env
  clone_ok :: bool
  start_stream :: reads
  started_at :: nat
  timeout_reset_ok :: bool
  thread_ok :: bool
  start_waits :: "wait_result list"
  start_writes :: "(nat \<times> io_kind) option list"
  start_arrived :: nat

definition expected_ready :: "identity \<Rightarrow> protocol_error + message \<Rightarrow> bool" where
  "expected_ready ident ready =
     (case ready of Inr (MReady uid username) \<Rightarrow> uid = id_uid ident \<and> username = id_username ident
      | _ \<Rightarrow> False)"

definition start_with_worker ::
  "identity \<Rightarrow> u8 list \<Rightarrow> start_env \<Rightarrow> ((client_error + client) \<times> child_fate) option" where
  "start_with_worker ident path env =
     (if \<not> pair_ok env then Some (Inl (SpawnFailed OtherIo), no_child)
      else
        (case spawn_worker path (child_socket_fd env) (spawn env) of
           (Inl e, fate) \<Rightarrow> Some (Inl e, fate)
         | (Inr _, fate) \<Rightarrow>
             if \<not> clone_ok env
             then Some (Inl (SpawnFailed OtherIo), kill_and_wait (start_waits env))
             else
               (case receive_with_deadline (started_at env + READY_TIMEOUT) (start_stream env) of
                  None \<Rightarrow> None
                | Some (ready, rs) \<Rightarrow>
                    if \<not> expected_ready ident ready then
                      Some (Inl (case ready of Inl e \<Rightarrow> ProtocolFailed e | Inr _ \<Rightarrow> UnexpectedWorker),
                        kill_and_wait (start_waits env))
                    else if \<not> timeout_reset_ok env \<or> \<not> thread_ok env then
                      Some (Inl (SpawnFailed OtherIo), kill_and_wait (start_waits env))
                    else
                      Some (Inr \<lparr>writer = \<lparr>outbound = [], write_faults = start_writes env, inbound = []\<rparr>,
                              events = Some [], joined = False, reader_thread = Reading rs,
                              waits = start_waits env, child_killed = False, child_reaped = False,
                              arrived = start_arrived env\<rparr>,
                            fate))))"

definition worker_path ::
  "u8 list option \<Rightarrow> (u8 list \<Rightarrow> u8 list option) \<Rightarrow> (u8 list \<Rightarrow> u8 list \<Rightarrow> u8 list)
    \<Rightarrow> (u8 list \<Rightarrow> bool) \<Rightarrow> client_error + u8 list" where
  "worker_path executable parent join_path is_file =
     (case executable of
        None \<Rightarrow> Inl (SpawnFailed OtherIo)
      | Some exe \<Rightarrow>
          (case parent exe of
             None \<Rightarrow> Inl WorkerNotFound
           | Some directory \<Rightarrow>
               (let development = join_path directory (utf8 (lit ''genkan-lock-auth'')) in
                if is_file development then Inr development
                else
                  (case parent directory of
                     None \<Rightarrow> Inl WorkerNotFound
                   | Some prefix_dir \<Rightarrow>
                       (let installed = join_path prefix_dir (utf8 (lit ''libexec/genkan-lock-auth''))
                        in if is_file installed then Inr installed else Inl WorkerNotFound)))))"

definition client_send :: "client \<Rightarrow> message \<Rightarrow> client \<times> (client_error + unit)" where
  "client_send c m =
     (case send (writer c) m of (r, w) \<Rightarrow> (c\<lparr>writer := w\<rparr>, map_err ProtocolFailed r))"

definition client_begin :: "client \<Rightarrow> client \<times> (client_error + unit)" where
  "client_begin c = client_send c MBegin"

definition try_receive :: "client \<Rightarrow> client \<times> auth_event option" where
  "try_receive c =
     (case events c of
        Some (e # q) \<Rightarrow> (c\<lparr>events := Some q\<rparr>, Some e)
      | _ \<Rightarrow> (c, None))"

definition respond :: "u64 \<Rightarrow> ustring \<Rightarrow> client \<Rightarrow> client \<times> (client_error + unit)" where
  "respond ident response c =
     (case Secret_new (utf8 response) of
        Inl e \<Rightarrow> (c, Inl (ProtocolFailed e))
      | Inr v \<Rightarrow> client_send c (MResponse ident v))"

definition client_retry :: "client \<Rightarrow> client \<times> (client_error + unit)" where
  "client_retry c = client_send c MRetry"

text \<open>
  Cancelling drops the queue, shuts the socket down, sends the kill signal and joins the reader
  thread. A socket that was shut down still delivers what had \<open>arrived\<close> (a number of the pending
  reads, part of the environment) and then its end; a write on it fails. Joining runs the thread
  until it is done: three steps are enough, as \<open>cancel_joins\<close> shows, and if they were not the
  client would not be \<open>joined\<close>. Killing and reaping are done by the steps themselves.
\<close>

definition end_stream :: "nat \<Rightarrow> reads \<Rightarrow> reads" where
  "end_stream n rs = take n rs @ [(0, Bytes [])]"

definition shut_down :: "client \<Rightarrow> client" where
  "shut_down c =
     c\<lparr>writer := (writer c)\<lparr>write_faults := [Some (0, OtherIo)]\<rparr>,
       reader_thread :=
         (case reader_thread c of
            Reading rs \<Rightarrow> Reading (end_stream (arrived c) rs)
          | Publishing e rs \<Rightarrow> Publishing e (end_stream (arrived c) rs)
          | th \<Rightarrow> th)\<rparr>"

definition join_reader :: "client \<Rightarrow> client" where
  "join_reader c =
     (let c1 = (reader_step ^^ 3) c in
      if reader_thread c1 = ReaderDone then c1\<lparr>joined := True\<rparr> else c1)"

definition cancel :: "client \<Rightarrow> client" where
  "cancel c =
     (if joined c then c else join_reader (kill_child (shut_down (c\<lparr>events := None\<rparr>))))"

text \<open>Everything that can happen to a client, in any order, as one machine.\<close>

datatype client_op = OpReader | OpBegin | OpTryReceive | OpRespond u64 ustring | OpRetry | OpCancel

datatype client_out = OutNone | OutEvent "auth_event option" | OutSent "client_error + unit"

fun client_step :: "(client, client_op, client_out) machine" where
  "client_step c OpReader = (reader_step c, OutNone)"
| "client_step c OpBegin = apsnd OutSent (client_begin c)"
| "client_step c OpTryReceive = apsnd OutEvent (try_receive c)"
| "client_step c (OpRespond ident response) = apsnd OutSent (respond ident response c)"
| "client_step c OpRetry = apsnd OutSent (client_retry c)"
| "client_step c OpCancel = (cancel c, OutNone)"

fun received_events :: "client_out list \<Rightarrow> auth_event list" where
  "received_events [] = []"
| "received_events (OutEvent (Some e) # os) = e # received_events os"
| "received_events (_ # os) = received_events os"

section \<open>What events mean\<close>

fun event_of :: "message \<Rightarrow> auth_event" where
  "event_of (MPrompt i h t) = EvPrompt i h t"
| "event_of (MInfo t) = EvNotice False t"
| "event_of (MError t) = EvNotice True t"
| "event_of _ = EvFailure"

fun eventful :: "message \<Rightarrow> bool" where
  "eventful (MPrompt _ _ _) = True"
| "eventful (MInfo _) = True"
| "eventful (MError _) = True"
| "eventful MFailure = True"
| "eventful _ = False"

text \<open>
  Events are justified by the bytes the worker wrote when they are the translation of the messages
  at the front of the stream, in order, possibly followed by one last event: a failure, or a
  success when the next message is \<open>Success\<close> and the worker exited with status zero.
\<close>

definition heard :: "reads \<Rightarrow> message list \<Rightarrow> u8 list \<Rightarrow> bool" where
  "heard rs ms rest \<longleftrightarrow> list_all (\<lambda>m. eventful m \<and> valid_message m) ms
     \<and> delivered rs = concat (map frame ms) @ rest"

definition justified :: "reads \<Rightarrow> wait_result list \<Rightarrow> auth_event list \<Rightarrow> bool" where
  "justified rs ws evs \<longleftrightarrow>
     (\<exists>ms rest t. heard rs ms rest \<and> evs = map event_of ms @ t
        \<and> (t = [] \<or> t = [EvFailure]
           \<or> t = [EvSuccess] \<and> (\<exists>rest'. rest = frame MSuccess @ rest')
             \<and> wait_child ws = Some (Inr True)))"

definition queued :: "client \<Rightarrow> auth_event list" where
  "queued c = (case events c of None \<Rightarrow> [] | Some q \<Rightarrow> q)"

definition thread_ok_for :: "reads \<Rightarrow> wait_result list \<Rightarrow> auth_event list \<Rightarrow> reader \<Rightarrow> bool" where
  "thread_ok_for rs0 ws evs th =
     (case th of
        Reading rs \<Rightarrow> \<exists>ms. heard rs0 ms (delivered rs) \<and> evs = map event_of ms
      | Publishing e rs \<Rightarrow> \<exists>ms m. heard rs0 (ms @ [m]) (delivered rs) \<and> evs = map event_of ms
                            \<and> e = event_of m
      | Closing e \<Rightarrow> justified rs0 ws (evs @ [e])
      | ReaderDone \<Rightarrow> True)"

definition tracks :: "reads \<Rightarrow> wait_result list \<Rightarrow> auth_event list \<Rightarrow> client \<Rightarrow> bool" where
  "tracks rs0 ws taken c \<longleftrightarrow> waits c = ws \<and> justified rs0 ws (taken @ queued c)
     \<and> length (queued c) \<le> EVENT_CAPACITY
     \<and> (events c \<noteq> None \<longrightarrow> thread_ok_for rs0 ws (taken @ queued c) (reader_thread c))"

lemma heard_prefix: "heard rs (ms @ ns) rest \<Longrightarrow> heard rs ms (concat (map frame ns) @ rest)"
  by (simp add: heard_def)

lemma justified_map: "heard rs ms rest \<Longrightarrow> justified rs ws (map event_of ms)"
  unfolding justified_def by (intro exI [of _ ms] exI [of _ rest] exI [of _ "[]"]) simp

lemma justified_prefix:
  assumes "justified rs ws (a @ b)"
  shows "justified rs ws a"
proof -
  from assms obtain ms rest t where h: "heard rs ms rest" "a @ b = map event_of ms @ t"
    and t: "t = [] \<or> t = [EvFailure] \<or> t = [EvSuccess] \<and> (\<exists>rest'. rest = frame MSuccess @ rest')
        \<and> wait_child ws = Some (Inr True)"
    unfolding justified_def by blast
  show ?thesis
  proof (cases "length a \<le> length ms")
    case True
    with h(2) have a: "a = map event_of (take (length a) ms)"
      by (metis append_eq_append_conv_if length_map take_map)
    have "heard rs (take (length a) ms @ drop (length a) ms) rest" using h(1) by simp
    from justified_map [OF heard_prefix [OF this], of ws] a show ?thesis by simp
  next
    case False
    then obtain a' where a: "a = map event_of ms @ a'" "a' @ b = t"
      using h(2) by (metis append_eq_append_conv2 length_append length_map linorder_le_cases
          append_Nil2 le_add1)
    with False t have "a' = t" by (cases a') auto
    with a(1) h(1) t show ?thesis unfolding justified_def by blast
  qed
qed

lemma heard_snoc:
  assumes "heard rs0 ms (delivered rs)" "receive rs = Some (Inr m, rs')" "eventful m"
  shows "heard rs0 (ms @ [m]) (delivered rs')"
  using assms receive_before_sound [of None rs m rs'] by (simp add: heard_def receive_def)

lemma justified_failure: "heard rs ms rest \<Longrightarrow> justified rs ws (map event_of ms @ [EvFailure])"
  unfolding justified_def by blast

lemma justified_success:
  assumes "heard rs0 ms (delivered rs)" "receive rs = Some (Inr MSuccess, rs')"
    "wait_child ws = Some (Inr True)"
  shows "justified rs0 ws (map event_of ms @ [EvSuccess])"
proof -
  have "delivered rs = frame MSuccess @ delivered rs'"
    using receive_before_sound(1) [of None rs MSuccess rs'] assms(2) by (simp add: receive_def)
  with assms(1,3) show ?thesis unfolding justified_def by blast
qed

text \<open>Every step keeps the relation between the stream and the events handed out and queued.\<close>

lemma wait_child_append:
  "wait_child (ws @ ws') = (case wait_child ws of None \<Rightarrow> wait_child ws' | Some r \<Rightarrow> Some r)"
  by (induction ws rule: wait_child.induct) simp_all

lemma wait_child_killed:
  "child_killed c \<Longrightarrow> wait_child (child_waits c) \<noteq> None"
  "wait_child (child_waits c) = Some (Inr True) \<Longrightarrow> wait_child (waits c) = Some (Inr True)"
  "wait_child (child_waits c) = Some (Inl k) \<Longrightarrow> wait_child (waits c) = Some (Inl k)"
  by (auto simp: child_waits_def wait_child_append split: option.splits if_splits)

lemma kill_child_keeps [simp]:
  "writer (kill_child c) = writer c" "events (kill_child c) = events c"
  "joined (kill_child c) = joined c" "reader_thread (kill_child c) = reader_thread c"
  "waits (kill_child c) = waits c" "child_reaped (kill_child c) = child_reaped c"
  "child_killed (kill_child c) \<longleftrightarrow> child_killed c \<or> \<not> child_reaped c"
  by (simp_all add: kill_child_def)

lemma reap_keeps [simp]:
  "writer (reap st c) = writer c" "events (reap st c) = events c" "joined (reap st c) = joined c"
  "reader_thread (reap st c) = reader_thread c" "waits (reap st c) = waits c"
  "child_reaped (reap st c) \<longleftrightarrow> child_reaped c \<or> \<not> isl st"
  by (simp_all add: reap_def)

lemma ending_keeps [simp]:
  "events (give_up c) = events c" "joined (give_up c) = joined c" "waits (give_up c) = waits c"
  "events (send_terminal c b) = events c" "joined (send_terminal c b) = joined c"
  "waits (send_terminal c b) = waits c"
  by (simp_all add: give_up_def send_terminal_def Let_def split: option.split)

lemma reader_step_keeps [simp]:
  "joined (reader_step c) = joined c" "waits (reader_step c) = waits c"
  "events c = None \<Longrightarrow> events (reader_step c) = None"
  by (simp_all add: reader_step_def split: reader.split option.split prod.split sum.split message.split)

lemma reader_steps_keep [simp]:
  "joined ((reader_step ^^ n) c) = joined c" "waits ((reader_step ^^ n) c) = waits c"
  "events c = None \<Longrightarrow> events ((reader_step ^^ n) c) = None"
  by (induction n) simp_all

lemma tracks_give_up:
  assumes "tracks rs0 ws taken c" "events c \<noteq> None \<longrightarrow> (\<exists>ms rest. heard rs0 ms rest
      \<and> taken @ queued c = map event_of ms)"
  shows "tracks rs0 ws taken (give_up c)"
  using assms justified_failure
  by (cases "wait_child (child_waits (kill_child c))")
    (auto simp: tracks_def give_up_def Let_def queued_def thread_ok_for_def
      simp flip: append_assoc split: option.splits)

lemma tracks_reading:
  assumes t: "tracks rs0 ws taken c" and th: "reader_thread c = Reading rs"
  shows "tracks rs0 ws taken (reader_step c)"
proof (cases "receive rs")
  case None
  with t th show ?thesis by (simp add: reader_step_def)
next
  case (Some a)
  obtain r rs' where r: "receive rs = Some (r, rs')" using Some by (cases a) simp
  have h: "\<exists>ms. heard rs0 ms (delivered rs) \<and> taken @ queued c = map event_of ms"
    if "events c \<noteq> None"
    using t th that by (auto simp: tracks_def thread_ok_for_def)
  have give: "tracks rs0 ws taken (give_up c)" using tracks_give_up [OF t] h by blast
  have publish: "tracks rs0 ws taken (c\<lparr>reader_thread := Publishing (event_of m) rs'\<rparr>)"
    if m: "r = Inr m" "eventful m" for m
    using t h heard_snoc [of rs0 _ rs m rs'] r m
    by (force simp: tracks_def thread_ok_for_def queued_def)
  have terminal: "tracks rs0 ws taken (send_terminal c True)" if m: "r = Inr MSuccess"
  proof (cases "wait_child (child_waits c)")
    case (Some st)
    have "wait_child ws = Some (Inr True)" if "st = Inr True"
      using t Some that wait_child_killed(2) [of c] by (simp add: tracks_def)
    then show ?thesis
      using t h Some justified_failure justified_success [of rs0 _ rs rs' ws] r m
      by (auto simp: tracks_def send_terminal_def thread_ok_for_def queued_def Let_def
          simp flip: append_assoc)
  qed (use t in \<open>simp add: send_terminal_def tracks_def\<close>)
  show ?thesis
  proof (cases r)
    case (Inl e)
    with give r th show ?thesis by (simp add: reader_step_def)
  next
    case (Inr m)
    with give terminal publish [of m] r th show ?thesis by (cases m) (simp_all add: reader_step_def)
  qed
qed

lemma tracks_publishing:
  assumes t: "tracks rs0 ws taken c" and th: "reader_thread c = Publishing e rs"
  shows "tracks rs0 ws taken (reader_step c)"
proof (cases "events c")
  case None
  with t th tracks_give_up [OF t] show ?thesis by (simp add: reader_step_def)
next
  case (Some q)
  with t th obtain ms m where h: "heard rs0 (ms @ [m]) (delivered rs)"
    and q: "taken @ q = map event_of ms" "e = event_of m"
    by (auto simp: tracks_def thread_ok_for_def queued_def)
  have "taken @ q @ [e] = map event_of (ms @ [m])" using q by simp
  with t th Some h justified_map [OF h, of ws] show ?thesis
    by (auto simp: reader_step_def tracks_def thread_ok_for_def queued_def simp del: map_append)
qed

lemma tracks_closing:
  assumes t: "tracks rs0 ws taken c" and th: "reader_thread c = Closing e"
  shows "tracks rs0 ws taken (reader_step c)"
  using t th by (auto simp: reader_step_def tracks_def thread_ok_for_def queued_def
      split: option.splits)

lemma tracks_reader: "tracks rs0 ws taken c \<Longrightarrow> tracks rs0 ws taken (reader_step c)"
  using tracks_reading tracks_publishing tracks_closing
  by (cases "reader_thread c") (simp_all add: reader_step_def)

lemma tracks_send: "tracks rs0 ws taken c \<Longrightarrow> tracks rs0 ws taken (fst (client_send c m))"
  by (auto simp: client_send_def tracks_def queued_def split: prod.splits)

lemma tracks_cancel: "tracks rs0 ws taken c \<Longrightarrow> tracks rs0 ws taken (cancel c)"
  by (auto simp: cancel_def join_reader_def shut_down_def Let_def tracks_def queued_def
      simp del: funpow.simps dest: justified_prefix split: option.splits)

lemma tracks_step:
  assumes "tracks rs0 ws taken c"
  shows "tracks rs0 ws (taken @ received_events [snd (client_step c op)]) (fst (client_step c op))"
proof (cases op)
  case OpTryReceive
  show ?thesis
  proof (cases "queued c")
    case Nil
    with assms OpTryReceive show ?thesis
      by (cases "events c") (simp_all add: try_receive_def queued_def)
  next
    case (Cons e q)
    then have "events c = Some (e # q)" by (auto simp: queued_def split: option.splits)
    with assms OpTryReceive show ?thesis by (simp add: try_receive_def tracks_def queued_def)
  qed
next
  case (OpRespond i t)
  with assms tracks_send show ?thesis by (auto simp: respond_def split: sum.splits)
qed (use assms in \<open>simp_all add: tracks_reader tracks_send tracks_cancel client_begin_def client_retry_def\<close>)

lemma received_events_append [simp]: "received_events (a @ b) = received_events a @ received_events b"
  by (induction a rule: received_events.induct) simp_all

lemma tracks_run:
  "tracks rs0 ws taken c
    \<Longrightarrow> tracks rs0 ws (taken @ received_events (snd (run client_step c ops)))
          (fst (run client_step c ops))"
proof (induction ops arbitrary: c taken)
  case Nil
  then show ?case by simp
next
  case (Cons op ops)
  from Cons.IH [OF tracks_step [OF Cons.prems, of op]] show ?case
    using received_events_append [of "[snd (client_step c op)]"
        "snd (run client_step (fst (client_step c op)) ops)"] by simp
qed

lemma tracks_start:
  assumes "start_with_worker ident path env = Some (Inr c, fate)"
  obtains rs where "receive_with_deadline (started_at env + READY_TIMEOUT) (start_stream env)
      = Some (Inr (MReady (id_uid ident) (id_username ident)), rs)"
    "reader_thread c = Reading rs" "tracks rs (start_waits env) [] c"
    "writer c = \<lparr>outbound = [], write_faults = start_writes env, inbound = []\<rparr>"
proof -
  from assms obtain ready rs where r: "receive_with_deadline (started_at env + READY_TIMEOUT)
      (start_stream env) = Some (ready, rs)" and e: "expected_ready ident ready"
    and c: "c = \<lparr>writer = \<lparr>outbound = [], write_faults = start_writes env, inbound = []\<rparr>,
              events = Some [], joined = False, reader_thread = Reading rs,
              waits = start_waits env, child_killed = False, child_reaped = False,
              arrived = start_arrived env\<rparr>"
    by (auto simp: start_with_worker_def split: if_splits prod.splits sum.splits option.splits)
  from e have "ready = Inr (MReady (id_uid ident) (id_username ident))"
    by (auto simp: expected_ready_def split: sum.splits message.splits)
  moreover have "heard rs [] (delivered rs)" by (simp add: heard_def)
  ultimately show thesis
    using that [of rs] r c justified_map [of rs "[]"]
    by (auto simp: tracks_def thread_ok_for_def queued_def)
qed

text \<open>Frames can be split in only one way.\<close>

lemma frame_split:
  assumes "valid_message m" "valid_message m'" "frame m @ x = frame m' @ y"
  shows "m = m' \<and> x = y"
proof -
  have f: "frame m @ x \<noteq> []" using assms(1) by (auto elim!: frame_valid simp: frame_header_def)
  let ?rs = "[(0, Bytes (frame m @ x))] :: reads"
  have l: "live ?rs" "delivered ?rs = frame m @ x" "delivered ?rs = frame m' @ y"
    using f assms(3) by (simp_all add: live_def)
  from receive_live [OF assms(1) l(1,2)] receive_live [OF assms(2) l(1,3)] show ?thesis by auto
qed

lemma frames_split:
  "list_all valid_message ms \<Longrightarrow> list_all valid_message ns \<Longrightarrow> valid_message m
    \<Longrightarrow> concat (map frame ms) @ frame m @ x = concat (map frame ns)
    \<Longrightarrow> m \<in> set ns"
proof (induction ms arbitrary: ns)
  case Nil
  then obtain n ns' where "ns = n # ns'"
    by (cases ns) (auto elim!: frame_valid simp: frame_header_def)
  with Nil frame_split [of m n x "concat (map frame ns')"] show ?case by auto
next
  case (Cons k ms)
  then obtain n ns' where ns: "ns = n # ns'"
    by (cases ns) (auto elim!: frame_valid simp: frame_header_def)
  with Cons.prems frame_split [of k n "concat (map frame ms) @ frame m @ x" "concat (map frame ns')"]
  have "concat (map frame ms) @ frame m @ x = concat (map frame ns')" by auto
  with Cons ns show ?case by auto
qed

text \<open>The descriptors of the child, after the spawn actions and the exec.\<close>

definition child_table :: "nat \<Rightarrow> fd_table \<Rightarrow> fd_table" where
  "child_table child_socket t = exec_table (fold run_action (spawn_actions child_socket) t)"

section \<open>Cancelling ends the thread and the process\<close>

text \<open>
  As long as the thread still reads or publishes it has not waited for the child, and when it is
  closing or done it has: the child is reaped, unless the \<open>waitpid\<close> call itself failed.
\<close>

definition wait_failed :: "client \<Rightarrow> bool" where
  "wait_failed c \<longleftrightarrow> (\<exists>k. wait_child (waits c) = Some (Inl k))"

definition client_ok :: "client \<Rightarrow> bool" where
  "client_ok c \<longleftrightarrow> \<not> joined c \<and>
     (case reader_thread c of
        Reading _ \<Rightarrow> \<not> child_reaped c
      | Publishing _ _ \<Rightarrow> \<not> child_reaped c
      | _ \<Rightarrow> child_reaped c \<or> wait_failed c)"

lemma give_up_ends:
  assumes "\<not> child_reaped c"
  shows "reader_thread (give_up c) = Closing EvFailure" "child_reaped (give_up c) \<or> wait_failed (give_up c)"
proof -
  obtain st where st: "wait_child (child_waits (kill_child c)) = Some st"
    using wait_child_killed(1) [of "kill_child c"] assms by auto
  then show "reader_thread (give_up c) = Closing EvFailure" by (simp add: give_up_def)
  show "child_reaped (give_up c) \<or> wait_failed (give_up c)"
    using st wait_child_killed(3) [of "kill_child c"]
    by (cases st) (auto simp: give_up_def wait_failed_def)
qed

lemma terminal_ends:
  "reader_thread (send_terminal c b) = reader_thread c
    \<and> child_reaped (send_terminal c b) = child_reaped c \<and> wait_child (child_waits c) = None
   \<or> (\<exists>e. reader_thread (send_terminal c b) = Closing e)
    \<and> (child_reaped (send_terminal c b) \<or> wait_failed (send_terminal c b))"
proof (cases "wait_child (child_waits c)")
  case (Some st)
  then show ?thesis using wait_child_killed(3) [of c]
    by (cases st) (auto simp: send_terminal_def wait_failed_def Let_def)
qed (simp add: send_terminal_def)

lemma client_ok_reader: "client_ok c \<Longrightarrow> client_ok (reader_step c)"
proof -
  assume ok: "client_ok c"
  have give: "client_ok (give_up c)" if "\<not> child_reaped c"
    using give_up_ends [OF that] ok by (simp add: client_ok_def)
  show ?thesis
  proof (cases "reader_thread c")
    case (Reading rs)
    with ok have n: "\<not> child_reaped c" by (simp add: client_ok_def)
    have "client_ok (send_terminal c b)" for b
      using terminal_ends [of c b] ok Reading by (auto simp: client_ok_def)
    with give [OF n] n ok Reading show ?thesis
      by (auto simp: reader_step_def client_ok_def split: option.split sum.split message.split)
  next
    case (Publishing e rs)
    with ok have n: "\<not> child_reaped c" by (simp add: client_ok_def)
    with give [OF n] ok Publishing show ?thesis
      by (auto simp: reader_step_def client_ok_def split: option.split)
  qed (use ok in \<open>auto simp: reader_step_def client_ok_def wait_failed_def split: option.split\<close>)
qed

text \<open>Nothing blocks the thread of a client that is being cancelled.\<close>

lemma read_exact_ended:
  "\<exists>r rs'. read_exact_or_closed n None acc (rs @ [(0, Bytes [])]) = Some (r, rs' @ [(0, Bytes [])])"
proof (induction n "None :: nat option" acc rs rule: read_exact_or_closed.induct)
  case (3 n acc now r rs)
  show ?case
  proof (cases r)
    case (Bytes bs)
    show ?thesis
    proof (cases bs)
      case Nil
      then show ?thesis using Bytes
        by (auto simp: deadline_elapsed_def intro!: exI [of _ "(now, Bytes []) # rs"])
    next
      case (Cons b bs')
      show ?thesis
      proof (cases "length bs' \<le> n")
        case True
        with "3.hyps"(1) [OF _ Bytes Cons True] Cons Bytes show ?thesis
          by (simp add: deadline_elapsed_def)
      next
        case False
        with Cons Bytes show ?thesis
          by (auto simp: deadline_elapsed_def intro!: exI [of _ "(now, Bytes (drop n bs')) # rs"])
      qed
    qed
  next
    case (ReadFail k)
    with "3.hyps"(2) [OF _ ReadFail] show ?thesis
      by (cases k) (auto simp: deadline_elapsed_def)
  qed
qed (auto simp: deadline_elapsed_def intro!: exI [of _ "[]"])

lemma receive_ended: "\<exists>r rs'. receive (rs @ [(0, Bytes [])]) = Some (r, rs')"
proof -
  obtain r rs1 where h: "read_exact_or_closed HEADER_BYTES None [] (rs @ [(0, Bytes [])])
      = Some (r, rs1 @ [(0, Bytes [])])" using read_exact_ended by blast
  show ?thesis
  proof (cases r)
    case (Inr header)
    obtain p rs2 where "read_exact_or_closed (from_be (drop 6 header)) None [] (rs1 @ [(0, Bytes [])])
        = Some (p, rs2 @ [(0, Bytes [])])" using read_exact_ended by blast
    with h Inr show ?thesis
      by (cases p) (auto simp: receive_def receive_before_def Let_def)
  qed (use h in \<open>simp add: receive_def receive_before_def\<close>)
qed

lemma closing_done: "events c = None \<Longrightarrow> reader_thread c = Closing e
    \<Longrightarrow> reader_thread (reader_step c) = ReaderDone"
  by (simp add: reader_step_def)

text \<open>With the queue gone and the child killed, every step gets the thread nearer to its end.\<close>

lemma give_up_keeps_killed: "child_killed c \<Longrightarrow> child_killed (give_up c)"
  by (simp add: give_up_def Let_def reap_def split: option.split)

lemma publishing_cancelled:
  assumes "events c = None" "\<not> child_reaped c" "reader_thread c = Publishing e rs"
  shows "\<exists>e'. reader_thread (reader_step c) = Closing e'"
  using give_up_ends(1) [OF assms(2)] assms by (simp add: reader_step_def)

lemma reading_cancelled:
  assumes "events c = None" "child_killed c" "\<not> child_reaped c" "reader_thread c = Reading (end_stream n rs)"
  shows "(\<exists>e. reader_thread (reader_step c) = Closing e)
    \<or> (\<exists>e rs'. reader_thread (reader_step c) = Publishing e rs' \<and> \<not> child_reaped (reader_step c))"
proof -
  obtain r rs' where r: "receive (end_stream n rs) = Some (r, rs')"
    using receive_ended unfolding end_stream_def by blast
  have "\<exists>e. reader_thread (send_terminal c True) = Closing e"
    using terminal_ends [of c True] wait_child_killed(1) [OF assms(2)] by blast
  with give_up_ends(1) [OF assms(3)] r assms(3,4) show ?thesis
    by (auto simp: reader_step_def split: sum.split message.split)
qed

lemma done_stays [simp]: "reader_thread c = ReaderDone \<Longrightarrow> reader_step c = c"
  by (simp add: reader_step_def)

lemma cancel_joins:
  assumes "client_ok c"
  shows "joined (cancel c)" "reader_thread (cancel c) = ReaderDone"
    "child_reaped (cancel c) \<or> wait_failed (cancel c)" "events (cancel c) = None"
proof -
  define c0 where "c0 = kill_child (shut_down (c\<lparr>events := None\<rparr>))"
  let ?s = reader_step
  have j: "\<not> joined c" using assms by (simp add: client_ok_def)
  have ok: "client_ok c0" using assms
    by (auto simp: c0_def shut_down_def client_ok_def wait_failed_def split: reader.split)
  have ev: "events c0 = None" by (simp add: c0_def shut_down_def)
  then have ev1: "events (?s c0) = None" "events (?s (?s c0)) = None" by simp_all
  have closed: "reader_thread (?s (?s (?s c0))) = ReaderDone" if "reader_thread (?s c0) = Closing e" for e
    using closing_done [OF ev1(1) that] by simp
  have "reader_thread (?s (?s (?s c0))) = ReaderDone"
  proof (cases "reader_thread c0")
    case (Reading rs)
    then have n: "\<not> child_reaped c0" using ok by (simp add: client_ok_def)
    then have k: "child_killed c0" by (simp add: c0_def)
    from Reading obtain n rs0 where "reader_thread c0 = Reading (end_stream n rs0)"
      by (auto simp: c0_def shut_down_def split: reader.splits)
    from reading_cancelled [OF ev k n this] closed closing_done [OF ev1(2)]
      publishing_cancelled [OF ev1(1)] show ?thesis by blast
  next
    case (Publishing e rs)
    then have n: "\<not> child_reaped c0" using ok by (simp add: client_ok_def)
    from publishing_cancelled [OF ev n Publishing] closed show ?thesis by blast
  next
    case (Closing e)
    then show ?thesis using closing_done [OF ev Closing] by simp
  qed simp
  then have dn: "reader_thread ((?s ^^ 3) c0) = ReaderDone" by (simp add: eval_nat_numeral)
  have c: "cancel c = ((?s ^^ 3) c0)\<lparr>joined := True\<rparr>"
    using dn j by (simp add: cancel_def join_reader_def c0_def [symmetric] del: funpow.simps)
  have "client_ok ((?s ^^ 3) c0)" using ok client_ok_reader by (simp add: eval_nat_numeral)
  with dn show "joined (cancel c)" "reader_thread (cancel c) = ReaderDone"
    "child_reaped (cancel c) \<or> wait_failed (cancel c)" "events (cancel c) = None"
    using ev unfolding c by (simp_all add: client_ok_def wait_failed_def del: funpow.simps)
qed

section \<open>A concrete session\<close>

definition demo_identity :: identity where
  "demo_identity = \<lparr>id_uid = 1000, id_username = [97], id_display_name = [65]\<rparr>"

definition demo_ready :: "u8 list" where
  "demo_ready = [71, 78, 75, 65, 2, 1, 0, 0, 0, 5, 0, 0, 3, 232, 97]"

definition demo_start_env :: "reads \<Rightarrow> start_env" where
  "demo_start_env rs = \<lparr>pair_ok = True, child_socket_fd = 5,
     spawn = \<lparr>init_status = 0, action_status = (\<lambda>_. 0), spawn_status = (\<lambda>_. 0), pidfd_ok = True,
       spawn_waits = []\<rparr>,
     clone_ok = True, start_stream = rs, started_at = 10, timeout_reset_ok = True, thread_ok = True,
     start_waits = [ExitStatus 0], start_writes = [], start_arrived = 0\<rparr>"

definition demo_stream :: reads where
  "demo_stream = [(20, Bytes demo_ready), (30, Bytes [71, 78, 75, 65, 2, 5, 0, 0, 0, 0])]"

definition demo_client :: client where
  "demo_client = \<lparr>writer = \<lparr>outbound = [], write_faults = [], inbound = []\<rparr>, events = Some [],
     joined = False, reader_thread = Reading (tl demo_stream), waits = [ExitStatus 0],
     child_killed = False, child_reaped = False, arrived = 0\<rparr>"

lemma demo_spawn:
  "spawn_worker [47] 5 (spawn (demo_start_env rs)) = (Inr (), \<lparr>created = True, killed = False, reaped = False\<rparr>)"
proof -
  have "spawn_retry (\<lambda>_. 0) 9 0 = (0, 0)" by (simp add: numeral_eq_Suc ETXTBSY_def)
  then show ?thesis by (simp add: spawn_worker_def demo_start_env_def)
qed

lemma demo_client_started:
  "start_with_worker demo_identity [47] (demo_start_env demo_stream)
    = Some (Inr demo_client, \<lparr>created = True, killed = False, reaped = False\<rparr>)"
proof -
  have "receive_with_deadline 2010 demo_stream = Some (Inr (MReady 1000 [97]), tl demo_stream)"
    by (simp add: demo_stream_def demo_ready_def receive_with_deadline_def receive_before_def
        decode_def protocol_eval decode_text_def from_utf8.simps(2))
  then show ?thesis
    using demo_spawn [of demo_stream]
    by (simp add: start_with_worker_def demo_start_env_def READY_TIMEOUT_def expected_ready_def
        demo_identity_def demo_client_def)
qed

lemma demo_events:
  "received_events (snd (run client_step demo_client [OpReader, OpReader, OpTryReceive])) = [EvSuccess]"
proof -
  have "receive (tl demo_stream) = Some (Inr MSuccess, [])"
    by (simp add: demo_stream_def receive_def receive_before_def decode_def protocol_eval)
  then show ?thesis
    by (simp add: demo_client_def reader_step_def send_terminal_def child_waits_def reap_def
        try_receive_def EVENT_CAPACITY_def)
qed

section \<open>Properties\<close>

text \<open>
  C9. The events the locker acts on are exactly what the worker said: from a client that was
  started, through any interleaving of the reader thread with the locker's calls, the events handed
  out are a prefix of the translated messages of the worker, in order, possibly with one final
  event; that final event is \<open>Success\<close> only if the worker's next message was \<open>Success\<close> and the
  worker process then exited with status zero. The queue never holds more than 128 events.
\<close>

theorem events_faithful:
  assumes "start_with_worker ident path env = Some (Inr c, fate)"
  shows "\<exists>rest. delivered (start_stream env)
      = frame (MReady (id_uid ident) (id_username ident)) @ delivered rest
    \<and> justified rest (start_waits env) (received_events (snd (run client_step c ops)))
    \<and> length (queued (fst (run client_step c ops))) \<le> EVENT_CAPACITY"
  using assms
proof (rule tracks_start)
  fix rs
  assume r: "receive_with_deadline (started_at env + READY_TIMEOUT) (start_stream env)
      = Some (Inr (MReady (id_uid ident) (id_username ident)), rs)"
    and t: "tracks rs (start_waits env) [] c"
  have "delivered (start_stream env)
      = frame (MReady (id_uid ident) (id_username ident)) @ delivered rs"
    using receive_before_sound(1) r by (simp add: receive_with_deadline_def)
  with tracks_run [OF t, of ops] show ?thesis
    by (auto simp: tracks_def dest: justified_prefix)
qed

theorem events_faithful_witness:
  "\<exists>rest. justified rest [ExitStatus 0] [EvSuccess]"
  using events_faithful [OF demo_client_started, of "[OpReader, OpReader, OpTryReceive]"] demo_events
  by (auto simp: demo_start_env_def)

text \<open>
  C21. No worker is left behind: when the client cannot be started, either no child was created,
  or it was killed and reaped (unless waiting for it never returns); and it is started only with a worker that announced the uid and
  the name of the identity within two seconds.
\<close>

theorem failed_start_reaps:
  assumes "start_with_worker ident path env = Some (r, fate)"
  shows "(\<forall>e. r = Inl e \<longrightarrow> \<not> created fate \<or> killed fate
        \<and> (reaped fate \<or> wait_child (start_waits env) = None
           \<or> wait_child (spawn_waits (spawn env)) = None))
    \<and> (\<forall>c. r = Inr c \<longrightarrow> (\<exists>rs. created fate \<and> \<not> killed fate
        \<and> receive_with_deadline (started_at env + READY_TIMEOUT) (start_stream env)
            = Some (Inr (MReady (id_uid ident) (id_username ident)), rs)))"
proof (intro conjI allI impI)
  show "\<not> created fate \<or> killed fate
        \<and> (reaped fate \<or> wait_child (start_waits env) = None
           \<or> wait_child (spawn_waits (spawn env)) = None)" if "r = Inl e" for e
    using assms that
    by (auto simp: start_with_worker_def spawn_worker_def no_child_def kill_and_wait_def
        split: if_splits prod.splits sum.splits option.splits)
  show "\<exists>rs. created fate \<and> \<not> killed fate
        \<and> receive_with_deadline (started_at env + READY_TIMEOUT) (start_stream env)
            = Some (Inr (MReady (id_uid ident) (id_username ident)), rs)" if "r = Inr c" for c
  proof -
    have "created fate \<and> \<not> killed fate"
      using assms that
      by (auto simp: start_with_worker_def spawn_worker_def
          split: if_splits prod.splits sum.splits option.splits)
    with tracks_start [OF assms [unfolded that]] show ?thesis by metis
  qed
qed

theorem failed_start_reaps_witness:
  "\<exists>rs. receive_with_deadline (10 + READY_TIMEOUT) demo_stream = Some (Inr (MReady 1000 [97]), rs)"
  using failed_start_reaps [OF demo_client_started] by (auto simp: demo_start_env_def demo_identity_def)

text \<open>
  C20. The worker sees no descriptor of the locker but its socket: whatever the locker has open and
  whichever descriptor the child's end of the socket has, even 0, 1, 2 or 3, after the spawn
  actions and the exec the child has the null device on 0, 1 and 2, the socket on 3, and nothing
  else.
\<close>

theorem child_descriptors_exact:
  assumes "t child_socket = Some (Socket, cloexec)"
  shows "child_table child_socket t = [0 \<mapsto> (DevNull, False), 1 \<mapsto> (DevNull, False),
    2 \<mapsto> (DevNull, False), 3 \<mapsto> (Socket, False)]"
proof
  fix fd :: nat
  consider "fd = 0" | "fd = 1" | "fd = 2" | "fd = 3" | "4 \<le> fd" by linarith
  then show "child_table child_socket t fd = [0 \<mapsto> (DevNull, False), 1 \<mapsto> (DevNull, False),
    2 \<mapsto> (DevNull, False), 3 \<mapsto> (Socket, False)] fd"
    using assms
    by cases (auto simp: child_table_def spawn_actions_def exec_table_def CHILD_SOCKET_FD_def)
qed

theorem child_descriptors_exact_witness:
  "child_table 1 [1 \<mapsto> (Socket, True), 2 \<mapsto> (Private 7, False), 9 \<mapsto> (Private 8, False)] 9 = None"
  using child_descriptors_exact [of "[1 \<mapsto> (Socket, True), 2 \<mapsto> (Private 7, False),
      9 \<mapsto> (Private 8, False)]" 1 True] by simp

end
