(* ===== verification/Locker_Presentation.thy ===== *)
theory Locker_Presentation
  imports Conversation Locker_Client Lock_Runtime
begin

text \<open>
  The locker's presentation (\<open>LockerPresentation\<close> in \<open>src/locker/mod.rs\<close>): it feeds the events of
  the authentication worker to the conversation, sends the user's responses, replaces the worker on
  retry and cancellation, keeps the frame that is shown, and grants the authorization to unlock.
  It implements the \<open>Presentation\<close> interface of the session-lock runtime.

  The environment is part of the state, as scripts that the operations consume: how far the reader
  thread gets before each poll, what starting the next worker meets, and what the wallpaper
  delivers. Drawing the text of the overlay is a parameter \<open>draw\<close>, a function of what is shown and
  the byte offset; the pixel buffer has a fixed size, as in the code. A failed \<open>expect\<close> sets
  \<open>lk_panicked\<close>. Two fields only record what happened: \<open>lk_started\<close> counts the clients that were
  started, and \<open>lk_retired\<close> holds those the locker cancelled and dropped, as they were left.
\<close>

section \<open>Model\<close>

definition MAX_AUTH_EVENTS_PER_REFRESH :: nat where "MAX_AUTH_EVENTS_PER_REFRESH = 32"
definition LOCK_CANVAS_WIDTH :: nat where "LOCK_CANVAS_WIDTH = 1280"
definition LOCK_CANVAS_HEIGHT :: nat where "LOCK_CANVAS_HEIGHT = 800"
definition AUTHENTICATION_OVERLAY_WIDTH :: nat where "AUTHENTICATION_OVERLAY_WIDTH = 500"
definition AUTHENTICATION_OVERLAY_HEIGHT :: nat where "AUTHENTICATION_OVERLAY_HEIGHT = 400"
definition AUTHENTICATION_RENDER_SCALE :: nat where "AUTHENTICATION_RENDER_SCALE = 3"

definition authentication_overlay_dimensions :: "nat \<times> nat" where
  "authentication_overlay_dimensions =
     (AUTHENTICATION_OVERLAY_WIDTH * AUTHENTICATION_RENDER_SCALE,
      AUTHENTICATION_OVERLAY_HEIGHT * AUTHENTICATION_RENDER_SCALE)"

definition authentication_canvas_dimensions :: "nat \<times> nat" where
  "authentication_canvas_dimensions =
     (LOCK_CANVAS_WIDTH * AUTHENTICATION_RENDER_SCALE,
      LOCK_CANVAS_HEIGHT * AUTHENTICATION_RENDER_SCALE)"

lemmas overlay_constants = LOCK_CANVAS_WIDTH_def LOCK_CANVAS_HEIGHT_def
  AUTHENTICATION_OVERLAY_WIDTH_def AUTHENTICATION_OVERLAY_HEIGHT_def AUTHENTICATION_RENDER_SCALE_def
  authentication_overlay_dimensions_def authentication_canvas_dimensions_def

text \<open>ASCII case-insensitive comparison, and whether a prompt needs more than the field label.\<close>

definition eq_ignore_ascii_case :: "ustring \<Rightarrow> ustring \<Rightarrow> bool" where
  "eq_ignore_ascii_case a b \<longleftrightarrow> map to_ascii_lowercase a = map to_ascii_lowercase b"

definition persistent_prompt :: "ustring \<Rightarrow> ustring option" where
  "persistent_prompt p = (if eq_ignore_ascii_case p (lit ''password'') then None else Some p)"

record overlay_view =
  view_identity :: identity
  view_conversation :: conversation
  view_confirmed :: bool
  view_page :: u64

datatype wallpaper_refresh = WpUnchanged | WpFrame | WpFailed

record locker =
  lk_identity :: identity
  lk_conversation :: conversation
  lk_auth :: "(attempt \<times> client) option"
  lk_prompt_id :: "u64 option"
  lk_confirmed :: bool
  lk_authorized :: bool
  lk_background :: "rgba_frame option"
  lk_overlay :: "rgba_frame option"
  lk_frame :: "presentation_frame option"
  instruction_page :: u64
  lk_panicked :: bool
  lk_wallpaper :: "rgba_frame option"
  wallpapers :: "(wallpaper_refresh \<times> rgba_frame option) list"
  schedule :: "nat list"
  workers :: "(u8 list \<times> start_env) list"
  draw :: "overlay_view \<Rightarrow> nat \<Rightarrow> u8"
  lk_retired :: "client list"
  lk_started :: nat

subsection \<open>Frames\<close>

definition rebuild_frame :: "locker \<Rightarrow> locker" where
  "rebuild_frame l =
     (case lk_overlay l of
        None \<Rightarrow> l\<lparr>lk_frame := None\<rparr>
      | Some ov \<Rightarrow>
          (let (cw, ch) = authentication_canvas_dimensions in
           l\<lparr>lk_frame := PresentationFrame_new cw ch (lk_background l) ov
                           ((cw - fwidth ov) div 2) ((ch - fheight ov) div 2)\<rparr>))"

definition overlay_bytes :: nat where
  "overlay_bytes = fst authentication_overlay_dimensions * snd authentication_overlay_dimensions * 4"

definition rebuild_overlay :: "locker \<Rightarrow> locker" where
  "rebuild_overlay l =
     (let (w, h) = authentication_overlay_dimensions;
          view = \<lparr>view_identity = lk_identity l, view_conversation = lk_conversation l,
                  view_confirmed = lk_confirmed l, view_page = instruction_page l\<rparr>;
          pixels = map (draw l view) [0..<overlay_bytes] in
      case RgbaFrame_new w h pixels of
        None \<Rightarrow> l\<lparr>lk_panicked := True\<rparr>
      | Some ov \<Rightarrow> rebuild_frame (l\<lparr>lk_overlay := Some ov\<rparr>))"

definition rebuild :: "locker \<Rightarrow> locker" where
  "rebuild l = rebuild_overlay (l\<lparr>lk_background := lk_wallpaper l\<rparr>)"

subsection \<open>The worker\<close>

definition WORKER_UNAVAILABLE :: ustring where
  "WORKER_UNAVAILABLE = lit ''Authentication worker unavailable''"

definition fail_authentication :: "locker \<Rightarrow> locker" where
  "fail_authentication l =
     l\<lparr>lk_conversation := conv_fail WORKER_UNAVAILABLE (lk_conversation l)\<rparr>"

text \<open>
  \<open>Client::start\<close> on the next script. Its receive has a deadline, so a silent worker is the error
  of a timed-out read.
\<close>

definition start_client :: "locker \<Rightarrow> locker \<times> (client_error + client)" where
  "start_client l =
     (case workers l of
        [] \<Rightarrow> (l, Inl WorkerNotFound)
      | (path, env) # ws \<Rightarrow>
          (let l1 = l\<lparr>workers := ws\<rparr> in
           case start_with_worker (lk_identity l) path env of
             None \<Rightarrow> (l1, Inl (ProtocolFailed (Io TimedOut)))
           | Some (Inl e, _) \<Rightarrow> (l1, Inl e)
           | Some (Inr c, _) \<Rightarrow> (l1\<lparr>lk_started := lk_started l1 + 1\<rparr>, Inr c)))"

text \<open>
  A client that is taken out of the locker is cancelled, by the call in the code; when it is dropped
  after that, its destructor finds nothing left to do.
\<close>

definition drop_client :: "client \<Rightarrow> locker \<Rightarrow> locker" where
  "drop_client c l = l\<lparr>lk_retired := lk_retired l @ [cancel c]\<rparr>"

definition replace_worker :: "attempt \<Rightarrow> locker \<Rightarrow> locker" where
  "replace_worker a l =
     (let l0 = (case lk_auth l of None \<Rightarrow> l | Some (_, c) \<Rightarrow> drop_client c (l\<lparr>lk_auth := None\<rparr>)) in
      case start_client l0 of
        (l1, Inl _) \<Rightarrow> fail_authentication l1
      | (l1, Inr replacement) \<Rightarrow>
          (case client_begin replacement of
             (c, Inr _) \<Rightarrow> l1\<lparr>lk_auth := Some (a, c)\<rparr>
           | (c, Inl _) \<Rightarrow> fail_authentication (drop_client c l1)))"

definition lk_retry :: "locker \<Rightarrow> locker" where
  "lk_retry l =
     (let l1 = l\<lparr>instruction_page := 0\<rparr>;
          (conv, nxt) = begin_attempt (lk_conversation l1);
          l2 = l1\<lparr>lk_conversation := conv\<rparr> in
      case lk_auth l2 of
        Some (a, c) \<Rightarrow>
          (case client_retry c of
             (c', Inr _) \<Rightarrow> l2\<lparr>lk_auth := Some (nxt, c'), lk_prompt_id := None\<rparr>
           | (c', Inl _) \<Rightarrow>
               (replace_worker nxt (l2\<lparr>lk_auth := Some (a, c')\<rparr>))\<lparr>lk_prompt_id := None\<rparr>)
      | None \<Rightarrow> (replace_worker nxt l2)\<lparr>lk_prompt_id := None\<rparr>)"

definition cancel_attempt :: "locker \<Rightarrow> locker \<times> bool" where
  "cancel_attempt l =
     (case lk_auth l of
        None \<Rightarrow> (l, False)
      | Some (_, c) \<Rightarrow>
          (let (conv, nxt) = begin_attempt (lk_conversation l);
               l1 = drop_client c (l\<lparr>lk_auth := None, lk_conversation := conv, instruction_page := 0\<rparr>) in
           ((replace_worker nxt l1)\<lparr>lk_prompt_id := None\<rparr>, True)))"

subsection \<open>Events of the worker\<close>

definition poll_client :: "locker \<Rightarrow> locker \<times> auth_event option" where
  "poll_client l =
     (case lk_auth l of
        None \<Rightarrow> (l, None)
      | Some (a, c) \<Rightarrow>
          (let n = (case schedule l of [] \<Rightarrow> 0 | n # _ \<Rightarrow> n);
               (c', e) = try_receive ((reader_step ^^ n) c) in
           (l\<lparr>lk_auth := Some (a, c'), schedule := tl (schedule l)\<rparr>, e)))"

definition AUTHENTICATION_FAILED :: ustring where
  "AUTHENTICATION_FAILED = lit ''Authentication failed''"

definition handle_event :: "attempt \<Rightarrow> auth_event \<Rightarrow> locker \<Rightarrow> locker" where
  "handle_event a e l =
     (if \<not> accepts (lk_conversation l) a then l
      else
        (case e of
           EvPrompt ident hidden t \<Rightarrow>
             l\<lparr>lk_prompt_id := Some ident,
               lk_conversation := fst (conv_receive a (RPrompt hidden t) (lk_conversation l))\<rparr>
         | EvNotice is_error t \<Rightarrow>
             l\<lparr>lk_conversation := fst (conv_receive a (RNotice is_error t) (lk_conversation l))\<rparr>
         | EvSuccess \<Rightarrow>
             (case conv_receive a RSuccess (lk_conversation l) of
                (conv, effect) \<Rightarrow>
                  l\<lparr>lk_prompt_id := None, lk_conversation := conv,
                    lk_authorized := (effect = Some EAuthenticated \<or> lk_authorized l)\<rparr>)
         | EvFailure \<Rightarrow>
             l\<lparr>lk_prompt_id := None,
               lk_conversation :=
                 fst (conv_receive a (RFailure AUTHENTICATION_FAILED) (lk_conversation l))\<rparr>))"

fun receive_loop :: "nat \<Rightarrow> bool \<Rightarrow> locker \<Rightarrow> locker \<times> bool" where
  "receive_loop 0 changed l = (l, changed)"
| "receive_loop (Suc n) changed l =
     (case poll_client l of
        (l1, None) \<Rightarrow> (l1, changed)
      | (l1, Some e) \<Rightarrow>
          (case lk_auth l1 of
             None \<Rightarrow> (l1\<lparr>lk_panicked := True\<rparr>, True)
           | Some (a, _) \<Rightarrow> receive_loop n True (handle_event a e l1)))"

definition receive_auth :: "locker \<Rightarrow> locker \<times> bool" where
  "receive_auth l =
     (if \<not> lk_confirmed l then (l, False)
      else
        (case receive_loop MAX_AUTH_EVENTS_PER_REFRESH False l of
           (l1, changed) \<Rightarrow> (if changed then l1\<lparr>instruction_page := 0\<rparr> else l1, changed)))"

subsection \<open>The presentation interface\<close>

definition receive_latest :: "locker \<Rightarrow> locker \<times> refresh" where
  "receive_latest l =
     (case receive_auth l of
        (l1, True) \<Rightarrow> (rebuild_overlay l1, ROverlay)
      | (l1, False) \<Rightarrow> (l1, RUnchanged))"

definition receive_deferred :: "locker \<Rightarrow> locker \<times> refresh" where
  "receive_deferred l =
     (case wallpapers l of
        [] \<Rightarrow> (l, RUnchanged)
      | (w, fr) # ws \<Rightarrow>
          (let l1 = l\<lparr>wallpapers := ws, lk_wallpaper := fr\<rparr>;
               l2 = (if w \<noteq> WpUnchanged then rebuild_frame (l1\<lparr>lk_background := fr\<rparr>) else l1) in
           (l2, case w of WpFailed \<Rightarrow> RFailed | WpFrame \<Rightarrow> RFrame | WpUnchanged \<Rightarrow> RUnchanged)))"

definition lock_confirmed :: "locker \<Rightarrow> locker" where
  "lock_confirmed l =
     (let l1 = l\<lparr>lk_confirmed := True\<rparr>;
          l2 = (case lk_auth l1 of
                  None \<Rightarrow> fail_authentication l1
                | Some (a, c) \<Rightarrow>
                    (case client_begin c of
                       (c', Inr _) \<Rightarrow> l1\<lparr>lk_auth := Some (a, c')\<rparr>
                     | (c', Inl _) \<Rightarrow> fail_authentication (l1\<lparr>lk_auth := Some (a, c')\<rparr>)))
      in rebuild_overlay l2)"

definition submit_response :: "locker \<Rightarrow> locker \<times> bool" where
  "submit_response l =
     (case lk_prompt_id l of
        None \<Rightarrow> (l, False)
      | Some ident \<Rightarrow>
          (let l1 = l\<lparr>lk_prompt_id := None\<rparr> in
           case submit (lk_conversation l1) of
             (conv, None) \<Rightarrow> (l1\<lparr>lk_conversation := conv\<rparr>, False)
           | (conv, Some (att, response)) \<Rightarrow>
               (let l2 = l1\<lparr>lk_conversation := conv\<rparr> in
                case lk_auth l2 of
                  None \<Rightarrow> (l2, False)
                | Some (active, c) \<Rightarrow>
                    if active \<noteq> att then (fail_authentication l2, True)
                    else
                      (case respond ident response c of
                         (c', Inr _) \<Rightarrow> (l2\<lparr>lk_auth := Some (active, c')\<rparr>, True)
                       | (c', Inl _) \<Rightarrow>
                           (fail_authentication (l2\<lparr>lk_auth := Some (active, c')\<rparr>), True)))))"

definition handle_input :: "locker \<Rightarrow> key_input \<Rightarrow> locker \<times> bool" where
  "handle_input l i =
     (case i of
        KText t \<Rightarrow>
          (case push_input t (lk_conversation l) of
             (conv, changed) \<Rightarrow> (l\<lparr>lk_conversation := conv\<rparr>, changed))
      | KBackspace \<Rightarrow>
          (case pop_input (lk_conversation l) of
             (conv, changed) \<Rightarrow> (l\<lparr>lk_conversation := conv\<rparr>, changed))
      | KSubmit \<Rightarrow>
          (if conv_status (lk_conversation l) = Failed then (lk_retry l, True)
           else submit_response l)
      | KCancel \<Rightarrow> cancel_attempt l
      | KNextPage \<Rightarrow>
          (if persistent_prompt (prompt (lk_conversation l)) = None
              \<and> notice (lk_conversation l) = None
           then (l, False)
           else (l\<lparr>instruction_page := instruction_page l + 1\<rparr>, True)))"

definition authentication_input_enabled :: "bool \<Rightarrow> bool" where
  "authentication_input_enabled is_confirmed = is_confirmed"

definition lk_input :: "locker \<Rightarrow> key_input \<Rightarrow> locker \<times> bool" where
  "lk_input l i =
     (if \<not> authentication_input_enabled (lk_confirmed l) then (l, False)
      else
        (case handle_input l i of
           (l1, changed) \<Rightarrow> (if changed then rebuild_overlay l1 else l1, changed)))"

definition take_authorization :: "locker \<Rightarrow> locker \<times> bool" where
  "take_authorization l = (l\<lparr>lk_authorized := False\<rparr>, lk_authorized l)"

definition LockerPresentation_new ::
  "identity \<Rightarrow> client \<Rightarrow> rgba_frame option \<Rightarrow> (wallpaper_refresh \<times> rgba_frame option) list
    \<Rightarrow> nat list \<Rightarrow> (u8 list \<times> start_env) list \<Rightarrow> (overlay_view \<Rightarrow> nat \<Rightarrow> u8) \<Rightarrow> locker" where
  "LockerPresentation_new ident c wp wps sched envs drawing =
     (let conversation = Conversation_new in
      rebuild \<lparr>lk_identity = ident, lk_conversation = conversation,
        lk_auth = Some (conv_attempt conversation, c), lk_prompt_id = None, lk_confirmed = False,
        lk_authorized = False, lk_background = None, lk_overlay = None, lk_frame = None,
        instruction_page = 0, lk_panicked = False, lk_wallpaper = wp, wallpapers = wps,
        schedule = sched, workers = envs, draw = drawing, lk_retired = [],
        lk_started = 1\<rparr>)"

definition locker_ops :: "locker presentation_ops" where
  "locker_ops = \<lparr>p_receive_latest = receive_latest, p_receive_deferred = receive_deferred,
     p_frame = lk_frame, p_lock_confirmed = lock_confirmed, p_input = lk_input,
     p_take_authorization = take_authorization\<rparr>"

section \<open>Frames are always complete\<close>

lemma overlay_pixels:
  "\<exists>ov. RgbaFrame_new (fst authentication_overlay_dimensions) (snd authentication_overlay_dimensions)
      (map f [0..<overlay_bytes]) = Some ov
    \<and> fwidth ov = 1500 \<and> fheight ov = 1200 \<and> frame_ok ov"
proof -
  let ?px = "map f [0..<overlay_bytes]"
  have l: "length ?px = 7200000" by (simp add: overlay_bytes_def overlay_constants)
  then have "RgbaFrame_new 1500 1200 ?px = Some \<lparr>fwidth = 1500, fheight = 1200, fpixels = ?px\<rparr>"
    by (simp add: RgbaFrame_new_def checked_mul_def del: length_map)
  moreover from RgbaFrame_new_ok [OF this] have "frame_ok \<lparr>fwidth = 1500, fheight = 1200, fpixels = ?px\<rparr>" .
  ultimately show ?thesis by (simp add: overlay_constants)
qed

definition frames_ok :: "locker \<Rightarrow> bool" where
  "frames_ok l \<longleftrightarrow> \<not> lk_panicked l \<and> pred_option frame_ok (lk_background l)
     \<and> pred_option frame_ok (lk_wallpaper l) \<and> list_all (\<lambda>(_, fr). pred_option frame_ok fr) (wallpapers l)
     \<and> (\<exists>ov fr. lk_overlay l = Some ov \<and> fwidth ov = 1500 \<and> fheight ov = 1200 \<and> frame_ok ov
          \<and> lk_frame l = Some fr \<and> presentation_ok fr)"

lemma presentation_complete:
  assumes "fwidth ov = 1500" "fheight ov = 1200" "frame_ok ov" "pred_option frame_ok bg"
  shows "\<exists>fr. PresentationFrame_new 3840 2400 bg ov ((3840 - fwidth ov) div 2) ((2400 - fheight ov) div 2)
      = Some fr \<and> presentation_ok fr"
proof -
  let ?fr = "PresentationFrame_new 3840 2400 bg ov 1170 600"
  have "?fr = Some \<lparr>pwidth = 3840, pheight = 2400, background = bg, overlay = ov,
      overlay_x = 1170, overlay_y = 600\<rparr>"
    using assms(1,2) by (simp add: PresentationFrame_new_def checked_add_def)
  moreover from PresentationFrame_new_ok [OF this _ _ assms(4,3)] have "presentation_ok \<lparr>pwidth = 3840,
      pheight = 2400, background = bg, overlay = ov, overlay_x = 1170, overlay_y = 600\<rparr>" by simp
  ultimately show ?thesis using assms(1,2) by simp
qed

text \<open>What rebuilding leaves alone, and that it always succeeds.\<close>

lemma rebuild_frame_keeps [simp]:
  "lk_identity (rebuild_frame l) = lk_identity l"
  "lk_conversation (rebuild_frame l) = lk_conversation l" "lk_auth (rebuild_frame l) = lk_auth l"
  "lk_prompt_id (rebuild_frame l) = lk_prompt_id l" "lk_confirmed (rebuild_frame l) = lk_confirmed l"
  "lk_authorized (rebuild_frame l) = lk_authorized l" "workers (rebuild_frame l) = workers l"
  "lk_background (rebuild_frame l) = lk_background l" "lk_overlay (rebuild_frame l) = lk_overlay l"
  "lk_wallpaper (rebuild_frame l) = lk_wallpaper l" "wallpapers (rebuild_frame l) = wallpapers l"
  "lk_panicked (rebuild_frame l) = lk_panicked l"
  by (simp_all add: rebuild_frame_def split: option.split prod.split)

lemma rebuild_overlay_keeps [simp]:
  "lk_identity (rebuild_overlay l) = lk_identity l"
  "lk_conversation (rebuild_overlay l) = lk_conversation l" "lk_auth (rebuild_overlay l) = lk_auth l"
  "lk_prompt_id (rebuild_overlay l) = lk_prompt_id l"
  "lk_confirmed (rebuild_overlay l) = lk_confirmed l"
  "lk_authorized (rebuild_overlay l) = lk_authorized l" "workers (rebuild_overlay l) = workers l"
  "lk_background (rebuild_overlay l) = lk_background l"
  "lk_wallpaper (rebuild_overlay l) = lk_wallpaper l" "wallpapers (rebuild_overlay l) = wallpapers l"
  by (simp_all add: rebuild_overlay_def split: option.split prod.split)

lemma rebuild_frame_ok:
  assumes "lk_overlay l = Some ov" "fwidth ov = 1500" "fheight ov = 1200" "frame_ok ov"
    "pred_option frame_ok (lk_background l)" "pred_option frame_ok (lk_wallpaper l)"
    "list_all (\<lambda>(_, fr). pred_option frame_ok fr) (wallpapers l)" "\<not> lk_panicked l"
  shows "frames_ok (rebuild_frame l)"
proof -
  from presentation_complete [OF assms(2,3,4,5)] obtain fr where
    "PresentationFrame_new 3840 2400 (lk_background l) ov ((3840 - fwidth ov) div 2)
      ((2400 - fheight ov) div 2) = Some fr" "presentation_ok fr" by blast
  then have "lk_frame (rebuild_frame l) = Some fr" "presentation_ok fr"
    using assms(1) by (simp_all add: rebuild_frame_def overlay_constants)
  with assms show ?thesis by (simp add: frames_ok_def)
qed

lemma rebuild_overlay_ok:
  assumes "pred_option frame_ok (lk_background l)" "pred_option frame_ok (lk_wallpaper l)"
    "list_all (\<lambda>(_, fr). pred_option frame_ok fr) (wallpapers l)" "\<not> lk_panicked l"
  shows "frames_ok (rebuild_overlay l)"
proof -
  let ?view = "\<lparr>view_identity = lk_identity l, view_conversation = lk_conversation l,
    view_confirmed = lk_confirmed l, view_page = instruction_page l\<rparr>"
  from overlay_pixels [of "draw l ?view"] obtain ov where ov: "fwidth ov = 1500" "fheight ov = 1200"
    "frame_ok ov" and r: "rebuild_overlay l = rebuild_frame (l\<lparr>lk_overlay := Some ov\<rparr>)"
    by (auto simp: rebuild_overlay_def Let_def case_prod_beta)
  show ?thesis unfolding r by (rule rebuild_frame_ok) (use assms ov in simp_all)
qed

section \<open>The dialogue invariant\<close>

text \<open>
  The worker that is asked always belongs to the current attempt; without a worker the dialogue has
  failed, so the user can retry; while a response is awaited the prompt's identifier is known; and
  nothing is prompted or authorized before the compositor confirmed the lock.
\<close>

definition dialogue_ok :: "locker \<Rightarrow> bool" where
  "dialogue_ok l \<longleftrightarrow> conv_ok (lk_conversation l)
     \<and> (case lk_auth l of None \<Rightarrow> conv_status (lk_conversation l) = Failed
        | Some (a, _) \<Rightarrow> a = conv_attempt (lk_conversation l))
     \<and> (conv_status (lk_conversation l) = Waiting \<longrightarrow> lk_prompt_id l \<noteq> None)
     \<and> (\<not> lk_confirmed l \<longrightarrow> lk_prompt_id l = None \<and> \<not> lk_authorized l)"

definition locker_ok :: "locker \<Rightarrow> bool" where
  "locker_ok l \<longleftrightarrow> dialogue_ok l \<and> frames_ok l"

lemma conv_receive_current:
  "a = conv_attempt c \<Longrightarrow> conv_attempt (fst (conv_receive a r c)) = conv_attempt c"
  "a = conv_attempt c \<Longrightarrow> conv_status (fst (conv_receive a r c)) =
     (case r of RPrompt _ _ \<Rightarrow> Waiting | RNotice _ _ \<Rightarrow> conv_status c | RSuccess \<Rightarrow> Succeeded
      | RFailure _ \<Rightarrow> Failed)"
  by (cases r; simp add: conv_receive_def accepts_def clear_response_def set_notice_def
      clear_notice_def)+

lemma conv_fail_facts [simp]:
  "conv_attempt (conv_fail m c) = conv_attempt c" "conv_status (conv_fail m c) = Failed"
  by (simp_all add: conv_fail_def conv_receive_current)

lemma begin_attempt_facts:
  "begin_attempt c = (conv, nxt) \<Longrightarrow> nxt = conv_attempt conv \<and> conv_status conv = Submitting"
  by (auto simp: begin_attempt_def Let_def clear_notice_def clear_response_def)

lemma fail_authentication_keeps [simp]:
  "lk_identity (fail_authentication l) = lk_identity l" "lk_auth (fail_authentication l) = lk_auth l"
  "lk_prompt_id (fail_authentication l) = lk_prompt_id l"
  "lk_confirmed (fail_authentication l) = lk_confirmed l"
  "lk_authorized (fail_authentication l) = lk_authorized l"
  "workers (fail_authentication l) = workers l"
  "lk_conversation (fail_authentication l) = conv_fail WORKER_UNAVAILABLE (lk_conversation l)"
  by (simp_all add: fail_authentication_def)

lemma frames_ok_cong:
  assumes "lk_panicked l' = lk_panicked l" "lk_background l' = lk_background l"
    "lk_wallpaper l' = lk_wallpaper l" "wallpapers l' = wallpapers l" "lk_overlay l' = lk_overlay l"
    "lk_frame l' = lk_frame l"
  shows "frames_ok l' = frames_ok l"
  using assms by (simp add: frames_ok_def)

lemma fail_authentication_frames [simp]: "frames_ok (fail_authentication l) = frames_ok l"
  by (rule frames_ok_cong) (simp_all add: fail_authentication_def)

lemma frames_lk_update [simp]:
  "frames_ok (l\<lparr>lk_prompt_id := x\<rparr>) = frames_ok l" "frames_ok (l\<lparr>lk_auth := y\<rparr>) = frames_ok l"
  "frames_ok (l\<lparr>lk_conversation := z\<rparr>) = frames_ok l" "frames_ok (l\<lparr>instruction_page := i\<rparr>) = frames_ok l"
  "frames_ok (l\<lparr>lk_authorized := b\<rparr>) = frames_ok l" "frames_ok (l\<lparr>lk_confirmed := b\<rparr>) = frames_ok l"
  "frames_ok (l\<lparr>schedule := sc\<rparr>) = frames_ok l" "frames_ok (l\<lparr>workers := ws\<rparr>) = frames_ok l"
  "frames_ok (l\<lparr>lk_retired := cs\<rparr>) = frames_ok l"
  "frames_ok (l\<lparr>lk_started := n\<rparr>) = frames_ok l"
  by (simp_all add: frames_ok_def)

lemma drop_client_keeps [simp]:
  "lk_identity (drop_client c l) = lk_identity l" "lk_auth (drop_client c l) = lk_auth l"
  "lk_conversation (drop_client c l) = lk_conversation l"
  "lk_prompt_id (drop_client c l) = lk_prompt_id l" "lk_confirmed (drop_client c l) = lk_confirmed l"
  "lk_authorized (drop_client c l) = lk_authorized l" "workers (drop_client c l) = workers l"
  "lk_retired (drop_client c l) = lk_retired l @ [cancel c]"
  "frames_ok (drop_client c l) = frames_ok l" "lk_started (drop_client c l) = lk_started l"
  by (simp_all add: drop_client_def frames_ok_def)

text \<open>The state from which \<open>replace_worker\<close> starts the new client.\<close>

definition without_client :: "locker \<Rightarrow> locker" where
  "without_client l =
     (case lk_auth l of None \<Rightarrow> l | Some (_, c) \<Rightarrow> drop_client c (l\<lparr>lk_auth := None\<rparr>))"

lemma without_client_keeps [simp]:
  "lk_identity (without_client l) = lk_identity l" "lk_auth (without_client l) = None"
  "lk_conversation (without_client l) = lk_conversation l"
  "lk_prompt_id (without_client l) = lk_prompt_id l"
  "lk_confirmed (without_client l) = lk_confirmed l"
  "lk_authorized (without_client l) = lk_authorized l" "workers (without_client l) = workers l"
  "frames_ok (without_client l) = frames_ok l"
  by (simp_all add: without_client_def split: option.split)

lemma replace_worker_unfold:
  "replace_worker a l =
     (case start_client (without_client l) of
        (l1, Inl _) \<Rightarrow> fail_authentication l1
      | (l1, Inr replacement) \<Rightarrow>
          (case client_begin replacement of
             (c, Inr _) \<Rightarrow> l1\<lparr>lk_auth := Some (a, c)\<rparr>
           | (c, Inl _) \<Rightarrow> fail_authentication (drop_client c l1)))"
  by (simp add: replace_worker_def without_client_def)

lemma start_client_keeps:
  assumes "start_client l = (l', r)"
  shows "l' = l\<lparr>workers := tl (workers l), lk_started := lk_started l + (if isl r then 0 else 1)\<rparr>"
  using assms by (auto simp: start_client_def Let_def split: list.splits option.splits sum.splits prod.splits)

lemma replace_worker_facts:
  "lk_conversation (replace_worker a l) = lk_conversation l \<and> (\<exists>c. lk_auth (replace_worker a l) = Some (a, c))
    \<or> lk_conversation (replace_worker a l) = conv_fail WORKER_UNAVAILABLE (lk_conversation l)
      \<and> lk_auth (replace_worker a l) = None"
  "lk_prompt_id (replace_worker a l) = lk_prompt_id l"
  "lk_confirmed (replace_worker a l) = lk_confirmed l"
  "lk_authorized (replace_worker a l) = lk_authorized l"
  "frames_ok (replace_worker a l) = frames_ok l"
proof -
  obtain l1 r where st: "start_client (without_client l) = (l1, r)" by fastforce
  note l1 = start_client_keeps [OF st]
  have fr: "frames_ok l1 = frames_ok l" "frames_ok (l1\<lparr>lk_auth := x\<rparr>) = frames_ok l" for x
    unfolding l1 by simp_all
  show "lk_conversation (replace_worker a l) = lk_conversation l
      \<and> (\<exists>c. lk_auth (replace_worker a l) = Some (a, c))
    \<or> lk_conversation (replace_worker a l) = conv_fail WORKER_UNAVAILABLE (lk_conversation l)
      \<and> lk_auth (replace_worker a l) = None"
    "lk_prompt_id (replace_worker a l) = lk_prompt_id l"
    "lk_confirmed (replace_worker a l) = lk_confirmed l"
    "lk_authorized (replace_worker a l) = lk_authorized l"
    "frames_ok (replace_worker a l) = frames_ok l"
    using st l1 fr
    by (cases r; cases "client_begin (projr r)"; cases "snd (client_begin (projr r))";
        simp add: replace_worker_unfold)+
qed

lemma dialogue_replace:
  assumes "conv_ok (lk_conversation l)" "conv_attempt (lk_conversation l) = a"
    "lk_confirmed l" "conv_status (lk_conversation l) = Submitting"
  shows "dialogue_ok ((replace_worker a l)\<lparr>lk_prompt_id := None\<rparr>)"
  using assms replace_worker_facts [of a l] conv_ok_simple(7) [OF assms(1)]
  by (auto simp: dialogue_ok_def)

lemma frames_rebuild: "frames_ok l \<Longrightarrow> frames_ok (rebuild_overlay l)"
  by (rule rebuild_overlay_ok) (simp_all add: frames_ok_def)

lemma dialogue_rebuild [simp]:
  "dialogue_ok (rebuild_overlay l) = dialogue_ok l" "dialogue_ok (rebuild_frame l) = dialogue_ok l"
  by (auto simp: dialogue_ok_def split: option.splits)

lemma locker_rebuild: "locker_ok l \<Longrightarrow> locker_ok (rebuild_overlay l)"
  by (simp add: locker_ok_def frames_rebuild)

lemma locker_retry:
  assumes "locker_ok l" "lk_confirmed l"
  shows "locker_ok (lk_retry l)"
proof -
  obtain conv nxt where b: "begin_attempt (lk_conversation l) = (conv, nxt)" by fastforce
  have c: "conv_ok conv" using conv_ok_simple(1) [of "lk_conversation l"] assms b
    by (simp add: locker_ok_def dialogue_ok_def)
  note nxt = begin_attempt_facts [OF b]
  let ?l = "\<lambda>x. l\<lparr>instruction_page := 0, lk_conversation := conv, lk_auth := x\<rparr>"
  have repl: "locker_ok ((replace_worker nxt (?l x))\<lparr>lk_prompt_id := None\<rparr>)" for x
    using dialogue_replace [of "?l x" nxt] replace_worker_facts(5) [of nxt "?l x"] assms c nxt
    by (simp add: locker_ok_def)
  show ?thesis
  proof (cases "lk_auth l")
    case None
    then have "l\<lparr>instruction_page := 0, lk_conversation := conv\<rparr> = ?l None" by (cases l) simp
    with None b repl [of None] show ?thesis by (simp add: lk_retry_def)
  next
    case (Some p)
    obtain a k where p: "lk_auth l = Some (a, k)" using Some by (cases p) simp
    obtain k' r where r: "client_retry k = (k', r)" by fastforce
    show ?thesis
    proof (cases r)
      case (Inl e)
      then show ?thesis using p b r repl [of "Some (a, k')"] by (simp add: lk_retry_def)
    next
      case (Inr u)
      then show ?thesis
        using p b r assms c nxt by (simp add: lk_retry_def locker_ok_def dialogue_ok_def)
    qed
  qed
qed

lemma locker_cancel:
  assumes "locker_ok l" "lk_confirmed l"
  shows "locker_ok (fst (cancel_attempt l))"
proof (cases "lk_auth l")
  case None
  with assms show ?thesis by (simp add: cancel_attempt_def)
next
  case (Some p)
  obtain a c where p: "lk_auth l = Some (a, c)" using Some by (cases p) simp
  obtain conv nxt where b: "begin_attempt (lk_conversation l) = (conv, nxt)" by fastforce
  let ?l = "drop_client c (l\<lparr>lk_auth := None, lk_conversation := conv, instruction_page := 0\<rparr>)"
  have "conv_ok conv" using conv_ok_simple(1) [of "lk_conversation l"] assms b
    by (simp add: locker_ok_def dialogue_ok_def)
  then have "locker_ok ((replace_worker nxt ?l)\<lparr>lk_prompt_id := None\<rparr>)"
    using dialogue_replace [of ?l nxt] replace_worker_facts(5) [of nxt ?l] assms begin_attempt_facts [OF b]
    by (simp add: locker_ok_def)
  with p b show ?thesis by (simp add: cancel_attempt_def)
qed

lemma poll_client_keeps:
  assumes "poll_client l = (l', e)"
  shows "lk_conversation l' = lk_conversation l" "lk_prompt_id l' = lk_prompt_id l"
    "lk_confirmed l' = lk_confirmed l" "lk_authorized l' = lk_authorized l"
    "frames_ok l' = frames_ok l" "map_option fst (lk_auth l') = map_option fst (lk_auth l)"
    "workers l' = workers l" "lk_identity l' = lk_identity l"
  using assms
  by (auto simp: poll_client_def Let_def split: option.splits prod.splits)

lemma locker_poll: "locker_ok l \<Longrightarrow> poll_client l = (l', e) \<Longrightarrow> locker_ok l'"
  using poll_client_keeps [of l l' e]
  by (cases "lk_auth l"; cases "lk_auth l'") (auto simp: locker_ok_def dialogue_ok_def)

lemma locker_handle:
  assumes "locker_ok l" "lk_confirmed l" "lk_auth l = Some (a, c)"
  shows "locker_ok (handle_event a e l) \<and> lk_confirmed (handle_event a e l)"
proof -
  have a: "a = conv_attempt (lk_conversation l)" using assms by (simp add: locker_ok_def dialogue_ok_def)
  have ok: "conv_ok (fst (conv_receive a r (lk_conversation l)))" for r
    using conv_ok_receive assms by (simp add: locker_ok_def dialogue_ok_def)
  show ?thesis
    using assms ok conv_receive_current [OF a]
    by (cases e) (auto simp: handle_event_def locker_ok_def dialogue_ok_def case_prod_beta)
qed

lemma poll_client_auth: "poll_client l = (l', Some e) \<Longrightarrow> \<exists>a c. lk_auth l' = Some (a, c)"
  by (auto simp: poll_client_def Let_def split: option.splits prod.splits)

lemma locker_loop:
  "locker_ok l \<Longrightarrow> lk_confirmed l \<Longrightarrow> locker_ok (fst (receive_loop n changed l))
    \<and> lk_confirmed (fst (receive_loop n changed l))"
proof (induction n changed l rule: receive_loop.induct)
  case (1 changed l)
  then show ?case by simp
next
  case (2 n changed l)
  obtain l1 e where p: "poll_client l = (l1, e)" by fastforce
  note l1 = locker_poll [OF "2.prems"(1) p] poll_client_keeps(3) [OF p]
  show ?case
  proof (cases e)
    case None
    with p l1 "2.prems" show ?thesis by simp
  next
    case (Some ev)
    with p obtain a c where a: "lk_auth l1 = Some (a, c)" using poll_client_auth by blast
    from locker_handle [OF l1(1) _ a, of ev] l1 "2.prems"(2)
    have "locker_ok (handle_event a ev l1)" "lk_confirmed (handle_event a ev l1)" by simp_all
    with "2.IH" [OF p [symmetric] Some a] p Some a show ?thesis by simp
  qed
qed

lemma locker_latest: "locker_ok l \<Longrightarrow> locker_ok (fst (receive_latest l))"
proof (cases "lk_confirmed l")
  case True
  assume "locker_ok l"
  obtain l1 changed where r: "receive_loop MAX_AUTH_EVENTS_PER_REFRESH False l = (l1, changed)"
    by fastforce
  with locker_loop [OF \<open>locker_ok l\<close> True, of MAX_AUTH_EVENTS_PER_REFRESH False]
  have "locker_ok l1" by simp
  then have "locker_ok (l1\<lparr>instruction_page := 0\<rparr>)"
    by (auto simp: locker_ok_def dialogue_ok_def split: option.splits)
  with \<open>locker_ok l1\<close> True r locker_rebuild show ?thesis
    by (cases changed) (simp_all add: receive_latest_def receive_auth_def)
qed (simp add: receive_latest_def receive_auth_def)

lemma locker_deferred: "locker_ok l \<Longrightarrow> locker_ok (fst (receive_deferred l))"
proof (cases "wallpapers l")
  case (Cons x ws)
  assume ok: "locker_ok l"
  obtain w fr where x: "x = (w, fr)" by fastforce
  let ?l = "l\<lparr>wallpapers := ws, lk_wallpaper := fr\<rparr>"
  have fr: "pred_option frame_ok fr" "list_all (\<lambda>(_, fr). pred_option frame_ok fr) ws"
    using ok Cons x by (simp_all add: locker_ok_def frames_ok_def)
  from ok obtain ov where "lk_overlay l = Some ov" "fwidth ov = 1500" "fheight ov = 1200"
    "frame_ok ov" "\<not> lk_panicked l" by (auto simp: locker_ok_def frames_ok_def)
  then have f: "frames_ok (rebuild_frame (?l\<lparr>lk_background := fr\<rparr>))"
    using fr by (intro rebuild_frame_ok) simp_all
  have d: "dialogue_ok (rebuild_frame (?l\<lparr>lk_background := fr\<rparr>))" "dialogue_ok ?l"
    using ok by (auto simp: locker_ok_def dialogue_ok_def split: option.splits)
  have "frames_ok ?l" using ok fr by (auto simp: locker_ok_def frames_ok_def)
  with f d Cons x show ?thesis by (cases w) (simp_all add: receive_deferred_def locker_ok_def)
qed (simp add: receive_deferred_def)

lemma locker_confirm: "locker_ok l \<Longrightarrow> locker_ok (lock_confirmed l)"
proof -
  assume ok: "locker_ok l"
  let ?l = "l\<lparr>lk_confirmed := True\<rparr>"
  have fail: "locker_ok (fail_authentication (?l\<lparr>lk_auth := x\<rparr>))" if "map_option fst x = map_option fst (lk_auth l)" for x
    using ok that conv_ok_simple(7) [of "lk_conversation l"]
    by (cases x; cases "lk_auth l") (auto simp: locker_ok_def dialogue_ok_def)
  show ?thesis
  proof (cases "lk_auth l")
    case None
    then have "?l\<lparr>lk_auth := None\<rparr> = ?l" by simp
    with None fail [of None] show ?thesis by (simp add: lock_confirmed_def locker_rebuild)
  next
    case (Some p)
    obtain a c where p: "lk_auth l = Some (a, c)" using Some by (cases p) simp
    obtain c' r where r: "client_begin c = (c', r)" by fastforce
    have "locker_ok (?l\<lparr>lk_auth := Some (a, c')\<rparr>)"
      using ok p by (auto simp: locker_ok_def dialogue_ok_def)
    with p r fail [of "Some (a, c')"] show ?thesis
      by (cases r) (simp_all add: lock_confirmed_def locker_rebuild)
  qed
qed

lemma submit_facts:
  "submit c = (conv, x) \<Longrightarrow> conv_ok c \<Longrightarrow> conv_ok conv \<and> conv_attempt conv = conv_attempt c
    \<and> (x = None \<longrightarrow> conv = c) \<and> (x \<noteq> None \<longrightarrow> conv_status c = Waiting \<and> conv_status conv = Submitting
        \<and> x = Some (conv_attempt c, input c))"
  using conv_ok_simple(6) [of c] by (auto simp: submit_def split: if_splits)

lemma locker_submit:
  assumes ok: "locker_ok l" and conf: "lk_confirmed l"
  shows "locker_ok (fst (submit_response l))"
proof (cases "lk_prompt_id l")
  case None
  with ok show ?thesis by (simp add: submit_response_def)
next
  case (Some i)
  obtain conv x where s: "submit (lk_conversation l) = (conv, x)" by fastforce
  have "conv_ok (lk_conversation l)" using ok by (simp add: locker_ok_def dialogue_ok_def)
  note f = submit_facts [OF s this]
  show ?thesis
  proof (cases x)
    case None
    then have "conv_status conv \<noteq> Waiting" using s by (auto simp: submit_def split: if_splits)
    then show ?thesis
      using None Some s f ok conf
      by (auto simp: submit_response_def locker_ok_def dialogue_ok_def split: option.splits)
  next
    case att: (Some y)
    with ok f obtain a c where a: "lk_auth l = Some (a, c)" "a = conv_attempt (lk_conversation l)"
      by (cases "lk_auth l") (auto simp: locker_ok_def dialogue_ok_def)
    obtain c' r where r: "respond i (input (lk_conversation l)) c = (c', r)" by fastforce
    let ?l = "l\<lparr>lk_prompt_id := None, lk_conversation := conv, lk_auth := Some (a, c')\<rparr>"
    have "locker_ok ?l" "locker_ok (fail_authentication ?l)"
      using ok conf f att a conv_ok_simple(7) [of conv] by (auto simp: locker_ok_def dialogue_ok_def)
    then show ?thesis
      using Some s f att a r by (cases r) (auto simp: submit_response_def)
  qed
qed

lemma locker_input:
  assumes "locker_ok l"
  shows "locker_ok (fst (lk_input l i))"
proof (cases "lk_confirmed l")
  case True
  have status: "conv_status (fst (push_input t c)) = conv_status c"
    "conv_attempt (fst (push_input t c)) = conv_attempt c"
    "conv_status (fst (pop_input c)) = conv_status c"
    "conv_attempt (fst (pop_input c)) = conv_attempt c" for t c
    by (simp_all add: push_input_def pop_input_def Let_def)
  have "locker_ok (fst (handle_input l i))"
  proof (cases i)
    case KSubmit
    with assms True locker_retry locker_submit show ?thesis by (simp add: handle_input_def)
  next
    case KCancel
    with assms True locker_cancel show ?thesis by (simp add: handle_input_def)
  next
    case (KText t)
    with assms conv_ok_input(2) [of "lk_conversation l" t] status show ?thesis
      by (auto simp: handle_input_def locker_ok_def dialogue_ok_def case_prod_beta split: option.splits)
  next
    case KBackspace
    with assms conv_ok_pop [of "lk_conversation l"] status show ?thesis
      by (auto simp: handle_input_def locker_ok_def dialogue_ok_def case_prod_beta split: option.splits)
  next
    case KNextPage
    with assms show ?thesis
      by (auto simp: handle_input_def locker_ok_def dialogue_ok_def split: option.splits)
  qed
  with True locker_rebuild show ?thesis
    by (simp add: lk_input_def authentication_input_enabled_def case_prod_beta)
qed (use assms in \<open>simp add: lk_input_def authentication_input_enabled_def\<close>)

lemma locker_take: "locker_ok l \<Longrightarrow> locker_ok (fst (take_authorization l))"
  by (auto simp: take_authorization_def locker_ok_def dialogue_ok_def split: option.splits)

lemma locker_new:
  assumes "pred_option frame_ok wp" "list_all (\<lambda>(_, fr). pred_option frame_ok fr) wps"
  shows "locker_ok (LockerPresentation_new ident c wp wps sched envs drawing)"
  using assms
  by (auto simp: LockerPresentation_new_def Let_def rebuild_def locker_ok_def dialogue_ok_def
      conv_ok_new intro!: rebuild_overlay_ok) (simp add: Conversation_new_def)

end
