(* ===== verification/Locker_Session.thy ===== *)
theory Locker_Session
  imports Locker_Presentation Lock_Worker
begin

text \<open>
  The locker put together: the session-lock runtime drives the locker's presentation, which talks
  to authentication workers. First the contract between the runtime and a presentation: a property
  of the presentation that each of its operations keeps holds throughout every run of the runtime,
  because the runtime touches the presentation only through them. Then what the contract is used
  for: the dialogue invariant of the locker, and where an authorization comes from.
\<close>

section \<open>The presentation contract\<close>

lemma presentation_simple [simp]:
  "presentation (fail e rt) = presentation rt"
  "presentation (put_surface i s rt) = presentation rt"
  "presentation (record_full_frame rt) = presentation rt"
  "presentation (redraw_all_surfaces k rt) = presentation rt"
  "presentation (redraw_media rt) = presentation rt"
  "presentation (fst (classify_overlay_redraw rt)) = presentation rt"
  "presentation (keep_role i s rt) = presentation rt"
  by (simp_all add: fail_def put_surface_def record_full_frame_def redraw_all_surfaces_def
      redraw_media_def classify_overlay_redraw_def keep_role_def Let_def split: option.split)

lemma presentation_apply_refresh [simp]: "presentation (apply_refresh r rt) = presentation rt"
  using presentation_simple(6) [of rt]
  by (cases r) (auto simp: apply_refresh_def simp del: presentation_simple(6) split: prod.split)

lemma presentation_commit [simp]:
  "presentation (fst (commit_surface env retiring index s i rt)) = presentation rt"
  by (auto simp: commit_surface_def Let_def put_surface_def)

lemma presentation_render: "presentation (fst (render env index rt)) = presentation rt"
  unfolding render_def Let_def
  by (auto split: option.split sum.split prepared.split)

lemma presentation_render_all: "presentation (fst (render_all env is rt)) = presentation rt"
proof (induction "is" arbitrary: rt)
  case (Cons i "is")
  have "presentation (fst (render (env i) i rt)) = presentation rt" by (rule presentation_render)
  with Cons show ?case by (auto split: prod.split render_result.split)
qed simp

lemma presentation_maintain: "presentation (fst (maintain_surfaces env b rt)) = presentation rt"
  by (auto simp: maintain_surfaces_def Let_def presentation_render_all split: prod.split option.split)

lemma presentation_partial: "presentation (fst (commit_partial_overlays env rt)) = presentation rt"
proof -
  have "presentation rt' = presentation rt"
    if "render_all env is (rt\<lparr>surfaces := ss\<rparr>) = (rt', r)" for "is" ss rt' r
    using presentation_render_all [of env "is" "rt\<lparr>surfaces := ss\<rparr>"] that by simp
  then show ?thesis
    by (auto simp: commit_partial_overlays_def Let_def split: prod.split option.split)
qed

lemma presentation_settle_render: "presentation (settle_render x) = presentation (fst x)"
  by (cases x; cases "snd x") (auto simp: settle_render_def)

lemma presentation_handlers:
  "presentation (finished env rt) = presentation rt"
  "presentation (configure now wl dims rt) = presentation rt"
  "presentation (scale_factor_changed wl scale rt) = presentation rt"
  "presentation (frame_callback wl rt) = presentation rt"
  "presentation (new_output now out rt) = presentation rt"
  "presentation (update_output now out rt) = presentation rt"
  "presentation (output_destroyed now out rt) = presentation rt"
  "presentation (presented now fb rt) = presentation rt"
  "presentation (discarded fb wl rt) = presentation rt"
  "presentation (new_keyboard seat acquired rt) = presentation rt"
  "presentation (remove_keyboard seat rt) = presentation rt"
  "presentation (buffer_released wl i rt) = presentation rt"
  by (auto simp: finished_def apply_action_def configure_def scale_factor_changed_def
      frame_callback_def new_output_def update_output_def output_destroyed_def presented_def
      discarded_def new_keyboard_def remove_keyboard_def buffer_released_def Let_def
      presentation_add_surface split: option.split sum.split prod.split action.split)

lemma quiet_ops: "quiet rt rt' \<Longrightarrow> ops rt' = ops rt"
  by (auto elim: quietD)

locale presentation_contract =
  fixes pops :: "'p presentation_ops"
    and P :: "'p \<Rightarrow> bool"
  assumes latest: "P p \<Longrightarrow> P (fst (p_receive_latest pops p))"
    and deferred: "P p \<Longrightarrow> P (fst (p_receive_deferred pops p))"
    and confirm: "P p \<Longrightarrow> P (p_lock_confirmed pops p)"
    and key: "P p \<Longrightarrow> P (fst (p_input pops p k))"
    and grant: "P p \<Longrightarrow> P (fst (p_take_authorization pops p))"
begin

lemma P_apply:
  "ops rt = pops \<Longrightarrow> P (presentation rt) \<Longrightarrow> P (presentation (apply_action env act rt))"
  by (cases act) (auto simp: apply_action_def ready_apply_def Let_def confirm fail_def
      split: option.split)

lemma P_locked: "ops rt = pops \<Longrightarrow> P (presentation rt) \<Longrightarrow> P (presentation (locked env rt))"
  by (auto simp: locked_def Let_def split: prod.split intro: P_apply)

lemma P_key: "ops rt = pops \<Longrightarrow> P (presentation rt) \<Longrightarrow> P (presentation (handle_key k t rt))"
proof -
  assume "ops rt = pops" "P (presentation rt)"
  then have p: "P p" if "p_input pops (presentation rt) i = (p, changed)" for i p changed
    using key [of "presentation rt" i] that by simp
  have "presentation rt' = p" if "classify_overlay_redraw (rt\<lparr>presentation := p\<rparr>) = (rt', kind)"
    for p rt' kind
    using presentation_simple(6) [of "rt\<lparr>presentation := p\<rparr>"] that by simp
  with p \<open>ops rt = pops\<close> \<open>P (presentation rt)\<close> show ?thesis
    by (auto simp: handle_key_def Let_def split: option.split prod.split)
qed

lemma P_draw_phase:
  assumes "ops rt = pops" "P (presentation rt)"
  shows "P (presentation (draw_phase env priority rt))"
proof -
  obtain rt1 progress r where c: "commit_partial_overlays (partial_env env) (apply_refresh priority rt)
      = (rt1, progress, r)" by (rule prod_cases3)
  have q: "quiet rt (fst (commit_partial_overlays (partial_env env) (apply_refresh priority rt)))"
    by (rule quiet_trans [OF quiet_apply_refresh quiet_partial])
  have rt1: "ops rt1 = pops" "P (presentation rt1)"
    using assms q presentation_partial [of "partial_env env" "apply_refresh priority rt"]
    by (auto simp: c elim: quietD)
  then have "P (presentation (case refresh_presentation rt1 of (rt, x) \<Rightarrow> apply_refresh x rt))"
    using deferred [of "presentation rt1"]
    by (auto simp: refresh_presentation_def split: prod.split)
  with rt1 c show ?thesis
    by (auto simp: draw_phase_def Let_def presentation_settle_render presentation_maintain)
qed

lemma P_tick:
  assumes "ops rt = pops" "P (presentation rt)"
  shows "P (presentation (tick env rt))"
proof (cases "terminate rt")
  case True
  with assms show ?thesis by (simp add: tick_def)
next
  case False
  obtain rt1 e where r: "reconcile_outputs (at_reconcile env) rt = (rt1, e)" by fastforce
  have rt1: "ops rt1 = pops" "presentation rt1 = presentation rt"
    using quiet_reconcile [of rt "at_reconcile env"] presentation_reconcile [of "at_reconcile env" rt]
      assms by (auto simp: r elim: quietD)
  define rt2 where "rt2 = expire_authentication_retirement (at_expiry env) (at_restore env) rt1"
  have rt2: "ops rt2 = pops" "P (presentation rt2)"
    using rt1 assms quiet_ops [OF quiet_expire, of "at_expiry env" "at_restore env" rt1]
    by (simp_all add: rt2_def)
  obtain rt3 priority where r3: "refresh_priority rt2 = (rt3, priority)" by fastforce
  have rt3: "ops rt3 = pops" "P (presentation rt3)"
    using r3 rt2 latest [of "presentation rt2"] by (auto simp: refresh_priority_def split: prod.splits)
  define rt4 where "rt4 = settle_authorization (tick_apply env) rt3"
  have "P (presentation rt4)"
    using rt3 grant [of "presentation rt3"]
    by (auto simp: rt4_def settle_authorization_def Let_def intro: P_apply split: prod.split)
  moreover have "ops rt4 = pops"
    using rt3 settle_authorization_quiet [of rt3] settle_authorization_cases(6) [of rt3]
    by (cases "snd (p_take_authorization (ops rt3) (presentation rt3)) \<and> lifecycle (rt_state rt3) = Locked")
      (auto simp: rt4_def elim: quietD)
  ultimately have "P (presentation (if terminate rt4 then rt4 else draw_phase env priority rt4))"
    using P_draw_phase by simp
  with False r rt1 assms show ?thesis
    by (cases e) (auto simp: tick_def r3 rt2_def [symmetric] rt4_def [symmetric] Let_def)
qed

lemma P_step:
  assumes "ops rt = pops" "P (presentation rt)"
  shows "P (presentation (fst (lock_step rt i)))"
proof -
  have "P (presentation (handle rt i))"
    using assms by (cases i) (simp_all add: presentation_handlers P_locked P_key P_tick)
  with assms show ?thesis by (simp add: lock_step_def Let_def)
qed

lemma ops_step: "ops (fst (lock_step rt i)) = ops rt"
  by (rule lock_step_quiet_or [of rt i]) (auto simp: releasing_def confirming_def elim: quietD)

lemma P_run:
  "ops rt = pops \<Longrightarrow> P (presentation rt) \<Longrightarrow> P (presentation (the_run rt is)) \<and> ops (the_run rt is) = pops"
  by (induction "is" rule: rev_induct)
    (simp_all add: the_run_def run_append P_step ops_step)

end

section \<open>What the locker keeps of its clients\<close>

text \<open>
  Clients come and go: each retry or cancellation may replace the worker. A property \<open>C\<close> that every
  started client has and every call on a client keeps holds of the client in use; a property \<open>R\<close> that
  cancelling establishes holds of all retired ones; and the locker is authorized only if \<open>A\<close>, what
  an event \<open>Success\<close> of a client with \<open>C\<close> implies.
\<close>

definition held :: "(client \<Rightarrow> bool) \<Rightarrow> (client \<Rightarrow> bool) \<Rightarrow> bool \<Rightarrow> (u8 list \<times> start_env) set \<Rightarrow> identity
    \<Rightarrow> locker \<Rightarrow> bool" where
  "held C R A E ident l \<longleftrightarrow> lk_identity l = ident \<and> set (workers l) \<subseteq> E
     \<and> (\<forall>a c. lk_auth l = Some (a, c) \<longrightarrow> C c) \<and> list_all R (lk_retired l) \<and> (lk_authorized l \<longrightarrow> A)"

lemma rebuild_retired [simp]:
  "lk_retired (rebuild_frame l) = lk_retired l" "lk_retired (rebuild_overlay l) = lk_retired l"
  "lk_started (rebuild_frame l) = lk_started l" "lk_started (rebuild_overlay l) = lk_started l"
  "lk_retired (fail_authentication l) = lk_retired l" "lk_started (fail_authentication l) = lk_started l"
  by (simp_all add: rebuild_frame_def rebuild_overlay_def fail_authentication_def split: option.split prod.split)

locale client_contract =
  fixes E :: "(u8 list \<times> start_env) set" and ident :: identity
    and C R :: "client \<Rightarrow> bool" and A :: bool
  assumes start: "(path, env) \<in> E \<Longrightarrow> start_with_worker ident path env = Some (Inr c, fate) \<Longrightarrow> C c"
    and reader: "C c \<Longrightarrow> C (reader_step c)"
    and begins: "C c \<Longrightarrow> C (fst (client_begin c))"
    and retries: "C c \<Longrightarrow> C (fst (client_retry c))"
    and responds: "C c \<Longrightarrow> C (fst (respond i t c))"
    and receives: "C c \<Longrightarrow> C (fst (try_receive c))"
    and success: "C c \<Longrightarrow> snd (try_receive c) = Some EvSuccess \<Longrightarrow> A"
    and dropped: "C c \<Longrightarrow> R (cancel c)"
begin

lemma held_update:
  assumes "held C R A E ident l" "lk_identity l' = lk_identity l" "workers l' = workers l"
    "lk_retired l' = lk_retired l" "lk_auth l' = lk_auth l \<or> lk_auth l' = None"
    "lk_authorized l' \<longrightarrow> lk_authorized l"
  shows "held C R A E ident l'"
  using assms by (auto simp: held_def)

lemma held_plain [simp]:
  "held C R A E ident (l\<lparr>lk_prompt_id := i\<rparr>) = held C R A E ident l"
  "held C R A E ident (l\<lparr>lk_conversation := v\<rparr>) = held C R A E ident l"
  "held C R A E ident (l\<lparr>lk_confirmed := b\<rparr>) = held C R A E ident l"
  "held C R A E ident (l\<lparr>instruction_page := n\<rparr>) = held C R A E ident l"
  "held C R A E ident (l\<lparr>schedule := sc\<rparr>) = held C R A E ident l"
  "held C R A E ident (fail_authentication l) = held C R A E ident l"
  "held C R A E ident (rebuild_overlay l) = held C R A E ident l"
  "held C R A E ident (rebuild_frame l) = held C R A E ident l"
  by (simp_all add: held_def fail_authentication_def)

lemma held_client: "held C R A E ident l \<Longrightarrow> C c \<Longrightarrow> held C R A E ident (l\<lparr>lk_auth := Some (a, c)\<rparr>)"
  by (simp add: held_def)

lemma held_current: "held C R A E ident l \<Longrightarrow> lk_auth l = Some (a, c) \<Longrightarrow> C c"
  by (simp add: held_def)

lemma held_without: "held C R A E ident l \<Longrightarrow> held C R A E ident (l\<lparr>lk_auth := None\<rparr>)"
  by (simp add: held_def)

lemma held_drop: "held C R A E ident l \<Longrightarrow> C c \<Longrightarrow> held C R A E ident (drop_client c l)"
  using dropped by (simp add: held_def)

lemma held_replace:
  assumes "held C R A E ident l"
  shows "held C R A E ident (replace_worker a l)"
proof -
  have l0: "held C R A E ident (without_client l)"
    using assms held_drop [OF held_without [OF assms]] held_current [OF assms]
    by (auto simp: without_client_def split: option.split)
  obtain l1 r where st: "start_client (without_client l) = (l1, r)" by fastforce
  have "set (tl (workers l)) \<subseteq> set (workers l)" by (cases "workers l") auto
  then have l1: "held C R A E ident l1"
    using l0 start_client_keeps [OF st] by (auto simp: held_def)
  show ?thesis
  proof (cases r)
    case (Inl e)
    with st l1 show ?thesis by (simp add: replace_worker_unfold)
  next
    case (Inr c)
    with st l0 have "C c"
      by (auto simp: start_client_def held_def Let_def intro: start
          split: list.splits option.splits prod.splits sum.splits)
    with begins [of c] st l1 Inr show ?thesis
      by (cases "client_begin c"; cases "snd (client_begin c)")
        (auto simp: replace_worker_unfold intro: held_client held_drop)
  qed
qed

lemma held_retry: "held C R A E ident l \<Longrightarrow> held C R A E ident (lk_retry l)"
proof -
  assume h: "held C R A E ident l"
  obtain conv nxt where b: "begin_attempt (lk_conversation l) = (conv, nxt)" by fastforce
  let ?l = "l\<lparr>instruction_page := 0, lk_conversation := conv\<rparr>"
  have l: "held C R A E ident ?l" using h by simp
  show ?thesis
  proof (cases "lk_auth l")
    case None
    with b held_replace [OF l] show ?thesis by (simp add: lk_retry_def)
  next
    case (Some p)
    obtain a c where p: "lk_auth l = Some (a, c)" using Some by (cases p) simp
    have up: "held C R A E ident (?l\<lparr>lk_auth := Some (x, fst (client_retry c))\<rparr>)" for x
      using held_client [OF l retries [OF held_current [OF h p]]] .
    show ?thesis
      using p b up [of nxt] held_replace [OF up [of a]]
      by (cases "client_retry c"; cases "snd (client_retry c)") (simp_all add: lk_retry_def)
  qed
qed

lemma held_cancel: "held C R A E ident l \<Longrightarrow> held C R A E ident (fst (cancel_attempt l))"
proof (cases "lk_auth l")
  case (Some p)
  assume h: "held C R A E ident l"
  obtain a c where p: "lk_auth l = Some (a, c)" using Some by (cases p) simp
  obtain conv nxt where b: "begin_attempt (lk_conversation l) = (conv, nxt)" by fastforce
  have "held C R A E ident (l\<lparr>lk_auth := None, lk_conversation := conv, instruction_page := 0\<rparr>)"
    using h by (simp add: held_def)
  from held_replace [OF held_drop [OF this held_current [OF h p]]]
  show ?thesis using p b by (simp add: cancel_attempt_def)
qed (simp add: cancel_attempt_def)

lemma reads: "C c \<Longrightarrow> C ((reader_step ^^ n) c)"
  by (induction n) (simp_all add: reader)

lemma held_poll:
  assumes "held C R A E ident l" "poll_client l = (l', e)"
  shows "held C R A E ident l' \<and> (e = Some EvSuccess \<longrightarrow> A)"
proof (cases "lk_auth l")
  case None
  with assms show ?thesis by (auto simp: poll_client_def)
next
  case (Some p)
  obtain a c where p: "lk_auth l = Some (a, c)" using Some by (cases p) simp
  define n where "n = (case schedule l of [] \<Rightarrow> 0 | n # _ \<Rightarrow> n)"
  let ?c = "(reader_step ^^ n) c"
  have l': "l' = l\<lparr>lk_auth := Some (a, fst (try_receive ?c)), schedule := tl (schedule l)\<rparr>"
    "e = snd (try_receive ?c)"
    using assms(2) p by (auto simp: poll_client_def n_def Let_def case_prod_beta)
  have "C ?c" using reads held_current [OF assms(1) p] by blast
  then show ?thesis
    using held_client [OF assms(1) receives] success unfolding l' by simp
qed

lemma held_handle:
  assumes "held C R A E ident l" "e = EvSuccess \<longrightarrow> A"
  shows "held C R A E ident (handle_event a e l)"
  using assms by (cases e) (auto simp: handle_event_def held_def split: prod.splits)

lemma held_loop: "held C R A E ident l \<Longrightarrow> held C R A E ident (fst (receive_loop n changed l))"
proof (induction n changed l rule: receive_loop.induct)
  case (1 changed l)
  then show ?case by simp
next
  case (2 n changed l)
  obtain l1 e where p: "poll_client l = (l1, e)" by fastforce
  note l1 = held_poll [OF "2.prems" p]
  show ?case
  proof (cases e)
    case None
    with p l1 show ?thesis by simp
  next
    case (Some ev)
    with p obtain a c where a: "lk_auth l1 = Some (a, c)" using poll_client_auth by blast
    from l1 Some have "held C R A E ident (handle_event a ev l1)" by (blast intro: held_handle)
    with "2.IH" [OF p [symmetric] Some a] p Some a show ?thesis by simp
  qed
qed

lemma held_latest: "held C R A E ident l \<Longrightarrow> held C R A E ident (fst (receive_latest l))"
proof -
  assume h: "held C R A E ident l"
  obtain l1 changed where r: "receive_loop MAX_AUTH_EVENTS_PER_REFRESH False l = (l1, changed)"
    by fastforce
  have "held C R A E ident l1"
    using held_loop [OF h, of MAX_AUTH_EVENTS_PER_REFRESH False] r by simp
  with h r show ?thesis by (cases changed) (auto simp: receive_latest_def receive_auth_def)
qed

lemma held_deferred: "held C R A E ident l \<Longrightarrow> held C R A E ident (fst (receive_deferred l))"
  by (erule held_update) (auto simp: receive_deferred_def Let_def split: list.split)

lemma held_confirm: "held C R A E ident l \<Longrightarrow> held C R A E ident (lock_confirmed l)"
proof (cases "lk_auth l")
  case (Some p)
  assume h: "held C R A E ident l"
  let ?l = "l\<lparr>lk_confirmed := True\<rparr>"
  obtain a c where p: "lk_auth l = Some (a, c)" using Some by (cases p) simp
  have "held C R A E ident ?l" using h by simp
  from held_client [OF this begins [OF held_current [OF h p]], of a] p show ?thesis
    by (cases "client_begin c"; cases "snd (client_begin c)") (simp_all add: lock_confirmed_def)
qed (simp add: lock_confirmed_def)

lemma held_submit: "held C R A E ident l \<Longrightarrow> held C R A E ident (fst (submit_response l))"
proof (cases "lk_prompt_id l")
  case (Some i)
  assume h: "held C R A E ident l"
  obtain conv x where s: "submit (lk_conversation l) = (conv, x)" by fastforce
  let ?l = "l\<lparr>lk_prompt_id := None, lk_conversation := conv\<rparr>"
  have l: "held C R A E ident ?l" using h by simp
  show ?thesis
  proof (cases "lk_auth l")
    case None
    with Some s l show ?thesis by (auto simp: submit_response_def Let_def split: option.split)
  next
    case auth: (Some p)
    obtain a c where p: "lk_auth l = Some (a, c)" using auth by (cases p) simp
    have up: "held C R A E ident (?l\<lparr>lk_auth := Some (a, fst (respond i t c))\<rparr>)" for t
      using held_client [OF l responds [OF held_current [OF h p]]] .
    show ?thesis
    proof (cases x)
      case None
      with Some s l show ?thesis by (simp add: submit_response_def)
    next
      case att: (Some y)
      obtain q t where y: "y = (q, t)" by fastforce
      with Some s l p att up [of t] show ?thesis
        by (cases "respond i t c"; cases "snd (respond i t c)") (auto simp: submit_response_def Let_def)
    qed
  qed
qed (simp add: submit_response_def)

lemma held_input: "held C R A E ident l \<Longrightarrow> held C R A E ident (fst (lk_input l i))"
proof -
  assume h: "held C R A E ident l"
  have "held C R A E ident (fst (handle_input l i))"
  proof (cases i)
    case KSubmit
    with h held_retry held_submit show ?thesis by (simp add: handle_input_def)
  next
    case KCancel
    with h held_cancel show ?thesis by (simp add: handle_input_def)
  qed (use h in \<open>auto simp: handle_input_def split: prod.split\<close>)
  with h show ?thesis by (simp add: lk_input_def case_prod_beta)
qed

lemma held_take: "held C R A E ident l \<Longrightarrow> held C R A E ident (fst (take_authorization l))"
  by (erule held_update) (simp_all add: take_authorization_def)

lemma held_new:
  "C c \<Longrightarrow> set envs \<subseteq> E \<Longrightarrow> held C R A E ident (LockerPresentation_new ident c wp wps sched envs drawing)"
  by (simp add: held_def LockerPresentation_new_def Let_def rebuild_def)

end

sublocale client_contract \<subseteq> keeps: presentation_contract locker_ops "held C R A E ident"
  by unfold_locales (simp_all add: locker_ops_def held_latest held_deferred held_confirm
      held_input held_take)

interpretation dialogue: presentation_contract locker_ops locker_ok
  by unfold_locales
    (simp_all add: locker_ops_def locker_latest locker_deferred locker_confirm locker_input locker_take)

subsection \<open>No worker is left behind\<close>

lemma client_ok_ops:
  assumes "client_ok c"
  shows "client_ok (fst (client_begin c))" "client_ok (fst (client_retry c))"
    "client_ok (fst (respond i t c))" "client_ok (fst (try_receive c))"
proof -
  have "client_ok (fst (client_send c m))" for m
    using assms by (simp add: client_ok_def client_send_def wait_failed_def case_prod_beta split: reader.splits)
  then show "client_ok (fst (client_begin c))" "client_ok (fst (client_retry c))"
    "client_ok (fst (respond i t c))"
    using assms by (simp_all add: client_begin_def client_retry_def respond_def split: sum.split)
  show "client_ok (fst (try_receive c))"
    using assms by (simp add: client_ok_def try_receive_def wait_failed_def split: option.split list.split reader.splits)
qed

lemma started_client_ok: "start_with_worker ident path env = Some (Inr c, fate) \<Longrightarrow> client_ok c"
  by (auto simp: start_with_worker_def client_ok_def split: if_splits prod.splits sum.splits option.splits)

text \<open>What is left of a client that was cancelled: nothing that runs.\<close>

definition gone :: "client \<Rightarrow> bool" where
  "gone c \<longleftrightarrow> joined c \<and> reader_thread c = ReaderDone \<and> events c = None
     \<and> (child_reaped c \<or> wait_failed c)"

interpretation hygiene_of_clients: client_contract UNIV ident client_ok gone True
  by unfold_locales (simp_all add: client_ok_reader client_ok_ops started_client_ok gone_def cancel_joins)

text \<open>Every client that was started is the current one or a retired one.\<close>

definition in_use :: "locker \<Rightarrow> nat" where
  "in_use l = (if lk_auth l = None then 0 else 1)"

definition balanced :: "locker \<Rightarrow> bool" where
  "balanced l \<longleftrightarrow> lk_started l = length (lk_retired l) + in_use l"

lemma balanced_cong:
  "lk_started l' = lk_started l \<Longrightarrow> lk_retired l' = lk_retired l
    \<Longrightarrow> (lk_auth l' = None) = (lk_auth l = None) \<Longrightarrow> balanced l' = balanced l"
  by (simp add: balanced_def in_use_def)

lemma balanced_plain [simp]:
  "balanced (l\<lparr>lk_prompt_id := i\<rparr>) = balanced l" "balanced (l\<lparr>lk_conversation := v\<rparr>) = balanced l"
  "balanced (l\<lparr>lk_confirmed := b\<rparr>) = balanced l" "balanced (l\<lparr>instruction_page := n\<rparr>) = balanced l"
  "balanced (l\<lparr>lk_authorized := b\<rparr>) = balanced l" "balanced (l\<lparr>lk_panicked := b\<rparr>) = balanced l"
  "balanced (fail_authentication l) = balanced l" "balanced (rebuild_overlay l) = balanced l"
  "balanced (rebuild_frame l) = balanced l"
  by (rule balanced_cong; simp add: fail_authentication_def)+

lemma balanced_client: "lk_auth l \<noteq> None \<Longrightarrow> balanced (l\<lparr>lk_auth := Some x\<rparr>) = balanced l"
  by (cases "lk_auth l") (simp_all add: balanced_def in_use_def)

lemma balanced_replace: "balanced l \<Longrightarrow> balanced (replace_worker a l)"
proof -
  assume "balanced l"
  then have l0: "lk_started (without_client l) = length (lk_retired (without_client l))"
    by (auto simp: without_client_def balanced_def in_use_def split: option.split)
  obtain l1 r where st: "start_client (without_client l) = (l1, r)" by fastforce
  note l1 = start_client_keeps [OF st]
  show ?thesis
  proof (cases r)
    case (Inl e)
    with st l1 l0 show ?thesis by (simp add: replace_worker_unfold balanced_def in_use_def)
  next
    case (Inr c)
    with st l1 l0 show ?thesis
      by (cases "client_begin c"; cases "snd (client_begin c)")
        (simp_all add: replace_worker_unfold balanced_def in_use_def)
  qed
qed

lemma balanced_retry: "balanced l \<Longrightarrow> balanced (lk_retry l)"
  by (auto simp: lk_retry_def Let_def balanced_client intro!: balanced_replace
      split: prod.split option.split sum.split)

lemma balanced_cancel: "balanced l \<Longrightarrow> balanced (fst (cancel_attempt l))"
proof (cases "lk_auth l")
  case (Some p)
  assume b: "balanced l"
  obtain a c where p: "lk_auth l = Some (a, c)" using Some by (cases p) simp
  then have "balanced (drop_client c (l\<lparr>lk_auth := None, lk_conversation := conv, instruction_page := 0\<rparr>))"
    for conv using b by (simp add: balanced_def in_use_def)
  from balanced_replace [OF this] p show ?thesis by (auto simp: cancel_attempt_def split: prod.split)
qed (simp add: cancel_attempt_def)

lemma balanced_poll: "poll_client l = (l', e) \<Longrightarrow> balanced l' = balanced l"
  by (rule balanced_cong) (auto simp: poll_client_def Let_def case_prod_beta split: option.splits)

lemma balanced_handle: "balanced (handle_event a e l) = balanced l"
  by (cases e) (auto simp: handle_event_def split: prod.split)

lemma balanced_loop: "balanced l \<Longrightarrow> balanced (fst (receive_loop n changed l))"
proof (induction n changed l rule: receive_loop.induct)
  case (2 n changed l)
  obtain l1 e where p: "poll_client l = (l1, e)" by fastforce
  have l1: "balanced l1" using balanced_poll [OF p] "2.prems" by simp
  show ?case
  proof (cases e)
    case (Some ev)
    with p obtain a c where a: "lk_auth l1 = Some (a, c)" using poll_client_auth by blast
    have "balanced (handle_event a ev l1)" using l1 by (simp add: balanced_handle)
    with "2.IH" [OF p [symmetric] Some a] p Some a show ?thesis by simp
  qed (use p l1 in simp)
qed simp

lemma balanced_latest: "balanced l \<Longrightarrow> balanced (fst (receive_latest l))"
proof -
  assume b: "balanced l"
  obtain l1 changed where r: "receive_loop MAX_AUTH_EVENTS_PER_REFRESH False l = (l1, changed)"
    by fastforce
  have "balanced l1" using balanced_loop [OF b, of MAX_AUTH_EVENTS_PER_REFRESH False] r by simp
  with b r show ?thesis by (cases changed) (auto simp: receive_latest_def receive_auth_def)
qed

lemma balanced_deferred: "balanced l \<Longrightarrow> balanced (fst (receive_deferred l))"
  by (erule subst [OF balanced_cong, rotated -1]) (auto simp: receive_deferred_def Let_def split: list.split)

lemma balanced_confirm: "balanced l \<Longrightarrow> balanced (lock_confirmed l)"
  by (auto simp: lock_confirmed_def Let_def balanced_client split: option.split prod.split sum.split)

lemma balanced_submit: "balanced l \<Longrightarrow> balanced (fst (submit_response l))"
  by (auto simp: submit_response_def Let_def balanced_client split: option.split prod.split sum.split)

lemma balanced_input: "balanced l \<Longrightarrow> balanced (fst (lk_input l i))"
proof -
  assume b: "balanced l"
  have "balanced (fst (handle_input l i))"
    using b balanced_retry [OF b] balanced_submit [OF b] balanced_cancel [OF b]
    by (cases i) (auto simp: handle_input_def split: prod.split)
  with b show ?thesis by (simp add: lk_input_def case_prod_beta)
qed

lemma balanced_new: "balanced (LockerPresentation_new ident c wp wps sched envs drawing)"
  by (simp add: LockerPresentation_new_def Let_def rebuild_def balanced_def in_use_def)

interpretation tally: presentation_contract locker_ops balanced
  by unfold_locales (simp_all add: locker_ops_def balanced_latest balanced_deferred balanced_confirm
      balanced_input take_authorization_def)

subsection \<open>Where an authorization comes from\<close>

text \<open>
  A client that was started with one of the environments \<open>E\<close> for the identity, and what it handed
  out so far. Every client the locker holds has such a history, and the locker is authorized only
  if a client of this kind handed out \<open>Success\<close>.
\<close>

definition client_of ::
  "(u8 list \<times> start_env) set \<Rightarrow> identity \<Rightarrow> client \<Rightarrow> client_out list \<Rightarrow> bool" where
  "client_of E ident c outs \<longleftrightarrow>
     (\<exists>path env c0 fate ops. (path, env) \<in> E \<and> start_with_worker ident path env = Some (Inr c0, fate)
        \<and> run client_step c0 ops = (c, outs))"

definition granted_by :: "(u8 list \<times> start_env) set \<Rightarrow> identity \<Rightarrow> bool" where
  "granted_by E ident \<longleftrightarrow> (\<exists>c outs. client_of E ident c outs \<and> EvSuccess \<in> set (received_events outs))"

lemma client_of_start:
  "(path, env) \<in> E \<Longrightarrow> start_with_worker ident path env = Some (Inr c, fate) \<Longrightarrow> client_of E ident c []"
  unfolding client_of_def by (metis run.simps(1))

lemma client_of_step:
  assumes "client_of E ident c outs"
  shows "client_of E ident (fst (client_step c op)) (outs @ [snd (client_step c op)])"
proof -
  from assms obtain path env c0 fate ops where s: "(path, env) \<in> E"
    "start_with_worker ident path env = Some (Inr c0, fate)" and r: "run client_step c0 ops = (c, outs)"
    unfolding client_of_def by blast
  have "run client_step c0 (ops @ [op]) = (fst (client_step c op), outs @ [snd (client_step c op)])"
    using run_append [of client_step c0 ops "[op]"] r by (simp add: prod_eq_iff)
  with s show ?thesis unfolding client_of_def by blast
qed

lemma client_of_ops:
  assumes "client_of E ident c outs"
  shows "\<exists>outs'. client_of E ident (fst (client_begin c)) outs'"
    "\<exists>outs'. client_of E ident (fst (client_retry c)) outs'"
    "\<exists>outs'. client_of E ident (fst (respond i t c)) outs'"
  using client_of_step [OF assms, of OpBegin] client_of_step [OF assms, of OpRetry]
    client_of_step [OF assms, of "OpRespond i t"] by auto

lemma client_of_reader: "client_of E ident c outs \<Longrightarrow> \<exists>outs'. client_of E ident ((reader_step ^^ n) c) outs'"
proof (induction n)
  case (Suc n)
  then obtain outs' where "client_of E ident ((reader_step ^^ n) c) outs'" by blast
  from client_of_step [OF this, of OpReader] show ?case by auto
qed auto

lemma client_of_receive:
  assumes "client_of E ident c outs" "try_receive c = (c', e)"
  shows "\<exists>outs'. client_of E ident c' outs' \<and> (\<forall>ev. e = Some ev \<longrightarrow> ev \<in> set (received_events outs'))"
proof -
  have "client_of E ident c' (outs @ [OutEvent e])"
    using client_of_step [OF assms(1), of OpTryReceive] assms(2) by simp
  moreover have "ev \<in> set (received_events (outs @ [OutEvent e]))" if "e = Some ev" for ev
    using that by simp
  ultimately show ?thesis by blast
qed

interpretation provenance: client_contract E ident "\<lambda>c. \<exists>outs. client_of E ident c outs" "\<lambda>_. True"
    "granted_by E ident"
proof (unfold_locales, goal_cases)
  case (1 path env c fate)
  then show ?case using client_of_start by blast
next
  case (2 c)
  then obtain outs where "client_of E ident c outs" by blast
  from client_of_step [OF this, of OpReader] show ?case by auto
next
  case (6 c)
  then show ?case using client_of_receive [of E ident c _ "fst (try_receive c)" "snd (try_receive c)"] by auto
next
  case (7 c)
  then obtain outs where "client_of E ident c outs" by blast
  moreover from 7(2) have "try_receive c = (fst (try_receive c), Some EvSuccess)"
    by (simp add: prod_eq_iff)
  ultimately show ?case using client_of_receive unfolding granted_by_def by blast
qed (use client_of_ops in blast)+

section \<open>From the unlock back to PAM\<close>

text \<open>
  The environment of a started worker is real when its stream carries what a run of the worker
  process wrote, from the first byte on: the worker may be cut off anywhere, but nobody else writes
  to the private socket.
\<close>

definition from_worker ::
  "start_env \<Rightarrow> worker_environment \<Rightarrow> getpwuid \<Rightarrow> 'w pam_api \<Rightarrow> getpwnam \<Rightarrow> 'w \<Rightarrow> worker \<Rightarrow> bool" where
  "from_worker env wenv uids api nams w' k \<longleftrightarrow>
     (\<exists>w c r more. worker_run wenv uids api nams w c = Some (r, w', k)
        \<and> outbound c = [] \<and> write_faults c = []
        \<and> (\<forall>name. username_for_uid uids (getuid wenv) = Some name
              \<longrightarrow> valid_message (MReady (getuid wenv) name))
        \<and> outbound (link k) = delivered (start_stream env) @ more)"

lemma event_of_not_success [simp]: "event_of m \<noteq> EvSuccess"
  by (cases m) simp_all

lemma justified_has_success:
  assumes "justified rs ws evs" "EvSuccess \<in> set evs"
  shows "\<exists>ms rest. list_all valid_message ms \<and> delivered rs = concat (map frame ms) @ frame MSuccess @ rest
    \<and> wait_child ws = Some (Inr True)"
proof -
  from assms obtain ms rest t where h: "heard rs ms rest" "evs = map event_of ms @ t"
    "t = [] \<or> t = [EvFailure] \<or> t = [EvSuccess] \<and> (\<exists>rest'. rest = frame MSuccess @ rest')
        \<and> wait_child ws = Some (Inr True)"
    unfolding justified_def by blast
  from h(2) assms(2) have "EvSuccess \<in> set t" by (auto dest: sym)
  with h show ?thesis by (auto simp: heard_def list_all_iff)
qed

lemma client_success_stream:
  assumes "client_of E ident c outs" "EvSuccess \<in> set (received_events outs)"
  shows "\<exists>path env c0 fate ms rest. (path, env) \<in> E
    \<and> start_with_worker ident path env = Some (Inr c0, fate) \<and> wait_child (start_waits env) = Some (Inr True)
    \<and> list_all valid_message ms \<and> valid_message (MReady (id_uid ident) (id_username ident))
    \<and> delivered (start_stream env) = frame (MReady (id_uid ident) (id_username ident))
        @ concat (map frame ms) @ frame MSuccess @ rest"
proof -
  from assms(1) obtain path env c0 fate ops where s: "(path, env) \<in> E"
    "start_with_worker ident path env = Some (Inr c0, fate)" and r: "run client_step c0 ops = (c, outs)"
    unfolding client_of_def by blast
  from s(2) obtain rs where ready: "receive_with_deadline (started_at env + READY_TIMEOUT)
      (start_stream env) = Some (Inr (MReady (id_uid ident) (id_username ident)), rs)"
    and t: "tracks rs (start_waits env) [] c0" by (rule tracks_start)
  from tracks_run [OF t, of ops] r have "justified rs (start_waits env) (received_events outs)"
    by (auto simp: tracks_def dest: justified_prefix)
  from justified_has_success [OF this assms(2)] obtain ms rest where m: "list_all valid_message ms"
    "delivered rs = concat (map frame ms) @ frame MSuccess @ rest"
    "wait_child (start_waits env) = Some (Inr True)" by blast
  with receive_before_sound [OF ready [unfolded receive_with_deadline_def]] s show ?thesis
    by (intro exI [of _ path] exI [of _ env] exI [of _ c0] exI [of _ fate] exI [of _ ms] exI [of _ rest])
      simp
qed

lemma worker_stream_success:
  assumes "from_worker env wenv uids api nams w' k"
    and "delivered (start_stream env) = frame (MReady u n) @ concat (map frame ms) @ frame MSuccess @ rest"
    and "valid_message (MReady u n)" "list_all valid_message ms"
  shows "getuid wenv = u \<and> (\<exists>username ka w0 s. username_for_uid uids (getuid wenv) = Some username
    \<and> vouched api nams username (getuid wenv) w0 (new_conversation ka) w' s \<and> \<not> cancelled s
    \<and> history k = history (peer s) @ [MSuccess])"
proof -
  from assms(1) obtain w c r more where run: "worker_run wenv uids api nams w c = Some (r, w', k)"
    and ok: "outbound c = []" "write_faults c = []"
      "\<And>name. username_for_uid uids (getuid wenv) = Some name
        \<Longrightarrow> valid_message (MReady (getuid wenv) name)"
    and out: "outbound (link k) = delivered (start_stream env) @ more"
    unfolding from_worker_def by blast
  from worker_run_wire [OF run ok] have wire: "outbound (link k) = concat (map frame (history k))"
    "list_all valid_message (history k)" by simp_all
  have eq: "frame (MReady u n) @ (concat (map frame ms) @ frame MSuccess @ rest @ more)
      = concat (map frame (history k))"
    using out assms(2) wire(1) by simp
  then have "history k \<noteq> []" using frame_nonempty [OF assms(3)] by auto
  with run obtain username hs where u: "username_for_uid uids (getuid wenv) = Some username"
    and h: "history k = MReady (getuid wenv) username # hs" by (rule worker_run_announces)
  have "MReady u n = MReady (getuid wenv) username"
    using frame_split [OF assms(3) ok(3) [OF u]] eq h by fastforce
  moreover have "MSuccess \<in> set (history k)"
    using frames_split [of "MReady u n # ms" "history k" MSuccess "rest @ more"] eq assms(3,4) wire(2)
    by (simp add: valid_message_def)
  ultimately show ?thesis using worker_run_vouched [OF run] by blast
qed

section \<open>A granted authentication unlocks\<close>

lemma reader_step_appends:
  assumes "events c = Some q"
  shows "\<exists>more. events (reader_step c) = Some (q @ more)"
proof -
  show ?thesis
    using assms
    by (auto simp: reader_step_def split: reader.split option.split prod.split sum.split message.split)
qed

lemma reader_steps_append: "events c = Some q \<Longrightarrow> \<exists>more. events ((reader_step ^^ n) c) = Some (q @ more)"
proof (induction n)
  case (Suc n)
  then obtain more where "events ((reader_step ^^ n) c) = Some (q @ more)" by blast
  from reader_step_appends [OF this] show ?case by auto
qed auto

text \<open>How far the reader thread gets before the next poll.\<close>

definition reader_turns :: "locker \<Rightarrow> nat" where
  "reader_turns l = (case schedule l of [] \<Rightarrow> 0 | n # _ \<Rightarrow> n)"

lemma poll_client_queue:
  assumes "lk_auth l = Some (a, c)" "events ((reader_step ^^ reader_turns l) c) = Some (e # q)"
  shows "\<exists>c' l'. poll_client l = (l', Some e) \<and> l' = l\<lparr>lk_auth := Some (a, c'), schedule := tl (schedule l)\<rparr>
    \<and> events c' = Some q"
proof -
  have "poll_client l = (l\<lparr>lk_auth := Some (a, ((reader_step ^^ reader_turns l) c)\<lparr>events := Some q\<rparr>),
      schedule := tl (schedule l)\<rparr>, Some e)"
    using assms by (simp add: poll_client_def try_receive_def reader_turns_def [symmetric])
  moreover have "events (((reader_step ^^ reader_turns l) c)\<lparr>events := Some q\<rparr>) = Some q" by simp
  ultimately show ?thesis by blast
qed

lemma handle_event_facts:
  assumes "a = conv_attempt (lk_conversation l)"
  shows "conv_attempt (lk_conversation (handle_event a e l)) = a"
    "lk_auth (handle_event a e l) = lk_auth l"
    "lk_authorized (handle_event a e l) \<longleftrightarrow> lk_authorized l \<or> e = EvSuccess"
proof -
  have acc: "accepts (lk_conversation l) a" using assms by (simp add: accepts_def)
  have att: "conv_attempt (fst (conv_receive a r (lk_conversation l))) = a" for r
    using conv_receive_current(1) [OF assms] assms by simp
  show "conv_attempt (lk_conversation (handle_event a e l)) = a"
    using acc assms [symmetric] att by (cases e) (simp_all add: handle_event_def case_prod_beta)
  show "lk_auth (handle_event a e l) = lk_auth l"
    using acc by (cases e) (simp_all add: handle_event_def case_prod_beta)
  have "snd (conv_receive a RSuccess (lk_conversation l)) = Some EAuthenticated"
    using acc by (simp add: conv_receive_def)
  with acc show "lk_authorized (handle_event a e l) \<longleftrightarrow> lk_authorized l \<or> e = EvSuccess"
    by (cases e) (simp_all add: handle_event_def case_prod_beta)
qed

lemma receive_loop_authorized: "lk_authorized l \<Longrightarrow> lk_authorized (fst (receive_loop n changed l))"
proof (induction n changed l rule: receive_loop.induct)
  case (2 n changed l)
  obtain l1 e where p: "poll_client l = (l1, e)" by fastforce
  have l1: "lk_authorized l1" using poll_client_keeps(4) [OF p] "2.prems" by simp
  show ?case
  proof (cases e)
    case (Some ev)
    with p obtain a c where a: "lk_auth l1 = Some (a, c)" using poll_client_auth by blast
    have "lk_authorized (handle_event a ev l1)"
      using l1 by (cases ev) (auto simp: handle_event_def split: prod.split)
    with "2.IH" [OF p [symmetric] Some a] p Some a show ?thesis by simp
  qed (use p l1 in simp)
qed simp

lemma receive_loop_success:
  "lk_auth l = Some (a, c) \<Longrightarrow> a = conv_attempt (lk_conversation l)
    \<Longrightarrow> events ((reader_step ^^ reader_turns l) c) = Some (es @ EvSuccess # q) \<Longrightarrow> length es < n
    \<Longrightarrow> lk_authorized (fst (receive_loop n changed l))"
proof (induction n arbitrary: changed l c es q)
  case (Suc n)
  obtain e es' where e: "es @ EvSuccess # q = e # es'" by (cases es) auto
  obtain c' l1 where p: "poll_client l = (l1, Some e)" and c': "events c' = Some es'"
    and l1: "l1 = l\<lparr>lk_auth := Some (a, c'), schedule := tl (schedule l)\<rparr>"
    using poll_client_queue [of l a c e es'] Suc.prems(1,3) e by metis
  have a: "lk_auth l1 = Some (a, c')" "a = conv_attempt (lk_conversation l1)"
    using l1 Suc.prems(2) by simp_all
  note h = handle_event_facts [OF a(2), of e]
  have "lk_authorized (fst (receive_loop n True (handle_event a e l1)))"
  proof (cases es)
    case Nil
    then show ?thesis using e h(3) by (simp add: receive_loop_authorized)
  next
    case (Cons x xs)
    let ?l = "handle_event a e l1"
    obtain more where "events ((reader_step ^^ reader_turns ?l) c') = Some (es' @ more)"
      using reader_steps_append [OF c'] by blast
    then show ?thesis
      using Suc.IH [of ?l c' xs "q @ more" True] e h a Cons Suc.prems(4) by simp
  qed
  then show ?case using p a by simp
qed simp

lemma latest_authorizes:
  assumes "lk_confirmed l" "lk_auth l = Some (a, c)" "a = conv_attempt (lk_conversation l)"
    "events ((reader_step ^^ reader_turns l) c) = Some (es @ EvSuccess # q)"
    "length es < MAX_AUTH_EVENTS_PER_REFRESH"
  shows "lk_authorized (fst (receive_latest l))"
proof -
  obtain l1 changed where r: "receive_loop MAX_AUTH_EVENTS_PER_REFRESH False l = (l1, changed)"
    by fastforce
  have "lk_authorized l1" using receive_loop_success [OF assms(2-5), of False] r by simp
  with assms(1) r show ?thesis by (cases changed) (simp_all add: receive_latest_def receive_auth_def)
qed

text \<open>While the lock is held, reconciling the outputs cannot fail and changes no life-cycle state.\<close>

lemma refresh_authentication_state:
  "rt_state (refresh_authentication_output now rt) = rt_state rt"
  "session_lock (refresh_authentication_output now rt) = session_lock rt"
  by (simp_all add: refresh_authentication_output_def set_authentication_def Let_def split: option.split)

lemma add_surfaces_state:
  "session_lock rt \<Longrightarrow> snd (add_surfaces now outs rt) = None
    \<and> rt_state (fst (add_surfaces now outs rt)) = rt_state rt"
proof (induction outs arbitrary: rt)
  case (Cons out outs)
  have "\<exists>rt1. add_surface now out rt = Inr rt1 \<and> session_lock rt1 \<and> rt_state rt1 = rt_state rt"
    using Cons.prems by (simp add: add_surface_def Let_def refresh_authentication_state)
  with Cons.IH show ?case by fastforce
qed simp

lemma expire_state: "rt_state (expire_authentication_retirement now now' rt) = rt_state rt"
  by (simp add: expire_authentication_retirement_def set_authentication_def Let_def
      refresh_authentication_state split: option.split)

lemma granted_tick:
  assumes "lifecycle (rt_state rt) = Locked" "\<not> terminate rt" "\<not> panicked rt" "session_lock rt"
    "authorization_granted rt"
  shows "Unlocked \<in> set (wire (fst (lock_step rt (ITick env))))
    \<and> terminate (fst (lock_step rt (ITick env)))"
proof -
  obtain rt1 where r: "reconcile_outputs (at_reconcile env) rt = (rt1, None)"
    and st: "rt_state rt1 = rt_state rt"
    using add_surfaces_state [OF assms(4), of "at_reconcile env" "map fst (output_state rt)"] assms(2)
    by (cases "reconcile_outputs (at_reconcile env) rt") (auto simp: reconcile_outputs_def)
  define rt2 where "rt2 = expire_authentication_retirement (at_expiry env) (at_restore env) rt1"
  have q: "quiet rt rt2"
    using quiet_trans [OF quiet_reconcile quiet_expire] r unfolding rt2_def by (metis fst_conv)
  have p: "presentation rt2 = presentation rt" "rt_state rt2 = rt_state rt"
    using presentation_reconcile [of "at_reconcile env" rt] r st by (simp_all add: rt2_def expire_state)
  obtain rt3 priority where r3: "refresh_priority rt2 = (rt3, priority)" by fastforce
  have o: "ops rt2 = ops rt" "session_lock rt2" using q assms(4) by (auto elim: quietD)
  have rt3: "ops rt3 = ops rt" "lifecycle (rt_state rt3) = Locked" "session_lock rt3"
    "presentation rt3 = fst (p_receive_latest (ops rt) (presentation rt))"
    using r3 o p assms(1) by (auto simp: refresh_priority_def record_presentation_failure_def
        split: prod.splits if_splits)
  have g: "snd (p_take_authorization (ops rt3) (presentation rt3))"
    using assms(5) rt3 by (simp add: authorization_granted_def)
  note s = settle_authorization_cases [OF g rt3(2), of "tick_apply env"]
  have "tick env rt = settle_authorization (tick_apply env) rt3"
    using assms(2) r r3 s(3) by (simp add: tick_def rt2_def [symmetric])
  then show ?thesis using s(1,3) rt3(3) assms(3) by (simp add: lock_step_def)
qed

section \<open>Demonstration data\<close>

definition demo_wire :: reads where
  "demo_wire = [(20, Bytes demo_ready), (30, Bytes [71, 78, 75, 65, 2, 2, 0, 0, 0, 10, 0, 0, 0, 0, 0, 0, 0, 1, 1, 80]),
     (40, Bytes [71, 78, 75, 65, 2, 5, 0, 0, 0, 0])]"

definition demo_auth :: client where
  "demo_auth = demo_client\<lparr>reader_thread := Reading (tl demo_wire)\<rparr>"

definition demo_locker :: locker where
  "demo_locker = LockerPresentation_new demo_identity demo_auth None [] [4, 0] [] (\<lambda>_ _. 0)"

definition demo_session :: "locker runtime" where
  "demo_session = projr (start True True True 0 (Runtime_new locker_ops demo_locker [] None [(1, None)]))"

lemma demo_session_started:
  "started demo_session" "ops demo_session = locker_ops" "presentation demo_session = demo_locker"
proof -
  have "start True True True 0 (Runtime_new locker_ops demo_locker [] None [(1, None)])
    = Inr demo_session"
    by (simp add: demo_session_def runtime_eval)
  then show "started demo_session" unfolding started_def by blast
  show "ops demo_session = locker_ops" "presentation demo_session = demo_locker"
    by (simp_all add: demo_session_def runtime_eval)
qed

lemma demo_message_frames:
  "frame MSuccess = [71, 78, 75, 65, 2, 5, 0, 0, 0, 0]"
  "frame (MReady 1000 [97]) = demo_ready"
  "frame (MPrompt 1 True [80]) = [71, 78, 75, 65, 2, 2, 0, 0, 0, 10, 0, 0, 0, 0, 0, 0, 0, 1, 1, 80]"
  by (simp_all add: frame_def protocol_eval text_payload_def push_text_def demo_ready_def)

lemma demo_wire_started:
  "start_with_worker demo_identity [47] (demo_start_env demo_wire)
    = Some (Inr demo_auth, \<lparr>created = True, killed = False, reaped = False\<rparr>)"
proof -
  have "receive_with_deadline 2010 demo_wire = Some (Inr (MReady 1000 [97]), tl demo_wire)"
    by (simp add: demo_wire_def demo_ready_def receive_with_deadline_def receive_before_def
        decode_def protocol_eval decode_text_def from_utf8.simps(2))
  then show ?thesis
    using demo_spawn [of demo_wire]
    by (simp add: start_with_worker_def demo_start_env_def READY_TIMEOUT_def expected_ready_def
        demo_identity_def demo_client_def demo_auth_def)
qed

lemma demo_from_worker:
  "from_worker (demo_start_env demo_wire) demo_env demo_uids demo_api demo_nams ()
    (demo_worker demo_history [])"
proof -
  have "outbound (link (demo_worker demo_history [])) = delivered demo_wire @ []"
    by (simp add: demo_worker_def demo_history_def demo_message_frames demo_wire_def)
  moreover have "valid_message (MReady (getuid demo_env) name)"
    if "username_for_uid demo_uids (getuid demo_env) = Some name" for name
    using that demo_valid by (simp add: username_for_uid_def demo_uids_def demo_env_def nss_loop.simps
        next_nss_buffer_def strlen_def from_utf8.simps(2) demo_history_def)
  ultimately show ?thesis
    using demo_run unfolding from_worker_def demo_start_env_def
    by (metis demo_link_def connection.select_convs(1,2) start_env.select_convs(5))
qed

lemma demo_reads:
  "receive (tl demo_wire) = Some (Inr (MPrompt 1 True [80]), tl (tl demo_wire))"
  "receive (tl (tl demo_wire)) = Some (Inr MSuccess, [])"
  by (simp_all add: demo_wire_def receive_def receive_before_def decode_def protocol_eval
      decode_text_def from_utf8.simps(2))

lemma demo_queue:
  "events ((reader_step ^^ 4) (demo_auth\<lparr>writer := w\<rparr>)) = Some [EvPrompt 1 True [80], EvSuccess]"
  using demo_reads
  by (simp add: eval_nat_numeral demo_auth_def demo_client_def reader_step_def send_terminal_def
      child_waits_def reap_def EVENT_CAPACITY_def)

lemma demo_locked:
  defines "rt \<equiv> the_run demo_session [ILocked demo_apply]"
  shows "lifecycle (rt_state rt) = Locked" "\<not> terminate rt" "\<not> panicked rt" "session_lock rt"
    "presentation rt = lock_confirmed demo_locker" "ops rt = locker_ops"
  by (simp_all add: rt_def the_run_def demo_session_def runtime_eval demo_apply_def locker_ops_def)

lemma demo_begins:
  "\<exists>w. write_faults w = []
    \<and> lk_auth (lock_confirmed demo_locker) = Some (conv_attempt Conversation_new, demo_auth\<lparr>writer := w\<rparr>)
    \<and> conv_attempt (lk_conversation (lock_confirmed demo_locker)) = conv_attempt Conversation_new
    \<and> lk_confirmed (lock_confirmed demo_locker) \<and> schedule (lock_confirmed demo_locker) = [4, 0]"
proof -
  have "send (writer demo_auth) MBegin = (Inr (), (writer demo_auth)\<lparr>outbound := frame MBegin\<rparr>)"
    by (simp add: demo_auth_def demo_client_def send_def write_all_def protocol_eval frame_def)
  then have b: "client_begin demo_auth = (demo_auth\<lparr>writer := (writer demo_auth)\<lparr>outbound := frame MBegin\<rparr>\<rparr>, Inr ())"
    by (simp add: client_begin_def client_send_def)
  have sch: "schedule (rebuild_overlay l) = schedule l" for l
    by (simp add: rebuild_overlay_def rebuild_frame_def split: option.split prod.split)
  show ?thesis
    using b sch by (auto simp: lock_confirmed_def demo_locker_def LockerPresentation_new_def rebuild_def
      demo_auth_def demo_client_def)
qed

lemma demo_granted: "authorization_granted (the_run demo_session [ILocked demo_apply])"
proof -
  obtain w where "lk_auth (lock_confirmed demo_locker)
      = Some (conv_attempt Conversation_new, demo_auth\<lparr>writer := w\<rparr>)"
    and l: "conv_attempt (lk_conversation (lock_confirmed demo_locker)) = conv_attempt Conversation_new"
      "lk_confirmed (lock_confirmed demo_locker)" "reader_turns (lock_confirmed demo_locker) = 4"
    using demo_begins by (auto simp: reader_turns_def)
  from latest_authorizes [OF l(2) this(1) l(1) [symmetric], of "[EvPrompt 1 True [80]]" "[]"] l(3)
  show ?thesis
    by (simp add: authorization_granted_def demo_locked locker_ops_def take_authorization_def
        demo_queue MAX_AUTH_EVENTS_PER_REFRESH_def)
qed

lemma demo_session_unlocks:
  "Unlocked \<in> set (wire (the_run demo_session [ILocked demo_apply, ITick demo_tick]))"
  using granted_tick [OF demo_locked(1-4) demo_granted, of demo_tick]
    the_run_snoc [of demo_session "[ILocked demo_apply]" "ITick demo_tick"] by simp

lemma demo_retires:
  "\<exists>c. lk_retired (presentation (the_run demo_session [ILocked demo_apply, IKey KeyEscape None])) = [c]
    \<and> \<not> wait_failed c"
proof -
  let ?l = "lock_confirmed demo_locker"
  obtain w a where w: "lk_auth ?l = Some (a, demo_auth\<lparr>writer := w\<rparr>)" "lk_confirmed ?l"
    using demo_begins by auto
  have l: "workers ?l = []" "lk_retired ?l = []"
    by (simp_all add: lock_confirmed_def demo_locker_def LockerPresentation_new_def rebuild_def Let_def
        fail_authentication_def split: option.split prod.split sum.split)
  have "fst (lk_input ?l KCancel) = rebuild_overlay (fst (cancel_attempt ?l))"
    using w by (simp add: lk_input_def authentication_input_enabled_def handle_input_def
        cancel_attempt_def case_prod_beta)
  moreover have "lk_retired (fst (cancel_attempt ?l)) = [cancel (demo_auth\<lparr>writer := w\<rparr>)]"
    using w l by (simp add: cancel_attempt_def replace_worker_def start_client_def case_prod_beta)
  moreover have "presentation (the_run demo_session [ILocked demo_apply, IKey KeyEscape None])
      = fst (lk_input ?l KCancel)"
    using the_run_snoc [of demo_session "[ILocked demo_apply]" "IKey KeyEscape None"] demo_locked
      presentation_simple(6)
    by (simp add: lock_step_def handle_key_def key_input_of_def locker_ops_def case_prod_beta Let_def)
  moreover have "waits (cancel (demo_auth\<lparr>writer := w\<rparr>)) = [ExitStatus 0]"
    by (simp add: cancel_def join_reader_def shut_down_def Let_def demo_auth_def demo_client_def
        del: funpow.simps)
  ultimately show ?thesis by (simp add: wait_failed_def)
qed

section \<open>Properties\<close>

text \<open>
  C16. The user is never stuck in front of a dead prompt: in every run of the session from a fresh
  locker, the worker that is asked belongs to the current attempt, and when there is none the
  dialogue has failed and can be retried; while a response is awaited its prompt's identifier is
  known; before the compositor confirmed the lock nothing is prompted or authorized; and a complete
  frame is always there to be shown.
\<close>

theorem dialogue_holds:
  assumes "ops rt = locker_ops" "presentation rt = LockerPresentation_new ident c wp wps sched envs drawing"
    and "pred_option frame_ok wp" "list_all (\<lambda>(_, fr). pred_option frame_ok fr) wps"
  shows "let l = presentation (the_run rt ins) in (case lk_auth l of None \<Rightarrow> conv_status (lk_conversation l) = Failed
      | Some (a, _) \<Rightarrow> a = conv_attempt (lk_conversation l))
    \<and> (conv_status (lk_conversation l) = Waiting \<longrightarrow> lk_prompt_id l \<noteq> None)
    \<and> (\<not> lk_confirmed l \<longrightarrow> lk_prompt_id l = None \<and> \<not> lk_authorized l)
    \<and> \<not> lk_panicked l \<and> (\<exists>fr. lk_frame l = Some fr \<and> presentation_ok fr)"
proof -
  have "locker_ok (presentation rt)" unfolding assms(2) by (rule locker_new [OF assms(3,4)])
  with assms(1) have "locker_ok (presentation (the_run rt ins))" using dialogue.P_run by blast
  then show ?thesis by (auto simp: Let_def locker_ok_def dialogue_ok_def frames_ok_def)
qed

theorem dialogue_holds_witness:
  "\<exists>fr. lk_frame (presentation (the_run demo_session [ILocked demo_apply])) = Some fr"
  using dialogue_holds [OF demo_session_started(2)
      demo_session_started(3) [unfolded demo_locker_def], of "[ILocked demo_apply]"] by (auto simp: Let_def)

text \<open>
  C13. No worker outlives its use: in every run of the session, each client that was ever started is
  the one in use or one of those the locker gave up, on retry, on cancellation or because it could
  not start its attempt; and of those given up nothing runs any more: the event queue is gone, the
  reader thread has ended and was joined, and the worker process was reaped, unless \<open>waitpid\<close> failed.
\<close>

theorem retired_workers_gone:
  assumes "ops rt = locker_ops" "presentation rt = LockerPresentation_new ident c wp wps sched envs drawing"
    and "start_with_worker ident path env = Some (Inr c, fate)"
  shows "let l = presentation (the_run rt ins) in
    lk_started l = length (lk_retired l) + (if lk_auth l = None then 0 else 1)
    \<and> list_all (\<lambda>c. joined c \<and> reader_thread c = ReaderDone \<and> events c = None
        \<and> (child_reaped c \<or> wait_failed c)) (lk_retired l)"
proof -
  let ?held = "held client_ok gone True UNIV ident"
  have "?held (presentation rt)" unfolding assms(2)
    using hygiene_of_clients.held_new [OF started_client_ok [OF assms(3)]] by simp
  with assms(1) have "?held (presentation (the_run rt ins))"
    using hygiene_of_clients.keeps.P_run by blast
  moreover have "balanced (presentation (the_run rt ins))"
    using tally.P_run [OF assms(1)] balanced_new unfolding assms(2) by blast
  ultimately show ?thesis
    by (simp add: Let_def held_def balanced_def in_use_def gone_def list_all_iff)
qed

theorem retired_workers_gone_witness:
  "\<exists>c. lk_retired (presentation (the_run demo_session [ILocked demo_apply, IKey KeyEscape None])) = [c]
    \<and> joined c \<and> child_reaped c"
  using retired_workers_gone [OF demo_session_started(2) demo_session_started(3) [unfolded demo_locker_def]
      demo_wire_started, of "[ILocked demo_apply, IKey KeyEscape None]"] demo_retires
  by (auto simp: Let_def)

text \<open>
  C3. From the unlock back to PAM: let the workers the session may start be numbered, the first one
  being the one it starts with, and suppose the \<open>i\<close>-th speaks over its own private socket (what is
  read there is a prefix of what a run of the worker program wrote, in the environment \<open>wenv i\<close>,
  ending with the PAM state \<open>wend i\<close> and the process state \<open>wk i\<close>). Whatever the compositor, the user
  and the system do, if the session is unlocked then the locker started one of these workers, the
  \<open>i\<close>-th; this very worker runs as the identity's uid, its run completed a PAM transaction for the
  account of that uid, not cancelled, with \<open>Success\<close> as its last message, and it exited with status
  zero.
\<close>

theorem unlock_vouched:
  assumes "started rt" "ops rt = locker_ops"
    and "presentation rt = LockerPresentation_new ident c wp wps sched envs drawing"
    and "start_with_worker ident path0 env0 = Some (Inr c, fate)"
    and "\<And>i. i < length ((path0, env0) # envs)
      \<Longrightarrow> from_worker (snd (((path0, env0) # envs) ! i)) (wenv i) uids api nams (wend i) (wk i)"
    and "Unlocked \<in> set (wire (the_run rt ins))"
  shows "\<exists>i path env c' fate'. i < length ((path0, env0) # envs) \<and> ((path0, env0) # envs) ! i = (path, env)
    \<and> start_with_worker ident path env = Some (Inr c', fate') \<and> wait_child (start_waits env) = Some (Inr True)
    \<and> getuid (wenv i) = id_uid ident
    \<and> (\<exists>username ka w0 s. username_for_uid uids (id_uid ident) = Some username
        \<and> vouched api nams username (id_uid ident) w0 (new_conversation ka) (wend i) s
        \<and> \<not> cancelled s \<and> history (wk i) = history (peer s) @ [MSuccess])"
proof -
  let ?es = "(path0, env0) # envs"
  let ?E = "set ?es"
  let ?held = "held (\<lambda>c. \<exists>outs. client_of ?E ident c outs) (\<lambda>_. True) (granted_by ?E ident) ?E ident"
  have "\<exists>outs. client_of ?E ident c outs" using client_of_start [of path0 env0 ?E] assms(4) by auto
  then have "?held (presentation rt)" unfolding assms(3)
    using provenance.held_new [of ?E ident c envs] by (simp add: subset_insertI)
  from unlock_authorized [OF assms(1,6)] obtain pre where
    g: "authorization_granted (the_run rt pre)" by blast
  from provenance.keeps.P_run [OF assms(2) \<open>?held (presentation rt)\<close>, of pre]
  have pre: "?held (presentation (the_run rt pre))" "ops (the_run rt pre) = locker_ops" by blast+
  have "lk_authorized (fst (receive_latest (presentation (the_run rt pre))))"
    using g pre(2) by (simp add: authorization_granted_def locker_ops_def take_authorization_def)
  with provenance.held_latest [OF pre(1)] have "granted_by ?E ident" unfolding held_def by blast
  then obtain c' outs where "client_of ?E ident c' outs" "EvSuccess \<in> set (received_events outs)"
    unfolding granted_by_def by blast
  from client_success_stream [OF this] obtain path env c0 fate' ms rest where pe: "(path, env) \<in> ?E"
    and st: "start_with_worker ident path env = Some (Inr c0, fate')" "wait_child (start_waits env) = Some (Inr True)"
    and ms: "list_all valid_message ms" "valid_message (MReady (id_uid ident) (id_username ident))"
    "delivered (start_stream env) = frame (MReady (id_uid ident) (id_username ident))
        @ concat (map frame ms) @ frame MSuccess @ rest" by blast
  from pe obtain i where i: "i < length ?es" "?es ! i = (path, env)" by (metis in_set_conv_nth)
  have "from_worker env (wenv i) uids api nams (wend i) (wk i)" using assms(5) [OF i(1)] i(2) by simp
  from worker_stream_success [OF this ms(3,2,1)] i st show ?thesis by metis
qed

theorem unlock_vouched_witness:
  "getuid demo_env = 1000
    \<and> (\<exists>username ka w0 s. username_for_uid demo_uids 1000 = Some username
        \<and> vouched demo_api demo_nams username 1000 w0 (new_conversation ka) () s \<and> \<not> cancelled s
        \<and> demo_history = history (peer s) @ [MSuccess])"
proof -
  have h: "history (demo_worker demo_history []) = demo_history" by (simp add: demo_worker_def)
  let ?es = "([47 :: u8], demo_start_env demo_wire) # []"
  have w: "from_worker (snd (?es ! i)) demo_env demo_uids demo_api demo_nams ()
      (demo_worker demo_history [])" if "i < length ?es" for i
    using that demo_from_worker by simp
  have "\<exists>i path env c' fate'. i < length ?es \<and> ?es ! i = (path, env)
    \<and> start_with_worker demo_identity path env = Some (Inr c', fate')
    \<and> wait_child (start_waits env) = Some (Inr True) \<and> getuid demo_env = id_uid demo_identity
    \<and> (\<exists>username ka w0 s. username_for_uid demo_uids (id_uid demo_identity) = Some username
        \<and> vouched demo_api demo_nams username (id_uid demo_identity) w0 (new_conversation ka) () s
        \<and> \<not> cancelled s \<and> history (demo_worker demo_history []) = history (peer s) @ [MSuccess])"
    by (rule unlock_vouched [where wenv = "\<lambda>_. demo_env" and wend = "\<lambda>_. ()"
        and wk = "\<lambda>_. demo_worker demo_history []", OF demo_session_started(1,2)
        demo_session_started(3) [unfolded demo_locker_def] demo_wire_started _ demo_session_unlocks]) (rule w)
  then show ?thesis unfolding h demo_identity_def by auto
qed

text \<open>
  C10. A correct password unlocks: in any state a run of the session reaches in which the lock is
  held and confirmed, if the worker's \<open>Success\<close> is among the first 32 events the next poll finds,
  the next iteration of the event loop releases the lock and ends.
\<close>

theorem success_unlocks:
  assumes "ops rt0 = locker_ops" "presentation rt0 = LockerPresentation_new ident c0 wp wps sched envs drawing"
    and "pred_option frame_ok wp" "list_all (\<lambda>(_, fr). pred_option frame_ok fr) wps"
    and "rt = the_run rt0 ins" "lifecycle (rt_state rt) = Locked" "\<not> terminate rt" "\<not> panicked rt" "session_lock rt"
    and "lk_confirmed (presentation rt)" "lk_auth (presentation rt) = Some (a, c)"
    and "events ((reader_step ^^ reader_turns (presentation rt)) c) = Some (es @ EvSuccess # q)" "length es < 32"
  shows "Unlocked \<in> set (wire (the_run rt0 (ins @ [ITick env]))) \<and> terminate (the_run rt0 (ins @ [ITick env]))"
proof -
  have "locker_ok (presentation rt0)" unfolding assms(2) by (rule locker_new [OF assms(3,4)])
  with assms(1) have ok: "locker_ok (presentation rt)" "ops rt = locker_ops"
    unfolding assms(5) using dialogue.P_run by blast+
  then have "a = conv_attempt (lk_conversation (presentation rt))"
    using assms(11) by (simp add: locker_ok_def dialogue_ok_def)
  from latest_authorizes [OF assms(10,11) this assms(12)] assms(13)
  have "lk_authorized (fst (receive_latest (presentation rt)))"
    by (simp add: MAX_AUTH_EVENTS_PER_REFRESH_def)
  then have "authorization_granted rt"
    using ok by (simp add: authorization_granted_def locker_ops_def take_authorization_def)
  from granted_tick [OF assms(6-9) this] show ?thesis by (simp add: the_run_snoc assms(5))
qed

theorem success_unlocks_witness:
  "terminate (the_run demo_session ([ILocked demo_apply] @ [ITick demo_tick]))"
proof -
  obtain w where "lk_auth (lock_confirmed demo_locker)
      = Some (conv_attempt Conversation_new, demo_auth\<lparr>writer := w\<rparr>)"
    and l: "lk_confirmed (lock_confirmed demo_locker)" "reader_turns (lock_confirmed demo_locker) = 4"
    using demo_begins by (auto simp: reader_turns_def)
  then show ?thesis
    using success_unlocks [OF demo_session_started(2) demo_session_started(3) [unfolded demo_locker_def]
        _ _ refl, of "[ILocked demo_apply]" _ _ "[EvPrompt 1 True [80]]" "[]" demo_tick] demo_locked
    by (simp add: demo_queue)
qed

text \<open>
  C15. An answer reaches exactly its prompt: pressing return while a response is awaited writes one
  response frame with the prompt's identifier and the typed text to the worker, forgets the text and
  the identifier, and pressing it again sends nothing.
\<close>

theorem submit_answers_prompt:
  assumes "locker_ok l" "lk_confirmed l" "conv_status (lk_conversation l) = Waiting"
    and "lk_auth l = Some (a, c)" "write_faults (writer c) = []"
    and "0 \<notin> set (utf8 (input (lk_conversation l)))"
  shows "\<exists>i c' l'. lk_prompt_id l = Some i \<and> lk_input l KSubmit = (l', True)
    \<and> lk_auth l' = Some (a, c')
    \<and> outbound (writer c') = outbound (writer c)
        @ frame (MResponse i (Secret (utf8 (input (lk_conversation l)))))
    \<and> conv_status (lk_conversation l') = Submitting \<and> input (lk_conversation l') = []
    \<and> lk_prompt_id l' = None \<and> lk_input l' KSubmit = (l', False)"
proof -
  let ?t = "input (lk_conversation l)"
  obtain i where i: "lk_prompt_id l = Some i" and att: "a = conv_attempt (lk_conversation l)"
    and conv: "conv_ok (lk_conversation l)"
    using assms(1,3,4) by (auto simp: locker_ok_def dialogue_ok_def)
  have len: "length (utf8 ?t) \<le> MAX_RESPONSE_BYTES"
    using conv by (simp add: conv_ok_def MAX_INPUT_BYTES_def MAX_TEXT_CHARS_def MAX_RESPONSE_BYTES_def)
  then have "valid_message (MResponse i (Secret (utf8 ?t)))"
    using assms(6) by (simp add: valid_message_def)
  from send_healthy [OF assms(5) this] have r: "respond i ?t c = (c\<lparr>writer := (writer c)\<lparr>outbound :=
      outbound (writer c) @ frame (MResponse i (Secret (utf8 ?t)))\<rparr>\<rparr>, Inr ())"
    using len assms(6) by (simp add: respond_def Secret_new_def client_send_def)
  let ?l = "l\<lparr>lk_prompt_id := None, lk_conversation := fst (submit (lk_conversation l)),
    lk_auth := Some (a, fst (respond i ?t c))\<rparr>"
  have s: "submit_response l = (?l, True)"
    using i r att assms(3,4) by (simp add: submit_response_def submit_def)
  then have "lk_input l KSubmit = (rebuild_overlay ?l, True)"
    using assms(2,3) by (simp add: lk_input_def handle_input_def authentication_input_enabled_def)
  moreover have "lk_input (rebuild_overlay ?l) KSubmit = (rebuild_overlay ?l, False)"
    using assms(2,3) by (simp add: lk_input_def handle_input_def authentication_input_enabled_def
        submit_response_def submit_def)
  ultimately show ?thesis using i r assms(3) by (auto simp: submit_def)
qed

definition demo_waiting :: locker where
  "demo_waiting = (lock_confirmed demo_locker)\<lparr>lk_prompt_id := Some 7,
     lk_conversation := (lk_conversation (lock_confirmed demo_locker))\<lparr>conv_status := Waiting,
       input := [112]\<rparr>\<rparr>"

theorem submit_answers_prompt_witness: "\<exists>l'. lk_input demo_waiting KSubmit = (l', True) \<and> lk_prompt_id l' = None"
proof -
  have "locker_ok (lock_confirmed demo_locker)"
    unfolding demo_locker_def by (rule locker_confirm [OF locker_new]) simp_all
  moreover obtain w where w: "lk_auth demo_waiting
      = Some (conv_attempt Conversation_new, demo_auth\<lparr>writer := w\<rparr>)" "write_faults w = []"
    and l: "lk_confirmed demo_waiting"
    using demo_begins by (auto simp: demo_waiting_def)
  ultimately have "locker_ok demo_waiting"
    by (auto simp: demo_waiting_def locker_ok_def dialogue_ok_def conv_ok_def MAX_TEXT_CHARS_def
        MAX_INPUT_BYTES_def utf8_char_def split: option.splits)
  from submit_answers_prompt [OF this l _ w(1)] w(2) show ?thesis
    by (auto simp: demo_waiting_def utf8_char_def)
qed

end
