(* ===== verification/Accounts.thy ===== *)
theory Accounts
  imports Conversation "HOL-Library.Product_Lexorder" "HOL-Library.Multiset"
begin

text \<open>
  Login accounts (\<open>src/accounts.rs\<close>): which users the greeter offers, how they are shown, and
  which one it starts with. The D-Bus calls to AccountsService are the arguments of
  \<open>collect_accounts\<close>; the Unicode general category of a character (crate
  \<open>unicode-general-category\<close>) is the parameter \<open>is_format\<close>.
\<close>

section \<open>Model\<close>

definition MAX_LABEL_CHARS :: nat where "MAX_LABEL_CHARS = 80"

record account =
  username :: ustring
  display_name :: ustring
  last_login :: "int option"

record properties =
  pr_username :: ustring
  pr_real_name :: ustring
  pr_system_account :: bool
  pr_locked :: bool
  pr_last_login :: "int option"

definition valid_username :: "(uchar \<Rightarrow> bool) \<Rightarrow> ustring \<Rightarrow> bool" where
  "valid_username is_format name \<longleftrightarrow>
     name \<noteq> [] \<and> length name \<le> 256
     \<and> \<not> list_ex (\<lambda>c. is_control c \<or> is_whitespace c \<or> is_format c) name"

text \<open>\<open>str::split_whitespace\<close>: the maximal runs of characters that are not whitespace.\<close>

function split_whitespace :: "ustring \<Rightarrow> ustring list" where
  "split_whitespace [] = []"
| "split_whitespace (c # s) =
     (if is_whitespace c then split_whitespace s
      else (c # takeWhile (\<lambda>c. \<not> is_whitespace c) s)
        # split_whitespace (dropWhile (\<lambda>c. \<not> is_whitespace c) s))"
  by pat_completeness auto
termination
  by (relation "measure length") (auto simp: le_imp_less_Suc length_dropWhile_le)

definition presentation_label :: "(uchar \<Rightarrow> bool) \<Rightarrow> ustring \<Rightarrow> ustring option" where
  "presentation_label is_format value =
     (let chars = concat (map (\<lambda>word. word @ [32]) (split_whitespace value));
          label = take MAX_LABEL_CHARS (filter (\<lambda>c. \<not> is_control c \<and> \<not> is_format c) chars);
          label = trim_end_matches is_whitespace label
      in if label \<noteq> [] then Some label else None)"

definition override_account ::
  "(uchar \<Rightarrow> bool) \<Rightarrow> ustring \<Rightarrow> ustring option \<Rightarrow> account" where
  "override_account is_format name display =
     \<lparr>username = name,
      display_name =
        (case presentation_label is_format (case display of None \<Rightarrow> name | Some d \<Rightarrow> d) of
           None \<Rightarrow> name | Some label \<Rightarrow> label),
      last_login = None\<rparr>"

definition from_properties :: "(uchar \<Rightarrow> bool) \<Rightarrow> properties \<Rightarrow> account option" where
  "from_properties is_format p =
     (if pr_system_account p \<or> pr_locked p \<or> \<not> valid_username is_format (pr_username p) then None
      else
        Some \<lparr>username = pr_username p,
              display_name =
                (if pr_real_name p = [] then pr_username p
                 else (case presentation_label is_format (pr_real_name p) of
                         None \<Rightarrow> pr_username p | Some label \<Rightarrow> label)),
              last_login =
                (case pr_last_login p of
                   Some t \<Rightarrow> if t > 0 then Some t else None | None \<Rightarrow> None)\<rparr>)"

definition preferred_account :: "account list \<Rightarrow> account option" where
  "preferred_account accounts =
     (if length accounts = 1 then Some (hd accounts)
      else if list_ex (\<lambda>a. last_login a = None) accounts then None
      else
        (case List.map_filter last_login accounts of
           [] \<Rightarrow> None
         | t # ts \<Rightarrow>
             (let latest = foldl max t ts in
              case filter (\<lambda>a. last_login a = Some latest) accounts of
                [a] \<Rightarrow> Some a
              | _ \<Rightarrow> None)))"

text \<open>Rust compares strings by their bytes.\<close>

definition collect_accounts ::
  "(uchar \<Rightarrow> bool) \<Rightarrow> ('e + properties) list \<Rightarrow> 'e + account list" where
  "collect_accounts is_format results =
     (let accounts = List.map_filter
            (\<lambda>r. case r of Inl _ \<Rightarrow> None | Inr p \<Rightarrow> from_properties is_format p) results;
          first_error = find (\<lambda>r. \<not> is_ok r) results
      in case (accounts, first_error) of
           ([], Some (Inl e)) \<Rightarrow> Inl e
         | _ \<Rightarrow> Inr (sort_key (\<lambda>a. (utf8 (display_name a), utf8 (username a))) accounts))"

text \<open>How an account is written (\<open>Display\<close>).\<close>

definition account_text :: "account \<Rightarrow> ustring" where
  "account_text a =
     (if display_name a = username a then username a
      else display_name a @ lit '' ('' @ username a @ lit '')'')"

section \<open>Labels\<close>

lemma length_trim_end: "length (trim_end_matches P s) \<le> length s"
  using length_dropWhile_le [of P "rev s"] by (simp add: trim_end_matches_def)

lemma set_trim_end: "set (trim_end_matches P s) \<subseteq> set s"
  using set_dropWhileD by (fastforce simp: trim_end_matches_def)

lemma presentation_label_bounds:
  assumes "presentation_label is_format v = Some label"
  shows "label \<noteq> [] \<and> length label \<le> MAX_LABEL_CHARS
    \<and> list_all (\<lambda>c. \<not> is_control c \<and> \<not> is_format c) label"
proof -
  let ?l = "take MAX_LABEL_CHARS (filter (\<lambda>c. \<not> is_control c \<and> \<not> is_format c)
    (concat (map (\<lambda>word. word @ [32]) (split_whitespace v))))"
  have l: "label = trim_end_matches is_whitespace ?l" "label \<noteq> []"
    using assms by (auto simp: presentation_label_def Let_def split: if_splits)
  have "length label \<le> MAX_LABEL_CHARS"
    unfolding l(1) by (rule order_trans [OF length_trim_end]) simp
  moreover have "set label \<subseteq> set ?l" unfolding l(1) by (rule set_trim_end)
  ultimately show ?thesis using l(2) by (auto simp: list_all_iff dest!: subsetD in_set_takeD)
qed

section \<open>The preferred account\<close>

lemma foldl_max_insert: "foldl max (max x t) ts = max x (foldl max t ts)" for x :: "'a :: linorder"
  by (induction ts arbitrary: t) (simp_all add: max.assoc)

lemma foldl_max_list: "foldl max (t :: int) ts = Max (set (t # ts))"
proof (induction ts arbitrary: t)
  case (Cons u ts)
  have "foldl max t (u # ts) = max t (foldl max u ts)" using foldl_max_insert [of t u ts] by simp
  with Cons show ?case by simp
qed simp

lemma Max_above_iff: "finite S \<Longrightarrow> x \<in> S \<Longrightarrow> x = Max S \<longleftrightarrow> (\<forall>y \<in> S. y \<le> x)" for x :: "'a :: linorder"
  by (auto intro: Max_eqI [symmetric])

lemma filter_is_single: "filter P xs = [a] \<longleftrightarrow> P a \<and> (\<exists>R. mset xs = add_mset a R \<and> (\<forall>b \<in># R. \<not> P b))"
proof -
  have "filter P xs = [a] \<longleftrightarrow> mset (filter P xs) = {#a#}" by (simp only: mset_single_iff)
  also have "\<dots> \<longleftrightarrow> filter_mset P (mset xs) = {#a#}" by (simp only: mset_filter)
  also have "\<dots> \<longleftrightarrow> P a \<and> (\<exists>R. mset xs = add_mset a R \<and> (\<forall>b \<in># R. \<not> P b))"
  proof
    assume f: "filter_mset P (mset xs) = {#a#}"
    then have "a \<in># filter_mset P (mset xs)" by simp
    then have a: "P a" "a \<in># mset xs" by auto
    from a(2) obtain R where R: "mset xs = add_mset a R" by (rule mset_add)
    with f a(1) have "filter_mset P R = {#}" by simp
    with a R show "P a \<and> (\<exists>R. mset xs = add_mset a R \<and> (\<forall>b \<in># R. \<not> P b))"
      by auto
  next
    assume "P a \<and> (\<exists>R. mset xs = add_mset a R \<and> (\<forall>b \<in># R. \<not> P b))"
    then show "filter_mset P (mset xs) = {#a#}" by auto
  qed
  finally show ?thesis .
qed

lemma logins_listed:
  "\<forall>a \<in> set xs. last_login a \<noteq> None \<Longrightarrow> List.map_filter last_login xs = map (\<lambda>a. the (last_login a)) xs"
  by (induction xs) auto

lemma preferred_cases:
  assumes "length xs \<noteq> 1"
  shows "preferred_account xs = Some a \<longleftrightarrow>
    (\<forall>b \<in> set xs. last_login b \<noteq> None)
    \<and> (\<exists>R. mset xs = add_mset a R \<and> (\<forall>b \<in># R. the (last_login b) < the (last_login a)))"
proof (cases "(\<forall>b \<in> set xs. last_login b \<noteq> None) \<and> xs \<noteq> []")
  case False
  then show ?thesis using assms
    by (auto simp: preferred_account_def list_ex_iff)
next
  case True
  let ?login = "\<lambda>a. the (last_login a)"
  let ?M = "Max (?login ` set xs)"
  have l: "List.map_filter last_login xs = map ?login xs" using True logins_listed by blast
  obtain t ts where t: "map ?login xs = t # ts" using True by (cases "map ?login xs") auto
  then have "set (t # ts) = ?login ` set xs" by (metis set_map)
  then have m: "foldl max t ts = ?M" using foldl_max_list [of t ts] by simp
  have none: "\<not> list_ex (\<lambda>a. last_login a = None) xs" using True by (simp add: list_ex_iff)
  have one: "(case ys of [a] \<Rightarrow> Some a | _ \<Rightarrow> None) = Some a \<longleftrightarrow> ys = [a]" for ys :: "account list"
    by (auto split: list.splits)
  have "preferred_account xs = Some a \<longleftrightarrow> filter (\<lambda>a. last_login a = Some ?M) xs = [a]"
    using assms none l t m one by (simp add: preferred_account_def)
  also have "\<dots> \<longleftrightarrow> (\<exists>R. mset xs = add_mset a R \<and> last_login a = Some ?M \<and> (\<forall>b \<in># R. last_login b \<noteq> Some ?M))"
    by (auto simp: filter_is_single)
  also have "\<dots> \<longleftrightarrow> (\<exists>R. mset xs = add_mset a R \<and> (\<forall>b \<in># R. ?login b < ?login a))"
  proof -
    have "last_login a = Some ?M \<and> (\<forall>b \<in># R. last_login b \<noteq> Some ?M) \<longleftrightarrow> (\<forall>b \<in># R. ?login b < ?login a)"
      if R: "mset xs = add_mset a R" for R
    proof -
      have s: "set xs = insert a (set_mset R)" using R by (metis set_mset_add_mset_insert set_mset_mset)
      have eq: "last_login b = Some ?M \<longleftrightarrow> ?login b = ?M" if "b \<in> set xs" for b
        using True that by auto
      have "?login a = ?M \<longleftrightarrow> (\<forall>b \<in># R. ?login b \<le> ?login a)"
        using Max_above_iff [of "?login ` set xs" "?login a"] s by auto
      then show ?thesis using eq s by (auto simp: order_le_less)
    qed
    then show ?thesis by blast
  qed
  finally show ?thesis using True by simp
qed

section \<open>Property\<close>

text \<open>
  Which user the greeter starts with: the only account, or, when every account has logged in
  before, the one that logged in strictly later than all others. Otherwise the user is asked. The
  order in which AccountsService lists the accounts plays no role.
\<close>

theorem preferred_account_spec:
  "preferred_account xs = Some a \<longleftrightarrow>
    xs = [a] \<or> length xs \<noteq> 1 \<and> (\<forall>b \<in># mset xs. last_login b \<noteq> None)
      \<and> (\<exists>others. mset xs = add_mset a others
          \<and> (\<forall>b \<in># others. the (last_login b) < the (last_login a)))"
proof (cases "length xs = 1")
  case True
  then show ?thesis by (cases xs) (auto simp: preferred_account_def)
next
  case False
  then show ?thesis using preferred_cases [OF False, of a] by auto
qed

definition demo_account :: "ustring \<Rightarrow> int option \<Rightarrow> account" where
  "demo_account name t = \<lparr>username = name, display_name = name, last_login = t\<rparr>"

theorem preferred_account_spec_witness:
  "preferred_account [demo_account [97] (Some 5), demo_account [98] (Some 9)] = Some (demo_account [98] (Some 9))"
  unfolding preferred_account_spec
  by (auto simp: demo_account_def intro!: exI [of _ "{#demo_account [97] (Some 5)#}"])

end
