(* ===== verification/Identity_Lookup.thy ===== *)
theory Identity_Lookup
  imports Accounts Locker_Client
begin

text \<open>
  Whose session is locked (\<open>src/locker/identity.rs\<close>): the account of the process's real uid, read
  through NSS with a growing buffer. \<open>getpwuid_r\<close> is a parameter: what it answers for the uid at
  each buffer size. A C string is modelled by the bytes before its NUL.
\<close>

section \<open>Model\<close>

definition INITIAL_BUFFER_SIZE :: nat where "INITIAL_BUFFER_SIZE = 1024"
definition MAX_BUFFER_SIZE :: nat where "MAX_BUFFER_SIZE = 1024 * 1024"

record passwd =
  pw_name :: "u8 list option"
  pw_gecos :: "u8 list option"

datatype identity_error = NotFound | InvalidIdentity | SystemError int

type_synonym passwd_lookup = "u32 \<Rightarrow> nat \<Rightarrow> int \<times> passwd option"

definition ERANGE_STATUS :: int where "ERANGE_STATUS = 34"

definition copy_string :: "u8 list option \<Rightarrow> identity_error + ustring" where
  "copy_string value =
     (case value of
        None \<Rightarrow> Inl InvalidIdentity
      | Some bytes \<Rightarrow> ok_or (from_utf8 bytes) InvalidIdentity)"

definition entry_identity :: "(uchar \<Rightarrow> bool) \<Rightarrow> u32 \<Rightarrow> passwd \<Rightarrow> identity_error + identity" where
  "entry_identity is_format uid entry =
     rbind (copy_string (pw_name entry)) (\<lambda>name.
       if \<not> valid_username is_format name then Inl InvalidIdentity
       else
         (let gecos = (case copy_string (pw_gecos entry) of Inl _ \<Rightarrow> [] | Inr g \<Rightarrow> g);
              display = (case presentation_label is_format (takeWhile (\<lambda>c. c \<noteq> 0x2C) gecos) of
                           None \<Rightarrow> name | Some label \<Rightarrow> label)
          in Inr \<lparr>id_uid = uid, id_username = name, id_display_name = display\<rparr>))"

text \<open>The loop; \<open>None\<close> would be one that does not end.\<close>

partial_function (option) resolve_loop ::
  "(uchar \<Rightarrow> bool) \<Rightarrow> passwd_lookup \<Rightarrow> u32 \<Rightarrow> nat \<Rightarrow> (identity_error + identity) option" where
  "resolve_loop is_format lookup uid sz =
     (case lookup uid sz of
        (status, result) \<Rightarrow>
          if status = ERANGE_STATUS \<and> sz < MAX_BUFFER_SIZE
          then resolve_loop is_format lookup uid (min (sz * 2) MAX_BUFFER_SIZE)
          else if status \<noteq> 0 then Some (Inl (SystemError status))
          else (case result of
                  None \<Rightarrow> Some (Inl NotFound)
                | Some entry \<Rightarrow> Some (entry_identity is_format uid entry)))"

definition resolve ::
  "(uchar \<Rightarrow> bool) \<Rightarrow> passwd_lookup \<Rightarrow> u32 \<Rightarrow> (identity_error + identity) option" where
  "resolve is_format lookup uid = resolve_loop is_format lookup uid INITIAL_BUFFER_SIZE"

section \<open>The loop ends\<close>

text \<open>What an answer that does not grow the buffer leads to.\<close>

definition settled :: "(uchar \<Rightarrow> bool) \<Rightarrow> u32 \<Rightarrow> int \<times> passwd option \<Rightarrow> identity_error + identity" where
  "settled is_format uid answer =
     (if fst answer \<noteq> 0 then Inl (SystemError (fst answer))
      else case snd answer of None \<Rightarrow> Inl NotFound | Some entry \<Rightarrow> entry_identity is_format uid entry)"

lemma resolve_loop_unfold:
  "resolve_loop is_format lookup uid sz =
     (if fst (lookup uid sz) = ERANGE_STATUS \<and> sz < MAX_BUFFER_SIZE
      then resolve_loop is_format lookup uid (min (sz * 2) MAX_BUFFER_SIZE)
      else Some (settled is_format uid (lookup uid sz)))"
  by (subst resolve_loop.simps) (simp add: settled_def case_prod_beta split: option.split)

lemma resolve_loop_ends:
  "i \<le> 10 \<Longrightarrow> \<exists>n. i \<le> n \<and> n \<le> 10
     \<and> (\<forall>m. i \<le> m \<and> m < n \<longrightarrow> fst (lookup uid (1024 * 2 ^ m)) = ERANGE_STATUS)
     \<and> (n < 10 \<longrightarrow> fst (lookup uid (1024 * 2 ^ n)) \<noteq> ERANGE_STATUS)
     \<and> resolve_loop is_format lookup uid (1024 * 2 ^ i)
         = Some (settled is_format uid (lookup uid (1024 * 2 ^ n)))"
proof (induction "10 - i" arbitrary: i)
  case 0
  then have "i = 10" by simp
  then show ?case
    by (intro exI [of _ 10]) (simp add: resolve_loop_unfold [of _ _ _ 1048576] MAX_BUFFER_SIZE_def)
next
  case (Suc d)
  then have i: "i < 10" by simp
  have sz: "1024 * 2 ^ i < MAX_BUFFER_SIZE"
    "min (1024 * 2 ^ i * 2) MAX_BUFFER_SIZE = 1024 * 2 ^ Suc i"
  proof -
    have "(2 :: nat) ^ i < 2 ^ 10" using i by (intro power_strict_increasing) simp_all
    moreover have "(2 :: nat) ^ Suc i \<le> 2 ^ 10" using i by (intro power_increasing) simp_all
    ultimately show "1024 * 2 ^ i < MAX_BUFFER_SIZE"
      "min (1024 * 2 ^ i * 2) MAX_BUFFER_SIZE = 1024 * 2 ^ Suc i"
      by (simp_all add: MAX_BUFFER_SIZE_def)
  qed
  show ?case
  proof (cases "fst (lookup uid (1024 * 2 ^ i)) = ERANGE_STATUS")
    case True
    have "d = 10 - Suc i" "Suc i \<le> 10" using Suc.hyps(2) i by simp_all
    from Suc.hyps(1) [OF this] obtain n where n: "Suc i \<le> n" "n \<le> 10"
      "\<forall>m. Suc i \<le> m \<and> m < n \<longrightarrow> fst (lookup uid (1024 * 2 ^ m)) = ERANGE_STATUS"
      "n < 10 \<longrightarrow> fst (lookup uid (1024 * 2 ^ n)) \<noteq> ERANGE_STATUS"
      "resolve_loop is_format lookup uid (1024 * 2 ^ Suc i)
        = Some (settled is_format uid (lookup uid (1024 * 2 ^ n)))" by blast
    have "fst (lookup uid (1024 * 2 ^ m)) = ERANGE_STATUS" if "i \<le> m" "m < n" for m
      using n(3) True that by (cases "m = i") simp_all
    moreover have "resolve_loop is_format lookup uid (1024 * 2 ^ i)
        = Some (settled is_format uid (lookup uid (1024 * 2 ^ n)))"
      using n(5) sz True by (subst resolve_loop_unfold) (simp del: power_Suc)
    ultimately show ?thesis using n(1,2,4) by (intro exI [of _ n]) auto
  next
    case False
    then show ?thesis using i by (intro exI [of _ i]) (subst resolve_loop_unfold, auto)
  qed
qed

lemma entry_identity_ok:
  assumes "entry_identity is_format uid entry = Inr ident"
  shows "id_uid ident = uid \<and> valid_username is_format (id_username ident)
    \<and> id_display_name ident \<noteq> [] \<and> length (id_display_name ident) \<le> 256"
proof -
  from assms have "valid_username is_format (id_username ident) \<and> id_uid ident = uid
      \<and> (id_display_name ident = id_username ident
        \<or> (\<exists>v. presentation_label is_format v = Some (id_display_name ident)))"
    by (auto simp: entry_identity_def rbind_def Let_def split: sum.splits if_splits option.splits)
  then show ?thesis
    using presentation_label_bounds by (fastforce simp: valid_username_def MAX_LABEL_CHARS_def)
qed

section \<open>Property\<close>

text \<open>
  Resolving the locked identity always ends: whatever NSS answers, after at most eleven calls
  with buffers of 1024, 2048, ... bytes up to 1 MiB, by the first answer that does not ask for more
  (or the one at 1 MiB). An identity it returns has the given uid, a valid login name, and a
  non-empty display name of at most 256 characters.
\<close>

theorem resolve_ends:
  "\<exists>n \<le> 10. (\<forall>m < n. fst (lookup uid (1024 * 2 ^ m)) = ERANGE_STATUS)
    \<and> (n < 10 \<longrightarrow> fst (lookup uid (1024 * 2 ^ n)) \<noteq> ERANGE_STATUS)
    \<and> resolve is_format lookup uid = Some (settled is_format uid (lookup uid (1024 * 2 ^ n)))
    \<and> (\<forall>ident. resolve is_format lookup uid = Some (Inr ident) \<longrightarrow>
        id_uid ident = uid \<and> valid_username is_format (id_username ident)
        \<and> id_display_name ident \<noteq> [] \<and> length (id_display_name ident) \<le> 256)"
proof -
  from resolve_loop_ends [of 0 lookup uid is_format] obtain n where n: "n \<le> 10"
    "\<forall>m < n. fst (lookup uid (1024 * 2 ^ m)) = ERANGE_STATUS"
    "n < 10 \<longrightarrow> fst (lookup uid (1024 * 2 ^ n)) \<noteq> ERANGE_STATUS"
    "resolve is_format lookup uid = Some (settled is_format uid (lookup uid (1024 * 2 ^ n)))"
    by (auto simp: resolve_def INITIAL_BUFFER_SIZE_def)
  then show ?thesis
    using entry_identity_ok by (intro exI [of _ n]) (auto simp: settled_def split: if_splits option.splits)
qed

definition demo_lookup :: passwd_lookup where
  "demo_lookup uid sz =
     (if sz < 4096 then (34, None) else (0, Some \<lparr>pw_name = Some [97], pw_gecos = Some [65, 44]\<rparr>))"

theorem resolve_ends_witness:
  "\<exists>r. resolve (\<lambda>_. False) demo_lookup 1000 = Some r"
  using resolve_ends [of demo_lookup 1000 "\<lambda>_. False"] by blast

end
