(* ===== verification/Greeter_Auth.thy ===== *)
theory Greeter_Auth
  imports Genkan_Prelude
begin

text \<open>
  The greeter's side of the greetd protocol (\<open>src/auth.rs\<close>): which requests the asynchronous
  operations send, on which connection, and what they make of the replies. The crate \<open>greetd_ipc\<close>
  frames the messages; greetd itself is the environment, given as scripts of how the next
  connections and exchanges turn out.
\<close>

section \<open>Model\<close>

datatype auth_message_type = Visible | SecretType | Info | ErrorType

datatype greetd_response =
    GSuccess
  | GError bool ustring
  | GAuthMessage auth_message_type ustring

datatype request =
    CreateSession ustring
  | PostAuthMessageResponse "ustring option"
  | StartSession "ustring list" "ustring list"
  | CancelSession

datatype auth_response =
    ASuccess
  | AError bool ustring
  | APrompt bool ustring
  | AMessage bool ustring

datatype auth_error =
    MissingSocket
  | AuthIo
  | AuthProtocol
  | CancellationRejected ustring
  | UnexpectedCancellationResponse

text \<open>The flag of \<open>GError\<close> is whether the error type is \<open>AuthError\<close>.\<close>

definition response_of_greetd :: "greetd_response \<Rightarrow> auth_response" where
  "response_of_greetd response =
     (case response of
        GSuccess \<Rightarrow> ASuccess
      | GError authentication description \<Rightarrow> AError authentication description
      | GAuthMessage kind text \<Rightarrow>
          (if kind = Visible \<or> kind = SecretType then APrompt (kind = SecretType) text
           else AMessage (kind = ErrorType) text))"

text \<open>
  A connection is known by a number. An exchange fails before the request is written, fails after
  it, or delivers a reply; \<open>requests\<close> records what was written, in order.
\<close>

datatype exchange_result = WriteFailed auth_error | ReadFailed auth_error | Reply greetd_response

record greetd =
  socket_set :: bool
  connects :: "bool list"
  replies :: "exchange_result list"
  next_connection :: nat
  requests :: "(nat \<times> request) list"

definition connect_to :: "greetd \<Rightarrow> (auth_error + nat) \<times> greetd" where
  "connect_to g =
     (case connects g of
        True # rest \<Rightarrow>
          (Inr (next_connection g), g\<lparr>connects := rest, next_connection := next_connection g + 1\<rparr>)
      | _ \<Rightarrow> (Inl AuthIo, g\<lparr>connects := tl (connects g)\<rparr>))"

definition greetd_connect :: "greetd \<Rightarrow> (auth_error + nat) \<times> greetd" where
  "greetd_connect g = (if \<not> socket_set g then (Inl MissingSocket, g) else connect_to g)"

definition exchange :: "nat \<Rightarrow> request \<Rightarrow> greetd \<Rightarrow> (auth_error + auth_response) \<times> greetd" where
  "exchange client request g =
     (let written = g\<lparr>replies := tl (replies g), requests := requests g @ [(client, request)]\<rparr> in
      case replies g of
        [] \<Rightarrow> (Inl AuthIo, g)
      | WriteFailed e # rest \<Rightarrow> (Inl e, g\<lparr>replies := rest\<rparr>)
      | ReadFailed e # _ \<Rightarrow> (Inl e, written)
      | Reply response # _ \<Rightarrow> (Inr (response_of_greetd response), written))"

definition begin_at :: "ustring \<Rightarrow> greetd \<Rightarrow> (auth_error + nat \<times> auth_response) \<times> greetd" where
  "begin_at name g =
     (case connect_to g of
        (Inl e, g1) \<Rightarrow> (Inl e, g1)
      | (Inr client, g1) \<Rightarrow>
          (case exchange client (CreateSession name) g1 of
             (Inl e, g2) \<Rightarrow> (Inl e, g2)
           | (Inr response, g2) \<Rightarrow> (Inr (client, response), g2)))"

definition recover_and_begin_at ::
  "ustring \<Rightarrow> greetd \<Rightarrow> (auth_error + nat \<times> auth_response) \<times> greetd" where
  "recover_and_begin_at name g =
     (case connect_to g of
        (Inl _, g1) \<Rightarrow> begin_at name g1
      | (Inr client, g1) \<Rightarrow> begin_at name (snd (exchange client CancelSession g1)))"

definition greetd_cancel :: "nat option \<Rightarrow> greetd \<Rightarrow> (auth_error + unit) \<times> greetd" where
  "greetd_cancel client g =
     (case (case client of None \<Rightarrow> greetd_connect g | Some c \<Rightarrow> (Inr c, g)) of
        (Inl e, g1) \<Rightarrow> (Inl e, g1)
      | (Inr c, g1) \<Rightarrow>
          (case exchange c CancelSession g1 of
             (Inl e, g2) \<Rightarrow> (Inl e, g2)
           | (Inr ASuccess, g2) \<Rightarrow> (Inr (), g2)
           | (Inr (AError _ description), g2) \<Rightarrow> (Inl (CancellationRejected description), g2)
           | (Inr _, g2) \<Rightarrow> (Inl UnexpectedCancellationResponse, g2)))"

definition restart_at ::
  "nat option \<Rightarrow> ustring \<Rightarrow> greetd \<Rightarrow> (auth_error + nat \<times> auth_response) \<times> greetd" where
  "restart_at client name g =
     (case client of
        None \<Rightarrow> recover_and_begin_at name g
      | Some c \<Rightarrow>
          (case greetd_cancel (Some c) g of
             (cancelled, g1) \<Rightarrow>
               if is_ok cancelled then begin_at name g1 else recover_and_begin_at name g1))"

definition begin_session :: "ustring \<Rightarrow> greetd \<Rightarrow> (auth_error + nat \<times> auth_response) \<times> greetd" where
  "begin_session name g = (if \<not> socket_set g then (Inl MissingSocket, g) else begin_at name g)"

definition recover_and_begin ::
  "ustring \<Rightarrow> greetd \<Rightarrow> (auth_error + nat \<times> auth_response) \<times> greetd" where
  "recover_and_begin name g =
     (if \<not> socket_set g then (Inl MissingSocket, g) else recover_and_begin_at name g)"

definition restart ::
  "nat option \<Rightarrow> ustring \<Rightarrow> greetd \<Rightarrow> (auth_error + nat \<times> auth_response) \<times> greetd" where
  "restart client name g =
     (if \<not> socket_set g then (Inl MissingSocket, g) else restart_at client name g)"

section \<open>What an operation sends\<close>

text \<open>
  \<open>sends g g' rs\<close>: between the two states exactly the requests \<open>rs\<close> were written; connections that
  were opened meanwhile are new.
\<close>

definition sends :: "greetd \<Rightarrow> greetd \<Rightarrow> (nat \<times> request) list \<Rightarrow> bool" where
  "sends g g' rs \<longleftrightarrow> requests g' = requests g @ rs \<and> next_connection g \<le> next_connection g'"

lemma sends_refl: "sends g g []" by (simp add: sends_def)

lemma sends_trans: "sends g g1 rs \<Longrightarrow> sends g1 g2 ss \<Longrightarrow> sends g g2 (rs @ ss)"
  by (simp add: sends_def)

lemma connect_sends:
  assumes "connect_to g = (r, g')"
  shows "sends g g' []" "r = Inr c \<Longrightarrow> c = next_connection g \<and> c < next_connection g'"
  using assms by (auto simp: connect_to_def sends_def split: list.splits bool.splits)

lemma exchange_sends:
  assumes "exchange c q g = (r, g')"
  shows "sends g g' [] \<and> \<not> is_ok r \<or> sends g g' [(c, q)]"
  using assms by (auto simp: exchange_def sends_def is_ok_def Let_def split: list.splits exchange_result.splits)

lemma begin_sends:
  assumes "begin_at name g = (r, g')"
  shows "sends g g' [] \<and> \<not> is_ok r
    \<or> (\<exists>c. next_connection g \<le> c \<and> sends g g' [(c, CreateSession name)]
        \<and> (\<forall>x. r = Inr x \<longrightarrow> fst x = c))"
proof -
  obtain x g1 where c: "connect_to g = (x, g1)" by fastforce
  show ?thesis
  proof (cases x)
    case (Inl e)
    then show ?thesis using assms c connect_sends(1) [OF c] by (auto simp: begin_at_def is_ok_def)
  next
    case (Inr k)
    obtain y g2 where e: "exchange k (CreateSession name) g1 = (y, g2)" by fastforce
    have k: "k = next_connection g" using connect_sends(2) [OF c Inr] by simp
    have r: "g' = g2" "is_ok r = is_ok y" "\<forall>x. r = Inr x \<longrightarrow> fst x = k"
      using assms c Inr e by (cases y; auto simp: begin_at_def is_ok_def)+
    from exchange_sends [OF e] show ?thesis
      using sends_trans [OF connect_sends(1) [OF c]] r k by fastforce
  qed
qed

lemma recover_sends:
  assumes "recover_and_begin_at name g = (r, g')"
  shows "\<exists>g1 cs. sends g g1 cs \<and> cs \<in> {[], [(next_connection g, CancelSession)]}
    \<and> begin_at name g1 = (r, g')"
proof -
  obtain x g1 where c: "connect_to g = (x, g1)" by fastforce
  show ?thesis
  proof (cases x)
    case (Inl e)
    then show ?thesis using assms c connect_sends(1) [OF c] by (auto simp: recover_and_begin_at_def)
  next
    case (Inr k)
    obtain y g2 where e: "exchange k CancelSession g1 = (y, g2)" by fastforce
    have "k = next_connection g" using connect_sends(2) [OF c Inr] by simp
    with assms c Inr e exchange_sends [OF e] sends_trans [OF connect_sends(1) [OF c]]
    show ?thesis by (fastforce simp: recover_and_begin_at_def)
  qed
qed

lemma cancel_sends:
  assumes "greetd_cancel (Some c) g = (r, g')"
  shows "sends g g' [(c, CancelSession)] \<or> sends g g' [] \<and> \<not> is_ok r"
proof -
  obtain y g2 where e: "exchange c CancelSession g = (y, g2)" by fastforce
  have "g' = g2" "is_ok r \<longrightarrow> is_ok y"
    using assms e by (auto simp: greetd_cancel_def is_ok_def split: sum.splits auth_response.splits)
  with exchange_sends [OF e] show ?thesis by blast
qed

text \<open>After some cancellations at most one session is created, on a new connection.\<close>

definition begun ::
  "ustring \<Rightarrow> greetd \<Rightarrow> (nat \<times> request) list \<Rightarrow> (auth_error + nat \<times> auth_response) \<Rightarrow> greetd \<Rightarrow> bool" where
  "begun name g cancels r g' \<longleftrightarrow>
     set (map snd cancels) \<subseteq> {CancelSession}
     \<and> (\<exists>creates. requests g' = requests g @ cancels @ creates
          \<and> (creates = [] \<or> (\<exists>k \<ge> next_connection g. creates = [(k, CreateSession name)]))
          \<and> (\<forall>k response. r = Inr (k, response) \<longrightarrow> creates = [(k, CreateSession name)]))"

lemma begun_begin: "begin_at name g = (r, g') \<Longrightarrow> begun name g [] r g'"
  using begin_sends [of name g r g'] by (fastforce simp: begun_def sends_def is_ok_def)

lemma begun_sends:
  assumes "sends g g1 cs" "set (map snd cs) \<subseteq> {CancelSession}" "begun name g1 ds r g'"
  shows "begun name g (cs @ ds) r g'"
proof -
  from assms(3) obtain creates where c: "requests g' = requests g1 @ ds @ creates"
    "creates = [] \<or> (\<exists>k \<ge> next_connection g1. creates = [(k, CreateSession name)])"
    "\<forall>k response. r = Inr (k, response) \<longrightarrow> creates = [(k, CreateSession name)]"
    "set (map snd ds) \<subseteq> {CancelSession}" unfolding begun_def by blast
  have "creates = [] \<or> (\<exists>k \<ge> next_connection g. creates = [(k, CreateSession name)])"
    using c(2) assms(1) order_trans unfolding sends_def by blast
  moreover have "requests g' = requests g @ (cs @ ds) @ creates"
    using c(1) assms(1) by (simp add: sends_def)
  ultimately show ?thesis using c(3,4) assms(2) unfolding begun_def by auto
qed

lemma begun_recover:
  assumes "recover_and_begin_at name g = (r, g')"
  obtains cs where "length cs \<le> 1" "begun name g cs r g'"
proof -
  from recover_sends [OF assms] obtain g1 cs where s: "sends g g1 cs"
    "cs \<in> {[], [(next_connection g, CancelSession)]}" "begin_at name g1 = (r, g')" by blast
  from begun_sends [OF s(1) _ begun_begin [OF s(3)]] s(2) have "begun name g cs r g'" by auto
  with s(2) show thesis by (intro that [of cs]) auto
qed

section \<open>Property\<close>

text \<open>
  C36. Restarting authentication never leaves two sessions behind: whatever greetd answers, it
  writes at most two cancellations and after them at most one session creation, for the given user
  and on a new connection; when the cancellation of the active session is confirmed, that is the
  only one. It succeeds only with the answer to that creation, on that connection.
\<close>

theorem restart_cancels_first:
  assumes "restart client name g = (r, g')"
  shows "\<exists>cancels creates. requests g' = requests g @ cancels @ creates
    \<and> set (map snd cancels) \<subseteq> {CancelSession} \<and> length cancels \<le> 2
    \<and> (creates = [] \<or> (\<exists>k \<ge> next_connection g. creates = [(k, CreateSession name)]))
    \<and> (\<forall>k response. r = Inr (k, response) \<longrightarrow> creates = [(k, CreateSession name)])
    \<and> (\<forall>c. client = Some c \<and> socket_set g \<and> is_ok (fst (greetd_cancel client g)) \<longrightarrow>
          cancels = [(c, CancelSession)])"
proof -
  have "\<exists>cancels. length cancels \<le> 2 \<and> begun name g cancels r g'
    \<and> (\<forall>c. client = Some c \<and> socket_set g \<and> is_ok (fst (greetd_cancel client g)) \<longrightarrow> cancels = [(c, CancelSession)])"
  proof (cases "socket_set g")
    case False
    then have "begun name g [] r g'" using assms by (auto simp: restart_def begun_def)
    with False show ?thesis by (intro exI [of _ "[]"]) simp
  next
    case set: True
    show ?thesis
    proof (cases client)
      case None
      with assms set have "recover_and_begin_at name g = (r, g')"
        by (simp add: restart_def restart_at_def)
      then obtain cs where "length cs \<le> 1" "begun name g cs r g'" by (rule begun_recover)
      with None show ?thesis by (intro exI [of _ cs]) simp
    next
      case (Some c)
      obtain x g1 where x: "greetd_cancel (Some c) g = (x, g1)" by fastforce
      show ?thesis
      proof (cases "is_ok x")
        case True
        with assms set Some x have b: "begin_at name g1 = (r, g')"
          by (simp add: restart_def restart_at_def)
        from cancel_sends [OF x] True have "sends g g1 [(c, CancelSession)]" by blast
        from begun_sends [OF this _ begun_begin [OF b]] Some show ?thesis
          by (intro exI [of _ "[(c, CancelSession)]"]) simp
      next
        case False
        with assms set Some x have b: "recover_and_begin_at name g1 = (r, g')"
          by (simp add: restart_def restart_at_def)
        from cancel_sends [OF x] obtain ds where ds: "sends g g1 ds"
          "set (map snd ds) \<subseteq> {CancelSession}" "length ds \<le> 1" by fastforce
        from b obtain cs where cs: "length cs \<le> 1" "begun name g1 cs r g'" by (rule begun_recover)
        from begun_sends [OF ds(1,2) cs(2)] cs(1) ds(3) False Some x show ?thesis
          by (intro exI [of _ "ds @ cs"]) simp
      qed
    qed
  qed
  then show ?thesis unfolding begun_def by blast
qed

definition demo_greetd :: greetd where
  "demo_greetd = \<lparr>socket_set = True, connects = [True],
     replies = [Reply GSuccess, Reply (GAuthMessage SecretType [80])],
     next_connection = 4, requests = []\<rparr>"

theorem restart_cancels_first_witness:
  "requests (snd (restart (Some 3) [97] demo_greetd)) = [(3, CancelSession), (4, CreateSession [97])]
    \<and> (\<exists>cancels creates. requests (snd (restart (Some 3) [97] demo_greetd)) = cancels @ creates
        \<and> set (map snd cancels) \<subseteq> {CancelSession} \<and> length cancels \<le> 2)"
proof -
  have "restart (Some 3) [97] demo_greetd = (Inr (4, APrompt True [80]),
      demo_greetd\<lparr>connects := [], replies := [], next_connection := 5,
        requests := [(3, CancelSession), (4, CreateSession [97])]\<rparr>)"
    by (simp add: restart_def restart_at_def greetd_cancel_def exchange_def response_of_greetd_def
        is_ok_def begin_at_def connect_to_def demo_greetd_def)
  from restart_cancels_first [OF this] this show ?thesis by (fastforce simp: demo_greetd_def)
qed

end
