(* ===== verification/Greeter_App.thy ===== *)
theory Greeter_App
  imports Greeter_Auth Accounts
begin

text \<open>
  The login greeter as the message handler of its user interface (\<open>src/app/mod.rs\<close>,
  \<open>src/app/auth_flow.rs\<close>, \<open>src/app/focus.rs\<close>): \<open>update\<close> takes a message and the application's state
  to the next state and the tasks it starts. Tasks are values; what they deliver later comes back as
  messages (theory \<open>Greeter_Session\<close>). Calls into the wallpaper component are recorded as tasks.

  The environment of one call gives what the handler reads from outside: the sessions found on
  disk, the authentication region of the outputs, whether the wallpaper has a frame to upload and
  whether the renderer supports the dynamic source. Rust's \<open>update\<close> and \<open>activate_focus\<close> call each
  other; here \<open>dispatch\<close> takes the inner \<open>update\<close> as an argument and the lemma \<open>update_unfold\<close> is the
  source's recursion equation.
\<close>

section \<open>Data\<close>

datatype power_action = Suspend | Reboot | PowerOff

datatype phase =
    PhFailed
  | DiscoveringUsers
  | CancellingForUserSelection
  | SelectingUser
  | UserSelectionCancellationFailed
  | CreatingSession
  | WaitingForInput
  | Authenticating
  | StartingSession

datatype closing =
    WaitingForClient nat
  | WaitingForUserSelectionCancellation nat
  | Cancelling nat
  | Dispatching nat

datatype power_state = PowerIdle | Confirming power_action | Executing power_action

datatype focus_target =
    TAccount nat
  | TRetryAccountSelection
  | TAuthenticationInput
  | TSubmit
  | TRetryAuthentication
  | TChangeUser
  | TSession
  | TRetrySession
  | TPower power_action
  | TDialogCancel
  | TDialogConfirm

datatype navigation = Next | Previous | DirectionNext | DirectionPrevious | Activate

datatype page_navigation = PageUp | PageDown | PageStart | PageEnd

record session =
  session_name :: ustring
  session_command :: "ustring list"
  session_id :: ustring
  desktop_names :: "ustring list"

fun join_colon :: "ustring list \<Rightarrow> ustring" where
  "join_colon [] = []"
| "join_colon [s] = s"
| "join_colon (s # t # ts) = s @ 0x3A # join_colon (t # ts)"

definition session_environment :: "session \<Rightarrow> ustring list" where
  "session_environment s =
     [lit ''XDG_SESSION_TYPE=wayland'', lit ''XDG_SESSION_DESKTOP='' @ session_id s]
     @ (if desktop_names s \<noteq> [] then [lit ''XDG_CURRENT_DESKTOP='' @ join_colon (desktop_names s)] else [])"

datatype task =
    BeginSession ustring attempt bool
  | RestartSession "nat option" ustring attempt
  | Exchange nat request attempt
  | CancelForClose "nat option" nat
  | CancelForSelection "nat option" attempt
  | SlowTimer attempt
  | CloseTimer nat
  | CloseWindow nat
  | ExitGreeter
  | DiscoverAccounts
  | ExecutePower power_action
  | FocusInput
  | RevealInput
  | RevealAccount ustring
  | ClearWidgetFocus
  | FindFocused
  | ScrollPage page_navigation
  | FinishAllocation
  | AllocateImage
  | StartHeicSource
  | ReportUnusableRenderer

record app =
  app_username :: ustring
  app_display_name :: ustring
  app_accounts :: "account list"
  focus :: "focus_target option"
  focus_before_modal :: "focus_target option"
  app_conversation :: conversation
  session_message :: "ustring option"
  power_message :: "ustring option"
  power_message_is_error :: bool
  preview_message :: "ustring option"
  app_phase :: phase
  app_client :: "nat option"
  app_sessions :: "session list"
  selected_session :: "session option"
  session_menu_open :: bool
  pending_heic :: bool
  app_now :: nat
  app_power :: power_state
  selection_session_cancelled :: bool
  app_closing :: "closing option"
  preview :: bool
  output_monitored :: bool
  authentication_region :: "nat option"
  window_size :: "(nat \<times> nat) option"
  authentication_layout :: bool

record app_env =
  found_sessions :: "session list"
  monitor_region :: "nat option"
  frame_to_upload :: bool
  supports_heic :: bool
  local_now :: nat

datatype app_message =
    Tick
  | WallpaperFrameReady
  | WallpaperAllocated
  | RendererInformation
  | InputChanged ustring
  | Submit
  | Retry
  | RetrySession
  | AuthResult attempt "ustring + nat option \<times> auth_response"
  | AccountsResult "ustring + account list"
  | ChangeUser
  | UserSelectionCancelled attempt "ustring + unit"
  | UserSelectionCancellationSlow attempt
  | RetryUserSelectionCancellation
  | SelectAccount account
  | NavigateFocus navigation
  | NavigateModal navigation
  | SyncWidgetFocus
  | WidgetFocused bool
  | NavigatePage page_navigation
  | SelectSession session
  | SessionMenuOpened
  | SessionMenuClosed
  | OutputLayoutChanged
  | WindowResized nat nat
  | AskPower power_action
  | CancelPower
  | ConfirmPower power_action
  | PowerResult "ustring + unit"
  | Escape
  | CloseRequested nat
  | SessionCancelled nat
  | CloseTimeout nat

text \<open>The flag of \<open>WidgetFocused\<close> is whether the focused widget is the input.\<close>

section \<open>Guards\<close>

definition is_cleaning :: "closing \<Rightarrow> nat \<Rightarrow> bool" where
  "is_cleaning c window \<longleftrightarrow>
     (case c of
        WaitingForClient w \<Rightarrow> w = window
      | WaitingForUserSelectionCancellation w \<Rightarrow> w = window
      | Cancelling w \<Rightarrow> w = window
      | Dispatching _ \<Rightarrow> False)"

definition is_confirming :: "app \<Rightarrow> bool" where
  "is_confirming a \<longleftrightarrow> (case app_power a of Confirming _ \<Rightarrow> True | _ \<Rightarrow> False)"

definition can_request_power :: "app \<Rightarrow> bool" where
  "can_request_power a \<longleftrightarrow> app_closing a = None \<and> app_power a = PowerIdle
     \<and> app_phase a \<in> {WaitingForInput, PhFailed, SelectingUser, UserSelectionCancellationFailed}"

definition can_change_user :: "app \<Rightarrow> bool" where
  "can_change_user a \<longleftrightarrow> app_closing a = None \<and> app_power a = PowerIdle
     \<and> length (app_accounts a) > 1 \<and> app_phase a \<in> {WaitingForInput, PhFailed}"

definition can_select_session :: "app \<Rightarrow> bool" where
  "can_select_session a \<longleftrightarrow> app_closing a = None \<and> app_power a = PowerIdle
     \<and> selected_session a \<noteq> None \<and> app_phase a \<notin> {Authenticating, StartingSession}"

definition can_select_account :: "app \<Rightarrow> bool" where
  "can_select_account a \<longleftrightarrow> app_closing a = None \<and> app_power a = PowerIdle
     \<and> app_phase a = SelectingUser"

section \<open>Focus\<close>

type_synonym outcome = "app \<times> task list"

definition close_session_menu :: "app \<Rightarrow> app" where
  "close_session_menu a = a\<lparr>session_menu_open := False\<rparr>"

definition reveal_account :: "nat \<Rightarrow> app \<Rightarrow> task list" where
  "reveal_account index a =
     (if index < length (app_accounts a) then [RevealAccount (username (app_accounts a ! index))] else [])"

definition set_focus :: "focus_target \<Rightarrow> app \<Rightarrow> outcome" where
  "set_focus target a =
     (let a = (if target \<noteq> TSession then close_session_menu a else a);
          a = a\<lparr>focus := Some target\<rparr>
      in (a, case target of
               TAuthenticationInput \<Rightarrow> [FocusInput, RevealInput]
             | TAccount index \<Rightarrow> reveal_account index a
             | _ \<Rightarrow> [ClearWidgetFocus]))"

definition unfocus :: "app \<Rightarrow> outcome" where
  "unfocus a = ((close_session_menu a)\<lparr>focus := None\<rparr>, [ClearWidgetFocus])"

definition focus_order :: "app \<Rightarrow> focus_target list" where
  "focus_order a =
     (case app_power a of
        Confirming _ \<Rightarrow> [TDialogCancel, TDialogConfirm]
      | pw \<Rightarrow>
          if pw \<noteq> PowerIdle \<or> app_closing a \<noteq> None then []
          else
            (case app_phase a of
               SelectingUser \<Rightarrow>
                 if can_select_account a then map TAccount [0..<length (app_accounts a)] else []
             | UserSelectionCancellationFailed \<Rightarrow> [TRetryAccountSelection]
             | WaitingForInput \<Rightarrow> [TAuthenticationInput, TSubmit]
             | PhFailed \<Rightarrow>
                 if selected_session a = None then []
                 else if app_username a \<noteq> [] then [TRetryAuthentication]
                 else [TRetryAccountSelection]
             | _ \<Rightarrow> [])
            @ (if can_change_user a then [TChangeUser] else [])
            @ (if can_select_session a \<and> selected_session a \<noteq> None then [TSession] else [])
            @ (if app_phase a = PhFailed \<and> selected_session a = None then [TRetrySession] else [])
            @ (if can_request_power a then [TPower Suspend, TPower Reboot, TPower PowerOff] else []))"

definition focus_first :: "app \<Rightarrow> outcome" where
  "focus_first a = (case focus_order a of target # _ \<Rightarrow> set_focus target a | [] \<Rightarrow> unfocus a)"

definition focus_input :: "app \<Rightarrow> outcome" where
  "focus_input a = set_focus TAuthenticationInput a"

definition reveal_focused_input :: "app \<Rightarrow> task list" where
  "reveal_focused_input a = (if focus a = Some TAuthenticationInput then [RevealInput] else [])"

definition blur_input :: "app \<Rightarrow> outcome" where
  "blur_input a =
     (let a = close_session_menu a in
      (if focus a = Some TAuthenticationInput then a\<lparr>focus := None\<rparr> else a, [ClearWidgetFocus]))"

definition enter_power_dialog :: "app \<Rightarrow> outcome" where
  "enter_power_dialog a = set_focus TDialogCancel (a\<lparr>focus_before_modal := focus a\<rparr>)"

definition leave_power_dialog :: "app \<Rightarrow> outcome" where
  "leave_power_dialog a =
     (let order = focus_order a;
          before = focus_before_modal a;
          a = a\<lparr>focus_before_modal := None\<rparr>;
          kept = (case before of Some t \<Rightarrow> if t \<in> set order then Some t else None | None \<Rightarrow> None);
          target = (case kept of Some t \<Rightarrow> Some t
                    | None \<Rightarrow> (case order of [] \<Rightarrow> None | t # _ \<Rightarrow> Some t))
      in case target of Some t \<Rightarrow> set_focus t a | None \<Rightarrow> unfocus a)"

definition sync_widget_focus :: "app \<Rightarrow> outcome" where
  "sync_widget_focus a =
     (if focus a = Some TAuthenticationInput then a\<lparr>focus := None\<rparr> else a, [FindFocused])"

definition apply_widget_focus :: "bool \<Rightarrow> app \<Rightarrow> outcome" where
  "apply_widget_focus is_input a =
     (if is_input \<and> app_phase a = WaitingForInput then a\<lparr>focus := Some TAuthenticationInput\<rparr> else a, [])"

text \<open>\<open>rem_euclid\<close> on list positions.\<close>

definition rotate_index :: "nat \<Rightarrow> int \<Rightarrow> nat \<Rightarrow> nat" where
  "rotate_index index delta n = nat ((int index + delta) mod int n)"

definition move_focus :: "int \<Rightarrow> app \<Rightarrow> outcome" where
  "move_focus delta a =
     (let order = focus_order a in
      if order = [] then unfocus a
      else
        (let index = (case Option.bind (focus a) (\<lambda>t. position (\<lambda>c. c = t) order) of
                        Some i \<Rightarrow> rotate_index i delta (length order)
                      | None \<Rightarrow> if delta < 0 then length order - 1 else 0)
         in set_focus (order ! index) a))"

definition cycle_session :: "int \<Rightarrow> app \<Rightarrow> app" where
  "cycle_session delta a =
     (if app_sessions a = [] then a
      else
        (let current = (case Option.bind (selected_session a)
                               (\<lambda>s. position (\<lambda>c. c = s) (app_sessions a)) of
                          Some i \<Rightarrow> i | None \<Rightarrow> 0)
         in a\<lparr>selected_session :=
                Some (app_sessions a ! rotate_index current delta (length (app_sessions a)))\<rparr>))"

definition move_directional :: "int \<Rightarrow> app \<Rightarrow> outcome" where
  "move_directional delta a =
     (case focus a of
        Some (TAccount index) \<Rightarrow>
          (if can_select_account a \<and> app_accounts a \<noteq> []
           then set_focus (TAccount (rotate_index index delta (length (app_accounts a)))) a
           else (a, []))
      | Some TSession \<Rightarrow> (if can_select_session a then cycle_session delta a else a, [])
      | Some TDialogCancel \<Rightarrow> move_focus delta a
      | Some TDialogConfirm \<Rightarrow> move_focus delta a
      | _ \<Rightarrow> (a, []))"

text \<open>\<open>rec\<close> is the inner call of \<open>update\<close>.\<close>

definition activate_focus :: "(app_message \<Rightarrow> app \<Rightarrow> outcome) \<Rightarrow> app \<Rightarrow> outcome" where
  "activate_focus rec a =
     (case focus a of
        Some (TAccount index) \<Rightarrow>
          (if can_select_account a \<and> index < length (app_accounts a)
           then rec (SelectAccount (app_accounts a ! index)) a else (a, []))
      | Some TRetryAccountSelection \<Rightarrow>
          (if app_phase a = UserSelectionCancellationFailed
           then rec RetryUserSelectionCancellation a else rec Retry a)
      | Some TAuthenticationInput \<Rightarrow> (a, [])
      | Some TSubmit \<Rightarrow> rec Submit a
      | Some TRetryAuthentication \<Rightarrow> rec Retry a
      | Some TChangeUser \<Rightarrow> rec ChangeUser a
      | Some TSession \<Rightarrow> (if can_select_session a then cycle_session 1 a else a, [])
      | Some TRetrySession \<Rightarrow> rec RetrySession a
      | Some (TPower action) \<Rightarrow> rec (AskPower action) a
      | Some TDialogCancel \<Rightarrow> rec CancelPower a
      | Some TDialogConfirm \<Rightarrow>
          (case app_power a of Confirming action \<Rightarrow> rec (ConfirmPower action) a | _ \<Rightarrow> (a, []))
      | None \<Rightarrow> (a, []))"

definition navigate_focus :: "(app_message \<Rightarrow> app \<Rightarrow> outcome) \<Rightarrow> navigation \<Rightarrow> app \<Rightarrow> outcome" where
  "navigate_focus rec n a =
     (case n of
        Next \<Rightarrow> move_focus 1 a
      | Previous \<Rightarrow> move_focus (- 1) a
      | DirectionNext \<Rightarrow> move_directional 1 a
      | DirectionPrevious \<Rightarrow> move_directional (- 1) a
      | Activate \<Rightarrow> activate_focus rec a)"

section \<open>The authentication flow\<close>

datatype auth_effect =
    PromptEffect bool ustring
  | Acknowledge bool ustring
  | StartSessionEffect "ustring list" "ustring list"
  | ExitEffect
  | FailEffect ustring

definition conversation_response :: "auth_response \<Rightarrow> response" where
  "conversation_response r =
     (case r of
        APrompt hidden message \<Rightarrow> RPrompt hidden message
      | AMessage error message \<Rightarrow> RNotice error message
      | ASuccess \<Rightarrow> RSuccess
      | AError True _ \<Rightarrow> RFailure (lit ''Authentication failed'')
      | AError False description \<Rightarrow> RFailure description)"

definition transition ::
  "conversation \<Rightarrow> phase \<Rightarrow> attempt \<Rightarrow> auth_response \<Rightarrow> session option
    \<Rightarrow> conversation \<times> (phase \<times> auth_effect) option" where
  "transition conv ph att response sess =
     (if \<not> accepts conv att then (conv, None)
      else if ph = StartingSession \<and> response = ASuccess then (conv, Some (ph, ExitEffect))
      else
        (case conv_receive att (conversation_response response) conv of
           (conv, None) \<Rightarrow> (conv, None)
         | (conv, Some effect) \<Rightarrow>
             (conv, Some
               (case effect of
                  EPrompt \<Rightarrow> (WaitingForInput, PromptEffect (is_secret conv) (prompt conv))
                | ENotice \<Rightarrow>
                    (ph, Acknowledge (message_is_error conv)
                           (case notice conv of None \<Rightarrow> [] | Some m \<Rightarrow> m))
                | EAuthenticated \<Rightarrow>
                    (case sess of
                       Some s \<Rightarrow>
                         (StartingSession, StartSessionEffect (session_command s) (session_environment s))
                     | None \<Rightarrow> (PhFailed, FailEffect (lit ''No valid Wayland session is selected'')))
                | EFailed \<Rightarrow>
                    (PhFailed, FailEffect (case notice conv of None \<Rightarrow> [] | Some m \<Rightarrow> m))))))"

definition app_fail :: "ustring \<Rightarrow> app \<Rightarrow> outcome" where
  "app_fail message a =
     focus_first (a\<lparr>app_phase := PhFailed, app_conversation := conv_fail message (app_conversation a)\<rparr>)"

definition set_auth_notice :: "ustring \<Rightarrow> bool \<Rightarrow> app \<Rightarrow> app" where
  "set_auth_notice message error a =
     a\<lparr>app_conversation := set_notice message error (app_conversation a)\<rparr>"

definition apply_auth_transition :: "phase \<Rightarrow> app \<Rightarrow> app" where
  "apply_auth_transition ph a =
     (let a = a\<lparr>app_phase := ph\<rparr> in
      if ph \<noteq> WaitingForInput then a\<lparr>authentication_layout := False\<rparr> else a)"

definition LOST_CONNECTION :: ustring where "LOST_CONNECTION = lit ''Lost connection to greetd''"

definition acknowledge_request :: request where
  "acknowledge_request = PostAuthMessageResponse None"

definition send_request :: "request \<Rightarrow> app \<Rightarrow> outcome" where
  "send_request request a =
     (case app_client a of
        None \<Rightarrow> app_fail LOST_CONNECTION a
      | Some client \<Rightarrow> (a, [Exchange client request (conv_attempt (app_conversation a))]))"

definition handle_auth_response :: "auth_response \<Rightarrow> app \<Rightarrow> outcome" where
  "handle_auth_response response a =
     (case transition (app_conversation a) (app_phase a) (conv_attempt (app_conversation a)) response
             (selected_session a) of
        (conv, None) \<Rightarrow> (a\<lparr>app_conversation := conv\<rparr>, [])
      | (conv, Some (ph, effect)) \<Rightarrow>
          (let a = apply_auth_transition ph (a\<lparr>app_conversation := conv\<rparr>) in
           case effect of
             PromptEffect _ _ \<Rightarrow> focus_input (a\<lparr>authentication_layout := True\<rparr>)
           | Acknowledge error message \<Rightarrow>
               send_request acknowledge_request (set_auth_notice message error a)
           | ExitEffect \<Rightarrow> (a, [ExitGreeter])
           | StartSessionEffect cmd env \<Rightarrow> send_request (StartSession cmd env) a
           | FailEffect message \<Rightarrow> app_fail message a))"

definition handle_auth_result ::
  "attempt \<Rightarrow> ustring + nat option \<times> auth_response \<Rightarrow> app \<Rightarrow> outcome" where
  "handle_auth_result att result a =
     (if \<not> accepts (app_conversation a) att then (a, [])
      else
        (case app_closing a of
           Some (WaitingForClient window) \<Rightarrow>
             (a\<lparr>app_conversation := invalidate_attempt (app_conversation a),
                 app_closing := Some (Cancelling window)\<rparr>,
              [CancelForClose (case result of Inl _ \<Rightarrow> None | Inr (client, _) \<Rightarrow> client) window])
         | _ \<Rightarrow>
             (case result of
                Inr (client, response) \<Rightarrow>
                  handle_auth_response response
                    (case client of None \<Rightarrow> a | Some c \<Rightarrow> a\<lparr>app_client := Some c\<rparr>)
              | Inl error \<Rightarrow> app_fail error a)))"

section \<open>Choosing the user\<close>

definition SELECT_A_USER :: ustring where "SELECT_A_USER = lit ''Select a user''"
definition CHANGING_USER :: ustring where "CHANGING_USER = lit ''Changing user'' @ [0x2026]"

definition app_note :: "ustring \<Rightarrow> app \<Rightarrow> app" where
  "app_note message a = a\<lparr>app_conversation := set_notice message False (app_conversation a)\<rparr>"

definition renew_attempt :: "app \<Rightarrow> app" where
  "renew_attempt a = a\<lparr>app_conversation := fst (begin_attempt (app_conversation a))\<rparr>"

abbreviation app_attempt :: "app \<Rightarrow> attempt" where
  "app_attempt a \<equiv> conv_attempt (app_conversation a)"

definition select_account :: "account \<Rightarrow> app \<Rightarrow> outcome" where
  "select_account account a =
     (let replacing = (app_username a \<noteq> []);
          recover = (\<not> selection_session_cancelled a);
          a = (renew_attempt (close_session_menu a))
                \<lparr>app_username := username account, app_display_name := display_name account,
                 focus := None, app_phase := CreatingSession, selection_session_cancelled := False\<rparr>
      in if preview a then
           focus_input (a\<lparr>app_conversation :=
                fst (conv_receive (app_attempt a) (RPrompt True (lit ''Password'')) (app_conversation a)),
              app_phase := WaitingForInput, authentication_layout := True,
              preview_message := Some (lit ''Preview mode: credentials and power actions are simulated'')\<rparr>)
         else if replacing then
           (a\<lparr>app_client := None\<rparr>, [RestartSession (app_client a) (app_username a) (app_attempt a)])
         else (a, [BeginSession (app_username a) (app_attempt a) recover]))"

definition retry_authentication :: "app \<Rightarrow> outcome" where
  "retry_authentication a =
     (let a' = renew_attempt (a\<lparr>app_phase := CreatingSession, app_client := None\<rparr>) in
      (a', [RestartSession (app_client a) (app_username a') (app_attempt a')]))"

definition finish_preview_user_selection :: "app \<Rightarrow> outcome" where
  "finish_preview_user_selection a =
     set_focus (TAccount 0) (app_note SELECT_A_USER (a\<lparr>app_phase := SelectingUser\<rparr>))"

definition cancel_for_user_selection :: "nat option \<Rightarrow> attempt \<Rightarrow> task list" where
  "cancel_for_user_selection client att = [CancelForSelection client att, SlowTimer att]"

definition change_user :: "app \<Rightarrow> outcome" where
  "change_user a =
     (let a' = app_note CHANGING_USER ((renew_attempt a)
                 \<lparr>app_client := None, app_username := [], app_display_name := SELECT_A_USER,
                  selection_session_cancelled := False, app_phase := CancellingForUserSelection\<rparr>)
      in case focus_first a' of
           (a'', focused) \<Rightarrow>
             if preview a'' then finish_preview_user_selection a''
             else (a'', cancel_for_user_selection (app_client a) (app_attempt a') @ focused))"

definition retry_user_selection :: "app \<Rightarrow> outcome" where
  "retry_user_selection a =
     (let a' = app_note CHANGING_USER ((renew_attempt a)\<lparr>app_phase := CancellingForUserSelection\<rparr>)
      in case focus_first a' of
           (a'', focused) \<Rightarrow>
             if preview a'' then finish_preview_user_selection a''
             else (a'', cancel_for_user_selection None (app_attempt a') @ focused))"

definition handle_accounts :: "ustring + account list \<Rightarrow> app \<Rightarrow> outcome" where
  "handle_accounts result a =
     (case result of
        Inl error \<Rightarrow> app_fail error a
      | Inr [] \<Rightarrow> app_fail (lit ''AccountsService found no unlocked non-system users'') a
      | Inr accounts \<Rightarrow>
          (let a = a\<lparr>app_accounts := accounts\<rparr> in
           case preferred_account accounts of
             Some account \<Rightarrow> select_account account a
           | None \<Rightarrow> set_focus (TAccount 0) (app_note SELECT_A_USER (a\<lparr>app_phase := SelectingUser\<rparr>))))"

definition handle_selection_cancelled :: "attempt \<Rightarrow> ustring + unit \<Rightarrow> app \<Rightarrow> outcome" where
  "handle_selection_cancelled att result a =
     (if \<not> accepts (app_conversation a) att then (a, [])
      else
        (case app_closing a of
           Some (WaitingForUserSelectionCancellation window) \<Rightarrow>
             (a\<lparr>app_closing := Some (Dispatching window)\<rparr>, [CloseWindow window])
         | _ \<Rightarrow>
             if app_phase a \<noteq> CancellingForUserSelection then (a, [])
             else
               (case result of
                  Inr _ \<Rightarrow>
                    set_focus (TAccount 0)
                      (app_note SELECT_A_USER (a\<lparr>app_phase := SelectingUser,
                                             selection_session_cancelled := True\<rparr>))
                | Inl error \<Rightarrow>
                    set_focus TRetryAccountSelection
                      (set_auth_notice error True
                         (a\<lparr>app_phase := UserSelectionCancellationFailed\<rparr>)))))"

section \<open>Answers, retries, power and closing\<close>

definition discover_again :: "app \<Rightarrow> outcome" where
  "discover_again a =
     (a\<lparr>app_phase := DiscoveringUsers, app_conversation := clear_notice (app_conversation a)\<rparr>,
      [DiscoverAccounts])"

definition NO_SESSIONS :: ustring where
  "NO_SESSIONS = lit ''No valid Wayland sessions are installed''"

definition handle_retry_session :: "app_env \<Rightarrow> app \<Rightarrow> outcome" where
  "handle_retry_session env a =
     (if app_phase a \<noteq> PhFailed \<or> selected_session a \<noteq> None then (a, [])
      else if preview a then
        (a\<lparr>preview_message := Some (lit ''Preview mode: session discovery was not retried'')\<rparr>, [])
      else
        (let a = a\<lparr>app_sessions := found_sessions env,
                   selected_session :=
                     (case found_sessions env of [] \<Rightarrow> None | s # _ \<Rightarrow> Some s)\<rparr>
         in if selected_session a = None then (a\<lparr>session_message := Some NO_SESSIONS\<rparr>, [])
            else
              (let a = a\<lparr>session_message := None\<rparr> in
               if app_username a = [] then discover_again a else retry_authentication a)))"

definition handle_retry :: "app \<Rightarrow> outcome" where
  "handle_retry a =
     (if app_phase a \<noteq> PhFailed then (a, [])
      else if preview a then (app_note (lit ''Preview: retry was not sent'') a, [])
      else if app_username a = [] then discover_again a
      else retry_authentication a)"

definition handle_submit :: "app \<Rightarrow> outcome" where
  "handle_submit a =
     (if conv_status (app_conversation a) \<noteq> Waiting then (a, [])
      else if preview a then
        focus_input (a\<lparr>app_conversation := clear_response (app_conversation a),
          preview_message := Some (lit ''Preview mode: credentials were not sent'')\<rparr>)
      else
        (case app_client a of
           None \<Rightarrow> app_fail LOST_CONNECTION a
         | Some client \<Rightarrow>
             (case submit (app_conversation a) of
                (conv, None) \<Rightarrow> (a\<lparr>app_conversation := conv\<rparr>, [])
              | (conv, Some (att, response)) \<Rightarrow>
                  (a\<lparr>app_conversation := conv, app_phase := Authenticating\<rparr>,
                   [Exchange client (PostAuthMessageResponse (Some response)) att]))))"

definition power_label :: "power_action \<Rightarrow> ustring" where
  "power_label action =
     (case action of Suspend \<Rightarrow> lit ''Sleep'' | Reboot \<Rightarrow> lit ''Restart''
      | PowerOff \<Rightarrow> lit ''Shut Down'')"

definition handle_confirm_power :: "power_action \<Rightarrow> app \<Rightarrow> outcome" where
  "handle_confirm_power action a =
     (if app_power a \<noteq> Confirming action then (a, [])
      else if preview a then
        leave_power_dialog (a\<lparr>app_power := PowerIdle,
          power_message := Some (lit ''Preview: '' @ map to_ascii_lowercase (power_label action)
                                   @ lit '' was not requested''),
          power_message_is_error := False\<rparr>)
      else (a\<lparr>app_power := Executing action, focus := None\<rparr>, [ExecutePower action]))"

definition handle_power_result :: "ustring + unit \<Rightarrow> app \<Rightarrow> outcome" where
  "handle_power_result result a =
     (case result of
        Inr _ \<Rightarrow>
          (if app_power a = Executing Suspend
           then leave_power_dialog (a\<lparr>app_power := PowerIdle, power_message := None\<rparr>) else (a, []))
      | Inl error \<Rightarrow>
          leave_power_dialog (a\<lparr>app_power := PowerIdle, power_message := Some (bounded_text error),
            power_message_is_error := True\<rparr>))"

definition close_with :: "nat option \<Rightarrow> nat \<Rightarrow> app \<Rightarrow> outcome" where
  "close_with client window a =
     (a\<lparr>app_conversation := invalidate_attempt (app_conversation a),
         app_closing := Some (Cancelling window)\<rparr>,
      [CancelForClose client window, CloseTimer window])"

definition handle_close_requested :: "nat \<Rightarrow> app \<Rightarrow> outcome" where
  "handle_close_requested window a =
     (if preview a then
        (a\<lparr>app_conversation := invalidate_attempt (app_conversation a)\<rparr>, [CloseWindow window])
      else if selection_session_cancelled a then
        (a\<lparr>app_closing := Some (Dispatching window)\<rparr>, [CloseWindow window])
      else if app_phase a = CancellingForUserSelection then
        (a\<lparr>app_closing := Some (WaitingForUserSelectionCancellation window)\<rparr>, [CloseTimer window])
      else if app_client a \<noteq> None then
        close_with (app_client a) window (a\<lparr>app_client := None\<rparr>)
      else if app_phase a = CreatingSession then
        (a\<lparr>app_closing := Some (WaitingForClient window)\<rparr>, [CloseTimer window])
      else close_with None window a)"

definition cleaning_window :: "app \<Rightarrow> nat \<Rightarrow> bool" where
  "cleaning_window a window \<longleftrightarrow>
     (case app_closing a of None \<Rightarrow> False | Some c \<Rightarrow> is_cleaning c window)"

definition prepare_wallpaper_frame :: "app_env \<Rightarrow> task list" where
  "prepare_wallpaper_frame env = (if frame_to_upload env then [AllocateImage] else [])"

definition apply_renderer_information :: "app_env \<Rightarrow> app \<Rightarrow> outcome" where
  "apply_renderer_information env a =
     (if \<not> pending_heic a then (a, [])
      else (a\<lparr>pending_heic := False\<rparr>,
            if supports_heic env then [StartHeicSource] else [ReportUnusableRenderer]))"

section \<open>The handler\<close>

definition dispatch ::
  "(app_message \<Rightarrow> app \<Rightarrow> outcome) \<Rightarrow> app_env \<Rightarrow> app_message \<Rightarrow> app \<Rightarrow> outcome" where
  "dispatch rec env m a =
     (case m of
        WallpaperFrameReady \<Rightarrow> (a, prepare_wallpaper_frame env)
      | WallpaperAllocated \<Rightarrow> (a, FinishAllocation # prepare_wallpaper_frame env)
      | RendererInformation \<Rightarrow> apply_renderer_information env a
      | Tick \<Rightarrow> (if preview a then a else a\<lparr>app_now := local_now env\<rparr>, [])
      | InputChanged text \<Rightarrow>
          (case update_input text (app_conversation a) of
             (conv, True) \<Rightarrow>
               (a\<lparr>app_conversation := conv, focus := Some TAuthenticationInput\<rparr>, [])
           | (conv, False) \<Rightarrow> (a\<lparr>app_conversation := conv\<rparr>, []))
      | AccountsResult result \<Rightarrow> handle_accounts result a
      | ChangeUser \<Rightarrow> (if can_change_user a then change_user a else (a, []))
      | UserSelectionCancelled att result \<Rightarrow> handle_selection_cancelled att result a
      | UserSelectionCancellationSlow att \<Rightarrow>
          (if accepts (app_conversation a) att \<and> app_phase a = CancellingForUserSelection
           then app_note (lit ''Still changing user'' @ [0x2026]) a else a, [])
      | RetryUserSelectionCancellation \<Rightarrow>
          (if app_phase a = UserSelectionCancellationFailed then retry_user_selection a else (a, []))
      | SelectAccount account \<Rightarrow>
          (if can_select_account a \<and> username account \<noteq> app_username a
           then select_account account a else (a, []))
      | NavigateFocus n \<Rightarrow> navigate_focus rec n (close_session_menu a)
      | NavigateModal n \<Rightarrow> (if is_confirming a then navigate_focus rec n a else (a, []))
      | SyncWidgetFocus \<Rightarrow> sync_widget_focus a
      | WidgetFocused is_input \<Rightarrow> apply_widget_focus is_input a
      | NavigatePage n \<Rightarrow> (a, [ScrollPage n])
      | SelectSession s \<Rightarrow>
          (if can_select_session a
           then set_focus TSession ((close_session_menu a)\<lparr>selected_session := Some s\<rparr>) else (a, []))
      | SessionMenuOpened \<Rightarrow>
          (if can_select_session a then set_focus TSession (a\<lparr>session_menu_open := True\<rparr>)
           else (a, []))
      | SessionMenuClosed \<Rightarrow> (close_session_menu a, [])
      | OutputLayoutChanged \<Rightarrow>
          (let a = close_session_menu (a\<lparr>authentication_region :=
                     (if output_monitored a then monitor_region env else None)\<rparr>)
           in (a, reveal_focused_input a))
      | WindowResized w h \<Rightarrow>
          (let a = a\<lparr>window_size := Some (w, h)\<rparr> in (a, reveal_focused_input a))
      | RetrySession \<Rightarrow> handle_retry_session env a
      | Retry \<Rightarrow> handle_retry a
      | Submit \<Rightarrow> handle_submit a
      | AuthResult att result \<Rightarrow> handle_auth_result att result a
      | AskPower action \<Rightarrow>
          (if can_request_power a
           then enter_power_dialog (a\<lparr>focus := Some (TPower action), app_power := Confirming action,
                                      power_message := None\<rparr>)
           else (a, []))
      | CancelPower \<Rightarrow>
          (if is_confirming a then leave_power_dialog (a\<lparr>app_power := PowerIdle\<rparr>) else (a, []))
      | ConfirmPower action \<Rightarrow> handle_confirm_power action a
      | PowerResult result \<Rightarrow> handle_power_result result a
      | Escape \<Rightarrow>
          (if is_confirming a then rec CancelPower a
           else if session_menu_open a then (close_session_menu a, [])
           else if app_phase a = WaitingForInput then blur_input a
           else (a, []))
      | CloseRequested window \<Rightarrow> handle_close_requested window a
      | SessionCancelled window \<Rightarrow>
          (if cleaning_window a window
           then (a\<lparr>app_closing := Some (Dispatching window)\<rparr>, [CloseWindow window]) else (a, []))
      | CloseTimeout window \<Rightarrow>
          (if cleaning_window a window
           then (a\<lparr>app_conversation := invalidate_attempt (app_conversation a),
                    app_closing := Some (Dispatching window)\<rparr>, [CloseWindow window])
           else (a, [])))"

text \<open>What is let through while the window is closing, and while a power action is pending.\<close>

definition allowed_closing :: "closing \<Rightarrow> app_message \<Rightarrow> bool" where
  "allowed_closing c m \<longleftrightarrow>
     (case c of
        WaitingForClient _ \<Rightarrow>
          (case m of AuthResult _ _ \<Rightarrow> True | SessionCancelled _ \<Rightarrow> True | CloseTimeout _ \<Rightarrow> True
           | _ \<Rightarrow> False)
      | WaitingForUserSelectionCancellation _ \<Rightarrow>
          (case m of UserSelectionCancelled _ _ \<Rightarrow> True | CloseTimeout _ \<Rightarrow> True | _ \<Rightarrow> False)
      | Cancelling _ \<Rightarrow>
          (case m of SessionCancelled _ \<Rightarrow> True | CloseTimeout _ \<Rightarrow> True | _ \<Rightarrow> False)
      | Dispatching _ \<Rightarrow> False)"

definition allowed_power :: "power_state \<Rightarrow> app_message \<Rightarrow> bool" where
  "allowed_power p m \<longleftrightarrow>
     (case m of
        Tick \<Rightarrow> True
      | WallpaperFrameReady \<Rightarrow> True
      | WallpaperAllocated \<Rightarrow> True
      | RendererInformation \<Rightarrow> True
      | OutputLayoutChanged \<Rightarrow> True
      | AuthResult _ _ \<Rightarrow> True
      | AccountsResult _ \<Rightarrow> True
      | CloseRequested _ \<Rightarrow> True
      | SessionCancelled _ \<Rightarrow> True
      | CloseTimeout _ \<Rightarrow> True
      | CancelPower \<Rightarrow> (case p of Confirming _ \<Rightarrow> True | _ \<Rightarrow> False)
      | NavigateModal _ \<Rightarrow> (case p of Confirming _ \<Rightarrow> True | _ \<Rightarrow> False)
      | Escape \<Rightarrow> (case p of Confirming _ \<Rightarrow> True | _ \<Rightarrow> False)
      | ConfirmPower actual \<Rightarrow> p = Confirming actual
      | PowerResult _ \<Rightarrow> (case p of Executing _ \<Rightarrow> True | _ \<Rightarrow> False)
      | _ \<Rightarrow> False)"

definition gate ::
  "(app_message \<Rightarrow> app \<Rightarrow> outcome) \<Rightarrow> app_message \<Rightarrow> app \<Rightarrow> outcome" where
  "gate handler m a =
     (if \<not> (case app_closing a of None \<Rightarrow> True | Some c \<Rightarrow> allowed_closing c m) then (a, [])
      else if app_power a \<noteq> PowerIdle \<and> \<not> allowed_power (app_power a) m then (a, [])
      else handler m a)"

definition update_inner :: "app_env \<Rightarrow> app_message \<Rightarrow> app \<Rightarrow> outcome" where
  "update_inner env = gate (dispatch (\<lambda>_ a. (a, [])) env)"

definition app_update :: "app_env \<Rightarrow> app_message \<Rightarrow> app \<Rightarrow> outcome" where
  "app_update env = gate (dispatch (update_inner env) env)"

text \<open>The inner calls never navigate or escape, so two levels are the source's recursion.\<close>

fun nests :: "app_message \<Rightarrow> bool" where
  "nests (NavigateFocus _) = True"
| "nests (NavigateModal _) = True"
| "nests Escape = True"
| "nests _ = False"

lemma update_inner_same: "\<not> nests m \<Longrightarrow> update_inner env m a = app_update env m a"
  by (cases m) (simp_all add: update_inner_def app_update_def gate_def dispatch_def)

lemma navigate_cong:
  assumes "\<And>m. \<not> nests m \<Longrightarrow> f m a = g m a"
  shows "navigate_focus f n a = navigate_focus g n a"
  using assms by (simp add: navigate_focus_def activate_focus_def
      split: navigation.split option.split focus_target.split power_state.split)

lemma update_unfold: "app_update env m a = gate (dispatch (app_update env) env) m a"
proof -
  have "dispatch (update_inner env) env m x = dispatch (app_update env) env m x" for x
    using navigate_cong [of "update_inner env" _ "app_update env"] update_inner_same
    by (cases m) (simp_all add: dispatch_def)
  then show ?thesis by (simp add: app_update_def gate_def)
qed

definition startup :: "app_env \<Rightarrow> ustring option \<Rightarrow> ustring option \<Rightarrow> (uchar \<Rightarrow> bool) \<Rightarrow> bool \<Rightarrow> bool \<Rightarrow> outcome" where
  "startup env name display is_format heic monitored =
     (let found = found_sessions env;
          sess = (case found of [] \<Rightarrow> None | s # _ \<Rightarrow> Some s);
          account = map_option (\<lambda>n. override_account is_format n display) name;
          ph = (if sess = None then PhFailed else if account \<noteq> None then CreatingSession else DiscoveringUsers);
          a = \<lparr>app_username = (case account of None \<Rightarrow> [] | Some x \<Rightarrow> username x),
               app_display_name = (case account of None \<Rightarrow> SELECT_A_USER | Some x \<Rightarrow> display_name x),
               app_accounts = (case account of None \<Rightarrow> [] | Some x \<Rightarrow> [x]), focus = None,
               focus_before_modal = None, app_conversation = Conversation_new,
               session_message = (if sess = None then Some NO_SESSIONS else None),
               power_message = None, power_message_is_error = False, preview_message = None,
               app_phase = ph, app_client = None, app_sessions = found, selected_session = sess,
               session_menu_open = False, pending_heic = heic, app_now = local_now env,
               app_power = PowerIdle, selection_session_cancelled = False, app_closing = None,
               preview = False, output_monitored = monitored,
               authentication_region = (if monitored then monitor_region env else None),
               window_size = None, authentication_layout = False\<rparr>
      in case ph of
           CreatingSession \<Rightarrow> (a, [BeginSession (app_username a) (app_attempt a) True])
         | DiscoveringUsers \<Rightarrow> (a, [DiscoverAccounts])
         | _ \<Rightarrow> focus_first a)"

end
