(* ===== verification/Greeter_Session.thy ===== *)
theory Greeter_Session
  imports Greeter_App Machines
begin

text \<open>
  The greeter in its environment: the tasks its message handler starts run concurrently and each
  delivers at most one message, in any order, while the user, the window system and timers act at
  any time. Invariants of the authentication flow over every such run: at most one request of the
  current attempt is in flight, credentials answer a prompt, the session is started only after
  greetd's success and the greeter exits only after greetd started it, and closing always ends.
\<close>

section \<open>The environment\<close>

text \<open>Which messages a task can deliver (the closures passed to \<open>Task::perform\<close>).\<close>

definition delivers_result :: "attempt \<Rightarrow> bool \<Rightarrow> app_message \<Rightarrow> bool" where
  "delivers_result att opens m \<longleftrightarrow>
     (case m of
        AuthResult att' r \<Rightarrow>
          att' = att \<and> (case r of Inl _ \<Rightarrow> True | Inr (c, _) \<Rightarrow> (c \<noteq> None) = opens)
      | _ \<Rightarrow> False)"

definition delivers :: "task \<Rightarrow> app_message \<Rightarrow> bool" where
  "delivers t m \<longleftrightarrow>
     (case t of
        BeginSession _ att _ \<Rightarrow> delivers_result att True m
      | RestartSession _ _ att \<Rightarrow> delivers_result att True m
      | Exchange _ _ att \<Rightarrow> delivers_result att False m
      | CancelForClose _ w \<Rightarrow> m = SessionCancelled w
      | CancelForSelection _ att \<Rightarrow> (case m of UserSelectionCancelled att' _ \<Rightarrow> att' = att | _ \<Rightarrow> False)
      | SlowTimer att \<Rightarrow> m = UserSelectionCancellationSlow att
      | CloseTimer w \<Rightarrow> m = CloseTimeout w
      | DiscoverAccounts \<Rightarrow> (case m of AccountsResult _ \<Rightarrow> True | _ \<Rightarrow> False)
      | ExecutePower _ \<Rightarrow> (case m of PowerResult _ \<Rightarrow> True | _ \<Rightarrow> False)
      | AllocateImage \<Rightarrow> m = WallpaperAllocated
      | FindFocused \<Rightarrow> (case m of WidgetFocused _ \<Rightarrow> True | _ \<Rightarrow> False)
      | _ \<Rightarrow> False)"

text \<open>Messages that come from the user, the window system, the clock and the subscriptions.\<close>

fun spontaneous :: "app_message \<Rightarrow> bool" where
  "spontaneous (AuthResult _ _) = False"
| "spontaneous (AccountsResult _) = False"
| "spontaneous (UserSelectionCancelled _ _) = False"
| "spontaneous (UserSelectionCancellationSlow _) = False"
| "spontaneous (PowerResult _) = False"
| "spontaneous (SessionCancelled _) = False"
| "spontaneous (CloseTimeout _) = False"
| "spontaneous _ = True"

record greeter =
  g_app :: app
  pending :: "task list"

datatype greeter_input = Spontaneous app_env app_message | Completed app_env nat app_message

definition without :: "nat \<Rightarrow> 'a list \<Rightarrow> 'a list" where
  "without k xs = take k xs @ drop (Suc k) xs"

definition perform :: "app_env \<Rightarrow> app_message \<Rightarrow> greeter \<Rightarrow> greeter \<times> task list" where
  "perform env m s =
     (case app_update env m (g_app s) of
        (a, ts) \<Rightarrow> (\<lparr>g_app = a, pending = pending s @ ts\<rparr>, ts))"

fun greeter_step :: "(greeter, greeter_input, task list) machine" where
  "greeter_step s (Spontaneous env m) = (if spontaneous m then perform env m s else (s, []))"
| "greeter_step s (Completed env k m) =
     (if k < length (pending s) \<and> delivers (pending s ! k) m
      then perform env m (s\<lparr>pending := without k (pending s)\<rparr>) else (s, []))"

definition started_greeter :: "greeter \<Rightarrow> bool" where
  "started_greeter s \<longleftrightarrow> (\<exists>env name display is_format heic monitored.
     startup env name display is_format heic monitored = (g_app s, pending s))"

section \<open>What leaves the flow alone\<close>

text \<open>The attempt an authentication task belongs to.\<close>

fun auth_attempt :: "task \<Rightarrow> attempt option" where
  "auth_attempt (BeginSession _ att _) = Some att"
| "auth_attempt (RestartSession _ _ att) = Some att"
| "auth_attempt (Exchange _ _ att) = Some att"
| "auth_attempt _ = None"

fun flow_task :: "task \<Rightarrow> bool" where
  "flow_task DiscoverAccounts = True"
| "flow_task ExitGreeter = True"
| "flow_task t = (auth_attempt t \<noteq> None)"

fun closes_window :: "task \<Rightarrow> bool" where
  "closes_window (CloseWindow _) = True"
| "closes_window _ = False"

definition mild :: "task list \<Rightarrow> bool" where
  "mild ts \<longleftrightarrow> list_all (\<lambda>t. \<not> flow_task t) ts"

definition calm :: "task list \<Rightarrow> bool" where
  "calm ts \<longleftrightarrow> mild ts \<and> list_all (\<lambda>t. \<not> closes_window t) ts"

lemma calm_simps [simp]:
  "mild []" "mild (t # ts) \<longleftrightarrow> \<not> flow_task t \<and> mild ts" "mild (ts @ us) \<longleftrightarrow> mild ts \<and> mild us"
  "calm []" "calm (t # ts) \<longleftrightarrow> \<not> flow_task t \<and> \<not> closes_window t \<and> calm ts"
  "calm (ts @ us) \<longleftrightarrow> calm ts \<and> calm us"
  by (auto simp: mild_def calm_def)

lemma calm_mild [simp]: "calm ts \<Longrightarrow> mild ts"
  by (simp add: calm_def)

definition same_flow :: "app \<Rightarrow> app \<Rightarrow> bool" where
  "same_flow a a' \<longleftrightarrow> app_phase a' = app_phase a \<and> app_conversation a' = app_conversation a
     \<and> app_client a' = app_client a \<and> app_closing a' = app_closing a \<and> preview a' = preview a
     \<and> app_username a' = app_username a"

lemma same_flow_refl: "same_flow a a" by (simp add: same_flow_def)

lemma same_flow_trans: "same_flow a b \<Longrightarrow> same_flow b c \<Longrightarrow> same_flow a c"
  by (simp add: same_flow_def)

named_theorems focus_flow "the focus operations leave the authentication flow alone"

lemma reveal_calm [simp]: "calm (reveal_account i a)"
  by (simp add: reveal_account_def)

lemma set_focus_flow [focus_flow]: "same_flow a (fst (set_focus t a)) \<and> calm (snd (set_focus t a))"
  by (cases t) (simp_all add: set_focus_def close_session_menu_def same_flow_def reveal_account_def Let_def)

lemma unfocus_flow [focus_flow]: "same_flow a (fst (unfocus a)) \<and> calm (snd (unfocus a))"
  by (simp add: unfocus_def close_session_menu_def same_flow_def)

lemma focus_first_flow [focus_flow]: "same_flow a (fst (focus_first a)) \<and> calm (snd (focus_first a))"
  by (simp add: focus_first_def focus_flow split: list.split)

lemma focus_input_flow [focus_flow]: "same_flow a (fst (focus_input a)) \<and> calm (snd (focus_input a))"
  by (simp add: focus_input_def focus_flow)

lemma blur_input_flow [focus_flow]: "same_flow a (fst (blur_input a)) \<and> calm (snd (blur_input a))"
  by (simp add: blur_input_def close_session_menu_def same_flow_def Let_def)

lemma same_flow_update:
  "same_flow a (a\<lparr>focus := x\<rparr>)" "same_flow a (a\<lparr>focus_before_modal := x\<rparr>)"
  "same_flow a (a\<lparr>app_power := p\<rparr>)" "same_flow a (a\<lparr>selected_session := s\<rparr>)"
  "same_flow a (close_session_menu a)"
  by (simp_all add: same_flow_def close_session_menu_def)

lemma enter_dialog_flow [focus_flow]:
  "same_flow a (fst (enter_power_dialog a)) \<and> calm (snd (enter_power_dialog a))"
  using set_focus_flow [of "a\<lparr>focus_before_modal := focus a\<rparr>" TDialogCancel]
  by (simp add: enter_power_dialog_def same_flow_def)

lemma leave_dialog_flow [focus_flow]:
  "same_flow a (fst (leave_power_dialog a)) \<and> calm (snd (leave_power_dialog a))"
  using set_focus_flow [of "a\<lparr>focus_before_modal := None\<rparr>"] unfocus_flow [of "a\<lparr>focus_before_modal := None\<rparr>"]
  by (simp add: leave_power_dialog_def same_flow_def Let_def split: option.split)

lemma move_focus_flow [focus_flow]: "same_flow a (fst (move_focus d a)) \<and> calm (snd (move_focus d a))"
  by (simp add: move_focus_def focus_flow Let_def)

lemma cycle_session_flow [focus_flow]: "same_flow a (cycle_session d a)"
  by (simp add: cycle_session_def same_flow_def Let_def)

lemma move_directional_flow [focus_flow]:
  "same_flow a (fst (move_directional d a)) \<and> calm (snd (move_directional d a))"
  by (simp add: move_directional_def focus_flow same_flow_refl split: option.split focus_target.split)

section \<open>The flow of authentication\<close>

text \<open>
  The abstract specification of the handler: seen from the authentication flow, every message but a
  result of greetd either lets the flow rest, moves between phases in which nothing is asked of
  greetd, renews the attempt (and perhaps asks for a session), or answers the prompt.
\<close>

abbreviation busy :: "phase \<Rightarrow> bool" where
  "busy ph \<equiv> ph = CreatingSession \<or> ph = Authenticating \<or> ph = StartingSession"

abbreviation prompting :: "app \<Rightarrow> bool" where
  "prompting a \<equiv> conv_status (app_conversation a) = Waiting"

fun begins :: "attempt \<Rightarrow> task \<Rightarrow> bool" where
  "begins att (BeginSession _ att' _) = (att' = att)"
| "begins att (RestartSession _ _ att') = (att' = att)"
| "begins _ _ = False"

definition rests :: "app \<Rightarrow> app \<Rightarrow> task list \<Rightarrow> bool" where
  "rests a a' ts \<longleftrightarrow> app_phase a' = app_phase a \<and> app_attempt a' = app_attempt a
     \<and> (prompting a' \<longrightarrow> prompting a) \<and> preview a' = preview a \<and> mild ts"

definition idles :: "app \<Rightarrow> app \<Rightarrow> task list \<Rightarrow> bool" where
  "idles a a' ts \<longleftrightarrow> \<not> busy (app_phase a) \<and> \<not> busy (app_phase a') \<and> app_attempt a' = app_attempt a
     \<and> (prompting a' \<longrightarrow> app_phase a' = WaitingForInput) \<and> preview a' = preview a
     \<and> app_phase a \<noteq> DiscoveringUsers
     \<and> (mild ts \<and> app_phase a' \<noteq> DiscoveringUsers \<or> ts = [DiscoverAccounts] \<and> app_phase a' = DiscoveringUsers)"

definition renews :: "app \<Rightarrow> app \<Rightarrow> task list \<Rightarrow> bool" where
  "renews a a' ts \<longleftrightarrow> app_attempt a' = Attempt_next (app_attempt a) \<and> preview a' = preview a
     \<and> (prompting a' \<longrightarrow> prompting a \<and> app_phase a' = app_phase a)
     \<and> (app_phase a' = DiscoveringUsers) = (app_phase a = DiscoveringUsers)
     \<and> (mild ts \<or> app_phase a' = CreatingSession \<and> (\<exists>t. ts = [t] \<and> begins (app_attempt a') t))"

definition asks :: "app \<Rightarrow> app \<Rightarrow> task list \<Rightarrow> bool" where
  "asks a a' ts \<longleftrightarrow> prompting a \<and> \<not> prompting a' \<and> app_phase a' = Authenticating
     \<and> app_attempt a' = app_attempt a \<and> preview a' = preview a \<and> input (app_conversation a') = []
     \<and> (\<exists>c. ts = [Exchange c (PostAuthMessageResponse (Some (input (app_conversation a)))) (app_attempt a)])"

definition moves :: "app \<Rightarrow> app \<times> task list \<Rightarrow> bool" where
  "moves a x \<longleftrightarrow> rests a (fst x) (snd x) \<or> idles a (fst x) (snd x) \<or> renews a (fst x) (snd x)
     \<or> asks a (fst x) (snd x)"

lemma rests_same: "same_flow a (fst x) \<and> calm (snd x) \<Longrightarrow> moves a x"
  by (auto simp: moves_def rests_def same_flow_def calm_mild)

lemma rests_flow: "rests a b [] \<Longrightarrow> same_flow b (fst x) \<and> calm (snd x) \<Longrightarrow> moves a x"
  by (auto simp: moves_def rests_def same_flow_def calm_mild)

lemma idles_flow: "idles a b [] \<Longrightarrow> same_flow b (fst x) \<and> calm (snd x) \<Longrightarrow> moves a x"
  by (auto simp: moves_def idles_def same_flow_def calm_mild)

lemma renews_flow: "renews a b [] \<Longrightarrow> same_flow b (fst x) \<and> calm (snd x) \<Longrightarrow> moves a x"
  by (auto simp: moves_def renews_def same_flow_def calm_mild)

lemma moves_refl [simp]: "moves a (a, [])"
  by (simp add: moves_def rests_def)

text \<open>The state in which a message is handled: outside a preview, and prompting only in its phase.\<close>

abbreviation poised :: "app \<Rightarrow> bool" where
  "poised a \<equiv> \<not> preview a \<and> (prompting a \<longrightarrow> app_phase a = WaitingForInput)"

lemma conv_status_ops [simp]:
  "conv_status (set_notice m e c) = conv_status c" "conv_attempt (set_notice m e c) = conv_attempt c"
  "conv_status (clear_notice c) = conv_status c" "conv_attempt (clear_notice c) = conv_attempt c"
  "conv_status (clear_response c) = conv_status c" "conv_attempt (clear_response c) = conv_attempt c"
  "conv_status (invalidate_attempt c) = conv_status c"
  "conv_attempt (invalidate_attempt c) = Attempt_next (conv_attempt c)"
  "conv_status (fst (begin_attempt c)) = Submitting"
  "conv_attempt (fst (begin_attempt c)) = Attempt_next (conv_attempt c)"
  "conv_status (conv_fail m c) = Failed" "conv_attempt (conv_fail m c) = conv_attempt c"
  by (simp_all add: set_notice_def clear_notice_def clear_response_def invalidate_attempt_def
      begin_attempt_def conv_fail_def conv_receive_def accepts_def Let_def)

lemma status_distinct [simp]: "Submitting \<noteq> Waiting" "Failed \<noteq> Waiting" by simp_all

lemma app_fail_moves: "\<not> busy (app_phase a) \<Longrightarrow> app_phase a \<noteq> DiscoveringUsers \<Longrightarrow> moves a (app_fail m a)"
  unfolding app_fail_def by (rule idles_flow [OF _ focus_first_flow]) (simp add: idles_def)

lemma select_account_moves:
  "\<not> preview a \<Longrightarrow> app_phase a \<noteq> DiscoveringUsers \<Longrightarrow> moves a (select_account account a)"
  by (auto simp: moves_def renews_def select_account_def renew_attempt_def close_session_menu_def Let_def)

lemma retry_authentication_moves: "app_phase a \<noteq> DiscoveringUsers \<Longrightarrow> moves a (retry_authentication a)"
  by (auto simp: moves_def renews_def retry_authentication_def renew_attempt_def Let_def)

lemma discover_again_moves: "app_phase a = PhFailed \<Longrightarrow> \<not> prompting a \<Longrightarrow> moves a (discover_again a)"
  by (simp add: moves_def idles_def discover_again_def)

lemma selecting_moves:
  assumes "renews a b []" "\<not> preview b" "calm ts"
  shows "moves a (case focus_first b of (b', focused) \<Rightarrow>
    if preview b' then finish_preview_user_selection b' else (b', ts @ focused))"
proof -
  obtain b' focused where f: "focus_first b = (b', focused)" by fastforce
  have s: "same_flow b b' \<and> calm focused" using focus_first_flow [of b] f by simp
  then have "moves a (b', ts @ focused)" using assms(1,3) by (auto intro: renews_flow)
  moreover have "\<not> preview b'" using s assms(2) by (simp add: same_flow_def)
  ultimately show ?thesis using f by simp
qed

lemma cancel_selection_calm: "calm (cancel_for_user_selection c att)"
  by (simp add: cancel_for_user_selection_def)

lemma change_user_moves:
  "app_phase a \<noteq> DiscoveringUsers \<Longrightarrow> \<not> preview a \<Longrightarrow> moves a (change_user a)"
  unfolding change_user_def Let_def
  by (rule selecting_moves [OF _ _ cancel_selection_calm])
    (simp_all add: renews_def app_note_def renew_attempt_def)

lemma retry_user_selection_moves:
  "app_phase a \<noteq> DiscoveringUsers \<Longrightarrow> \<not> preview a \<Longrightarrow> moves a (retry_user_selection a)"
  unfolding retry_user_selection_def Let_def
  by (rule selecting_moves [OF _ _ cancel_selection_calm])
    (simp_all add: renews_def app_note_def renew_attempt_def)

lemma selection_cancelled_moves:
  assumes "poised a"
  shows "moves a (handle_selection_cancelled att r a)"
proof -
  have c: "idles a (set_auth_notice e True (a\<lparr>app_phase := UserSelectionCancellationFailed\<rparr>)) []"
    "idles a (app_note SELECT_A_USER (a\<lparr>app_phase := SelectingUser, selection_session_cancelled := True\<rparr>)) []"
    if "app_phase a = CancellingForUserSelection" for e
    using assms that by (simp_all add: idles_def app_note_def set_auth_notice_def)
  have "rests a (a\<lparr>app_closing := x\<rparr>) [CloseWindow w]" for x w by (simp add: rests_def)
  then have "moves a (a\<lparr>app_closing := x\<rparr>, [CloseWindow w])" for x w by (simp add: moves_def)
  with idles_flow [OF c(1) set_focus_flow] idles_flow [OF c(2) set_focus_flow] show ?thesis
    by (simp add: handle_selection_cancelled_def split: option.split closing.split sum.split)
qed

lemma retry_moves: "poised a \<Longrightarrow> moves a (handle_retry a)"
  using retry_authentication_moves [of a] discover_again_moves [of a]
  by (auto simp: handle_retry_def)

lemma retry_session_moves:
  assumes "poised a"
  shows "moves a (handle_retry_session env a)"
proof (cases "app_phase a = PhFailed \<and> selected_session a = None")
  case True
  let ?b = "a\<lparr>app_sessions := found_sessions env, selected_session := x, session_message := msg\<rparr>"
  have "moves a (discover_again (a\<lparr>app_sessions := f, selected_session := x, session_message := msg\<rparr>))"
    "moves a (retry_authentication (a\<lparr>app_sessions := f, selected_session := x, session_message := msg\<rparr>))"
    "moves a (a\<lparr>app_sessions := f, selected_session := x, session_message := msg\<rparr>, [])" for f x msg
    using assms True
    by (auto simp: moves_def renews_def retry_authentication_def renew_attempt_def idles_def
        discover_again_def rests_def Let_def)
  with True assms show ?thesis
    by (simp add: handle_retry_session_def Let_def)
qed (auto simp: handle_retry_session_def)

lemma submit_moves:
  assumes "poised a"
  shows "moves a (handle_submit a)"
proof (cases "prompting a")
  case False
  then show ?thesis by (simp add: handle_submit_def)
next
  case True
  with assms have ph: "app_phase a = WaitingForInput" by simp
  show ?thesis
  proof (cases "app_client a")
    case None
    with True assms ph app_fail_moves [of a LOST_CONNECTION] show ?thesis by (simp add: handle_submit_def)
  next
    case (Some c)
    with True assms show ?thesis by (simp add: handle_submit_def submit_def moves_def asks_def)
  qed
qed

lemma confirm_power_moves: "poised a \<Longrightarrow> moves a (handle_confirm_power p a)"
  by (simp add: handle_confirm_power_def moves_def rests_def)

lemma power_result_moves: "moves a (handle_power_result r a)"
proof -
  have "moves a (leave_power_dialog b)" if "same_flow a b" for b
    using rests_same [of a "leave_power_dialog b"] leave_dialog_flow [of b] same_flow_trans [OF that] by blast
  moreover have "same_flow a (a\<lparr>app_power := p, power_message := m\<rparr>)"
    "same_flow a (a\<lparr>app_power := p, power_message := m, power_message_is_error := e\<rparr>)" for p m e
    by (simp_all add: same_flow_def)
  ultimately show ?thesis by (simp add: handle_power_result_def split: sum.split)
qed

lemma close_requested_moves:
  assumes "poised a"
  shows "moves a (handle_close_requested w a)"
proof -
  have "moves a (close_with c w (a\<lparr>app_client := c'\<rparr>))" "moves a (close_with c w a)"
    "moves a (a\<lparr>app_closing := x\<rparr>, [CloseTimer w])" "moves a (a\<lparr>app_closing := x\<rparr>, [CloseWindow w])" for c c' x
    by (simp_all add: moves_def renews_def rests_def close_with_def)
  with assms show ?thesis by (simp add: handle_close_requested_def)
qed

lemma same_moves: "same_flow a b \<Longrightarrow> moves b x \<Longrightarrow> moves a x"
  by (simp add: moves_def rests_def idles_def renews_def asks_def same_flow_def)

lemma moves_rests: "rests a b ts \<Longrightarrow> moves a (b, ts)"
  by (simp add: moves_def)

lemma moves_same: "same_flow a b \<Longrightarrow> calm ts \<Longrightarrow> moves a (b, ts)"
  using rests_same [of a "(b, ts)"] by simp

lemma frame_calm [simp]: "calm (prepare_wallpaper_frame env)"
  by (simp add: prepare_wallpaper_frame_def)

lemma renderer_moves: "moves a (apply_renderer_information env a)"
  by (simp add: apply_renderer_information_def moves_def rests_def)

lemma input_moves:
  "moves a (case update_input text (app_conversation a) of
     (conv, True) \<Rightarrow> (a\<lparr>app_conversation := conv, focus := Some TAuthenticationInput\<rparr>, [])
   | (conv, False) \<Rightarrow> (a\<lparr>app_conversation := conv\<rparr>, []))"
  by (simp add: update_input_def moves_def rests_def Let_def split: bool.split)

lemma set_focus_moves: "same_flow a b \<Longrightarrow> moves a (set_focus t b)"
  using rests_same [of a "set_focus t b"] set_focus_flow [of b t] same_flow_trans by blast

lemma leave_dialog_moves: "same_flow a b \<Longrightarrow> moves a (leave_power_dialog b)"
  using rests_same [of a "leave_power_dialog b"] leave_dialog_flow [of b] same_flow_trans by blast

lemma enter_dialog_moves: "same_flow a b \<Longrightarrow> moves a (enter_power_dialog b)"
  using rests_same [of a "enter_power_dialog b"] enter_dialog_flow [of b] same_flow_trans by blast

lemma layout_moves: "same_flow a b \<Longrightarrow> moves a (b, reveal_focused_input b)"
  by (rule moves_same) (simp_all add: reveal_focused_input_def)

text \<open>Answers of greetd and of the accounts service are handled apart.\<close>

definition unsolicited :: "app_message \<Rightarrow> bool" where
  "unsolicited m \<longleftrightarrow> (case m of AuthResult _ _ \<Rightarrow> False
     | AccountsResult _ \<Rightarrow> False | _ \<Rightarrow> True)"

lemma dispatch_moves:
  assumes "poised a" "unsolicited m" "\<not> nests m"
  shows "moves a (dispatch rec env m a)"
proof (cases m)
  case (AuthResult att r)
  with assms show ?thesis by (simp add: unsolicited_def)
next
  case (AccountsResult r)
  with assms show ?thesis by (simp add: unsolicited_def)
next
  case ChangeUser
  with assms change_user_moves [of a] show ?thesis by (auto simp: dispatch_def can_change_user_def)
next
  case (SelectAccount x)
  with assms select_account_moves [of a] show ?thesis by (simp add: dispatch_def can_select_account_def)
next
  case RetryUserSelectionCancellation
  with assms retry_user_selection_moves [of a] show ?thesis by (simp add: dispatch_def)
next
  case (CloseTimeout w)
  then show ?thesis by (simp add: dispatch_def moves_def renews_def rests_def)
next
  case (InputChanged x)
  with input_moves [of a x] show ?thesis by (simp add: dispatch_def)
qed (use assms in \<open>simp_all add: dispatch_def moves_rests rests_def moves_same same_flow_update
      selection_cancelled_moves renderer_moves set_focus_moves enter_dialog_moves leave_dialog_moves
      same_flow_def close_session_menu_def layout_moves retry_moves retry_session_moves submit_moves
      confirm_power_moves power_result_moves close_requested_moves app_note_def sync_widget_focus_def
      apply_widget_focus_def Let_def\<close>)

lemma gate_moves:
  assumes "moves a (h m a)" shows "moves a (gate h m a)"
  using assms by (simp add: gate_def)

lemma navigate_moves:
  assumes "\<And>m. \<not> nests m \<Longrightarrow> unsolicited m \<Longrightarrow> moves a (rec m a)"
  shows "moves a (navigate_focus rec n a)"
proof -
  have "moves a (activate_focus rec a)"
    using assms
    by (simp add: activate_focus_def unsolicited_def cycle_session_flow moves_same
        split: option.split focus_target.split power_state.split)
  then show ?thesis
    using rests_same [OF move_focus_flow] rests_same [OF move_directional_flow]
    by (simp add: navigate_focus_def split: navigation.split)
qed

lemma update_moves:
  assumes "poised a" "unsolicited m"
  shows "moves a (app_update env m a)"
proof -
  have inner: "moves b (update_inner env m' b)" if "poised b" "unsolicited m'" "\<not> nests m'" for b m'
    using gate_moves [of b "dispatch (\<lambda>_ a. (a, [])) env" m'] dispatch_moves [OF that] by (simp add: update_inner_def)
  have c: "same_flow a (close_session_menu a)" by (simp add: same_flow_update)
  have p: "poised (close_session_menu a)" using assms(1) by (simp add: close_session_menu_def)
  have "moves a (dispatch (update_inner env) env m a)"
  proof (cases "nests m")
    case False
    with assms show ?thesis by (rule dispatch_moves)
  next
    case True
    have "moves a (navigate_focus (update_inner env) n a)" for n
      using inner assms(1) by (intro navigate_moves)
    moreover have "moves a (navigate_focus (update_inner env) n (close_session_menu a))" for n
      using same_moves [OF c navigate_moves] inner [OF p] by blast
    moreover have "moves a (update_inner env CancelPower a)"
      using inner assms(1) by (simp add: unsolicited_def)
    moreover have "moves a (close_session_menu a, [])" using c by (rule moves_same) simp
    moreover have "moves a (blur_input a)" by (rule rests_same [OF blur_input_flow])
    ultimately show ?thesis using True by (cases m) (simp_all add: dispatch_def)
  qed
  then show ?thesis unfolding app_update_def by (rule gate_moves)
qed

end
