(* ===== verification/Greeter_Flow.thy ===== *)
theory Greeter_Flow
  imports Greeter_Session
begin

text \<open>
  The authentication flow of the greeter over every run: what an answer of greetd and of the accounts
  service does, the invariant of the tasks in flight, and the properties that follow. An attempt is
  a 64-bit counter that wraps, so the properties are about runs of less than \<open>2 ^ 64 - 2\<close> inputs.
\<close>

section \<open>Answers\<close>

definition discovers :: "app \<Rightarrow> app \<Rightarrow> task list \<Rightarrow> bool" where
  "discovers a a' ts \<longleftrightarrow> app_phase a' \<noteq> DiscoveringUsers \<and> preview a' = preview a \<and> \<not> prompting a'
     \<and> (app_attempt a' = app_attempt a \<and> \<not> busy (app_phase a') \<and> mild ts
        \<or> app_attempt a' = Attempt_next (app_attempt a) \<and> app_phase a' = CreatingSession
          \<and> (\<exists>t. ts = [t] \<and> begins (app_attempt a') t))"

definition settles :: "app \<Rightarrow> app \<Rightarrow> task list \<Rightarrow> bool" where
  "settles a a' ts \<longleftrightarrow> app_attempt a' = app_attempt a \<and> preview a' = preview a \<and> mild ts
     \<and> \<not> busy (app_phase a') \<and> app_phase a' \<noteq> DiscoveringUsers
     \<and> (prompting a' \<longrightarrow> app_phase a' = WaitingForInput)"

definition acknowledges :: "app \<Rightarrow> app \<Rightarrow> task list \<Rightarrow> bool" where
  "acknowledges a a' ts \<longleftrightarrow> app_attempt a' = app_attempt a \<and> preview a' = preview a \<and> \<not> prompting a'
     \<and> app_phase a' = app_phase a \<and> (\<exists>c. ts = [Exchange c acknowledge_request (app_attempt a)])"

definition launches :: "app \<Rightarrow> app \<Rightarrow> task list \<Rightarrow> bool" where
  "launches a a' ts \<longleftrightarrow> app_attempt a' = app_attempt a \<and> preview a' = preview a \<and> \<not> prompting a'
     \<and> app_phase a \<noteq> StartingSession \<and> app_phase a' = StartingSession
     \<and> (\<exists>c s. selected_session a = Some s
          \<and> ts = [Exchange c (StartSession (session_command s) (session_environment s)) (app_attempt a)])"

definition exits :: "app \<Rightarrow> app \<Rightarrow> task list \<Rightarrow> bool" where
  "exits a a' ts \<longleftrightarrow> app_attempt a' = app_attempt a \<and> preview a' = preview a \<and> \<not> prompting a'
     \<and> app_phase a = StartingSession \<and> app_phase a' = StartingSession \<and> ts = [ExitGreeter]"

definition succeeded :: "ustring + nat option \<times> auth_response \<Rightarrow> bool" where
  "succeeded r \<longleftrightarrow> (case r of Inr (_, ASuccess) \<Rightarrow> True | _ \<Rightarrow> False)"

definition answers :: "app \<Rightarrow> ustring + nat option \<times> auth_response \<Rightarrow> app \<times> task list \<Rightarrow> bool" where
  "answers a r x \<longleftrightarrow> settles a (fst x) (snd x) \<or> acknowledges a (fst x) (snd x)
     \<or> succeeded r \<and> (launches a (fst x) (snd x) \<or> exits a (fst x) (snd x))"

lemmas answers_defs = settles_def acknowledges_def launches_def exits_def

lemma settles_flow: "settles a b [] \<Longrightarrow> same_flow b (fst x) \<and> calm (snd x) \<Longrightarrow> answers a r x"
  by (auto simp: answers_def settles_def same_flow_def calm_mild)

lemma answersI:
  "settles a b ts \<Longrightarrow> answers a r (b, ts)" "acknowledges a b ts \<Longrightarrow> answers a r (b, ts)"
  "succeeded r \<Longrightarrow> launches a b ts \<Longrightarrow> answers a r (b, ts)" "succeeded r \<Longrightarrow> exits a b ts \<Longrightarrow> answers a r (b, ts)"
  by (simp_all add: answers_def)

lemma app_fail_settles:
  "app_attempt b = app_attempt a \<Longrightarrow> preview b = preview a \<Longrightarrow> answers a r (app_fail m b)"
  unfolding app_fail_def by (rule settles_flow [OF _ focus_first_flow]) (simp add: settles_def)

lemma send_answers:
  assumes "app_attempt b = app_attempt a" "preview b = preview a"
    and "\<And>c. answers a r (b, [Exchange c q (app_attempt a)])"
  shows "answers a r (send_request q b)"
  using assms app_fail_settles by (simp add: send_request_def split: option.split)

lemma response_answers:
  assumes "poised a" "busy (app_phase a)" "conv_attempt (app_conversation b) = app_attempt a"
    "app_phase b = app_phase a" "app_conversation b = app_conversation a" "preview b = preview a"
    "selected_session b = selected_session a" "succeeded r \<longleftrightarrow> response = ASuccess"
  shows "answers a r (handle_auth_response response b)"
proof -
  have np: "\<not> prompting a" using assms(1,2) by auto
  show ?thesis
  proof (cases "app_phase a = StartingSession \<and> response = ASuccess")
    case True
    with assms np show ?thesis
      by (simp add: handle_auth_response_def transition_def accepts_def apply_auth_transition_def
          answersI exits_def Let_def)
  next
    case False
    show ?thesis
    proof (cases response)
      case ASuccess
      show ?thesis
      proof (cases "selected_session a")
        case None
        with False assms ASuccess app_fail_settles show ?thesis
          by (simp add: handle_auth_response_def transition_def accepts_def apply_auth_transition_def
              conversation_response_def conv_receive_def Let_def)
      next
        case (Some s)
        with False assms ASuccess show ?thesis
          by (simp add: handle_auth_response_def transition_def accepts_def apply_auth_transition_def
              conversation_response_def conv_receive_def Let_def send_answers answersI launches_def)
      qed
    next
      case (AError au d)
      with assms app_fail_settles show ?thesis
        by (simp add: handle_auth_response_def transition_def accepts_def apply_auth_transition_def
            conversation_response_def conv_receive_def Let_def split: bool.split)
    next
      case (APrompt h p)
      with assms show ?thesis
        by (simp add: handle_auth_response_def transition_def accepts_def apply_auth_transition_def
            conversation_response_def conv_receive_def Let_def settles_flow [OF _ focus_input_flow] settles_def)
    next
      case (AMessage e p)
      with assms np show ?thesis
        by (simp add: handle_auth_response_def transition_def accepts_def apply_auth_transition_def
            conversation_response_def conv_receive_def Let_def send_answers answersI acknowledges_def
            set_auth_notice_def)
    qed
  qed
qed

lemma result_answers:
  assumes "poised a" "busy (app_phase a)" "att = app_attempt a"
    "\<forall>w. app_closing a \<noteq> Some (WaitingForClient w)"
  shows "answers a r (handle_auth_result att r a)"
proof -
  have "handle_auth_result att r a =
      (case r of Inr (client, response) \<Rightarrow>
          handle_auth_response response (case client of None \<Rightarrow> a | Some c \<Rightarrow> a\<lparr>app_client := Some c\<rparr>)
        | Inl error \<Rightarrow> app_fail error a)"
    using assms(3,4) by (simp add: handle_auth_result_def accepts_def split: option.split closing.split)
  moreover have "succeeded (Inr (client, response)) \<longleftrightarrow> response = ASuccess" for client response
    by (simp add: succeeded_def split: auth_response.split)
  ultimately show ?thesis
    using assms response_answers [OF assms(1,2)] app_fail_settles [of a a]
    by (auto split: sum.split option.split)
qed

lemma update_answer:
  assumes "poised a" "busy (app_phase a) \<or> att \<noteq> app_attempt a"
  shows "app_update env (AuthResult att r) a = (a, [])
    \<or> (\<exists>a' ts. app_update env (AuthResult att r) a = (a', ts) \<and> renews a a' ts \<and> mild ts)
    \<or> att = app_attempt a \<and> answers a r (app_update env (AuthResult att r) a)"
proof -
  have u: "app_update env (AuthResult att r) a = (a, []) \<or>
      app_update env (AuthResult att r) a = handle_auth_result att r a"
    by (simp add: app_update_def gate_def dispatch_def)
  have "\<exists>a' ts. handle_auth_result att r a = (a', ts) \<and> renews a a' ts \<and> mild ts"
    if "app_closing a = Some (WaitingForClient w)" "att = app_attempt a" for w
    using that by (simp add: handle_auth_result_def accepts_def renews_def)
  moreover have "handle_auth_result att r a = (a, [])" if "att \<noteq> app_attempt a"
    using that by (simp add: handle_auth_result_def accepts_def)
  ultimately show ?thesis using u assms result_answers [of a att r] by metis
qed

lemma accounts_discovers:
  assumes "poised a" "app_phase a = DiscoveringUsers"
  shows "discovers a (fst (handle_accounts r a)) (snd (handle_accounts r a))"
proof -
  have fail: "discovers a (fst (app_fail m a)) (snd (app_fail m a))" for m
    using focus_first_flow [of "a\<lparr>app_phase := PhFailed, app_conversation := conv_fail m (app_conversation a)\<rparr>"]
    by (simp add: app_fail_def discovers_def same_flow_def)
  show ?thesis
  proof (cases r)
    case (Inl e)
    with fail show ?thesis by (simp add: handle_accounts_def)
  next
    case (Inr accounts)
    show ?thesis
    proof (cases accounts)
      case Nil
      with Inr fail show ?thesis by (simp add: handle_accounts_def)
    next
      case (Cons x xs)
      show ?thesis
      proof (cases "preferred_account accounts")
        case None
        have "\<not> prompting a" using assms by auto
        with Inr Cons None set_focus_flow [of "app_note SELECT_A_USER (a\<lparr>app_accounts := x # xs, app_phase := SelectingUser\<rparr>)" "TAccount 0"]
        show ?thesis by (simp add: handle_accounts_def discovers_def same_flow_def app_note_def)
      next
        case (Some account)
        with Inr Cons assms show ?thesis
          by (simp add: handle_accounts_def discovers_def select_account_def renew_attempt_def
              close_session_menu_def Let_def)
      qed
    qed
  qed
qed

lemma update_accounts:
  assumes "poised a" "app_phase a = DiscoveringUsers"
  shows "app_update env (AccountsResult r) a = (a, [])
    \<or> discovers a (fst (app_update env (AccountsResult r) a)) (snd (app_update env (AccountsResult r) a))"
  using accounts_discovers [OF assms, of r] by (simp add: app_update_def gate_def dispatch_def)

section \<open>The tasks in flight\<close>

fun serial :: "attempt \<Rightarrow> nat" where "serial (Attempt n) = unat n"

definition of_attempt :: "attempt \<Rightarrow> task list \<Rightarrow> task list" where
  "of_attempt att ts = filter (\<lambda>t. auth_attempt t = Some att) ts"

definition discoveries :: "task list \<Rightarrow> nat" where
  "discoveries ts = length (filter (\<lambda>t. t = DiscoverAccounts) ts)"

definition flow_inv :: "nat \<Rightarrow> app \<Rightarrow> task list \<Rightarrow> bool" where
  "flow_inv n a ts \<longleftrightarrow> poised a
     \<and> length (of_attempt (app_attempt a) ts) \<le> 1
     \<and> (of_attempt (app_attempt a) ts \<noteq> [] \<longrightarrow> busy (app_phase a))
     \<and> (\<forall>t\<in>set ts. \<forall>b. auth_attempt t = Some b \<longrightarrow> serial b \<le> serial (app_attempt a))
     \<and> serial (app_attempt a) \<le> Suc n
     \<and> discoveries ts \<le> (if app_phase a = DiscoveringUsers then 1 else 0)"

lemma of_attempt_append [simp]: "of_attempt att (ts @ us) = of_attempt att ts @ of_attempt att us"
  by (simp add: of_attempt_def)

lemma of_attempt_Cons [simp]:
  "of_attempt att (t # ts) = (if auth_attempt t = Some att then t # of_attempt att ts else of_attempt att ts)"
  "of_attempt att [] = []"
  by (simp_all add: of_attempt_def)

lemma discoveries_simps [simp]:
  "discoveries (ts @ us) = discoveries ts + discoveries us" "discoveries [] = 0"
  "discoveries (t # ts) = (if t = DiscoverAccounts then Suc (discoveries ts) else discoveries ts)"
  by (simp_all add: discoveries_def)

lemma mild_task: "\<not> flow_task t \<Longrightarrow> auth_attempt t = None \<and> t \<noteq> DiscoverAccounts \<and> t \<noteq> ExitGreeter"
  by (cases t) simp_all

lemma mild_silent:
  assumes "mild ts"
  shows "of_attempt att ts = []" "discoveries ts = 0" "t \<in> set ts \<Longrightarrow> auth_attempt t = None"
    "t \<in> set ts \<Longrightarrow> t \<noteq> ExitGreeter"
  using assms mild_task
  by (auto simp: of_attempt_def discoveries_def filter_empty_conv list_all_iff mild_def)

lemma begins_attempt: "begins att t \<Longrightarrow> auth_attempt t = Some att \<and> t \<noteq> DiscoverAccounts"
  by (cases t) simp_all

lemma serial_next: "serial att < 2 ^ 64 - 1 \<Longrightarrow> serial (Attempt_next att) = Suc (serial att)"
  by (cases att) (simp add: Attempt_next_def unat_word_ariths)

lemma fresh_attempt:
  assumes "flow_inv n a ts" "Suc n < 2 ^ 64 - 1"
  shows "serial (Attempt_next (app_attempt a)) = Suc (serial (app_attempt a))"
    "of_attempt (Attempt_next (app_attempt a)) ts = []"
proof -
  from assms show s: "serial (Attempt_next (app_attempt a)) = Suc (serial (app_attempt a))"
    by (intro serial_next) (simp add: flow_inv_def)
  have "serial b \<le> serial (app_attempt a)" if "t \<in> set ts" "auth_attempt t = Some b" for t b
    using assms(1) that by (simp add: flow_inv_def)
  with s show "of_attempt (Attempt_next (app_attempt a)) ts = []"
    by (fastforce simp: of_attempt_def filter_empty_conv)
qed

lemma mild_keeps:
  assumes "flow_inv n a ts" "mild us" "app_attempt a' = app_attempt a" "poised a'"
    "of_attempt (app_attempt a) ts \<noteq> [] \<longrightarrow> busy (app_phase a')"
    "discoveries ts \<le> (if app_phase a' = DiscoveringUsers then 1 else 0)"
  shows "flow_inv (Suc n) a' (ts @ us)"
  using assms mild_silent [OF assms(2)] by (auto simp: flow_inv_def)

lemma renewed_keeps:
  assumes "flow_inv n a ts" "Suc n < 2 ^ 64 - 1" "app_attempt a' = Attempt_next (app_attempt a)" "poised a'"
    "mild us \<or> app_phase a' = CreatingSession \<and> (\<exists>t. us = [t] \<and> begins (app_attempt a') t)"
    "discoveries ts \<le> (if app_phase a' = DiscoveringUsers then 1 else 0)"
  shows "flow_inv (Suc n) a' (ts @ us)"
proof -
  note f = fresh_attempt [OF assms(1,2)]
  have old: "serial b \<le> Suc (serial (app_attempt a))" if "t \<in> set ts" "auth_attempt t = Some b" for t b
    using assms(1) that by (fastforce simp: flow_inv_def)
  have "serial (app_attempt a) \<le> Suc n" using assms(1) by (simp add: flow_inv_def)
  with assms(3-6) f old mild_silent [of us] begins_attempt show ?thesis
    by (fastforce simp: flow_inv_def)
qed

lemma asked_keeps:
  assumes "flow_inv n a ts" "of_attempt (app_attempt a) ts = []" "app_phase a \<noteq> DiscoveringUsers"
    "app_attempt a' = app_attempt a" "poised a'" "busy (app_phase a')"
  shows "flow_inv (Suc n) a' (ts @ [Exchange c q (app_attempt a)])"
  using assms by (auto simp: flow_inv_def)

lemma moves_keeps:
  assumes "flow_inv n a ts" "Suc n < 2 ^ 64 - 1" "moves a (a', us)"
  shows "flow_inv (Suc n) a' (ts @ us)"
proof -
  have p: "poised a" and d: "discoveries ts \<le> (if app_phase a = DiscoveringUsers then 1 else 0)"
    and b: "of_attempt (app_attempt a) ts \<noteq> [] \<longrightarrow> busy (app_phase a)"
    using assms(1) by (simp_all add: flow_inv_def)
  consider "rests a a' us" | "idles a a' us" | "renews a a' us" | "asks a a' us"
    using assms(3) by (auto simp: moves_def)
  then show ?thesis
  proof cases
    case 1
    with p b d show ?thesis by (intro mild_keeps [OF assms(1)]) (auto simp: rests_def)
  next
    case 2
    show ?thesis
    proof (cases "mild us")
      case True
      with 2 p b d show ?thesis by (intro mild_keeps [OF assms(1)]) (auto simp: idles_def)
    next
      case False
      with 2 p b d assms(1) show ?thesis by (auto simp: idles_def flow_inv_def)
    qed
  next
    case 3
    with p d show ?thesis by (intro renewed_keeps [OF assms(1,2)]) (auto simp: renews_def)
  next
    case 4
    with p have "app_phase a = WaitingForInput" by (auto simp: asks_def)
    with 4 p b show ?thesis using asked_keeps [OF assms(1)] by (auto simp: asks_def)
  qed
qed

lemma answers_keeps:
  assumes "flow_inv n a ts" "of_attempt (app_attempt a) ts = []" "busy (app_phase a)" "answers a r (a', us)"
  shows "flow_inv (Suc n) a' (ts @ us)"
proof -
  have p: "poised a" and d: "discoveries ts = 0"
    using assms(1,3) by (auto simp: flow_inv_def)
  consider "settles a a' us" | "acknowledges a a' us" | "launches a a' us" | "exits a a' us"
    using assms(4) by (auto simp: answers_def)
  then show ?thesis
  proof cases
    case 1
    with p d assms(2) show ?thesis by (intro mild_keeps [OF assms(1)]) (auto simp: settles_def)
  next
    case 2
    with p assms(3) show ?thesis using asked_keeps [OF assms(1,2)] by (auto simp: acknowledges_def)
  next
    case 3
    with p assms(3) show ?thesis using asked_keeps [OF assms(1,2)] by (auto simp: launches_def)
  next
    case 4
    with p d assms show ?thesis by (auto simp: exits_def flow_inv_def)
  qed
qed

lemma discovers_keeps:
  assumes "flow_inv n a ts" "Suc n < 2 ^ 64 - 1" "app_phase a = DiscoveringUsers" "discoveries ts = 0"
    "discovers a a' us"
  shows "flow_inv (Suc n) a' (ts @ us)"
proof (cases "app_attempt a' = app_attempt a \<and> \<not> busy (app_phase a') \<and> mild us")
  case True
  have "of_attempt (app_attempt a) ts = []" using assms(1,3) by (auto simp: flow_inv_def)
  with True assms(3-5) show ?thesis
    using assms(1) by (intro mild_keeps [OF assms(1)]) (auto simp: discovers_def flow_inv_def)
next
  case False
  with assms(1,3-5) show ?thesis
    by (intro renewed_keeps [OF assms(1,2)]) (auto simp: discovers_def flow_inv_def)
qed

section \<open>Steps and runs\<close>

lemma without_split:
  assumes "k < length xs"
  shows "length (filter P xs) = length (filter P (without k xs)) + (if P (xs ! k) then 1 else 0)"
    "set (without k xs) \<subseteq> set xs"
proof -
  from id_take_nth_drop [OF assms] have x: "xs = take k xs @ xs ! k # drop (Suc k) xs" .
  have "length (filter P xs) = length (filter P (take k xs @ xs ! k # drop (Suc k) xs))" using x by simp
  then show "length (filter P xs) = length (filter P (without k xs)) + (if P (xs ! k) then 1 else 0)"
    by (simp add: without_def)
  show "set (without k xs) \<subseteq> set xs" by (auto simp: without_def dest: in_set_takeD in_set_dropD)
qed

lemma without_keeps:
  assumes "flow_inv n a ts" "k < length ts"
  shows "flow_inv n a (without k ts)"
proof -
  note w = without_split [OF assms(2)]
  have len: "length (of_attempt att (without k ts)) \<le> length (of_attempt att ts)" for att
    using w(1) [of "\<lambda>t. auth_attempt t = Some att"] by (simp add: of_attempt_def)
  then have empty: "of_attempt att (without k ts) \<noteq> [] \<Longrightarrow> of_attempt att ts \<noteq> []" for att
    by (metis le_zero_eq length_0_conv)
  have "discoveries (without k ts) \<le> discoveries ts"
    using w(1) [of "\<lambda>t. t = DiscoverAccounts"] by (simp add: discoveries_def)
  with assms(1) w(2) show ?thesis
    unfolding flow_inv_def using order_trans [OF len] empty by (meson order_trans subsetD)
qed

lemma spontaneous_unsolicited: "spontaneous m \<Longrightarrow> unsolicited m"
  by (cases m) (simp_all add: unsolicited_def)

lemma delivered_answer:
  "delivers t (AuthResult att r) \<Longrightarrow> auth_attempt t = Some att"
  "delivers t (AccountsResult accounts) \<Longrightarrow> t = DiscoverAccounts"
  by (cases t; simp add: delivers_def delivers_result_def)+

lemma solicited: "\<not> unsolicited m \<Longrightarrow> (\<exists>att r. m = AuthResult att r) \<or> (\<exists>r. m = AccountsResult r)"
  by (cases m) (simp_all add: unsolicited_def)

lemma perform_parts:
  "g_app (fst (perform env m s)) = fst (app_update env m (g_app s))"
  "snd (perform env m s) = snd (app_update env m (g_app s))"
  "pending (fst (perform env m s)) = pending s @ snd (app_update env m (g_app s))"
  by (simp_all add: perform_def split_beta)

lemma step_cases [consumes 1]:
  assumes inv: "flow_inv n (g_app s) (pending s)"
  obtains
    (moved) ts where "set ts \<subseteq> set (pending s)" "flow_inv n (g_app s) ts"
      "moves (g_app s) (g_app (fst (greeter_step s i)), snd (greeter_step s i))"
      "pending (fst (greeter_step s i)) = ts @ snd (greeter_step s i)"
  | (answered) ts env k r where "set ts \<subseteq> set (pending s)" "flow_inv n (g_app s) ts" "busy (app_phase (g_app s))"
      "i = Completed env k (AuthResult (app_attempt (g_app s)) r)"
      "of_attempt (app_attempt (g_app s)) ts = []" "of_attempt (app_attempt (g_app s)) (pending s) \<noteq> []"
      "answers (g_app s) r (g_app (fst (greeter_step s i)), snd (greeter_step s i))"
      "pending (fst (greeter_step s i)) = ts @ snd (greeter_step s i)"
  | (discovered) ts where "set ts \<subseteq> set (pending s)" "flow_inv n (g_app s) ts" "app_phase (g_app s) = DiscoveringUsers"
      "discoveries ts = 0" "discovers (g_app s) (g_app (fst (greeter_step s i))) (snd (greeter_step s i))"
      "pending (fst (greeter_step s i)) = ts @ snd (greeter_step s i)"
proof -
  let ?a = "g_app s"
  note moved = that(1) and answered = that(2) and discovered = that(3)
  have p: "poised ?a" using inv by (simp add: flow_inv_def)
  have idle: thesis if "greeter_step s i = (s, [])"
    using that inv by (intro moved [of "pending s"]) simp_all
  have plain: thesis if "greeter_step s i = perform env m (s\<lparr>pending := ts\<rparr>)" "set ts \<subseteq> set (pending s)"
      "flow_inv n ?a ts" "moves ?a (app_update env m ?a)" for env m ts
    using that by (intro moved [of ts]) (simp_all add: perform_parts)
  show thesis
  proof (cases i)
    case (Spontaneous env m)
    show thesis
    proof (cases "spontaneous m")
      case True
      then have "moves ?a (app_update env m ?a)" using update_moves [OF p spontaneous_unsolicited] by blast
      with True Spontaneous inv show thesis by (intro plain [of env m "pending s"]) simp_all
    qed (use Spontaneous idle in simp)
  next
    case (Completed env k m)
    show thesis
    proof (cases "k < length (pending s) \<and> delivers (pending s ! k) m")
      case False
      with Completed idle show thesis by simp
    next
      case True
      let ?ts = "without k (pending s)"
      have st: "greeter_step s i = perform env m (s\<lparr>pending := ?ts\<rparr>)" using True Completed by simp
      have sub: "set ?ts \<subseteq> set (pending s)" using without_split(2) True by blast
      have inv': "flow_inv n ?a ?ts" using without_keeps [OF inv] True by simp
      have plain': thesis if "moves ?a (app_update env m ?a)" using plain [OF st sub inv' that] .
      show thesis
      proof (cases "unsolicited m")
        case True
        with plain' update_moves [OF p] show thesis by blast
      next
        case False
        then consider att r where "m = AuthResult att r" | r where "m = AccountsResult r"
          using solicited by blast
        then show thesis
        proof cases
          case 1
          with True have t: "auth_attempt (pending s ! k) = Some att" using delivered_answer(1) by blast
          have other: "busy (app_phase ?a) \<and> of_attempt (app_attempt ?a) ?ts = []
            \<and> of_attempt (app_attempt ?a) (pending s) \<noteq> []" if "att = app_attempt ?a"
          proof -
            have "length (of_attempt att (pending s)) = length (of_attempt att ?ts) + 1"
              using without_split(1) [of k "pending s" "\<lambda>t. auth_attempt t = Some att"] True t
              by (simp add: of_attempt_def)
            with inv that show ?thesis by (auto simp: flow_inv_def)
          qed
          then have b: "busy (app_phase ?a) \<or> att \<noteq> app_attempt ?a" by blast
          from update_answer [OF p b, of env r] show thesis
          proof (elim disjE exE conjE)
            assume "app_update env (AuthResult att r) ?a = (?a, [])"
            with 1 plain' show thesis by simp
          next
            fix a' ts assume "app_update env (AuthResult att r) ?a = (a', ts)" "renews ?a a' ts"
            with 1 plain' show thesis by (simp add: moves_def)
          next
            assume a: "att = app_attempt ?a" "answers ?a r (app_update env (AuthResult att r) ?a)"
            with 1 st Completed other sub inv' show thesis
              by (intro answered [of ?ts env k r]) (simp_all add: perform_parts)
          qed
        next
          case 2
          with True have t: "pending s ! k = DiscoverAccounts" using delivered_answer(2) by blast
          have "discoveries (pending s) = discoveries ?ts + 1"
            using without_split(1) [of k "pending s" "\<lambda>t. t = DiscoverAccounts"] True t
            by (simp add: discoveries_def)
          then have d: "app_phase ?a = DiscoveringUsers" "discoveries ?ts = 0"
            using inv by (auto simp: flow_inv_def split: if_splits)
          from update_accounts [OF p d(1), of env r] show thesis
          proof
            assume "app_update env (AccountsResult r) ?a = (?a, [])"
            with 2 plain' show thesis by simp
          next
            assume "discovers ?a (fst (app_update env (AccountsResult r) ?a)) (snd (app_update env (AccountsResult r) ?a))"
            with 2 st d sub inv' show thesis
              by (intro discovered [of ?ts]) (simp_all add: perform_parts)
          qed
        qed
      qed
    qed
  qed
qed

lemma step_keeps:
  assumes "flow_inv n (g_app s) (pending s)" "Suc n < 2 ^ 64 - 1"
  shows "flow_inv (Suc n) (g_app (fst (greeter_step s i))) (pending (fst (greeter_step s i)))"
  using assms(1)
proof (cases rule: step_cases [of n s i])
  case (moved ts)
  with moves_keeps [OF moved(2) assms(2) moved(3)] show ?thesis by simp
next
  case (answered ts env k r)
  with answers_keeps [OF answered(2) answered(5) answered(3) answered(7)] show ?thesis by simp
next
  case (discovered ts)
  with discovers_keeps [OF discovered(2) assms(2) discovered(3,4,5)] show ?thesis by simp
qed

lemma started_keeps:
  assumes "started_greeter s"
  shows "flow_inv 0 (g_app s) (pending s)"
proof -
  from assms obtain env name display is_format heic monitored
    where s: "startup env name display is_format heic monitored = (g_app s, pending s)"
    unfolding started_greeter_def by blast
  show ?thesis
  proof (cases "found_sessions env")
    case Nil
    then obtain a where a: "startup env name display is_format heic monitored = focus_first a"
      "\<not> preview a" "app_phase a = PhFailed" "app_conversation a = Conversation_new"
      by (simp add: startup_def Let_def)
    with s have f: "focus_first a = (g_app s, pending s)" by simp
    from focus_first_flow [of a] a(2-) mild_silent [of "pending s"] show ?thesis
      unfolding f by (simp add: flow_inv_def same_flow_def Conversation_new_def)
  next
    case (Cons x xs)
    then have "flow_inv 0 (fst (startup env name display is_format heic monitored))
        (snd (startup env name display is_format heic monitored))"
      by (cases name) (simp_all add: startup_def Let_def flow_inv_def Conversation_new_def)
    with s show ?thesis by simp
  qed
qed

interpretation flow: counted_machine greeter_step started_greeter
  "\<lambda>n s. flow_inv n (g_app s) (pending s)" "2 ^ 64 - 2"
  by unfold_locales (simp_all add: started_keeps step_keeps)

section \<open>What was asked of greetd\<close>

text \<open>The requests for a session among the tasks that were started.\<close>

definition session_asked :: "attempt \<Rightarrow> task list list \<Rightarrow> bool" where
  "session_asked att outs \<longleftrightarrow> (\<exists>ts\<in>set outs. \<exists>c cmd env. Exchange c (StartSession cmd env) att \<in> set ts)"

lemma session_asked_append [simp]:
  "session_asked att (outs @ [ts]) \<longleftrightarrow>
     session_asked att outs \<or> (\<exists>c cmd env. Exchange c (StartSession cmd env) att \<in> set ts)"
  by (auto simp: session_asked_def)

definition launch_known :: "greeter \<Rightarrow> task list list \<Rightarrow> bool" where
  "launch_known s outs \<longleftrightarrow>
     (of_attempt (app_attempt (g_app s)) (pending s) \<noteq> [] \<and> app_phase (g_app s) = StartingSession
       \<longrightarrow> session_asked (app_attempt (g_app s)) outs)"

lemma of_attempt_subset: "of_attempt att ts \<noteq> [] \<Longrightarrow> set ts \<subseteq> set us \<Longrightarrow> of_attempt att us \<noteq> []"
  by (auto simp: of_attempt_def filter_empty_conv)

lemma launch_known_step:
  assumes inv: "flow_inv n (g_app s) (pending s)" "Suc n < 2 ^ 64 - 1" and known: "launch_known s outs"
  shows "launch_known (fst (greeter_step s i)) (outs @ [snd (greeter_step s i)])"
  using inv(1)
proof (cases rule: step_cases [of n s i])
  case (moved ts)
  then consider "rests (g_app s) (g_app (fst (greeter_step s i))) (snd (greeter_step s i))"
    | "idles (g_app s) (g_app (fst (greeter_step s i))) (snd (greeter_step s i))"
    | "renews (g_app s) (g_app (fst (greeter_step s i))) (snd (greeter_step s i))"
    | "asks (g_app s) (g_app (fst (greeter_step s i))) (snd (greeter_step s i))"
    by (auto simp: moves_def)
  then show ?thesis
  proof cases
    case 1
    with moved known of_attempt_subset [OF _ moved(1)] show ?thesis
      by (auto simp: launch_known_def rests_def mild_silent)
  next
    case 3
    with moved fresh_attempt [OF moved(2) inv(2)] show ?thesis
      by (auto simp: launch_known_def renews_def mild_silent)
  qed (simp_all add: launch_known_def idles_def asks_def)
next
  case (answered ts env k r)
  then show ?thesis using known
    by (auto simp: launch_known_def answers_def answers_defs mild_silent)
next
  case (discovered ts)
  then show ?thesis by (auto simp: launch_known_def discovers_def)
qed

lemma launch_known_run:
  assumes "started_greeter s" "length is \<le> 2 ^ 64 - 2"
  shows "launch_known (fst (run greeter_step s is)) (snd (run greeter_step s is))"
  using assms(2)
proof (induction "is" rule: rev_induct)
  case Nil
  from started_keeps [OF assms(1)] have f: "flow_inv 0 (g_app s) (pending s)" .
  obtain env name display is_format heic monitored
    where s: "startup env name display is_format heic monitored = (g_app s, pending s)"
    using assms(1) unfolding started_greeter_def by blast
  have "app_phase (fst (startup env name display is_format heic monitored)) \<noteq> StartingSession"
    using focus_first_flow by (simp add: startup_def Let_def same_flow_def)
  with s show ?case by (simp add: launch_known_def)
next
  case (snoc i "is")
  then have "length is \<le> 2 ^ 64 - 2" by simp
  with flow.init_run_counted [OF assms(1)] snoc show ?case
    by (auto simp: run_append intro!: launch_known_step [of "length is"])
qed

section \<open>Properties\<close>

text \<open>
  C5. The greeter exits only after greetd started the session: in every run from startup, the step
  that exits handles the success of a request of the current attempt, and during that attempt the
  greeter had asked greetd to start a session. It asks for that only on the success of an
  authentication request of the current attempt, with the command and the environment of the
  session that is selected then.
\<close>

theorem exit_after_session_started:
  assumes "started_greeter s0" "length is < 2 ^ 64 - 2"
    and "run greeter_step s0 is = (s, outs)" "greeter_step s i = (s', ts)"
  shows "(ExitGreeter \<in> set ts \<longrightarrow>
        (\<exists>env k r. i = Completed env k (AuthResult (app_attempt (g_app s)) r) \<and> succeeded r
           \<and> session_asked (app_attempt (g_app s)) outs))
    \<and> (\<forall>c cmd environment att. Exchange c (StartSession cmd environment) att \<in> set ts \<longrightarrow>
        (\<exists>env k r x. i = Completed env k (AuthResult att r) \<and> succeeded r \<and> att = app_attempt (g_app s)
           \<and> selected_session (g_app s) = Some x
           \<and> cmd = session_command x \<and> environment = session_environment x))"
proof -
  have inv: "flow_inv (length is) (g_app s) (pending s)" and known: "launch_known s outs"
    using flow.init_run_counted [OF assms(1), of "is"] launch_known_run [OF assms(1), of "is"] assms(2,3) by simp_all
  from inv show ?thesis
  proof (cases rule: step_cases [of "length is" s i])
    case (moved us)
    then have "t \<in> set ts \<Longrightarrow> t \<noteq> ExitGreeter \<and> (\<forall>c cmd e att. t \<noteq> Exchange c (StartSession cmd e) att)" for t
      using assms(4) mild_silent(3,4) [of ts t]
      by (auto simp: moves_def rests_def idles_def renews_def asks_def)
    then show ?thesis by blast
  next
    case (answered us env k r)
    then have a: "answers (g_app s) r (g_app s', ts)" using assms(4) by simp
    then consider "mild ts" | "acknowledges (g_app s) (g_app s') ts"
      | "succeeded r" "launches (g_app s) (g_app s') ts" | "succeeded r" "exits (g_app s) (g_app s') ts"
      by (auto simp: answers_def settles_def)
    then show ?thesis
    proof cases
      case 1
      then show ?thesis using mild_silent(3,4) by fastforce
    next
      case 2
      then show ?thesis by (auto simp: acknowledges_def acknowledge_request_def)
    next
      case 3
      with answered(4) show ?thesis by (auto simp: launches_def)
    next
      case 4
      with answered(4,6) known show ?thesis by (simp add: exits_def launch_known_def)
    qed
  next
    case (discovered us)
    then have "t \<in> set ts \<Longrightarrow> t \<noteq> ExitGreeter \<and> (\<forall>c cmd e att. t \<noteq> Exchange c (StartSession cmd e) att)" for t
      using assms(4) mild_silent(3,4) [of ts t] by (auto simp: discovers_def)
    then show ?thesis by blast
  qed
qed

text \<open>
  C11. One conversation at a time: in every run from startup at most one request of the current
  attempt is in flight, only in the phases that wait for greetd, and the greeter asks the user only
  in the phase that waits for input, when nothing is in flight.
\<close>

theorem one_request_in_flight:
  assumes "started_greeter s0" "length is \<le> 2 ^ 64 - 2" "s = fst (run greeter_step s0 is)"
  shows "length (filter (\<lambda>t. auth_attempt t = Some (app_attempt (g_app s))) (pending s)) \<le> 1
    \<and> (\<forall>t \<in> set (pending s). auth_attempt t = Some (app_attempt (g_app s)) \<longrightarrow>
         app_phase (g_app s) \<in> {CreatingSession, Authenticating, StartingSession}
         \<and> conv_status (app_conversation (g_app s)) \<noteq> Waiting)
    \<and> (conv_status (app_conversation (g_app s)) = Waiting \<longrightarrow> app_phase (g_app s) = WaitingForInput)"
proof -
  have inv: "flow_inv (length is) (g_app s) (pending s)"
    using flow.init_run_counted [OF assms(1,2)] assms(3) by simp
  then have "auth_attempt t = Some (app_attempt (g_app s)) \<Longrightarrow> t \<in> set (pending s) \<Longrightarrow> busy (app_phase (g_app s))" for t
    by (auto simp: flow_inv_def of_attempt_def filter_empty_conv)
  with inv show ?thesis by (auto simp: flow_inv_def of_attempt_def)
qed

text \<open>
  C6. Credentials answer a prompt: in every run from startup, what the user typed is sent to
  greetd only while the greeter waits for input and no request of the current attempt is in flight;
  it is exactly the input, goes out under the current attempt, once, and is erased.
\<close>

theorem credentials_answer_prompt:
  assumes "started_greeter s0" "length is < 2 ^ 64 - 2" "s = fst (run greeter_step s0 is)"
    and "greeter_step s i = (s', ts)" "Exchange c (PostAuthMessageResponse (Some secret)) att \<in> set ts"
  shows "app_phase (g_app s) = WaitingForInput \<and> conv_status (app_conversation (g_app s)) = Waiting
    \<and> secret = input (app_conversation (g_app s)) \<and> att = app_attempt (g_app s)
    \<and> list_all (\<lambda>t. auth_attempt t \<noteq> Some att) (pending s)
    \<and> ts = [Exchange c (PostAuthMessageResponse (Some secret)) att]
    \<and> input (app_conversation (g_app s')) = [] \<and> conv_status (app_conversation (g_app s')) \<noteq> Waiting"
proof -
  have inv: "flow_inv (length is) (g_app s) (pending s)"
    using flow.init_run_counted [OF assms(1)] assms(2,3) by simp
  have noisy: "\<not> mild ts" using mild_silent(3) assms(5) by fastforce
  from inv show ?thesis
  proof (cases rule: step_cases [of "length is" s i])
    case (moved us)
    with noisy assms(4,5) have a: "asks (g_app s) (g_app s') ts"
      by (auto simp: moves_def rests_def idles_def renews_def)
    then have "app_phase (g_app s) = WaitingForInput" using inv by (auto simp: asks_def flow_inv_def)
    then have "of_attempt (app_attempt (g_app s)) (pending s) = []" using inv by (auto simp: flow_inv_def)
    with a assms(5) \<open>app_phase (g_app s) = WaitingForInput\<close> show ?thesis
      by (auto simp: asks_def of_attempt_def filter_empty_conv list_all_iff)
  next
    case (answered us env k r)
    with noisy assms(4,5) show ?thesis by (auto simp: answers_def answers_defs acknowledge_request_def)
  next
    case (discovered us)
    with noisy assms(4,5) show ?thesis by (auto simp: discovers_def)
  qed
qed

section \<open>A session from the prompt to the exit\<close>

definition greeter_demo_session :: session where
  "greeter_demo_session = \<lparr>session_name = lit ''Sway'', session_command = [lit ''sway''], session_id = lit ''sway'',
     desktop_names = [lit ''sway'']\<rparr>"

definition greeter_demo_env :: app_env where
  "greeter_demo_env = \<lparr>found_sessions = [greeter_demo_session], monitor_region = None, frame_to_upload = False,
     supports_heic = False, local_now = 0\<rparr>"

definition demo_greeter :: greeter where
  "demo_greeter =
     (case startup greeter_demo_env (Some (lit ''ada'')) None (\<lambda>_. False) False False of
        (a, ts) \<Rightarrow> \<lparr>g_app = a, pending = ts\<rparr>)"

text \<open>Its states: greetd asks for a password, the user types it and submits, greetd accepts it.\<close>

definition greeter_demo_answer :: "nat \<Rightarrow> nat option \<Rightarrow> auth_response \<Rightarrow> greeter_input" where
  "greeter_demo_answer k client response = Completed greeter_demo_env k (AuthResult (Attempt 1) (Inr (client, response)))"

definition greeter_demo_inputs :: "greeter_input list" where
  "greeter_demo_inputs =
     [greeter_demo_answer 0 (Some 3) (APrompt True (lit ''Password:'')),
      Spontaneous greeter_demo_env (InputChanged [0x73]), Spontaneous greeter_demo_env Submit, greeter_demo_answer 2 None ASuccess]"

definition greeter_demo_after :: "nat \<Rightarrow> greeter" where
  "greeter_demo_after n = fst (run greeter_step demo_greeter (take n greeter_demo_inputs))"

lemma greeter_demo_started: "started_greeter demo_greeter"
proof -
  have "startup greeter_demo_env (Some (lit ''ada'')) None (\<lambda>_. False) False False
      = (g_app demo_greeter, pending demo_greeter)"
    by (simp add: demo_greeter_def split_beta)
  then show ?thesis unfolding started_greeter_def by blast
qed

lemma demo_greeter_fields:
  "app_phase (g_app demo_greeter) = CreatingSession" "app_closing (g_app demo_greeter) = None"
  "preview (g_app demo_greeter) = False" "app_power (g_app demo_greeter) = PowerIdle"
  "selected_session (g_app demo_greeter) = Some greeter_demo_session"
  "app_conversation (g_app demo_greeter) = Conversation_new"
  "selection_session_cancelled (g_app demo_greeter) = False"
  "pending demo_greeter = [BeginSession (lit ''ada'') (Attempt 1) True]"
  by (simp_all add: demo_greeter_def startup_def greeter_demo_env_def Conversation_new_def override_account_def)

lemma greeter_demo_length: "length greeter_demo_inputs = 4"
  by (simp add: greeter_demo_inputs_def)

lemma greeter_demo_after_Suc:
  "n < 4 \<Longrightarrow> greeter_demo_after (Suc n) = fst (greeter_step (greeter_demo_after n) (greeter_demo_inputs ! n))"
  "greeter_demo_after 0 = demo_greeter"
  using take_Suc_conv_app_nth [of n greeter_demo_inputs]
  by (simp_all add: greeter_demo_after_def greeter_demo_length run_append)

lemma greeter_demo_after_steps:
  "greeter_demo_after (Suc 0) = fst (greeter_step demo_greeter (greeter_demo_inputs ! 0))"
  "greeter_demo_after 2 = fst (greeter_step (greeter_demo_after (Suc 0)) (greeter_demo_inputs ! 1))"
  "greeter_demo_after 3 = fst (greeter_step (greeter_demo_after 2) (greeter_demo_inputs ! 2))"
  "greeter_demo_after 4 = fst (greeter_step (greeter_demo_after 3) (greeter_demo_inputs ! 3))"
  using greeter_demo_after_Suc(1) [of 0] greeter_demo_after_Suc(1) [of 1] greeter_demo_after_Suc(1) [of 2] greeter_demo_after_Suc(1) [of 3]
  by (simp_all add: greeter_demo_after_Suc(2) eval_nat_numeral)

lemmas greeter_demo_eval = greeter_demo_inputs_def greeter_demo_answer_def perform_def app_update_def gate_def dispatch_def
  delivers_def delivers_result_def without_def handle_auth_result_def handle_auth_response_def
  transition_def accepts_def apply_auth_transition_def conversation_response_def conv_receive_def
  Let_def send_request_def focus_input_def set_focus_def close_session_menu_def handle_submit_def
  update_input_def submit_def clear_response_def clear_notice_def

lemma greeter_demo_prompted:
  "app_phase (g_app (greeter_demo_after (Suc 0))) = WaitingForInput" "app_client (g_app (greeter_demo_after (Suc 0))) = Some 3"
  "app_closing (g_app (greeter_demo_after (Suc 0))) = None" "preview (g_app (greeter_demo_after (Suc 0))) = False"
  "app_power (g_app (greeter_demo_after (Suc 0))) = PowerIdle"
  "selected_session (g_app (greeter_demo_after (Suc 0))) = Some greeter_demo_session"
  "conv_status (app_conversation (g_app (greeter_demo_after (Suc 0)))) = Waiting"
  "app_attempt (g_app (greeter_demo_after (Suc 0))) = Attempt 1"
  "selection_session_cancelled (g_app (greeter_demo_after (Suc 0))) = False"
  "pending (greeter_demo_after (Suc 0)) = [FocusInput, RevealInput]"
  by (simp_all add: greeter_demo_after_steps(1) demo_greeter_fields Conversation_new_def greeter_demo_eval)

lemma greeter_demo_typed:
  "app_phase (g_app (greeter_demo_after 2)) = WaitingForInput" "app_client (g_app (greeter_demo_after 2)) = Some 3"
  "app_closing (g_app (greeter_demo_after 2)) = None" "preview (g_app (greeter_demo_after 2)) = False"
  "app_power (g_app (greeter_demo_after 2)) = PowerIdle"
  "selected_session (g_app (greeter_demo_after 2)) = Some greeter_demo_session"
  "conv_status (app_conversation (g_app (greeter_demo_after 2))) = Waiting"
  "input (app_conversation (g_app (greeter_demo_after 2))) = [0x73]"
  "app_attempt (g_app (greeter_demo_after 2)) = Attempt 1"
  "selection_session_cancelled (g_app (greeter_demo_after 2)) = False"
  "pending (greeter_demo_after 2) = [FocusInput, RevealInput]"
  by (simp_all add: greeter_demo_after_steps(2) greeter_demo_prompted greeter_demo_eval MAX_TEXT_CHARS_def MAX_INPUT_BYTES_def utf8_def len_utf8_def)

lemma greeter_demo_submitted:
  "app_phase (g_app (greeter_demo_after 3)) = Authenticating" "app_client (g_app (greeter_demo_after 3)) = Some 3"
  "app_closing (g_app (greeter_demo_after 3)) = None" "preview (g_app (greeter_demo_after 3)) = False"
  "app_power (g_app (greeter_demo_after 3)) = PowerIdle"
  "selected_session (g_app (greeter_demo_after 3)) = Some greeter_demo_session"
  "conv_status (app_conversation (g_app (greeter_demo_after 3))) = Submitting"
  "app_attempt (g_app (greeter_demo_after 3)) = Attempt 1"
  "pending (greeter_demo_after 3) = [FocusInput, RevealInput,
     Exchange 3 (PostAuthMessageResponse (Some [0x73])) (Attempt 1)]"
  by (simp_all add: greeter_demo_after_steps(3) greeter_demo_typed greeter_demo_eval)

lemma greeter_demo_launched:
  "app_phase (g_app (greeter_demo_after 4)) = StartingSession" "app_closing (g_app (greeter_demo_after 4)) = None"
  "preview (g_app (greeter_demo_after 4)) = False" "app_power (g_app (greeter_demo_after 4)) = PowerIdle"
  "app_attempt (g_app (greeter_demo_after 4)) = Attempt 1"
  "pending (greeter_demo_after 4) = [FocusInput, RevealInput,
     Exchange 3 (StartSession (session_command greeter_demo_session) (session_environment greeter_demo_session)) (Attempt 1)]"
  by (simp_all add: greeter_demo_after_steps(4) greeter_demo_submitted greeter_demo_eval)

theorem exit_after_session_started_witness:
  "session_asked (Attempt 1) (snd (run greeter_step demo_greeter greeter_demo_inputs))
    \<and> snd (greeter_step (greeter_demo_after 4) (greeter_demo_answer 2 None ASuccess)) = [ExitGreeter]"
proof -
  have s: "fst (run greeter_step demo_greeter greeter_demo_inputs) = greeter_demo_after 4"
    by (simp add: greeter_demo_after_def greeter_demo_length)
  have e: "snd (greeter_step (greeter_demo_after 4) (greeter_demo_answer 2 None ASuccess)) = [ExitGreeter]"
    by (simp add: greeter_demo_launched greeter_demo_eval)
  from exit_after_session_started [OF greeter_demo_started, of greeter_demo_inputs "greeter_demo_after 4"
      "snd (run greeter_step demo_greeter greeter_demo_inputs)" "greeter_demo_answer 2 None ASuccess"
      "fst (greeter_step (greeter_demo_after 4) (greeter_demo_answer 2 None ASuccess))" "[ExitGreeter]"]
  show ?thesis using s e greeter_demo_length greeter_demo_launched(5) by (auto simp: prod_eq_iff)
qed

theorem one_request_in_flight_witness:
  "length (filter (\<lambda>t. auth_attempt t = Some (Attempt 1)) (pending (greeter_demo_after 3))) = 1
    \<and> conv_status (app_conversation (g_app (greeter_demo_after 3))) \<noteq> Waiting"
proof -
  have "length (take 3 greeter_demo_inputs) \<le> 2 ^ 64 - 2" by simp
  from one_request_in_flight [OF greeter_demo_started this greeter_demo_after_def [of 3]]
  show ?thesis by (simp add: greeter_demo_submitted)
qed

theorem credentials_answer_prompt_witness:
  "snd (greeter_step (greeter_demo_after 2) (Spontaneous greeter_demo_env Submit))
      = [Exchange 3 (PostAuthMessageResponse (Some [0x73])) (Attempt 1)]
    \<and> input (app_conversation (g_app (fst (greeter_step (greeter_demo_after 2) (Spontaneous greeter_demo_env Submit))))) = []"
proof -
  have e: "snd (greeter_step (greeter_demo_after 2) (Spontaneous greeter_demo_env Submit))
      = [Exchange 3 (PostAuthMessageResponse (Some [0x73])) (Attempt 1)]"
    by (simp add: greeter_demo_typed greeter_demo_eval)
  have "length (take 2 greeter_demo_inputs) < 2 ^ 64 - 2" by (simp add: greeter_demo_inputs_def)
  from credentials_answer_prompt [OF greeter_demo_started this greeter_demo_after_def [of 2] prod.collapse [symmetric],
      where i = "Spontaneous greeter_demo_env Submit" and c = 3 and secret = "[0x73]" and att = "Attempt 1"] e
  show ?thesis by simp
qed

end
