(* ===== verification/Greeter_Closing.thy ===== *)
theory Greeter_Closing
  imports Greeter_Flow
begin

text \<open>
  Closing the greeter: a close request starts a cleanup of the session and a timer. Whatever happens
  meanwhile, the timer closes the window, and it closes once. The abstract moves of closing, the
  invariant over runs and the property.
\<close>

section \<open>The moves of closing\<close>

abbreviation closes :: "task list \<Rightarrow> task list" where
  "closes ts \<equiv> filter closes_window ts"

definition open_still :: "app \<Rightarrow> app \<Rightarrow> task list \<Rightarrow> bool" where
  "open_still a a' ts \<longleftrightarrow> app_closing a' = app_closing a \<and> closes ts = []"

definition starts_closing :: "app \<Rightarrow> app \<Rightarrow> task list \<Rightarrow> bool" where
  "starts_closing a a' ts \<longleftrightarrow> app_closing a = None
     \<and> (\<exists>w. cleaning_window a' w \<and> CloseTimer w \<in> set ts) \<and> closes ts = []"

definition cleans_on :: "app \<Rightarrow> app \<Rightarrow> task list \<Rightarrow> bool" where
  "cleans_on a a' ts \<longleftrightarrow> (\<exists>w. cleaning_window a w \<and> cleaning_window a' w) \<and> closes ts = []"

definition finishes :: "app \<Rightarrow> app \<Rightarrow> task list \<Rightarrow> bool" where
  "finishes a a' ts \<longleftrightarrow> (\<exists>w. (app_closing a = None \<or> cleaning_window a w)
     \<and> app_closing a' = Some (Dispatching w) \<and> closes ts = [CloseWindow w])"

definition shuts :: "app \<Rightarrow> app \<times> task list \<Rightarrow> bool" where
  "shuts a x \<longleftrightarrow> open_still a (fst x) (snd x) \<or> starts_closing a (fst x) (snd x)
     \<or> cleans_on a (fst x) (snd x) \<or> finishes a (fst x) (snd x)"

lemma calm_closes [simp]: "calm ts \<Longrightarrow> closes ts = []"
  by (simp add: calm_def list_all_iff filter_empty_conv)

lemma shuts_flow: "app_closing b = app_closing a \<Longrightarrow> same_flow b (fst x) \<and> calm (snd x) \<Longrightarrow> shuts a x"
  by (simp add: shuts_def open_still_def same_flow_def)

lemma shuts_open: "app_closing b = app_closing a \<Longrightarrow> closes ts = [] \<Longrightarrow> shuts a (b, ts)"
  by (simp add: shuts_def open_still_def)

lemma shuts_same: "app_closing b = app_closing a \<Longrightarrow> shuts b x \<Longrightarrow> shuts a x"
  by (simp add: shuts_def open_still_def starts_closing_def cleans_on_def finishes_def cleaning_window_def)

lemma shuts_set_focus: "app_closing b = app_closing a \<Longrightarrow> shuts a (set_focus t b)"
  by (rule shuts_flow [OF _ set_focus_flow])

lemma shuts_focus_first: "app_closing b = app_closing a \<Longrightarrow> shuts a (focus_first b)"
  by (rule shuts_flow [OF _ focus_first_flow])

lemma shuts_app_fail: "app_closing b = app_closing a \<Longrightarrow> shuts a (app_fail m b)"
  unfolding app_fail_def by (rule shuts_focus_first) simp

lemma shuts_selecting:
  assumes "app_closing b = app_closing a" "closes ts = []"
  shows "shuts a (case focus_first b of (b', focused) \<Rightarrow>
    if preview b' then finish_preview_user_selection b' else (b', ts @ focused))"
proof -
  obtain b' focused where f: "focus_first b = (b', focused)" by fastforce
  have "app_closing b' = app_closing a \<and> closes focused = []"
    using focus_first_flow [of b] f assms(1) by (simp add: same_flow_def)
  with f assms(2) show ?thesis
    by (simp add: shuts_open finish_preview_user_selection_def shuts_set_focus app_note_def)
qed

lemma shuts_selections:
  "shuts a (change_user a)" "shuts a (retry_user_selection a)"
  unfolding change_user_def retry_user_selection_def Let_def
  by (rule shuts_selecting; simp add: app_note_def renew_attempt_def cancel_for_user_selection_def)+

lemma shuts_select_account: "app_closing b = app_closing a \<Longrightarrow> shuts a (select_account account b)"
  by (simp add: select_account_def renew_attempt_def close_session_menu_def Let_def shuts_open
      shuts_flow [OF _ focus_input_flow])

lemma shuts_retry_authentication: "app_closing b = app_closing a \<Longrightarrow> shuts a (retry_authentication b)"
  by (simp add: retry_authentication_def renew_attempt_def shuts_open Let_def)

lemma shuts_discover_again: "app_closing b = app_closing a \<Longrightarrow> shuts a (discover_again b)"
  by (simp add: discover_again_def shuts_open)

lemma shuts_accounts: "shuts a (handle_accounts r a)"
  by (simp add: handle_accounts_def shuts_app_fail shuts_select_account shuts_set_focus app_note_def Let_def
      split: sum.split list.split option.split)

lemma shuts_submit: "shuts a (handle_submit a)"
  by (simp add: handle_submit_def shuts_app_fail shuts_open submit_def shuts_flow [OF _ focus_input_flow]
      split: option.split)

lemma shuts_send: "app_closing b = app_closing a \<Longrightarrow> shuts a (send_request q b)"
  by (simp add: send_request_def shuts_app_fail shuts_open split: option.split)

lemma shuts_response:
  assumes "app_closing b = app_closing a"
  shows "shuts a (handle_auth_response r b)"
proof -
  obtain conv x where t: "transition (app_conversation b) (app_phase b) (app_attempt b) r (selected_session b) = (conv, x)"
    by fastforce
  show ?thesis
  proof (cases x)
    case None
    with t assms show ?thesis by (simp add: handle_auth_response_def shuts_open)
  next
    case (Some y)
    obtain ph effect where "y = (ph, effect)" by fastforce
    with t Some assms show ?thesis
      by (cases effect) (simp_all add: handle_auth_response_def apply_auth_transition_def Let_def
          shuts_send shuts_app_fail shuts_open set_auth_notice_def shuts_flow [OF _ focus_input_flow])
  qed
qed

lemma shuts_result: "shuts a (handle_auth_result att r a)"
proof (cases "accepts (app_conversation a) att \<and> (\<exists>w. app_closing a = Some (WaitingForClient w))")
  case True
  then show ?thesis
    by (auto simp: handle_auth_result_def shuts_def cleans_on_def cleaning_window_def is_cleaning_def)
next
  case False
  show ?thesis
  proof (cases "accepts (app_conversation a) att")
    case True
    with False show ?thesis
      by (simp add: handle_auth_result_def shuts_app_fail shuts_response
          split: sum.split option.split closing.split)
  qed (simp add: handle_auth_result_def shuts_open)
qed

lemma shuts_cancelled: "shuts a (handle_selection_cancelled att r a)"
proof (cases "\<exists>w. app_closing a = Some (WaitingForUserSelectionCancellation w)")
  case True
  then show ?thesis
    by (auto simp: handle_selection_cancelled_def shuts_def open_still_def finishes_def cleaning_window_def is_cleaning_def)
next
  case False
  then show ?thesis
    by (simp add: handle_selection_cancelled_def shuts_open shuts_set_focus app_note_def set_auth_notice_def
        split: sum.split option.split closing.split)
qed

lemma shuts_retries:
  "shuts a (handle_retry a)" "shuts a (handle_retry_session env a)"
  by (simp_all add: handle_retry_def handle_retry_session_def shuts_open shuts_discover_again
      shuts_retry_authentication app_note_def Let_def)

lemma shuts_power:
  "shuts a (handle_confirm_power p a)" "shuts a (handle_power_result r a)"
  by (simp_all add: handle_confirm_power_def handle_power_result_def shuts_open
      shuts_flow [OF _ leave_dialog_flow] split: sum.split)

lemma shuts_close_requested:
  "app_closing a = None \<Longrightarrow> \<not> preview a \<Longrightarrow> shuts a (handle_close_requested w a)"
  by (auto simp: handle_close_requested_def shuts_def finishes_def starts_closing_def close_with_def
      cleaning_window_def is_cleaning_def)

text \<open>The message that asks to close only arrives while nothing is being closed (\<open>gate\<close>).\<close>

abbreviation closable :: "app_message \<Rightarrow> app \<Rightarrow> bool" where
  "closable m a \<equiv> (case m of CloseRequested _ \<Rightarrow> app_closing a = None | _ \<Rightarrow> True)"

lemma dispatch_shuts:
  assumes "\<not> preview a" "closable m a" "\<not> nests m"
  shows "shuts a (dispatch rec env m a)"
proof (cases m)
  case (InputChanged x)
  then show ?thesis by (simp add: dispatch_def shuts_open update_input_def Let_def split: bool.split)
next
  case (SessionCancelled w)
  then show ?thesis by (auto simp: dispatch_def shuts_open shuts_def finishes_def open_still_def)
next
  case (CloseTimeout w)
  then show ?thesis by (auto simp: dispatch_def shuts_open shuts_def finishes_def open_still_def)
next
  case (CloseRequested w)
  with assms show ?thesis by (simp add: dispatch_def shuts_close_requested)
qed (use assms in \<open>simp_all add: dispatch_def shuts_open prepare_wallpaper_frame_def apply_renderer_information_def
      shuts_accounts shuts_selections shuts_cancelled shuts_select_account shuts_set_focus
      shuts_flow [OF _ enter_dialog_flow] shuts_flow [OF _ leave_dialog_flow] shuts_result shuts_submit
      shuts_retries shuts_power close_session_menu_def app_note_def sync_widget_focus_def
      apply_widget_focus_def reveal_focused_input_def Let_def\<close>)

lemma gate_shuts:
  assumes "closable m a \<Longrightarrow> shuts a (h m a)" shows "shuts a (gate h m a)"
  using assms by (cases m) (simp_all add: gate_def shuts_open allowed_closing_def split: option.split closing.split)

lemma navigate_shuts:
  assumes "\<And>m. \<not> nests m \<Longrightarrow> closable m a \<Longrightarrow> shuts a (rec m a)"
  shows "shuts a (navigate_focus rec n a)"
proof -
  have "shuts a (activate_focus rec a)"
    using assms shuts_flow [of a a "(cycle_session 1 a, [])"] cycle_session_flow [of a 1]
    by (simp add: activate_focus_def shuts_open split: option.split focus_target.split power_state.split)
  then show ?thesis
    by (simp add: navigate_focus_def shuts_flow [OF _ move_focus_flow] shuts_flow [OF _ move_directional_flow]
        split: navigation.split)
qed

lemma update_shuts:
  assumes "\<not> preview a"
  shows "shuts a (app_update env m a)"
  unfolding app_update_def
proof (rule gate_shuts)
  assume c: "closable m a"
  have inner: "shuts b (update_inner env m' b)" if "\<not> preview b" "\<not> nests m'" for b m'
    unfolding update_inner_def by (rule gate_shuts, rule dispatch_shuts [OF that(1) _ that(2)])
  have close: "app_closing (close_session_menu a) = app_closing a" "\<not> preview (close_session_menu a)"
    using assms by (simp_all add: close_session_menu_def)
  show "shuts a (dispatch (update_inner env) env m a)"
  proof (cases "nests m")
    case False
    with assms c show ?thesis by (intro dispatch_shuts)
  next
    case True
    have "shuts a (navigate_focus (update_inner env) n a)" for n
      using inner assms by (intro navigate_shuts)
    moreover have "shuts a (navigate_focus (update_inner env) n (close_session_menu a))" for n
      using inner close by (intro shuts_same [OF close(1)] navigate_shuts)
    moreover have "shuts a (update_inner env CancelPower a)" using inner assms by simp
    moreover have "shuts a (close_session_menu a, [])" using close by (simp add: shuts_open)
    moreover have "shuts a (blur_input a)" by (rule shuts_flow [OF refl blur_input_flow])
    ultimately show ?thesis using True by (cases m) (simp_all add: dispatch_def shuts_open)
  qed
qed

section \<open>Closing over runs\<close>

definition closed_by :: "app \<Rightarrow> task list" where
  "closed_by a = (case app_closing a of Some (Dispatching w) \<Rightarrow> [CloseWindow w] | _ \<Rightarrow> [])"

definition timed :: "app \<Rightarrow> task list \<Rightarrow> bool" where
  "timed a ts \<longleftrightarrow> (\<forall>w. cleaning_window a w \<longrightarrow> CloseTimer w \<in> set ts)"

lemma cleaning_window_unique: "cleaning_window a w \<Longrightarrow> cleaning_window a v \<Longrightarrow> w = v"
  by (auto simp: cleaning_window_def is_cleaning_def split: option.splits closing.splits)

lemma cleaning_window_open: "cleaning_window a w \<Longrightarrow> closed_by a = [] \<and> app_closing a \<noteq> None"
  by (auto simp: cleaning_window_def is_cleaning_def closed_by_def split: option.splits closing.splits)

lemma shuts_keeps:
  assumes "shuts a (a', us)" "timed a ts"
  shows "timed a' (ts @ us) \<and> closed_by a' = closed_by a @ closes us"
proof -
  consider "open_still a a' us" | "starts_closing a a' us" | "cleans_on a a' us" | "finishes a a' us"
    using assms(1) by (auto simp: shuts_def)
  then show ?thesis
  proof cases
    case 1
    with assms(2) show ?thesis by (auto simp: open_still_def timed_def cleaning_window_def closed_by_def)
  next
    case 2
    then obtain w where w: "app_closing a = None" "cleaning_window a' w" "CloseTimer w \<in> set us" "closes us = []"
      by (auto simp: starts_closing_def)
    have "timed a' (ts @ us)" using w(3) cleaning_window_unique [OF w(2)] by (auto simp: timed_def)
    with w cleaning_window_open [OF w(2)] show ?thesis by (simp add: closed_by_def [of a])
  next
    case 3
    then obtain w where w: "cleaning_window a w" "cleaning_window a' w" "closes us = []"
      by (auto simp: cleans_on_def)
    have "timed a' (ts @ us)"
      using w(1) assms(2) cleaning_window_unique [OF w(2)] by (auto simp: timed_def)
    with w(3) cleaning_window_open [OF w(1)] cleaning_window_open [OF w(2)] show ?thesis by simp
  next
    case 4
    then obtain w where w: "app_closing a = None \<or> cleaning_window a w"
      "app_closing a' = Some (Dispatching w)" "closes us = [CloseWindow w]" by (auto simp: finishes_def)
    then have "closed_by a = []" using cleaning_window_open by (auto simp: closed_by_def)
    with w show ?thesis by (simp add: timed_def closed_by_def cleaning_window_def is_cleaning_def)
  qed
qed

lemma timeout_closes:
  assumes "cleaning_window a w"
  shows "snd (app_update env (CloseTimeout w) a) = [CloseWindow w]"
    "app_closing (fst (app_update env (CloseTimeout w) a)) = Some (Dispatching w)"
  using assms by (auto simp: app_update_def gate_def dispatch_def allowed_power_def allowed_closing_def
      cleaning_window_def is_cleaning_def split: option.splits closing.splits)

lemma timeout_keeps:
  assumes "cleaning_window a w"
  shows "timed (fst (app_update env (CloseTimeout w) a)) ts"
    "closed_by (fst (app_update env (CloseTimeout w) a))
       = closed_by a @ closes (snd (app_update env (CloseTimeout w) a))"
  using timeout_closes [OF assms, of env] cleaning_window_open [OF assms]
  by (simp_all add: timed_def closed_by_def cleaning_window_def is_cleaning_def)

lemma without_member: "x \<in> set xs \<Longrightarrow> k < length xs \<Longrightarrow> x \<noteq> xs ! k \<Longrightarrow> x \<in> set (without k xs)"
  by (metis UnE id_take_nth_drop set_ConsD set_append without_def Un_iff)

lemma delivered_timeout: "delivers (CloseTimer w) m \<Longrightarrow> m = CloseTimeout w"
  by (simp add: delivers_def)

lemma step_closing:
  assumes "\<not> preview (g_app s)" "timed (g_app s) (pending s)"
  shows "timed (g_app (fst (greeter_step s i))) (pending (fst (greeter_step s i)))
    \<and> closed_by (g_app (fst (greeter_step s i))) = closed_by (g_app s) @ closes (snd (greeter_step s i))"
proof -
  have plain: ?thesis if "greeter_step s i = perform env m (s\<lparr>pending := ts\<rparr>)" "timed (g_app s) ts" for env m ts
    using shuts_keeps [of "g_app s" "fst (app_update env m (g_app s))" "snd (app_update env m (g_app s))" ts]
      update_shuts [OF assms(1), of env m] that by (simp add: perform_parts)
  have idle: ?thesis if "greeter_step s i = (s, [])" using that assms(2) by simp
  show ?thesis
  proof (cases i)
    case (Spontaneous env m)
    with idle show ?thesis using plain [of env m "pending s"] assms(2) by (cases "spontaneous m") simp_all
  next
    case (Completed env k m)
    show ?thesis
    proof (cases "k < length (pending s) \<and> delivers (pending s ! k) m")
      case False
      with Completed have "greeter_step s i = (s, [])" by auto
      with idle show ?thesis .
    next
      case True
      then have st: "greeter_step s i = perform env m (s\<lparr>pending := without k (pending s)\<rparr>)"
        using Completed by simp
      show ?thesis
      proof (cases "\<exists>w. cleaning_window (g_app s) w \<and> m = CloseTimeout w")
        case False
        have "timed (g_app s) (without k (pending s))"
          unfolding timed_def
        proof (intro allI impI)
          fix w assume w: "cleaning_window (g_app s) w"
          then have "CloseTimer w \<noteq> pending s ! k" using False True delivered_timeout [of w m] by metis
          with w assms(2) True show "CloseTimer w \<in> set (without k (pending s))"
            by (simp add: timed_def without_member)
        qed
        with plain [OF st] show ?thesis by simp
      next
        case timeout: True
        then obtain w where "cleaning_window (g_app s) w" "m = CloseTimeout w" by blast
        with timeout_keeps [OF this(1), of env] st show ?thesis by (simp add: perform_parts)
      qed
    qed
  qed
qed

lemma run_closing:
  assumes "started_greeter s" "length is \<le> 2 ^ 64 - 2"
  shows "timed (g_app (fst (run greeter_step s is))) (pending (fst (run greeter_step s is)))
    \<and> closed_by (g_app (fst (run greeter_step s is))) = closes (concat (snd (run greeter_step s is)))"
  using assms(2)
proof (induction "is" rule: rev_induct)
  case Nil
  obtain env name display is_format heic monitored
    where s: "startup env name display is_format heic monitored = (g_app s, pending s)"
    using assms(1) unfolding started_greeter_def by blast
  have "app_closing (fst (startup env name display is_format heic monitored)) = None"
    using focus_first_flow by (simp add: startup_def Let_def same_flow_def)
  with s show ?case by (simp add: timed_def closed_by_def cleaning_window_def)
next
  case (snoc i "is")
  then have "\<not> preview (g_app (fst (run greeter_step s is)))"
    using flow.init_run_counted [OF assms(1), of "is"] by (simp add: flow_inv_def)
  from step_closing [OF this, of i] snoc show ?case by (simp add: run_append)
qed

section \<open>Property\<close>

text \<open>
  C14. Closing always ends: in every run from startup a close request starts closing its window, as
  long as a window is being cleaned up its timer is running, and the timer closes that window
  whatever else has happened. The window is closed exactly once.
\<close>

theorem closing_ends:
  assumes "started_greeter s0" "length is \<le> 2 ^ 64 - 2" "run greeter_step s0 is = (s, outs)"
  shows "(\<forall>env w. app_closing (g_app s) = None \<longrightarrow>
        (let a = g_app (fst (greeter_step s (Spontaneous env (CloseRequested w))))
         in cleaning_window a w \<or> app_closing a = Some (Dispatching w)))
    \<and> (\<forall>w. cleaning_window (g_app s) w \<longrightarrow>
        (\<exists>k < length (pending s). \<forall>env.
           snd (greeter_step s (Completed env k (CloseTimeout w))) = [CloseWindow w]
           \<and> app_closing (g_app (fst (greeter_step s (Completed env k (CloseTimeout w))))) = Some (Dispatching w)))
    \<and> filter closes_window (concat outs) =
        (case app_closing (g_app s) of Some (Dispatching w) \<Rightarrow> [CloseWindow w] | _ \<Rightarrow> [])"
proof -
  have r: "timed (g_app s) (pending s)" "closed_by (g_app s) = closes (concat outs)"
    using run_closing [OF assms(1,2)] assms(3) by simp_all
  have "\<not> preview (g_app s)"
    using flow.init_run_counted [OF assms(1,2)] assms(3) by (simp add: flow_inv_def)
  then have "app_closing (g_app s) = None \<longrightarrow>
      (let a = g_app (fst (greeter_step s (Spontaneous env (CloseRequested w))))
       in cleaning_window a w \<or> app_closing a = Some (Dispatching w))" for env w
    by (simp add: perform_parts app_update_def gate_def dispatch_def allowed_power_def
        handle_close_requested_def close_with_def cleaning_window_def is_cleaning_def)
  moreover have "\<exists>k < length (pending s). \<forall>env.
      snd (greeter_step s (Completed env k (CloseTimeout w))) = [CloseWindow w]
      \<and> app_closing (g_app (fst (greeter_step s (Completed env k (CloseTimeout w))))) = Some (Dispatching w)"
    if w: "cleaning_window (g_app s) w" for w
  proof -
    from r(1) w obtain k where k: "k < length (pending s)" "pending s ! k = CloseTimer w"
      by (auto simp: timed_def in_set_conv_nth)
    then show ?thesis
      using timeout_closes [OF w] by (intro exI [of _ k]) (simp add: delivers_def perform_parts)
  qed
  ultimately show ?thesis using r(2) by (simp add: closed_by_def)
qed

theorem closing_ends_witness:
  "app_closing (g_app (fst (greeter_step (greeter_demo_after 2) (Spontaneous greeter_demo_env (CloseRequested 7))))) = Some (Cancelling 7)
    \<and> (\<exists>k. snd (greeter_step (fst (greeter_step (greeter_demo_after 2) (Spontaneous greeter_demo_env (CloseRequested 7))))
            (Completed greeter_demo_env k (CloseTimeout 7))) = [CloseWindow 7])"
proof -
  let ?is = "take 2 greeter_demo_inputs @ [Spontaneous greeter_demo_env (CloseRequested 7)]"
  let ?s = "fst (greeter_step (greeter_demo_after 2) (Spontaneous greeter_demo_env (CloseRequested 7)))"
  have c: "app_closing (g_app ?s) = Some (Cancelling 7)"
    by (simp add: greeter_demo_typed perform_parts app_update_def gate_def dispatch_def handle_close_requested_def
        close_with_def greeter_demo_after_steps(2) [symmetric])
  have "run greeter_step demo_greeter ?is = (?s, snd (run greeter_step demo_greeter ?is))"
    by (simp add: prod_eq_iff run_append greeter_demo_after_def)
  note ends = closing_ends [OF greeter_demo_started _ this]
  have "cleaning_window (g_app ?s) 7" using c by (simp add: cleaning_window_def is_cleaning_def)
  with ends have "\<exists>k < length (pending ?s). \<forall>env.
      snd (greeter_step ?s (Completed env k (CloseTimeout 7))) = [CloseWindow 7]
      \<and> app_closing (g_app (fst (greeter_step ?s (Completed env k (CloseTimeout 7))))) = Some (Dispatching 7)"
    by (simp only: length_append length_take greeter_demo_length) simp
  with c show ?thesis by blast
qed

end
