(* ===== verification/Heif_Container.thy ===== *)
theory Heif_Container
  imports Genkan_Prelude
begin

text \<open>
  The structural preflight of untrusted HEIF containers
  (\<open>src/dynamic_wallpaper/container.rs\<close>): a walk over the boxes of the file that enforces ceilings
  summed over all of them before libheif sees the bytes.

  Offsets and lengths are \<open>usize\<close> values of a 64-bit target and counters are \<open>u32\<close>, all as naturals.
  A checked addition that fails is the error the source gives; an unchecked addition that overflows,
  an unchecked subtraction below zero, a slice and an index out of range are the value \<open>Panic\<close>,
  which the theory shows never to arise.
\<close>

section \<open>Data\<close>

datatype heif_error = Container string | Limit string | Panic

record budget =
  max_container_items :: nat
  max_container_associations :: nat
  max_metadata_items :: nat
  max_metadata_bytes :: nat
  max_container_boxes :: nat
  max_container_depth :: nat
  max_item_extents :: nat

record totals =
  items :: nat
  iloc_records :: nat
  iref_references :: nat
  ipma_entries :: nat
  ipma_associations :: nat

record extent =
  extent_id :: nat
  extent_bytes :: nat

record box_header =
  kind :: "u8 list"
  body_start :: nat
  body_end :: nat
  next_box :: nat

record walk_state =
  counted :: totals
  boxes :: nat
  metadata_items :: "nat list"
  extents :: "extent list"
  saw_meta :: bool
  saw_mini :: bool
  sequence_brand :: bool

definition ascii :: "string \<Rightarrow> u8 list" where
  "ascii s = map of_nat (lit s)"

lemma length_ascii [simp]: "length (ascii s) = length s"
  by (simp add: ascii_def lit_def)

definition is_container :: "u8 list \<Rightarrow> bool" where
  "is_container k \<longleftrightarrow> k \<in> set (map ascii
     [''iprp'', ''ipco'', ''dinf'', ''grpl'', ''moov'', ''trak'', ''mdia'', ''minf'', ''stbl'', ''edts'', ''j2kH''])"

definition VISUAL_SAMPLE_ENTRY_PREFIX :: nat where "VISUAL_SAMPLE_ENTRY_PREFIX = 78"
definition VISUAL_SAMPLE_ENTRY_NAME_LENGTH :: nat where "VISUAL_SAMPLE_ENTRY_NAME_LENGTH = 42"

definition is_visual_sample_entry :: "u8 list \<Rightarrow> bool" where
  "is_visual_sample_entry k \<longleftrightarrow> k \<in> set (map ascii [''hvc1'', ''av01'', ''vvc1'', ''avc1'', ''mjpg'', ''j2ki''])"

definition is_sequence_brand :: "u8 list \<Rightarrow> bool" where
  "is_sequence_brand brand \<longleftrightarrow> brand \<in> set (map ascii [''msf1'', ''isom'', ''mp41'', ''mp42''])"

definition is_image_item :: "u8 list \<Rightarrow> u8 list \<Rightarrow> bool" where
  "is_image_item item_type content_type \<longleftrightarrow>
     item_type \<in> set (map ascii [''hvc1'', ''av01'', ''grid'', ''tili'', ''iden'', ''iovl'', ''avc1'',
       ''unci'', ''vvc1'', ''jpeg'', ''j2k1'', ''mski''])
     \<or> item_type = ascii ''mime'' \<and> content_type = ascii ''image/jpeg''"

section \<open>Arithmetic and reading\<close>

text \<open>An addition the source writes with \<open>+\<close>, a subtraction, an index and a slice \<open>xs[i..j]\<close>.\<close>

definition plus_at :: "nat \<Rightarrow> nat \<Rightarrow> nat \<Rightarrow> heif_error + nat" where
  "plus_at width a b = ok_or (checked_add width a b) Panic"

definition index_at :: "'a list \<Rightarrow> nat \<Rightarrow> heif_error + 'a" where
  "index_at xs i = (if i < length xs then Inr (xs ! i) else Inl Panic)"

definition minus_at :: "nat \<Rightarrow> nat \<Rightarrow> heif_error + nat" where
  "minus_at a b = (if b \<le> a then Inr (a - b) else Inl Panic)"

definition slice_at :: "'a list \<Rightarrow> nat \<Rightarrow> nat \<Rightarrow> heif_error + 'a list" where
  "slice_at xs i j = (if i \<le> j \<and> j \<le> length xs then Inr (take (j - i) (drop i xs)) else Inl Panic)"

definition offset_add :: "nat \<Rightarrow> nat \<Rightarrow> heif_error + nat" where
  "offset_add a b = ok_or (checked_add 64 a b) (Container ''box offset overflow'')"

definition heif_read :: "u8 list \<Rightarrow> nat \<Rightarrow> nat \<Rightarrow> nat \<Rightarrow> heif_error + u8 list" where
  "heif_read b offset len limit =
     rbind (offset_add offset len) (\<lambda>stop.
       if stop > limit \<or> stop > length b then Inl (Container ''box is truncated'')
       else slice_at b offset stop)"

lemma heif_read_eq:
  "heif_read b offset len limit =
     rbind (offset_add offset len) (\<lambda>stop.
       if stop > limit \<or> stop > length b then Inl (Container ''box is truncated'')
       else Inr (take len (drop offset b)))"
  by (cases "offset_add offset len")
    (auto simp: heif_read_def slice_at_def offset_add_def checked_add_def split: if_splits)

definition advance :: "nat \<Rightarrow> nat \<Rightarrow> nat \<Rightarrow> heif_error + nat" where
  "advance offset len limit =
     rbind (offset_add offset len) (\<lambda>stop.
       if stop > limit then Inl (Container ''box is truncated'') else Inr stop)"

definition read_u8 :: "u8 list \<Rightarrow> nat \<Rightarrow> nat \<Rightarrow> heif_error + nat" where
  "read_u8 b offset limit =
     rbind (heif_read b offset 1 limit) (\<lambda>bs. rbind (index_at bs 0) (\<lambda>x. Inr (unat x)))"

definition read_u16 :: "u8 list \<Rightarrow> nat \<Rightarrow> nat \<Rightarrow> heif_error + nat" where
  "read_u16 b offset limit = rbind (heif_read b offset 2 limit) (\<lambda>bs. Inr (from_be bs))"

definition read_u32 :: "u8 list \<Rightarrow> nat \<Rightarrow> nat \<Rightarrow> heif_error + nat" where
  "read_u32 b offset limit = rbind (heif_read b offset 4 limit) (\<lambda>bs. Inr (from_be bs))"

definition read_uint :: "u8 list \<Rightarrow> nat \<Rightarrow> nat \<Rightarrow> nat \<Rightarrow> heif_error + nat" where
  "read_uint b offset width limit =
     (if width = 0 then Inr 0
      else if width = 4 then read_u32 b offset limit
      else if width = 8 then
        rbind (read_u32 b offset limit) (\<lambda>high.
        rbind (plus_at 64 offset 4) (\<lambda>second.
        rbind (read_u32 b second limit) (\<lambda>low. Inr (high * 2 ^ 32 + low))))
      else Inl (Container ''unsupported integer width''))"

definition read_fourcc :: "u8 list \<Rightarrow> nat \<Rightarrow> nat \<Rightarrow> heif_error + u8 list" where
  "read_fourcc b offset limit = heif_read b offset 4 limit"

text \<open>The string and the offset after it.\<close>

definition read_cstring :: "u8 list \<Rightarrow> nat \<Rightarrow> nat \<Rightarrow> heif_error + u8 list \<times> nat" where
  "read_cstring b offset limit =
     (if offset > limit \<or> limit > length b then Inl (Container ''box is truncated'')
      else
        rbind (slice_at b offset limit) (\<lambda>rest.
         case position (\<lambda>x. x = 0) rest of
           Some n \<Rightarrow>
             rbind (slice_at rest 0 n) (\<lambda>value.
             rbind (plus_at 64 offset n) (\<lambda>at. rbind (plus_at 64 at 1) (\<lambda>after.
               Inr (value, after))))
         | None \<Rightarrow>
             if rest \<noteq> []
             then rbind (minus_at (length rest) 1) (\<lambda>n. rbind (slice_at rest 0 n) (\<lambda>value. Inr (value, limit)))
             else Inr (rest, limit)))"

lemma read_cstring_eq:
  "read_cstring b offset limit =
     (if offset > limit \<or> limit > length b then Inl (Container ''box is truncated'')
      else
        (let rest = take (limit - offset) (drop offset b) in
         case position (\<lambda>x. x = 0) rest of
           Some n \<Rightarrow>
             rbind (plus_at 64 offset n) (\<lambda>at. rbind (plus_at 64 at 1) (\<lambda>after.
               Inr (take n rest, after)))
         | None \<Rightarrow>
             if rest \<noteq> [] then Inr (take (length rest - 1) rest, limit) else Inr (rest, limit)))"
proof (cases "offset > limit \<or> limit > length b")
  case False
  let ?rest = "take (limit - offset) (drop offset b)"
  have "n \<le> length ?rest" if "position (\<lambda>x. x = 0) ?rest = Some n" for n
    using position_Some [OF that] by simp
  moreover have "Suc 0 \<le> length ?rest" if "?rest \<noteq> []" using that by (cases ?rest) simp_all
  ultimately show ?thesis using False
    by (auto simp: read_cstring_def slice_at_def minus_at_def Let_def simp del: position_None
        split: option.split)
qed (simp add: read_cstring_def)

definition read_header :: "u8 list \<Rightarrow> nat \<Rightarrow> nat \<Rightarrow> heif_error + box_header" where
  "read_header b offset limit =
     rbind (heif_read b offset 8 limit) (\<lambda>header.
       let size = from_be (take 4 header); k = drop 4 header in
       rbind
         (if size = 0 then rbind (minus_at limit offset) (\<lambda>box_length. Inr (box_length, 8))
          else if size = 1 then
            rbind (offset_add offset 8) (\<lambda>start.
            rbind (heif_read b start 8 limit) (\<lambda>large. Inr (from_be large, 16)))
          else Inr (size, 8))
         (\<lambda>(box_length, short_length).
           let header_length = (if k = ascii ''uuid'' then short_length + 16 else short_length) in
           if box_length < header_length then Inl (Container ''box is smaller than its header'')
           else
             rbind (offset_add offset header_length) (\<lambda>start.
             rbind (offset_add offset box_length) (\<lambda>stop.
               if stop > limit then Inl (Container ''box extends past its parent'')
               else Inr \<lparr>kind = k, body_start = start, body_end = stop, next_box = stop\<rparr>))))"

lemma read_header_eq:
  "read_header b offset limit =
     rbind (heif_read b offset 8 limit) (\<lambda>header.
       let size = from_be (take 4 header); k = drop 4 header in
       rbind
         (if size = 0 then Inr (limit - offset, 8)
          else if size = 1 then
            rbind (offset_add offset 8) (\<lambda>start.
            rbind (heif_read b start 8 limit) (\<lambda>large. Inr (from_be large, 16)))
          else Inr (size, 8))
         (\<lambda>(box_length, short_length).
           let header_length = (if k = ascii ''uuid'' then short_length + 16 else short_length) in
           if box_length < header_length then Inl (Container ''box is smaller than its header'')
           else
             rbind (offset_add offset header_length) (\<lambda>start.
             rbind (offset_add offset box_length) (\<lambda>stop.
               if stop > limit then Inl (Container ''box extends past its parent'')
               else Inr \<lparr>kind = k, body_start = start, body_end = stop, next_box = stop\<rparr>))))"
proof (cases "heif_read b offset 8 limit")
  case (Inr header)
  then have "offset \<le> limit" by (auto simp: heif_read_eq offset_add_def split: if_splits)
  with Inr show ?thesis by (simp add: read_header_def minus_at_def Let_def cong: if_cong)
qed (simp add: read_header_def)

section \<open>Counting\<close>

text \<open>Adds to a \<open>u32\<close> total of the container; above its ceiling the file is refused.\<close>

definition count_to :: "nat \<Rightarrow> string \<Rightarrow> nat \<Rightarrow> nat \<Rightarrow> heif_error + nat" where
  "count_to ceiling what acc extra =
     rbind (ok_or (checked_add 32 acc extra) (Limit what)) (\<lambda>n.
       if n > ceiling then Inl (Limit what) else Inr n)"

abbreviation count_references :: "budget \<Rightarrow> nat \<Rightarrow> walk_state \<Rightarrow> heif_error + walk_state" where
  "count_references bud n w \<equiv>
     rbind (count_to (max_container_items bud) ''reference count'' (iref_references (counted w)) n)
       (\<lambda>m. Inr (w\<lparr>counted := (counted w)\<lparr>iref_references := m\<rparr>\<rparr>))"

section \<open>Boxes without children\<close>

text \<open>The fields of an item information entry: identifier, item type, content type.\<close>

definition infe_entry :: "u8 list \<Rightarrow> box_header \<Rightarrow> heif_error + nat \<times> u8 list \<times> u8 list" where
  "infe_entry b h =
     rbind (read_u8 b (body_start h) (body_end h)) (\<lambda>version.
     if version > 3 then Inl (Container ''unsupported item info version'')
     else
       rbind (plus_at 64 (body_start h) 4) (\<lambda>offset.
       if version \<le> 1 then
         rbind (read_u16 b offset (body_end h)) (\<lambda>ident.
         rbind (plus_at 64 offset 2) (\<lambda>offset.
         rbind (plus_at 64 offset 2) (\<lambda>offset.
         rbind (read_cstring b offset (body_end h)) (\<lambda>(_, offset).
         rbind (read_cstring b offset (body_end h)) (\<lambda>(content_type, offset).
         rbind (read_cstring b offset (body_end h)) (\<lambda>_.
           Inr (ident, [0, 0, 0, 0], content_type)))))))
       else
         rbind (if version = 2 then read_u16 b offset (body_end h) else read_u32 b offset (body_end h)) (\<lambda>ident.
         rbind (plus_at 64 offset (if version = 2 then 2 else 4)) (\<lambda>offset.
         rbind (plus_at 64 offset 2) (\<lambda>offset.
         rbind (read_fourcc b offset (body_end h)) (\<lambda>item_type.
         rbind (plus_at 64 offset 4) (\<lambda>offset.
         rbind (read_cstring b offset (body_end h)) (\<lambda>(_, offset).
         rbind (if item_type = ascii ''mime'' then read_cstring b offset (body_end h) else Inr ([], offset))
           (\<lambda>(content_type, offset).
         rbind (if item_type = ascii ''uri '' then read_cstring b offset (body_end h) else Inr ([], offset))
           (\<lambda>_. Inr (ident, item_type, content_type)))))))))))"

definition parse_infe :: "u8 list \<Rightarrow> budget \<Rightarrow> box_header \<Rightarrow> walk_state \<Rightarrow> heif_error + walk_state" where
  "parse_infe b bud h w =
     rbind (infe_entry b h) (\<lambda>(ident, item_type, content_type).
     rbind (count_to (max_container_items bud) ''container item count'' (items (counted w)) 1) (\<lambda>n.
       let w = w\<lparr>counted := (counted w)\<lparr>items := n\<rparr>\<rparr> in
       if is_image_item item_type content_type \<and> item_type \<noteq> ascii ''mime'' then Inr w
       else if ident \<in> set (metadata_items w) then Inr w
       else if length (metadata_items w) mod 2 ^ 32 \<ge> max_metadata_items bud
       then Inl (Limit ''metadata item count'')
       else Inr (w\<lparr>metadata_items := metadata_items w @ [ident]\<rparr>)))"

text \<open>The extents of one record: the offset after them and the bytes they declare.\<close>

fun extent_loop ::
  "u8 list \<Rightarrow> nat \<Rightarrow> nat \<Rightarrow> nat \<Rightarrow> nat \<Rightarrow> nat \<Rightarrow> nat \<Rightarrow> nat \<Rightarrow> heif_error + nat \<times> nat" where
  "extent_loop b index_size offset_size length_size limit 0 offset acc = Inr (offset, acc)"
| "extent_loop b index_size offset_size length_size limit (Suc n) offset acc =
     rbind (advance offset index_size limit) (\<lambda>offset.
     rbind (advance offset offset_size limit) (\<lambda>offset.
     rbind (read_uint b offset length_size limit) (\<lambda>len.
     rbind (ok_or (checked_add 64 acc len) (Limit ''item extent bytes'')) (\<lambda>acc.
     rbind (advance offset length_size limit) (\<lambda>offset.
       extent_loop b index_size offset_size length_size limit n offset acc)))))"

record iloc_layout =
  iloc_version :: nat
  offset_size :: nat
  length_size :: nat
  base_offset_size :: nat
  index_size :: nat
  item_count :: nat
  iloc_offset :: nat

definition iloc_head :: "u8 list \<Rightarrow> box_header \<Rightarrow> heif_error + iloc_layout" where
  "iloc_head b h =
     rbind (read_u8 b (body_start h) (body_end h)) (\<lambda>version.
     if version > 2 then Inl (Container ''unsupported item location version'')
     else
       rbind (plus_at 64 (body_start h) 4) (\<lambda>offset.
       rbind (read_u16 b offset (body_end h)) (\<lambda>widths.
       rbind (plus_at 64 offset 2) (\<lambda>offset.
       let osz = widths div 2 ^ 12 mod 16; lsz = widths div 2 ^ 8 mod 16; bsz = widths div 2 ^ 4 mod 16;
           isz = (if version \<ge> 1 then widths mod 16 else 0)
       in if \<exists>width \<in> set [osz, lsz, bsz, isz]. width \<notin> {0, 4, 8}
          then Inl (Container ''unsupported item location field width'')
          else
            rbind (if version < 2 then read_u16 b offset (body_end h) else read_u32 b offset (body_end h)) (\<lambda>count.
            rbind (plus_at 64 offset (if version < 2 then 2 else 4)) (\<lambda>offset.
              Inr \<lparr>iloc_version = version, offset_size = osz, length_size = lsz, base_offset_size = bsz,
                   index_size = isz, item_count = count, iloc_offset = offset\<rparr>))))))"

fun record_loop ::
  "u8 list \<Rightarrow> budget \<Rightarrow> iloc_layout \<Rightarrow> nat \<Rightarrow> nat \<Rightarrow> nat \<Rightarrow> extent list \<Rightarrow> heif_error + extent list" where
  "record_loop b bud l limit 0 offset xs = Inr xs"
| "record_loop b bud l limit (Suc n) offset xs =
     rbind (if iloc_version l < 2 then read_u16 b offset limit else read_u32 b offset limit) (\<lambda>ident.
     rbind (plus_at 64 offset (if iloc_version l < 2 then 2 else 4)) (\<lambda>offset.
     rbind (if iloc_version l \<ge> 1 then plus_at 64 offset 2 else Inr offset) (\<lambda>offset.
     rbind (plus_at 64 offset 2) (\<lambda>offset.
     rbind (advance offset (base_offset_size l) limit) (\<lambda>offset.
     rbind (read_u16 b offset limit) (\<lambda>extent_count.
     rbind (plus_at 64 offset 2) (\<lambda>offset.
     if extent_count > max_item_extents bud then Inl (Limit ''item extent count'')
     else
       rbind (extent_loop b (index_size l) (offset_size l) (length_size l) limit extent_count offset 0)
         (\<lambda>(offset, acc).
           record_loop b bud l limit n offset (xs @ [\<lparr>extent_id = ident, extent_bytes = acc\<rparr>])))))))))"

definition parse_iloc :: "u8 list \<Rightarrow> budget \<Rightarrow> box_header \<Rightarrow> walk_state \<Rightarrow> heif_error + walk_state" where
  "parse_iloc b bud h w =
     rbind (iloc_head b h) (\<lambda>l.
     rbind (count_to (max_container_items bud) ''item location record count'' (iloc_records (counted w)) (item_count l)) (\<lambda>n.
     rbind (record_loop b bud l (body_end h) (item_count l) (iloc_offset l) (extents w)) (\<lambda>xs.
       Inr (w\<lparr>counted := (counted w)\<lparr>iloc_records := n\<rparr>, extents := xs\<rparr>))))"

lemma read_header_ok:
  assumes "read_header b offset limit = Inr h"
  shows "offset + 8 \<le> body_start h" "body_start h \<le> body_end h" "body_end h \<le> limit"
    "next_box h = body_end h" "length (kind h) = 4" "body_end h < 2 ^ 64" "offset + 8 \<le> length b"
  using assms
  by (auto simp: read_header_eq heif_read_eq offset_add_def Let_def split: if_splits)

lemma next_box_progress: "read_header b offset limit = Inr h \<Longrightarrow> limit - next_box h < limit - offset"
  using read_header_ok [of b offset limit h] by simp

function iref_loop ::
  "u8 list \<Rightarrow> budget \<Rightarrow> nat \<Rightarrow> nat \<Rightarrow> nat \<Rightarrow> walk_state \<Rightarrow> heif_error + walk_state" where
  "iref_loop b bud id_size limit offset w =
     (if offset < limit then
        rbind (read_header b offset limit) (\<lambda>child.
        rbind (plus_at 64 (body_start child) id_size) (\<lambda>at.
        rbind (read_u16 b at (body_end child)) (\<lambda>count.
        if count = 0 then Inl (Container ''reference list is empty'')
        else
          rbind (count_references bud count w) (\<lambda>w.
          rbind (ok_or (checked_add 64 (body_start child) (id_size + 2 + count * id_size)) (Limit ''reference count'')) (\<lambda>expected.
          if expected \<noteq> body_end child then Inl (Container ''reference list does not fill its box'')
          else iref_loop b bud id_size limit (next_box child) w)))))
      else Inr w)"
  by pat_completeness auto
termination
  by (relation "measure (\<lambda>(b, bud, id_size, limit, offset, w). limit - offset)")
    (auto dest: next_box_progress)

definition parse_iref :: "u8 list \<Rightarrow> budget \<Rightarrow> box_header \<Rightarrow> walk_state \<Rightarrow> heif_error + walk_state" where
  "parse_iref b bud h w =
     rbind (heif_read b (body_start h) 4 (body_end h)) (\<lambda>header.
     rbind (index_at header 0) (\<lambda>version.
     if unat version > 1 then Inl (Container ''unsupported reference version'')
     else
       rbind (plus_at 64 (body_start h) 4) (\<lambda>offset.
         iref_loop b bud (if unat version = 0 then 2 else 4) (body_end h) offset w)))"

function tref_loop :: "u8 list \<Rightarrow> budget \<Rightarrow> nat \<Rightarrow> nat \<Rightarrow> walk_state \<Rightarrow> heif_error + walk_state" where
  "tref_loop b bud limit offset w =
     (if offset < limit then
        rbind (read_u32 b offset limit) (\<lambda>declared.
        if declared = 0 then Inl (Container ''track reference list has an unspecified size'')
        else
          rbind (read_header b offset limit) (\<lambda>child.
          rbind (minus_at (body_end child) (body_start child)) (\<lambda>len.
          if len < 4 \<or> len mod 4 \<noteq> 0 then Inl (Container ''track reference list has an invalid size'')
          else if len div 4 \<ge> 2 ^ 32 then Inl (Limit ''reference count'')
          else
            rbind (count_references bud (len div 4) w) (\<lambda>w.
              tref_loop b bud limit (next_box child) w))))
      else Inr w)"
  by pat_completeness auto
termination
  by (relation "measure (\<lambda>(b, bud, limit, offset, w). limit - offset)") (auto dest: next_box_progress)

definition parse_tref :: "u8 list \<Rightarrow> budget \<Rightarrow> box_header \<Rightarrow> walk_state \<Rightarrow> heif_error + walk_state" where
  "parse_tref b bud h w = tref_loop b bud (body_end h) (body_start h) w"

text \<open>An entry's associations are a byte, so twice their number cannot overflow.\<close>

fun ipma_loop ::
  "u8 list \<Rightarrow> budget \<Rightarrow> nat \<Rightarrow> bool \<Rightarrow> nat \<Rightarrow> nat \<Rightarrow> nat \<Rightarrow> walk_state \<Rightarrow> heif_error + walk_state" where
  "ipma_loop b bud version wide limit 0 offset w = Inr w"
| "ipma_loop b bud version wide limit (Suc n) offset w =
     rbind (advance offset (if version < 1 then 2 else 4) limit) (\<lambda>offset.
     rbind (read_u8 b offset limit) (\<lambda>associations.
     rbind (plus_at 64 offset 1) (\<lambda>offset.
     rbind (count_to (max_container_associations bud) ''property association count''
              (ipma_associations (counted w)) associations) (\<lambda>m.
     rbind (advance offset (associations * (if wide then 2 else 1)) limit) (\<lambda>offset.
       ipma_loop b bud version wide limit n offset (w\<lparr>counted := (counted w)\<lparr>ipma_associations := m\<rparr>\<rparr>))))))"

text \<open>Version, width of the entries, their number and where they start.\<close>

definition ipma_head :: "u8 list \<Rightarrow> box_header \<Rightarrow> heif_error + nat \<times> bool \<times> nat \<times> nat" where
  "ipma_head b h =
     rbind (read_u8 b (body_start h) (body_end h)) (\<lambda>version.
     if version > 1 then Inl (Container ''unsupported property association version'')
     else
       rbind (plus_at 64 (body_start h) 3) (\<lambda>at.
       rbind (read_u8 b at (body_end h)) (\<lambda>flags.
       rbind (plus_at 64 (body_start h) 4) (\<lambda>offset.
       rbind (read_u32 b offset (body_end h)) (\<lambda>entry_count.
       rbind (plus_at 64 offset 4) (\<lambda>offset.
         Inr (version, odd flags, entry_count, offset)))))))"

definition parse_ipma :: "u8 list \<Rightarrow> budget \<Rightarrow> box_header \<Rightarrow> walk_state \<Rightarrow> heif_error + walk_state" where
  "parse_ipma b bud h w =
     rbind (ipma_head b h) (\<lambda>(version, wide, entry_count, offset).
     rbind (count_to (max_container_items bud) ''property association count'' (ipma_entries (counted w)) entry_count) (\<lambda>n.
       ipma_loop b bud version wide (body_end h) entry_count offset
         (w\<lparr>counted := (counted w)\<lparr>ipma_entries := n\<rparr>\<rparr>)))"

text \<open>\<open>chunks_exact(4)\<close>.\<close>

fun chunks_of_4 :: "'a list \<Rightarrow> 'a list list" where
  "chunks_of_4 (w # x # y # z # rest) = [w, x, y, z] # chunks_of_4 rest"
| "chunks_of_4 _ = []"

definition parse_ftyp :: "u8 list \<Rightarrow> box_header \<Rightarrow> walk_state \<Rightarrow> heif_error + walk_state" where
  "parse_ftyp b h w =
     rbind (minus_at (body_end h) (body_start h)) (\<lambda>len.
     rbind (heif_read b (body_start h) len (body_end h)) (\<lambda>body.
     if length body < 8 then Inl (Container ''file type box is truncated'')
     else
       rbind (slice_at body 0 4) (\<lambda>major. rbind (slice_at body 8 (length body)) (\<lambda>compatible.
         Inr (w\<lparr>sequence_brand :=
           is_sequence_brand major \<or> list_ex is_sequence_brand (chunks_of_4 compatible)\<rparr>)))))"

definition parse_colr :: "u8 list \<Rightarrow> box_header \<Rightarrow> walk_state \<Rightarrow> heif_error + walk_state" where
  "parse_colr b h w =
     rbind (minus_at (body_end h) (body_start h)) (\<lambda>len.
     rbind (heif_read b (body_start h) len (body_end h)) (\<lambda>body.
     if length body < 4 then Inl (Container ''colour information box is truncated'')
     else
       rbind (slice_at body 0 4) (\<lambda>profile_kind.
       if profile_kind \<in> {ascii ''prof'', ascii ''rICC''} \<and> length body = 4
       then Inl (Container ''embedded colour profile is empty'')
       else Inr w)))"

section \<open>The walk\<close>

text \<open>
  What a box asks of the walk: nothing more, its children from an offset, or the counted entries of
  an item information or a sample description box.
\<close>

datatype contents = Opaque | Children nat | ItemEntries nat nat | SampleEntries nat nat

definition iinf_head :: "u8 list \<Rightarrow> box_header \<Rightarrow> heif_error + contents" where
  "iinf_head b h =
     rbind (read_u8 b (body_start h) (body_end h)) (\<lambda>version.
     rbind (plus_at 64 (body_start h) 4) (\<lambda>offset.
     rbind (if version = 0 then read_u16 b offset (body_end h) else read_u32 b offset (body_end h)) (\<lambda>count.
     rbind (plus_at 64 offset (if version = 0 then 2 else 4)) (\<lambda>offset.
       Inr (ItemEntries count offset)))))"

definition stsd_head :: "u8 list \<Rightarrow> box_header \<Rightarrow> heif_error + contents" where
  "stsd_head b h =
     rbind (read_u8 b (body_start h) (body_end h)) (\<lambda>version.
     if version \<noteq> 0 then Inl (Container ''unsupported sample description version'')
     else
       rbind (plus_at 64 (body_start h) 4) (\<lambda>offset.
       rbind (read_u32 b offset (body_end h)) (\<lambda>count.
       rbind (plus_at 64 offset 4) (\<lambda>offset.
         Inr (SampleEntries count offset)))))"

definition visual_sample_entry :: "u8 list \<Rightarrow> box_header \<Rightarrow> heif_error + contents" where
  "visual_sample_entry b h =
     rbind (heif_read b (body_start h) VISUAL_SAMPLE_ENTRY_PREFIX (body_end h)) (\<lambda>prefix.
     rbind (index_at prefix VISUAL_SAMPLE_ENTRY_NAME_LENGTH) (\<lambda>name_length.
     if unat name_length > 31 then Inl (Container ''sample entry compressor name is too long'')
     else
       rbind (plus_at 64 (body_start h) VISUAL_SAMPLE_ENTRY_PREFIX) (\<lambda>start. Inr (Children start))))"

text \<open>Where the children of a box are, by its type.\<close>

definition contents_of :: "u8 list \<Rightarrow> box_header \<Rightarrow> heif_error + contents" where
  "contents_of b h =
     (if kind h = ascii ''meta'' then rbind (plus_at 64 (body_start h) 4) (\<lambda>start. Inr (Children start))
      else if kind h = ascii ''iinf'' then iinf_head b h
      else if kind h \<in> set (map ascii [''infe'', ''iloc'', ''iref'', ''ipma'']) then Inr Opaque
      else if kind h = ascii ''stsd'' then stsd_head b h
      else if kind h = ascii ''dref'' \<or> kind h = ascii ''urim''
      then rbind (plus_at 64 (body_start h) 8) (\<lambda>start. Inr (Children start))
      else if kind h \<in> set (map ascii [''tref'', ''ftyp'', ''colr'', ''mini'']) then Inr Opaque
      else if is_container (kind h) then Inr (Children (body_start h))
      else if is_visual_sample_entry (kind h) then visual_sample_entry b h
      else Inr Opaque)"

text \<open>What a box itself adds to the totals, by its type.\<close>

definition record_box :: "u8 list \<Rightarrow> budget \<Rightarrow> box_header \<Rightarrow> walk_state \<Rightarrow> heif_error + walk_state" where
  "record_box b bud h w =
     (if kind h = ascii ''meta'' then Inr (w\<lparr>saw_meta := True\<rparr>)
      else if kind h = ascii ''infe'' then parse_infe b bud h w
      else if kind h = ascii ''iloc'' then parse_iloc b bud h w
      else if kind h = ascii ''iref'' then parse_iref b bud h w
      else if kind h = ascii ''ipma'' then parse_ipma b bud h w
      else if kind h = ascii ''tref'' then parse_tref b bud h w
      else if kind h = ascii ''ftyp'' then parse_ftyp b h w
      else if kind h = ascii ''colr'' then parse_colr b h w
      else if kind h = ascii ''mini'' then Inr (w\<lparr>saw_mini := True\<rparr>)
      else Inr w)"

lemma iinf_head_contents: "iinf_head b h = Inr c \<Longrightarrow> \<exists>n at. c = ItemEntries n at \<and> body_start h + 4 \<le> at"
  by (auto simp: iinf_head_def plus_at_def split: if_splits)

lemma contents_within:
  assumes "contents_of b h = Inr c"
  shows "case c of Opaque \<Rightarrow> True | Children at \<Rightarrow> body_start h \<le> at
    | ItemEntries n at \<Rightarrow> body_start h \<le> at | SampleEntries n at \<Rightarrow> body_start h \<le> at"
  using assms
  by (auto simp: contents_of_def iinf_head_def stsd_head_def visual_sample_entry_def plus_at_def split: if_splits)

text \<open>
  Three times the bytes that are left decreases along the boxes; the body of a box is at least eight bytes
  shorter than what is left where the box starts.
\<close>

definition walk_measure ::
  "(u8 list \<times> budget \<times> nat \<times> nat \<times> nat \<times> walk_state
    + u8 list \<times> budget \<times> nat \<times> nat \<times> nat \<times> walk_state)
   + (u8 list \<times> budget \<times> nat \<times> nat \<times> nat \<times> nat \<times> nat \<times> walk_state
    + (u8 list \<times> budget \<times> nat \<times> nat \<times> nat \<times> nat \<times> walk_state
      + u8 list \<times> budget \<times> box_header \<times> nat \<times> walk_state)) \<Rightarrow> nat" where
  "walk_measure x =
     (case x of
        Inl (Inl (b, bud, start, limit, _)) \<Rightarrow> 3 * (limit - start) + 1
      | Inl (Inr (b, bud, offset, limit, _)) \<Rightarrow> 3 * (limit - offset)
      | Inr (Inl (b, bud, offset, limit, _)) \<Rightarrow> 3 * (limit - offset)
      | Inr (Inr (Inl (b, bud, offset, limit, _))) \<Rightarrow> 3 * (limit - offset)
      | Inr (Inr (Inr (b, bud, header, _))) \<Rightarrow> 3 * (body_end header - body_start header) + 2)"

lemma descends:
  assumes "read_header b offset limit = Inr h"
  shows "Suc (Suc (3 * (body_end h - body_start h))) < 3 * (limit - offset)" "limit - next_box h < limit - offset"
  using read_header_ok [OF assms] by simp_all

lemma enters:
  "contents_of b h = Inr (Children start) \<Longrightarrow> 3 * (body_end h - start) < Suc (3 * (body_end h - body_start h))"
  "contents_of b h = Inr (ItemEntries n start) \<Longrightarrow>
     3 * (body_end h - start) < Suc (Suc (3 * (body_end h - body_start h)))"
  "contents_of b h = Inr (SampleEntries n start) \<Longrightarrow>
     3 * (body_end h - start) < Suc (Suc (3 * (body_end h - body_start h)))"
  using contents_within [of b h] by auto

function (sequential)
  walk :: "u8 list \<Rightarrow> budget \<Rightarrow> nat \<Rightarrow> nat \<Rightarrow> nat \<Rightarrow> walk_state \<Rightarrow> heif_error + walk_state" and
  walk_boxes :: "u8 list \<Rightarrow> budget \<Rightarrow> nat \<Rightarrow> nat \<Rightarrow> nat \<Rightarrow> walk_state \<Rightarrow> heif_error + walk_state" and
  item_boxes :: "u8 list \<Rightarrow> budget \<Rightarrow> nat \<Rightarrow> nat \<Rightarrow> nat \<Rightarrow> nat \<Rightarrow> nat \<Rightarrow> walk_state \<Rightarrow> heif_error + walk_state" and
  sample_boxes :: "u8 list \<Rightarrow> budget \<Rightarrow> nat \<Rightarrow> nat \<Rightarrow> nat \<Rightarrow> nat \<Rightarrow> walk_state \<Rightarrow> heif_error + walk_state" and
  visit :: "u8 list \<Rightarrow> budget \<Rightarrow> box_header \<Rightarrow> nat \<Rightarrow> walk_state \<Rightarrow> heif_error + walk_state"
where
  "walk b bud start limit depth w =
     (if start > limit then Inl (Container ''box is truncated'')
      else walk_boxes b bud start limit depth w)"
| "walk_boxes b bud offset limit depth w =
     (if offset < limit then
        rbind (read_header b offset limit) (\<lambda>header.
        rbind (visit b bud header depth w) (\<lambda>w.
          walk_boxes b bud (next_box header) limit depth w))
      else Inr w)"
| "item_boxes b bud offset limit depth declared seen w =
     (if offset < limit then
        rbind (read_header b offset limit) (\<lambda>child.
        rbind (plus_at 32 depth 1) (\<lambda>inner.
        rbind (visit b bud child inner w) (\<lambda>w.
        rbind (ok_or (checked_add 32 seen 1) (Limit ''container item count'')) (\<lambda>seen.
          item_boxes b bud (next_box child) limit depth declared seen w))))
      else if seen \<noteq> declared
      then Inl (Container ''item information count does not match its entries'')
      else Inr w)"
| "sample_boxes b bud offset limit depth count w =
     (if count = 0 then Inr w
      else if offset \<ge> limit then Inl (Container ''sample description is truncated'')
      else
        rbind (read_header b offset limit) (\<lambda>child.
        rbind (plus_at 32 depth 1) (\<lambda>inner.
        rbind (visit b bud child inner w) (\<lambda>w.
          sample_boxes b bud (next_box child) limit depth (count - 1) w))))"
| "visit b bud header depth w =
     (if depth > max_container_depth bud then Inl (Limit ''box nesting depth'')
      else
        rbind (ok_or (checked_add 32 (boxes w) 1) (Limit ''box count'')) (\<lambda>n.
        if n > max_container_boxes bud then Inl (Limit ''box count'')
        else
          rbind (record_box b bud header (w\<lparr>boxes := n\<rparr>)) (\<lambda>w.
          rbind (contents_of b header) (\<lambda>c.
            case c of
              Opaque \<Rightarrow> Inr w
            | Children start \<Rightarrow>
                rbind (plus_at 32 depth 1) (\<lambda>inner. walk b bud start (body_end header) inner w)
            | ItemEntries declared offset \<Rightarrow> item_boxes b bud offset (body_end header) depth declared 0 w
            | SampleEntries count offset \<Rightarrow> sample_boxes b bud offset (body_end header) depth count w))))"
  by pat_completeness auto
termination
  by (relation "measure walk_measure") (simp_all add: walk_measure_def descends enters)

declare walk.simps [simp del] walk_boxes.simps [simp del] item_boxes.simps [simp del]
  sample_boxes.simps [simp del] visit.simps [simp del] iref_loop.simps [simp del] tref_loop.simps [simp del]

text \<open>The declared bytes of every eagerly loaded item: the largest of its records.\<close>

definition largest_extent :: "extent list \<Rightarrow> nat \<Rightarrow> nat" where
  "largest_extent xs ident =
     foldl (\<lambda>largest x. if extent_id x = ident then max largest (extent_bytes x) else largest) 0 xs"

fun metadata_sum :: "extent list \<Rightarrow> nat list \<Rightarrow> nat \<Rightarrow> heif_error + nat" where
  "metadata_sum xs [] acc = Inr acc"
| "metadata_sum xs (ident # rest) acc =
     rbind (ok_or (checked_add 64 acc (largest_extent xs ident)) (Limit ''metadata extent bytes'')) (\<lambda>acc.
       metadata_sum xs rest acc)"

definition check_metadata_bytes :: "budget \<Rightarrow> walk_state \<Rightarrow> heif_error + unit" where
  "check_metadata_bytes bud w =
     rbind (metadata_sum (extents w) (metadata_items w) 0) (\<lambda>acc.
       if acc > max_metadata_bytes bud then Inl (Limit ''metadata extent bytes'') else Inr ())"

definition fresh_walk :: walk_state where
  "fresh_walk =
     \<lparr>counted = \<lparr>items = 0, iloc_records = 0, iref_references = 0, ipma_entries = 0, ipma_associations = 0\<rparr>,
      boxes = 0, metadata_items = [], extents = [], saw_meta = False, saw_mini = False,
      sequence_brand = False\<rparr>"

definition preflight :: "u8 list \<Rightarrow> budget \<Rightarrow> heif_error + unit" where
  "preflight b bud =
     rbind (walk b bud 0 (length b) 0 fresh_walk) (\<lambda>w.
       if \<not> saw_meta w \<and> \<not> saw_mini w \<and> \<not> sequence_brand w then Inl (Container ''no metadata box'')
       else check_metadata_bytes bud w)"

end
