(* ===== verification/Heif_Preflight.thy ===== *)
theory Heif_Preflight
  imports Heif_Container
begin

text \<open>
  What the preflight of HEIF containers guarantees: it never panics, and a file it accepts is a
  forest of boxes whose totals stay below the ceilings of the budget.
\<close>

section \<open>Safe results\<close>

text \<open>Not a panic, and a result that satisfies the postcondition: both rules read off the program.\<close>

definition safe :: "heif_error + 'a \<Rightarrow> ('a \<Rightarrow> bool) \<Rightarrow> bool" where
  "safe r Q \<longleftrightarrow> (case r of Inl e \<Rightarrow> e \<noteq> Panic | Inr x \<Rightarrow> Q x)"

named_theorems safe_rules "equations that compute the safety of an operation"

lemma safe_basic [safe_rules]:
  "safe (Inl e) Q \<longleftrightarrow> e \<noteq> Panic" "safe (Inr x) Q \<longleftrightarrow> Q x"
  "safe (rbind m f) Q \<longleftrightarrow> safe m (\<lambda>x. safe (f x) Q)"
  "safe (if c then r else r') Q \<longleftrightarrow> (if c then safe r Q else safe r' Q)"
  "safe (case p of (x, y) \<Rightarrow> g x y) Q \<longleftrightarrow> safe (g (fst p) (snd p)) Q"
  by (simp_all add: safe_def rbind_def split_beta split: sum.split)

lemma safe_mono: "safe r P \<Longrightarrow> (\<And>x. r = Inr x \<Longrightarrow> P x \<Longrightarrow> Q x) \<Longrightarrow> safe r Q"
  by (auto simp: safe_def split: sum.splits)

lemma safe_add [safe_rules]:
  "e \<noteq> Panic \<Longrightarrow> safe (ok_or (checked_add width x y) e) Q \<longleftrightarrow> (x + y < 2 ^ width \<longrightarrow> Q (x + y))"
  "safe (plus_at width x y) Q \<longleftrightarrow> x + y < 2 ^ width \<and> Q (x + y)"
  "safe (offset_add x y) Q \<longleftrightarrow> (x + y < 2 ^ 64 \<longrightarrow> Q (x + y))"
  "safe (minus_at x y) Q \<longleftrightarrow> y \<le> x \<and> Q (x - y)"
  by (auto simp: safe_def plus_at_def offset_add_def checked_add_def minus_at_def)

lemma safe_slice [safe_rules]:
  "safe (slice_at xs i j) Q \<longleftrightarrow> i \<le> j \<and> j \<le> length xs \<and> Q (take (j - i) (drop i xs))"
  by (auto simp: safe_def slice_at_def)

lemma safe_index [safe_rules]: "safe (index_at xs i) Q \<longleftrightarrow> i < length xs \<and> Q (xs ! i)"
  by (simp add: safe_def index_at_def)

lemma safe_read [safe_rules]:
  "safe (heif_read b offset len limit) Q \<longleftrightarrow>
     (offset + len < 2 ^ 64 \<longrightarrow> offset + len \<le> limit \<longrightarrow> offset + len \<le> length b \<longrightarrow> Q (take len (drop offset b)))"
  "safe (advance offset len limit) P \<longleftrightarrow>
     (offset + len < 2 ^ 64 \<longrightarrow> offset + len \<le> limit \<longrightarrow> P (offset + len))"
  by (auto simp: heif_read_eq advance_def safe_rules not_less)

lemma safe_reads [safe_rules]:
  "safe (read_u8 b offset limit) Q \<longleftrightarrow>
     (offset + 1 < 2 ^ 64 \<longrightarrow> offset + 1 \<le> limit \<longrightarrow> offset + 1 \<le> length b \<longrightarrow> Q (unat (b ! offset)))"
  "safe (read_u16 b offset limit) Q \<longleftrightarrow>
     (offset + 2 < 2 ^ 64 \<longrightarrow> offset + 2 \<le> limit \<longrightarrow> offset + 2 \<le> length b \<longrightarrow> Q (from_be (take 2 (drop offset b))))"
  "safe (read_u32 b offset limit) Q \<longleftrightarrow>
     (offset + 4 < 2 ^ 64 \<longrightarrow> offset + 4 \<le> limit \<longrightarrow> offset + 4 \<le> length b \<longrightarrow> Q (from_be (take 4 (drop offset b))))"
  "safe (read_fourcc b offset limit) R \<longleftrightarrow>
     (offset + 4 < 2 ^ 64 \<longrightarrow> offset + 4 \<le> limit \<longrightarrow> offset + 4 \<le> length b \<longrightarrow> R (take 4 (drop offset b)))"
  by (simp_all add: read_u8_def read_u16_def read_u32_def read_fourcc_def safe_rules nth_append)

lemma safe_uint: "limit < 2 ^ 63 \<Longrightarrow> safe (read_uint b offset width limit) (\<lambda>_. True)"
  by (simp add: read_uint_def safe_rules)

lemma safe_cstring:
  assumes "limit < 2 ^ 63"
  shows "safe (read_cstring b offset limit) (\<lambda>(s, after). after \<le> limit)"
proof (cases "offset > limit \<or> limit > length b")
  case True
  then show ?thesis by (simp add: read_cstring_eq safe_rules)
next
  case False
  show ?thesis
  proof (cases "position (\<lambda>x. x = 0) (take (limit - offset) (drop offset b))")
    case None
    with False show ?thesis by (simp add: read_cstring_eq safe_rules Let_def del: position_None)
  next
    case (Some n)
    have "n < limit - offset" using position_Some [OF Some] by simp
    then have "offset + n < limit" by simp
    with Some False assms show ?thesis by (simp add: read_cstring_eq safe_rules Let_def)
  qed
qed

lemma safe_cstringI:
  assumes "limit < 2 ^ 63" "\<And>s after. after \<le> limit \<Longrightarrow> Q (s, after)"
  shows "safe (read_cstring b offset limit) Q"
  using safe_mono [OF safe_cstring [OF assms(1)]] assms(2) by blast

lemma safe_uintI: "limit < 2 ^ 63 \<Longrightarrow> (\<And>n. Q n) \<Longrightarrow> safe (read_uint b offset width limit) Q"
  using safe_mono [OF safe_uint] by blast

lemma safe_header: "safe (read_header b offset limit) (\<lambda>h. offset + 8 \<le> body_start h
    \<and> body_start h \<le> body_end h \<and> body_end h \<le> limit \<and> next_box h = body_end h)"
proof -
  have "read_header b offset limit \<noteq> Inl Panic"
    by (auto simp: read_header_eq heif_read_eq offset_add_def rbind_def ok_or_def Let_def checked_add_def split: sum.splits option.splits if_splits)
  then show ?thesis using read_header_ok [of b offset limit] by (auto simp: safe_def split: sum.split)
qed

lemma safe_count:
  "safe (count_to ceiling what n m) (\<lambda>k. k = n + m \<and> k \<le> ceiling)"
  by (simp add: count_to_def safe_rules)

lemma safe_countI:
  "(\<And>k. k = n + m \<Longrightarrow> k \<le> ceiling \<Longrightarrow> Q k) \<Longrightarrow> safe (count_to ceiling what n m) Q"
  using safe_mono [OF safe_count] by blast

section \<open>The walk never panics and stays within the budget\<close>

abbreviation placed :: "u8 list \<Rightarrow> box_header \<Rightarrow> bool" where
  "placed b h \<equiv> body_start h \<le> body_end h \<and> body_end h \<le> length b \<and> length b < 2 ^ 63"

definition within :: "budget \<Rightarrow> walk_state \<Rightarrow> bool" where
  "within bud w \<longleftrightarrow>
     items (counted w) \<le> max_container_items bud \<and> iloc_records (counted w) \<le> max_container_items bud
     \<and> iref_references (counted w) \<le> max_container_items bud
     \<and> ipma_entries (counted w) \<le> max_container_items bud
     \<and> ipma_associations (counted w) \<le> max_container_associations bud
     \<and> boxes w \<le> max_container_boxes bud
     \<and> distinct (metadata_items w) \<and> length (metadata_items w) \<le> max_metadata_items bud"

lemma safe_infe_entry: "placed b h \<Longrightarrow> safe (infe_entry b h) (\<lambda>_. True)"
  by (auto simp: infe_entry_def safe_rules intro!: safe_cstringI)

lemma safe_infe:
  assumes "placed b h" "within bud w" "max_metadata_items bud < 2 ^ 32"
  shows "safe (parse_infe b bud h w) (within bud)"
  unfolding parse_infe_def safe_basic
proof (rule safe_mono [OF safe_infe_entry [OF assms(1)]], rule safe_countI)
  fix x k assume "k = items (counted w) + 1" "k \<le> max_container_items bud"
  with assms(2,3) show "safe (let w = w\<lparr>counted := (counted w)\<lparr>items := k\<rparr>\<rparr>
      in if is_image_item (fst (snd x)) (snd (snd x)) \<and> fst (snd x) \<noteq> ascii ''mime'' then Inr w
         else if fst x \<in> set (metadata_items w) then Inr w
         else if max_metadata_items bud \<le> length (metadata_items w) mod 2 ^ 32
              then Inl (Limit ''metadata item count'')
              else Inr (w\<lparr>metadata_items := metadata_items w @ [fst x]\<rparr>)) (within bud)"
    by (simp add: safe_rules Let_def within_def)
qed

lemma safe_extents:
  assumes "limit < 2 ^ 63" "offset \<le> limit"
  shows "safe (extent_loop b isz osz lsz limit n offset acc) (\<lambda>(after, _). after \<le> limit)"
  using assms(2)
proof (induction n arbitrary: offset acc)
  case 0
  then show ?case by (simp add: safe_rules)
next
  case (Suc n)
  with assms(1) show ?case by (simp add: safe_rules) (auto simp: safe_rules intro!: safe_uintI)
qed

lemma safe_records:
  assumes "limit < 2 ^ 63"
  shows "safe (record_loop b bud l limit n offset xs) (\<lambda>_. True)"
proof (induction n arbitrary: offset xs)
  case 0
  then show ?case by (simp add: safe_rules)
next
  case (Suc n)
  have ext: "safe (extent_loop b i os ls limit k at acc) Q"
    if "at \<le> limit" "\<And>x. Q x" for i os ls k at acc Q
    using safe_mono [OF safe_extents [OF assms that(1)]] that(2) by blast
  show ?case using assms Suc by (auto simp: safe_rules intro!: ext)
qed

lemma safe_iloc:
  assumes "placed b h" "within bud w"
  shows "safe (parse_iloc b bud h w) (within bud)"
proof -
  have head: "safe (iloc_head b h) (\<lambda>_. True)"
    using assms(1) by (auto simp: iloc_head_def safe_rules Let_def)
  show ?thesis
    unfolding parse_iloc_def safe_basic
  proof (rule safe_mono [OF head], rule safe_countI)
    fix l k assume k: "k \<le> max_container_items bud"
    have "body_end h < 2 ^ 63" using assms(1) by simp
    from safe_records [OF this, of b bud l "item_count l" "iloc_offset l" "extents w"] assms(2) k
    show "safe (record_loop b bud l (body_end h) (item_count l) (iloc_offset l) (extents w))
        (\<lambda>xs. within bud (w\<lparr>counted := (counted w)\<lparr>iloc_records := k\<rparr>, extents := xs\<rparr>))"
      by (auto simp: within_def elim!: safe_mono)
  qed
qed

text \<open>The same rules backwards, for the loops: each keeps the result it has seen.\<close>

named_theorems safe_intros "rules that step through an operation"

lemma safe_steps [safe_intros]:
  "e \<noteq> Panic \<Longrightarrow> safe (Inl e) Q"
  "Q x \<Longrightarrow> safe (Inr x) Q"
  "safe m (\<lambda>x. safe (f x) Q) \<Longrightarrow> safe (rbind m f) Q"
  "(c \<Longrightarrow> safe r Q) \<Longrightarrow> (\<not> c \<Longrightarrow> safe r' Q) \<Longrightarrow> safe (if c then r else r') Q"
  by (simp_all add: safe_rules)

lemma safe_arith_steps [safe_intros]:
  "x + y < 2 ^ width \<Longrightarrow> P (x + y) \<Longrightarrow> safe (plus_at width x y) P"
  "e \<noteq> Panic \<Longrightarrow> (x + y < 2 ^ width \<Longrightarrow> P (x + y)) \<Longrightarrow> safe (ok_or (checked_add width x y) e) P"
  "i < length xs \<Longrightarrow> Q (xs ! i) \<Longrightarrow> safe (index_at xs i) Q"
  "y \<le> x \<Longrightarrow> P (x - y) \<Longrightarrow> safe (minus_at x y) P"
  "i \<le> j \<Longrightarrow> j \<le> length xs \<Longrightarrow> R (take (j - i) (drop i xs)) \<Longrightarrow> safe (slice_at xs i j) R"
  by (simp_all add: safe_rules)

lemma safe_read_steps [safe_intros]:
  "(offset + len \<le> limit \<Longrightarrow> offset + len \<le> length b \<Longrightarrow> Q (take len (drop offset b)))
    \<Longrightarrow> safe (heif_read b offset len limit) Q"
  "(offset + len \<le> limit \<Longrightarrow> P (offset + len)) \<Longrightarrow> safe (advance offset len limit) P"
  "(offset + 1 \<le> limit \<Longrightarrow> P (unat (b ! offset))) \<Longrightarrow> safe (read_u8 b offset limit) P"
  "(offset + 2 \<le> limit \<Longrightarrow> P (from_be (take 2 (drop offset b)))) \<Longrightarrow> safe (read_u16 b offset limit) P"
  "(offset + 4 \<le> limit \<Longrightarrow> P (from_be (take 4 (drop offset b)))) \<Longrightarrow> safe (read_u32 b offset limit) P"
  by (simp_all add: safe_rules)

lemma safe_headerI [safe_intros]:
  "(\<And>h. offset + 8 \<le> body_start h \<Longrightarrow> body_start h \<le> body_end h \<Longrightarrow> body_end h \<le> limit
    \<Longrightarrow> next_box h = body_end h \<Longrightarrow> Q h) \<Longrightarrow> safe (read_header b offset limit) Q"
  using safe_mono [OF safe_header] by blast

lemmas safe_vcg = safe_intros safe_countI safe_cstringI safe_uintI

lemma safe_iref_loop:
  assumes "limit \<le> length b" "length b < 2 ^ 63" "id_size \<le> 4" "within bud w"
  shows "safe (iref_loop b bud id_size limit offset w) (within bud)"
  using assms(4)
proof (induction "limit - offset" arbitrary: offset w rule: less_induct)
  case less
  have IH: "safe (iref_loop b bud id_size limit after v) (within bud)"
    if "offset < after" "after \<le> limit" "within bud v" for after v
    using less.hyps [of after v] that by simp
  show ?case
    by (subst iref_loop.simps, intro safe_vcg IH) (use less.prems assms in \<open>simp_all add: within_def\<close>)
qed

lemma safe_iref:
  assumes "placed b h" "within bud w"
  shows "safe (parse_iref b bud h w) (within bud)"
  unfolding parse_iref_def
  by (intro safe_vcg safe_iref_loop) (use assms in simp_all)

lemma safe_tref_loop:
  assumes "limit \<le> length b" "length b < 2 ^ 63" "within bud w"
  shows "safe (tref_loop b bud limit offset w) (within bud)"
  using assms(3)
proof (induction "limit - offset" arbitrary: offset w rule: less_induct)
  case less
  have IH: "safe (tref_loop b bud limit after v) (within bud)"
    if "offset < after" "after \<le> limit" "within bud v" for after v
    using less.hyps [of after v] that by simp
  show ?case
    by (subst tref_loop.simps, intro safe_vcg IH)
      (use less.prems assms in \<open>simp_all add: within_def\<close>)
qed

lemma safe_ipma_loop:
  assumes "limit < 2 ^ 63" "within bud w"
  shows "safe (ipma_loop b bud version wide limit n offset w) (within bud)"
  using assms(2)
proof (induction n arbitrary: offset w)
  case 0
  then show ?case by (simp add: safe_rules)
next
  case (Suc n)
  show ?case
    by (subst ipma_loop.simps, intro safe_vcg Suc.IH)
      (use Suc.prems assms(1) in \<open>simp_all add: within_def\<close>)
qed

lemma safe_ipma:
  assumes "placed b h" "within bud w"
  shows "safe (parse_ipma b bud h w) (within bud)"
proof -
  have head: "safe (ipma_head b h) (\<lambda>_. True)"
    unfolding ipma_head_def by (intro safe_vcg) (use assms in simp_all)
  show ?thesis
    unfolding parse_ipma_def safe_basic(3,5)
  proof (rule safe_mono [OF head], rule safe_countI, rule safe_ipma_loop)
    show "body_end h < 2 ^ 63" using assms by simp
  qed (use assms in \<open>simp add: within_def\<close>)
qed

lemma safe_ftyp: "placed b h \<Longrightarrow> within bud w \<Longrightarrow> safe (parse_ftyp b h w) (within bud)"
  unfolding parse_ftyp_def by (intro safe_vcg) (simp_all add: within_def not_less)

lemma safe_colr: "placed b h \<Longrightarrow> within bud w \<Longrightarrow> safe (parse_colr b h w) (within bud)"
  unfolding parse_colr_def by (intro safe_vcg) (simp_all add: not_less)

lemma safe_record:
  assumes "placed b h" "within bud w" "max_metadata_items bud < 2 ^ 32"
  shows "safe (record_box b bud h w) (within bud)"
proof -
  have "safe (parse_tref b bud h w) (within bud)"
    unfolding parse_tref_def by (rule safe_tref_loop) (use assms in simp_all)
  moreover have "safe (Inr (w\<lparr>saw_meta := True\<rparr>)) (within bud)" "safe (Inr (w\<lparr>saw_mini := True\<rparr>)) (within bud)"
    "safe (Inr w) (within bud)"
    using assms(2) by (simp_all add: safe_rules within_def)
  ultimately show ?thesis
    unfolding record_box_def
    by (intro safe_steps(4) safe_infe safe_iloc safe_iref safe_ipma safe_ftyp safe_colr assms)
qed

lemma safe_contents:
  assumes "placed b h"
  shows "safe (contents_of b h) (\<lambda>_. True)"
  unfolding contents_of_def iinf_head_def stsd_head_def visual_sample_entry_def
  by (intro safe_vcg) (use assms in \<open>simp_all add: VISUAL_SAMPLE_ENTRY_PREFIX_def VISUAL_SAMPLE_ENTRY_NAME_LENGTH_def less_diff_conv\<close>)

lemma safe_step: "safe m P \<Longrightarrow> (\<And>x. m = Inr x \<Longrightarrow> P x \<Longrightarrow> safe (f x) Q) \<Longrightarrow> safe (rbind m f) Q"
  by (auto simp: safe_def rbind_def split: sum.splits)

abbreviation bounded_budget :: "budget \<Rightarrow> bool" where
  "bounded_budget bud \<equiv> max_metadata_items bud < 2 ^ 32 \<and> max_container_depth bud < 2 ^ 32 - 1"

lemma safe_depth: "depth < 2 ^ 32 - 1 \<Longrightarrow> safe (plus_at 32 depth 1) (\<lambda>d. d = depth + 1)"
  by (simp add: safe_rules)

lemma safe_ok_or: "e \<noteq> Panic \<Longrightarrow> safe (ok_or x e) (\<lambda>_. True)"
  by (cases x) (simp_all add: safe_rules)

lemma safe_walks:
  assumes "length b < 2 ^ 63" "bounded_budget bud"
  shows "limit \<le> length b \<Longrightarrow> within bud w \<Longrightarrow> safe (walk b bud start limit depth w) (within bud)"
    "limit \<le> length b \<Longrightarrow> within bud w \<Longrightarrow> safe (walk_boxes b bud offset limit depth w) (within bud)"
    "limit \<le> length b \<Longrightarrow> within bud w \<Longrightarrow> depth \<le> max_container_depth bud \<Longrightarrow>
      safe (item_boxes b bud offset limit depth declared seen w) (within bud)"
    "limit \<le> length b \<Longrightarrow> within bud w \<Longrightarrow> depth \<le> max_container_depth bud \<Longrightarrow>
      safe (sample_boxes b bud offset limit depth count w) (within bud)"
    "placed b h \<Longrightarrow> within bud w \<Longrightarrow> safe (visit b bud h depth w) (within bud)"
  using assms
proof (induction b bud start limit depth w and b bud offset limit depth w
    and b bud offset limit depth declared seen w and b bud offset limit depth count w and b bud h depth w
    rule: walk_walk_boxes_item_boxes_sample_boxes_visit.induct)
  case (1 b bud start limit depth w)
  then show ?case by (simp add: walk.simps safe_rules)
next
  case (2 b bud offset limit depth w)
  show ?case
  proof (cases "offset < limit")
    case True
    show ?thesis
      unfolding walk_boxes.simps [of b bud offset limit depth w] if_P [OF True]
    proof (rule safe_step [OF safe_header])
      fix h assume h: "read_header b offset limit = Inr h"
        "offset + 8 \<le> body_start h \<and> body_start h \<le> body_end h \<and> body_end h \<le> limit \<and> next_box h = body_end h"
      have "safe (visit b bud h depth w) (within bud)"
        using h "2.prems" by (intro "2.IH"(1) [OF True h(1)]) auto
      then show "safe (rbind (visit b bud h depth w) (\<lambda>w. walk_boxes b bud (next_box h) limit depth w)) (within bud)"
        by (rule safe_step) (use "2.prems" in \<open>auto intro: "2.IH"(2) [OF True h(1)]\<close>)
    qed
  qed (use "2.prems" in \<open>simp add: walk_boxes.simps safe_rules\<close>)
next
  case (3 b bud offset limit depth declared seen w)
  show ?case
  proof (cases "offset < limit")
    case True
    show ?thesis
      unfolding item_boxes.simps [of b bud offset limit depth declared seen w] if_P [OF True]
    proof (rule safe_step [OF safe_header])
      fix h assume h: "read_header b offset limit = Inr h"
        "offset + 8 \<le> body_start h \<and> body_start h \<le> body_end h \<and> body_end h \<le> limit \<and> next_box h = body_end h"
      have "safe (plus_at 32 depth 1) (\<lambda>d. d = depth + 1)" using "3.prems" by (intro safe_depth) simp
      then show "safe (rbind (plus_at 32 depth 1) (\<lambda>inner. rbind (visit b bud h inner w) (\<lambda>w.
          rbind (ok_or (checked_add 32 seen 1) (Limit ''container item count'')) (\<lambda>seen.
            item_boxes b bud (next_box h) limit depth declared seen w)))) (within bud)"
      proof (rule safe_step)
        fix d assume d: "plus_at 32 depth 1 = Inr d"
        have "safe (visit b bud h d w) (within bud)"
          using h "3.prems" by (intro "3.IH"(1) [OF True h(1) d]) auto
        then show "safe (rbind (visit b bud h d w) (\<lambda>w.
            rbind (ok_or (checked_add 32 seen 1) (Limit ''container item count'')) (\<lambda>seen.
              item_boxes b bud (next_box h) limit depth declared seen w))) (within bud)"
        proof (rule safe_step)
          fix v assume v: "visit b bud h d w = Inr v" "within bud v"
          show "safe (rbind (ok_or (checked_add 32 seen 1) (Limit ''container item count'')) (\<lambda>seen.
              item_boxes b bud (next_box h) limit depth declared seen v)) (within bud)"
            by (rule safe_step [OF safe_ok_or])
              (use v "3.prems" in \<open>auto intro: "3.IH"(2) [OF True h(1) d v(1)]\<close>)
        qed
      qed
    qed
  qed (use "3.prems" in \<open>simp add: item_boxes.simps safe_rules\<close>)
next
  case (4 b bud offset limit depth count w)
  show ?case
  proof (cases "count = 0 \<or> offset \<ge> limit")
    case False
    then have c: "count \<noteq> 0" "\<not> offset \<ge> limit" by simp_all
    show ?thesis
      unfolding sample_boxes.simps [of b bud offset limit depth count w] if_not_P [OF c(1)] if_not_P [OF c(2)]
    proof (rule safe_step [OF safe_header])
      fix h assume h: "read_header b offset limit = Inr h"
        "offset + 8 \<le> body_start h \<and> body_start h \<le> body_end h \<and> body_end h \<le> limit \<and> next_box h = body_end h"
      have "safe (plus_at 32 depth 1) (\<lambda>d. d = depth + 1)" using "4.prems" by (intro safe_depth) simp
      then show "safe (rbind (plus_at 32 depth 1) (\<lambda>inner. rbind (visit b bud h inner w) (\<lambda>w.
          sample_boxes b bud (next_box h) limit depth (count - 1) w))) (within bud)"
      proof (rule safe_step)
        fix d assume d: "plus_at 32 depth 1 = Inr d"
        have "safe (visit b bud h d w) (within bud)"
          using h "4.prems" by (intro "4.IH"(1) [OF c h(1) d]) auto
        then show "safe (rbind (visit b bud h d w) (\<lambda>w.
            sample_boxes b bud (next_box h) limit depth (count - 1) w)) (within bud)"
        proof (rule safe_step)
          fix v assume v: "visit b bud h d w = Inr v" "within bud v"
          show "safe (sample_boxes b bud (next_box h) limit depth (count - 1) v) (within bud)"
            by (rule "4.IH"(2) [OF c h(1) d v(1)]) (use v "4.prems" in simp_all)
        qed
      qed
    qed
  next
    case True
    with "4.prems" show ?thesis by (subst sample_boxes.simps) (auto simp: safe_basic(1,2,4))
  qed
next
  case (5 b bud h depth w)
  show ?case
  proof (cases "depth > max_container_depth bud")
    case True
    then show ?thesis by (simp add: visit.simps safe_rules)
  next
    case deep: False
    show ?thesis
      unfolding visit.simps [of b bud h depth w] if_not_P [OF deep]
    proof (rule safe_step [OF safe_ok_or], goal_cases)
      case (2 n)
      show ?case
      proof (cases "n > max_container_boxes bud")
        case True
        then show ?thesis by (simp add: safe_rules)
      next
        case few: False
        have "within bud (w\<lparr>boxes := n\<rparr>)" using few "5.prems" by (simp add: within_def)
        then have own: "safe (record_box b bud h (w\<lparr>boxes := n\<rparr>)) (within bud)"
          using "5.prems" by (intro safe_record) simp_all
        show ?thesis
          unfolding if_not_P [OF few]
        proof (rule safe_step [OF own], rule safe_step [OF safe_contents [OF "5.prems"(1)]])
          fix v c assume v: "record_box b bud h (w\<lparr>boxes := n\<rparr>) = Inr v" "within bud v"
            and c: "contents_of b h = Inr c"
          show "safe (case c of Opaque \<Rightarrow> Inr v
              | Children start \<Rightarrow> rbind (plus_at 32 depth 1) (\<lambda>inner. walk b bud start (body_end h) inner v)
              | ItemEntries declared offset \<Rightarrow> item_boxes b bud offset (body_end h) depth declared 0 v
              | SampleEntries count offset \<Rightarrow> sample_boxes b bud offset (body_end h) depth count v) (within bud)"
          proof (cases c)
            case Opaque
            with v show ?thesis by (simp add: safe_rules)
          next
            case (Children start)
            with "5.prems" deep have "safe (rbind (plus_at 32 depth 1) (\<lambda>inner. walk b bud start (body_end h) inner v)) (within bud)"
              by (intro safe_step [OF safe_depth] "5.IH"(1) [OF deep 2(1) few v(1) c]) (simp_all add: v)
            with Children show ?thesis by simp
          next
            case (ItemEntries declared offset)
            with "5.IH"(2) [OF deep 2(1) few v(1) c ItemEntries] "5.prems" deep v show ?thesis by simp
          next
            case (SampleEntries count offset)
            with "5.IH"(3) [OF deep 2(1) few v(1) c SampleEntries] "5.prems" deep v show ?thesis by simp
          qed
        qed
      qed
    qed simp
  qed
qed

end
