(* ===== verification/Heif_Forest.thy ===== *)
theory Heif_Forest
  imports Heif_Preflight
begin

text \<open>
  The abstract specification of the preflight: the file as a forest of boxes, each laid out where its
  parent puts it, and what every box contributes to the totals. The walk implements it: a file that
  is accepted is such a forest, and its totals are the sums over all its boxes.
\<close>

section \<open>The forest of a container\<close>

datatype box = Box box_header "box list"

fun flatten :: "box list \<Rightarrow> box_header list" where
  "flatten [] = []"
| "flatten (Box h cs # bs) = h # flatten cs @ flatten bs"

fun height :: "box list \<Rightarrow> nat" where
  "height [] = 0"
| "height (Box h cs # bs) = max (Suc (height cs)) (height bs)"

text \<open>
  The boxes follow each other from an offset; the result is the offset after the last. The children
  of a box fill its body, the entries of an item information box are as many as it declares, and a
  sample description box may leave a rest behind its entries.
\<close>

fun laid_out :: "u8 list \<Rightarrow> nat \<Rightarrow> nat \<Rightarrow> box list \<Rightarrow> nat option" where
  "laid_out b offset limit [] = Some offset"
| "laid_out b offset limit (Box h cs # bs) =
     (if read_header b offset limit = Inr h
         \<and> (case contents_of b h of
              Inl _ \<Rightarrow> False
            | Inr Opaque \<Rightarrow> cs = []
            | Inr (Children start) \<Rightarrow> laid_out b start (body_end h) cs = Some (body_end h)
            | Inr (ItemEntries n start) \<Rightarrow>
                length cs = n \<and> laid_out b start (body_end h) cs = Some (body_end h)
            | Inr (SampleEntries n start) \<Rightarrow> length cs = n \<and> laid_out b start (body_end h) cs \<noteq> None)
      then laid_out b (next_box h) limit bs else None)"

abbreviation holds_children :: "u8 list \<Rightarrow> box_header \<Rightarrow> box list \<Rightarrow> bool" where
  "holds_children b h cs \<equiv>
     (case contents_of b h of
        Inl _ \<Rightarrow> False
      | Inr Opaque \<Rightarrow> cs = []
      | Inr (Children start) \<Rightarrow> laid_out b start (body_end h) cs = Some (body_end h)
      | Inr (ItemEntries n start) \<Rightarrow>
          length cs = n \<and> laid_out b start (body_end h) cs = Some (body_end h)
      | Inr (SampleEntries n start) \<Rightarrow> length cs = n \<and> laid_out b start (body_end h) cs \<noteq> None)"

text \<open>What one box contributes.\<close>

definition own_items :: "box_header \<Rightarrow> nat" where
  "own_items h = (if kind h = ascii ''infe'' then 1 else 0)"

definition own_records :: "u8 list \<Rightarrow> box_header \<Rightarrow> nat" where
  "own_records b h =
     (if kind h = ascii ''iloc'' then (case iloc_head b h of Inl _ \<Rightarrow> 0 | Inr l \<Rightarrow> item_count l) else 0)"

definition own_entries :: "u8 list \<Rightarrow> box_header \<Rightarrow> nat" where
  "own_entries b h =
     (if kind h = ascii ''ipma'' then (case ipma_head b h of Inl _ \<Rightarrow> 0 | Inr (_, _, n, _) \<Rightarrow> n) else 0)"

text \<open>
  The associations of one box: an entry is an identifier, the number of its associations in a byte,
  and the associations. The destinations of the reference lists of one box: a list of an item
  reference box says how many there are after its own identifier, one of a track reference box is
  filled by them.
\<close>

fun associations_from :: "u8 list \<Rightarrow> nat \<Rightarrow> nat \<Rightarrow> nat \<Rightarrow> nat \<Rightarrow> nat" where
  "associations_from b id_width width 0 at = 0"
| "associations_from b id_width width (Suc n) at =
     (let here = unat (b ! (at + id_width))
      in here + associations_from b id_width width n (at + id_width + 1 + here * width))"

definition own_associations :: "u8 list \<Rightarrow> box_header \<Rightarrow> nat" where
  "own_associations b h =
     (if kind h = ascii ''ipma'' then
        (case ipma_head b h of
           Inl _ \<Rightarrow> 0
         | Inr (version, wide, n, at) \<Rightarrow>
             associations_from b (if version < 1 then 2 else 4) (if wide then 2 else 1) n at)
      else 0)"

function child_lists :: "u8 list \<Rightarrow> nat \<Rightarrow> nat \<Rightarrow> box_header list" where
  "child_lists b limit offset =
     (if offset < limit then
        (case read_header b offset limit of
           Inl _ \<Rightarrow> []
         | Inr child \<Rightarrow> child # child_lists b limit (next_box child))
      else [])"
  by pat_completeness auto
termination
  by (relation "measure (\<lambda>(b, limit, offset). limit - offset)") (auto dest: next_box_progress)

declare child_lists.simps [simp del]

definition own_references :: "u8 list \<Rightarrow> box_header \<Rightarrow> nat" where
  "own_references b h =
     (if kind h = ascii ''iref'' then
        (let id_size = (if b ! body_start h = 0 then 2 else 4) in
         \<Sum>child\<leftarrow>child_lists b (body_end h) (body_start h + 4).
           from_be (take 2 (drop (body_start child + id_size) b)))
      else if kind h = ascii ''tref'' then
        (\<Sum>child\<leftarrow>child_lists b (body_end h) (body_start h). (body_end child - body_start child) div 4)
      else 0)"

definition own_extents :: "u8 list \<Rightarrow> budget \<Rightarrow> box_header \<Rightarrow> extent list" where
  "own_extents b bud h =
     (if kind h = ascii ''iloc'' then
        (case iloc_head b h of
           Inl _ \<Rightarrow> []
         | Inr l \<Rightarrow>
             (case record_loop b bud l (body_end h) (item_count l) (iloc_offset l) [] of
                Inl _ \<Rightarrow> [] | Inr xs \<Rightarrow> xs))
      else [])"

text \<open>The identifiers of the items that libheif loads while it parses.\<close>

definition own_eager :: "u8 list \<Rightarrow> box_header \<Rightarrow> nat list" where
  "own_eager b h =
     (if kind h = ascii ''infe'' then
        (case infe_entry b h of
           Inl _ \<Rightarrow> []
         | Inr (ident, item_type, content_type) \<Rightarrow>
             if is_image_item item_type content_type \<and> item_type \<noteq> ascii ''mime'' then [] else [ident])
      else [])"

definition accounts_for :: "u8 list \<Rightarrow> budget \<Rightarrow> box_header list \<Rightarrow> walk_state \<Rightarrow> walk_state \<Rightarrow> bool" where
  "accounts_for b bud hs w w' \<longleftrightarrow>
     boxes w' = boxes w + length hs
     \<and> items (counted w') = items (counted w) + sum_list (map own_items hs)
     \<and> iloc_records (counted w') = iloc_records (counted w) + sum_list (map (own_records b) hs)
     \<and> iref_references (counted w') = iref_references (counted w) + sum_list (map (own_references b) hs)
     \<and> ipma_entries (counted w') = ipma_entries (counted w) + sum_list (map (own_entries b) hs)
     \<and> ipma_associations (counted w') = ipma_associations (counted w) + sum_list (map (own_associations b) hs)
     \<and> set (metadata_items w') = set (metadata_items w) \<union> set (concat (map (own_eager b) hs))
     \<and> extents w' = extents w @ concat (map (own_extents b bud) hs)"

lemma accounts_for_Nil [simp]: "accounts_for b bud [] w w"
  by (simp add: accounts_for_def)

lemma accounts_for_append:
  "accounts_for b bud hs w v \<Longrightarrow> accounts_for b bud hs' v w' \<Longrightarrow> accounts_for b bud (hs @ hs') w w'"
  by (auto simp: accounts_for_def)

section \<open>What a single box does\<close>

lemma count_to_ok [simp]: "count_to ceiling what n m = Inr k \<longleftrightarrow> k = n + m \<and> n + m < 2 ^ 32 \<and> n + m \<le> ceiling"
  by (auto simp: count_to_def)

lemma read_u16_eq: "read_u16 b at limit = Inr n \<Longrightarrow> n = from_be (take 2 (drop at b))"
  by (auto simp: read_u16_def heif_read_eq split: if_splits)

lemma read_u8_eq: "read_u8 b at limit = Inr n \<Longrightarrow> n = unat (b ! at)"
  by (auto simp: read_u8_def heif_read_eq index_at_def offset_add_def split: if_splits)

lemma iref_loop_only:
  "iref_loop b bud id_size limit offset w = Inr w' \<Longrightarrow>
    w' = w\<lparr>counted := (counted w)\<lparr>iref_references := iref_references (counted w)
      + (\<Sum>child\<leftarrow>child_lists b limit offset. from_be (take 2 (drop (body_start child + id_size) b)))\<rparr>\<rparr>"
proof (induction "limit - offset" arbitrary: offset w rule: less_induct)
  case less
  show ?case
  proof (cases "offset < limit")
    case True
    with less.prems obtain h n where h: "read_header b offset limit = Inr h"
      and n: "read_u16 b (body_start h + id_size) (body_end h) = Inr n"
      and rest: "iref_loop b bud id_size limit (next_box h)
        (w\<lparr>counted := (counted w)\<lparr>iref_references := iref_references (counted w) + n\<rparr>\<rparr>) = Inr w'"
      by (subst (asm) iref_loop.simps) (auto simp: plus_at_def split: if_splits)
    from less.hyps [OF next_box_progress [OF h] rest] read_u16_eq [OF n] h True show ?thesis
      by (subst child_lists.simps) (simp add: add.assoc)
  next
    case False
    with less.prems have "w' = w" by (subst (asm) iref_loop.simps) simp
    with False show ?thesis by (simp add: child_lists.simps)
  qed
qed

lemma tref_loop_only:
  "tref_loop b bud limit offset w = Inr w' \<Longrightarrow>
    w' = w\<lparr>counted := (counted w)\<lparr>iref_references := iref_references (counted w)
      + (\<Sum>child\<leftarrow>child_lists b limit offset. (body_end child - body_start child) div 4)\<rparr>\<rparr>"
proof (induction "limit - offset" arbitrary: offset w rule: less_induct)
  case less
  show ?case
  proof (cases "offset < limit")
    case True
    with less.prems obtain h where h: "read_header b offset limit = Inr h"
      and rest: "tref_loop b bud limit (next_box h)
        (w\<lparr>counted := (counted w)\<lparr>iref_references := iref_references (counted w)
          + (body_end h - body_start h) div 4\<rparr>\<rparr>) = Inr w'"
      by (subst (asm) tref_loop.simps) (auto simp: minus_at_def split: if_splits)
    from less.hyps [OF next_box_progress [OF h] rest] h True show ?thesis
      by (subst child_lists.simps) (simp add: add.assoc)
  next
    case False
    with less.prems have "w' = w" by (subst (asm) tref_loop.simps) simp
    with False show ?thesis by (simp add: child_lists.simps)
  qed
qed

lemma ipma_loop_only:
  "ipma_loop b bud version wide limit n offset w = Inr w' \<Longrightarrow>
    w' = w\<lparr>counted := (counted w)\<lparr>ipma_associations := ipma_associations (counted w)
      + associations_from b (if version < 1 then 2 else 4) (if wide then 2 else 1) n offset\<rparr>\<rparr>"
proof (induction n arbitrary: offset w)
  case 0
  then show ?case by simp
next
  case (Suc n)
  let ?at = "offset + (if version < 1 then 2 else 4)"
  from Suc.prems obtain m where m: "read_u8 b ?at limit = Inr m"
    and rest: "ipma_loop b bud version wide limit n (?at + 1 + m * (if wide then 2 else 1))
      (w\<lparr>counted := (counted w)\<lparr>ipma_associations := ipma_associations (counted w) + m\<rparr>\<rparr>) = Inr w'"
    by (auto simp: advance_def offset_add_def plus_at_def add.assoc split: if_splits)
  from Suc.IH [OF rest] read_u8_eq [OF m] show ?case by (simp add: Let_def add.assoc)
qed

lemma ascii_char: "(of_nat (of_char c) :: u8) = of_nat (of_char d) \<longleftrightarrow> c = d"
proof -
  have "unat (of_nat (of_char x) :: u8) = of_char x" for x by (rule unat_of_nat_u8) simp
  then show ?thesis by (metis of_char_eq_iff)
qed

lemma ascii_eq [simp]: "ascii s = ascii t \<longleftrightarrow> s = t"
  using inj_map_eq_map [of "\<lambda>c. of_nat (of_char c) :: u8" s t] ascii_char
  by (simp add: ascii_def lit_def comp_def inj_def)

lemma parse_iref_only:
  assumes "parse_iref b bud h w = Inr w'" "kind h = ascii ''iref''"
  shows "w' = w\<lparr>counted := (counted w)\<lparr>iref_references := iref_references (counted w) + own_references b h\<rparr>\<rparr>"
proof -
  from assms(1) have "iref_loop b bud (if b ! body_start h = 0 then 2 else 4) (body_end h) (body_start h + 4) w = Inr w'"
    by (auto simp: parse_iref_def heif_read_eq index_at_def offset_add_def plus_at_def
        unat_eq_0 split: if_splits)
  from iref_loop_only [OF this] assms(2) show ?thesis by (simp add: own_references_def Let_def)
qed

lemma parse_tref_only:
  assumes "parse_tref b bud h w = Inr w'" "kind h = ascii ''tref''"
  shows "w' = w\<lparr>counted := (counted w)\<lparr>iref_references := iref_references (counted w) + own_references b h\<rparr>\<rparr>"
  using tref_loop_only [of b bud "body_end h" "body_start h" w w'] assms
  by (simp add: parse_tref_def own_references_def)

lemma rbind_assoc: "rbind (rbind m f) g = rbind m (\<lambda>x. rbind (f x) g)"
  by (cases m) simp_all

lemma record_loop_append:
  "record_loop b bud l limit n offset (ys @ xs) = rbind (record_loop b bud l limit n offset xs) (\<lambda>zs. Inr (ys @ zs))"
proof (induction n arbitrary: offset xs)
  case 0
  then show ?case by simp
next
  case (Suc n)
  then show ?case
    by (simp add: rbind_assoc if_distrib [of "\<lambda>m. rbind m (\<lambda>zs. Inr (ys @ zs))"] case_prod_unfold cong: if_cong)
qed

lemma record_loop_from:
  assumes "record_loop b bud l limit n offset ys = Inr zs"
  shows "\<exists>xs. record_loop b bud l limit n offset [] = Inr xs \<and> zs = ys @ xs"
proof -
  from record_loop_append [of b bud l limit n offset ys "[]"] assms
  have "rbind (record_loop b bud l limit n offset []) (\<lambda>xs. Inr (ys @ xs)) = Inr zs" by simp
  then show ?thesis by auto
qed

definition untouched :: "walk_state \<Rightarrow> walk_state \<Rightarrow> bool" where
  "untouched w v \<longleftrightarrow> boxes v = boxes w \<and> items (counted v) = items (counted w)
     \<and> iloc_records (counted v) = iloc_records (counted w) \<and> ipma_entries (counted v) = ipma_entries (counted w)
     \<and> iref_references (counted v) = iref_references (counted w)
     \<and> ipma_associations (counted v) = ipma_associations (counted w)
     \<and> metadata_items v = metadata_items w \<and> extents v = extents w"

lemma record_box_cases:
  assumes "record_box b bud h w = Inr v"
  obtains (item) "kind h = ascii ''infe''" "parse_infe b bud h w = Inr v"
    | (location) "kind h = ascii ''iloc''" "parse_iloc b bud h w = Inr v"
    | (association) "kind h = ascii ''ipma''" "parse_ipma b bud h w = Inr v"
    | (references) "kind h = ascii ''iref'' \<or> kind h = ascii ''tref''"
        "v = w\<lparr>counted := (counted w)\<lparr>iref_references := iref_references (counted w) + own_references b h\<rparr>\<rparr>"
    | (other) "kind h \<notin> set (map ascii [''infe'', ''iloc'', ''ipma'', ''iref'', ''tref''])" "untouched w v"
proof -
  have same: "parse_ftyp b h w = Inr v \<Longrightarrow> untouched w v" "parse_colr b h w = Inr v \<Longrightarrow> untouched w v"
    by (auto simp: parse_ftyp_def parse_colr_def untouched_def split: if_splits)
  consider "kind h = ascii ''infe''" | "kind h = ascii ''iloc''" | "kind h = ascii ''ipma''"
    | "kind h = ascii ''iref''" | "kind h = ascii ''tref''"
    | "kind h \<notin> set (map ascii [''infe'', ''iloc'', ''ipma'', ''iref'', ''tref''])"
    by (cases "kind h \<in> set (map ascii [''infe'', ''iloc'', ''ipma'', ''iref'', ''tref''])") auto
  then show thesis
  proof cases
    case 1
    then show thesis using assms item by (simp add: record_box_def)
  next
    case 2
    then show thesis using assms location by (simp add: record_box_def)
  next
    case 3
    then show thesis using assms association by (simp add: record_box_def)
  next
    case 4
    with assms have "parse_iref b bud h w = Inr v" by (simp add: record_box_def)
    from parse_iref_only [OF this 4] 4 references show thesis by blast
  next
    case 5
    with assms have "parse_tref b bud h w = Inr v" by (simp add: record_box_def)
    from parse_tref_only [OF this 5] 5 references show thesis by blast
  next
    case 6
    with assms same have "untouched w v"
      by (auto simp: record_box_def untouched_def split: if_splits)
    with 6 other show thesis by blast
  qed
qed

lemma record_box_accounts:
  assumes "record_box b bud h (w\<lparr>boxes := boxes w + 1\<rparr>) = Inr v"
  shows "accounts_for b bud [h] w v"
proof -
  note own = own_items_def own_records_def own_entries_def own_extents_def own_eager_def
    own_associations_def
  have no_ref: "own_references b h = 0" if "kind h \<noteq> ascii ''iref''" "kind h \<noteq> ascii ''tref''"
    using that by (simp add: own_references_def)
  from assms show ?thesis
  proof (cases rule: record_box_cases)
    case item
    then obtain i t c where e: "infe_entry b h = Inr (i, t, c)" by (auto simp: parse_infe_def)
    show ?thesis
    proof (cases "is_image_item t c \<and> t \<noteq> ascii ''mime'' \<or> i \<in> set (metadata_items w)")
      case True
      with item e show ?thesis by (auto simp: parse_infe_def Let_def accounts_for_def own no_ref)
    next
      case False
      then have n: "\<not> (is_image_item t c \<and> t \<noteq> ascii ''mime'')" "i \<notin> set (metadata_items w)" by blast+
      with item e have "v = w\<lparr>boxes := boxes w + 1, counted := (counted w)\<lparr>items := items (counted w) + 1\<rparr>,
          metadata_items := metadata_items w @ [i]\<rparr>"
        by (simp add: parse_infe_def Let_def split: if_splits)
      with item(1) e n show ?thesis by (auto simp: accounts_for_def own no_ref)
    qed
  next
    case location
    then show ?thesis using record_loop_from
      by (fastforce simp: parse_iloc_def accounts_for_def own no_ref)
  next
    case association
    then obtain version wide n at where head: "ipma_head b h = Inr (version, wide, n, at)"
      and rest: "ipma_loop b bud version wide (body_end h) n at (w\<lparr>boxes := boxes w + 1,
        counted := (counted w)\<lparr>ipma_entries := ipma_entries (counted w) + n\<rparr>\<rparr>) = Inr v"
      by (auto simp: parse_ipma_def)
    from ipma_loop_only [OF rest] association(1) head show ?thesis
      by (simp add: accounts_for_def own no_ref)
  next
    case references
    from references(1) have "own_items h = 0" "own_records b h = 0" "own_entries b h = 0"
      "own_extents b bud h = []" "own_eager b h = []" "own_associations b h = 0"
      by (auto simp: own)
    with references(2) show ?thesis by (simp add: accounts_for_def)
  next
    case other
    then have k: "kind h \<noteq> ascii ''infe''" "kind h \<noteq> ascii ''iloc''" "kind h \<noteq> ascii ''ipma''"
      "kind h \<noteq> ascii ''iref''" "kind h \<noteq> ascii ''tref''" by simp_all
    then have "own_items h = 0" "own_records b h = 0" "own_entries b h = 0" "own_extents b bud h = []"
      "own_eager b h = []" "own_associations b h = 0"
      by (simp_all add: own)
    with other(2) no_ref [OF k(4,5)] show ?thesis by (simp add: accounts_for_def untouched_def)
  qed
qed

section \<open>The walk implements the forest\<close>

lemma contents_bounds:
  assumes "contents_of b h = Inr c" "body_start h \<le> body_end h"
  shows "case c of ItemEntries n at \<Rightarrow> at \<le> body_end h | _ \<Rightarrow> True"
  using assms
  by (auto simp: contents_of_def iinf_head_def stsd_head_def visual_sample_entry_def plus_at_def
      read_u16_def read_u32_def heif_read_eq offset_add_def split: if_splits)

lemma walk_forest:
  "walk b bud start limit depth w = Inr w' \<Longrightarrow> depth \<le> Suc (max_container_depth bud) \<Longrightarrow>
    \<exists>bs. laid_out b start limit bs = Some limit \<and> accounts_for b bud (flatten bs) w w'
      \<and> depth + height bs \<le> Suc (max_container_depth bud)"
  "walk_boxes b bud offset limit depth w = Inr w' \<Longrightarrow> offset \<le> limit \<Longrightarrow> depth \<le> Suc (max_container_depth bud) \<Longrightarrow>
    \<exists>bs. laid_out b offset limit bs = Some limit \<and> accounts_for b bud (flatten bs) w w'
      \<and> depth + height bs \<le> Suc (max_container_depth bud)"
  "item_boxes b bud offset limit depth declared seen w = Inr w' \<Longrightarrow> offset \<le> limit \<Longrightarrow> depth \<le> max_container_depth bud \<Longrightarrow>
    \<exists>bs. laid_out b offset limit bs = Some limit \<and> accounts_for b bud (flatten bs) w w'
      \<and> seen + length bs = declared \<and> depth + height bs \<le> max_container_depth bud"
  "sample_boxes b bud offset limit depth count w = Inr w' \<Longrightarrow> depth \<le> max_container_depth bud \<Longrightarrow>
    \<exists>bs. laid_out b offset limit bs \<noteq> None \<and> accounts_for b bud (flatten bs) w w'
      \<and> length bs = count \<and> depth + height bs \<le> max_container_depth bud"
  "visit b bud h depth w = Inr w' \<Longrightarrow> body_start h \<le> body_end h \<Longrightarrow>
    \<exists>cs. holds_children b h cs \<and> accounts_for b bud (h # flatten cs) w w'
      \<and> depth + height cs \<le> max_container_depth bud"
proof (induction b bud start limit depth w and b bud offset limit depth w
    and b bud offset limit depth declared seen w and b bud offset limit depth count w and b bud h depth w
    arbitrary: w' and w' and w' and w' and w'
    rule: walk_walk_boxes_item_boxes_sample_boxes_visit.induct)
  case (1 b bud start limit depth w)
  then show ?case by (simp add: walk.simps split: if_splits)
next
  case (2 b bud offset limit depth w)
  show ?case
  proof (cases "offset < limit")
    case True
    with "2.prems"(1) obtain h v where h: "read_header b offset limit = Inr h" "visit b bud h depth w = Inr v"
      "walk_boxes b bud (next_box h) limit depth v = Inr w'"
      by (subst (asm) walk_boxes.simps) auto
    note o = read_header_ok [OF h(1)]
    from "2.IH"(1) [OF True h(1,2)] o obtain cs where cs: "holds_children b h cs"
      "accounts_for b bud (h # flatten cs) w v" "depth + height cs \<le> max_container_depth bud" by blast
    from "2.IH"(2) [OF True h] o "2.prems"(3) obtain bs where bs: "laid_out b (next_box h) limit bs = Some limit"
      "accounts_for b bud (flatten bs) v w'" "depth + height bs \<le> Suc (max_container_depth bud)" by auto
    show ?thesis
      using accounts_for_append [OF cs(2) bs(2)] cs(1,3) bs(1,3) h(1)
      by (intro exI [of _ "Box h cs # bs"]) simp
  next
    case False
    with "2.prems" show ?thesis by (intro exI [of _ "[]"]) (simp add: walk_boxes.simps)
  qed
next
  case (3 b bud offset limit depth declared seen w)
  show ?case
  proof (cases "offset < limit")
    case True
    with "3.prems"(1) obtain h d v where h: "read_header b offset limit = Inr h" "plus_at 32 depth 1 = Inr d"
      "visit b bud h d w = Inr v" "ok_or (checked_add 32 seen 1) (Limit ''container item count'') = Inr (Suc seen)"
      "item_boxes b bud (next_box h) limit depth declared (Suc seen) v = Inr w'"
      by (subst (asm) item_boxes.simps) auto
    note o = read_header_ok [OF h(1)]
    from h(2) have d: "d = Suc depth" by (simp add: plus_at_def)
    from "3.IH"(1) [OF True h(1-3)] o d obtain cs where cs: "holds_children b h cs"
      "accounts_for b bud (h # flatten cs) w v" "Suc depth + height cs \<le> max_container_depth bud" by blast
    from "3.IH"(2) [OF True h] o "3.prems"(3) obtain bs where bs: "laid_out b (next_box h) limit bs = Some limit"
      "accounts_for b bud (flatten bs) v w'" "Suc seen + length bs = declared"
      "depth + height bs \<le> max_container_depth bud" by auto
    show ?thesis
      using accounts_for_append [OF cs(2) bs(2)] cs(1,3) bs(1,3,4) h(1)
      by (intro exI [of _ "Box h cs # bs"]) simp
  next
    case False
    with "3.prems" show ?thesis by (intro exI [of _ "[]"]) (simp add: item_boxes.simps split: if_splits)
  qed
next
  case (4 b bud offset limit depth count w)
  show ?case
  proof (cases "count = 0")
    case False
    with "4.prems"(1) obtain h d v where h: "\<not> offset \<ge> limit" "read_header b offset limit = Inr h"
      "plus_at 32 depth 1 = Inr d" "visit b bud h d w = Inr v"
      "sample_boxes b bud (next_box h) limit depth (count - 1) v = Inr w'"
      by (subst (asm) sample_boxes.simps) (auto split: if_splits)
    note o = read_header_ok [OF h(2)]
    from h(3) have d: "d = Suc depth" by (simp add: plus_at_def)
    from "4.IH"(1) [OF False h(1-4)] o d obtain cs where cs: "holds_children b h cs"
      "accounts_for b bud (h # flatten cs) w v" "Suc depth + height cs \<le> max_container_depth bud" by blast
    from "4.IH"(2) [OF False h] "4.prems"(2) obtain bs where bs: "laid_out b (next_box h) limit bs \<noteq> None"
      "accounts_for b bud (flatten bs) v w'" "length bs = count - 1"
      "depth + height bs \<le> max_container_depth bud" by auto
    show ?thesis
      using accounts_for_append [OF cs(2) bs(2)] cs(1,3) bs(1,3,4) h(2) False
      by (intro exI [of _ "Box h cs # bs"]) simp
  next
    case True
    with "4.prems" show ?thesis by (intro exI [of _ "[]"]) (simp add: sample_boxes.simps)
  qed
next
  case (5 b bud h depth w)
  let ?enter = "\<lambda>n. if n > max_container_boxes bud then Inl (Limit ''box count'')
      else rbind (record_box b bud h (w\<lparr>boxes := n\<rparr>)) (\<lambda>w. rbind (contents_of b h) (\<lambda>c.
        case c of Opaque \<Rightarrow> Inr w
        | Children start \<Rightarrow> rbind (plus_at 32 depth 1) (\<lambda>inner. walk b bud start (body_end h) inner w)
        | ItemEntries declared offset \<Rightarrow> item_boxes b bud offset (body_end h) depth declared 0 w
        | SampleEntries count offset \<Rightarrow> sample_boxes b bud offset (body_end h) depth count w))"
  have deep: "\<not> depth > max_container_depth bud"
    using "5.prems"(1) by (auto simp: visit.simps)
  have "rbind (ok_or (checked_add 32 (boxes w) 1) (Limit ''box count'')) ?enter = Inr w'"
    using "5.prems"(1) unfolding visit.simps [of b bud h depth w] if_not_P [OF deep] .
  then obtain n where n: "ok_or (checked_add 32 (boxes w) 1) (Limit ''box count'') = Inr n" "?enter n = Inr w'"
    unfolding rbind_eq_Inr by blast
  have few: "\<not> n > max_container_boxes bud" using n(2) by (auto split: if_splits)
  have e: "n = boxes w + 1" using n(1) by simp
  from n(2) obtain v c where v: "ok_or (checked_add 32 (boxes w) 1) (Limit ''box count'') = Inr (boxes w + 1)"
    "\<not> boxes w + 1 > max_container_boxes bud" "record_box b bud h (w\<lparr>boxes := boxes w + 1\<rparr>) = Inr v"
    "contents_of b h = Inr c"
    and rest: "(case c of Opaque \<Rightarrow> Inr v
      | Children start \<Rightarrow> rbind (plus_at 32 depth 1) (\<lambda>inner. walk b bud start (body_end h) inner v)
      | ItemEntries declared offset \<Rightarrow> item_boxes b bud offset (body_end h) depth declared 0 v
      | SampleEntries count offset \<Rightarrow> sample_boxes b bud offset (body_end h) depth count v) = Inr w'"
    using few n(1) unfolding e if_not_P [OF few [unfolded e]] rbind_eq_Inr by blast
  note own = record_box_accounts [OF v(3)]
  have whole: ?case if "holds_children b h cs" "accounts_for b bud (flatten cs) v w'"
    "depth + height cs \<le> max_container_depth bud" for cs
    using accounts_for_append [OF own that(2)] that(1,3) by auto
  show ?case
  proof (cases c)
    case Opaque
    with rest v(4) deep show ?thesis by (intro whole [of "[]"]) simp_all
  next
    case (Children start)
    with rest obtain d where d: "plus_at 32 depth 1 = Inr d" "walk b bud start (body_end h) d v = Inr w'" by auto
    then have s: "d = Suc depth" by (simp add: plus_at_def)
    from "5.IH"(1) [OF deep v Children d] s deep obtain cs where "laid_out b start (body_end h) cs = Some (body_end h)"
      "accounts_for b bud (flatten cs) v w'" "Suc depth + height cs \<le> Suc (max_container_depth bud)" by auto
    with v(4) Children show ?thesis by (intro whole [of cs]) simp_all
  next
    case (ItemEntries n start)
    with contents_bounds [OF v(4) "5.prems"(2)] have "start \<le> body_end h" by simp
    with "5.IH"(2) [OF deep v ItemEntries] rest ItemEntries deep
    obtain cs where "laid_out b start (body_end h) cs = Some (body_end h)"
      "accounts_for b bud (flatten cs) v w'" "length cs = n" "depth + height cs \<le> max_container_depth bud" by auto
    with v(4) ItemEntries show ?thesis by (intro whole [of cs]) simp_all
  next
    case (SampleEntries n start)
    with "5.IH"(3) [OF deep v SampleEntries] rest deep obtain cs where "laid_out b start (body_end h) cs \<noteq> None"
      "accounts_for b bud (flatten cs) v w'" "length cs = n" "depth + height cs \<le> max_container_depth bud" by auto
    with v(4) SampleEntries show ?thesis by (intro whole [of cs]) simp_all
  qed
qed

section \<open>The size of the forest and the eager bytes\<close>

lemma laid_out_size:
  "laid_out b offset limit bs = Some stop \<Longrightarrow> offset + 8 * length (flatten bs) \<le> stop \<and> (bs \<noteq> [] \<longrightarrow> stop \<le> limit)"
proof (induction b offset limit bs arbitrary: stop rule: laid_out.induct)
  case (1 b offset limit)
  then show ?case by simp
next
  case (2 b offset limit h cs bs)
  then have h: "read_header b offset limit = Inr h" and cs: "holds_children b h cs"
    and bs: "laid_out b (next_box h) limit bs = Some stop"
    by (simp_all split: if_splits)
  note o = read_header_ok [OF h]
  have tail: "next_box h + 8 * length (flatten bs) \<le> stop \<and> (bs \<noteq> [] \<longrightarrow> stop \<le> limit)"
    using "2.IH" h cs bs by blast
  obtain c where c: "contents_of b h = Inr c" using cs by (cases "contents_of b h") simp_all
  note start = contents_within [OF c]
  have "8 * length (flatten cs) \<le> body_end h - body_start h"
  proof (cases c)
    case Opaque
    with cs c show ?thesis by simp
  next
    case (Children s)
    with cs c have "laid_out b s (body_end h) cs = Some (body_end h)" by simp
    with "2.IH"(1) [OF c Children] start Children show ?thesis by fastforce
  next
    case (ItemEntries n s)
    with cs c have "laid_out b s (body_end h) cs = Some (body_end h)" by simp
    with "2.IH"(2) [OF c ItemEntries] start ItemEntries cs c show ?thesis by fastforce
  next
    case (SampleEntries n s)
    with cs c obtain e where e: "laid_out b s (body_end h) cs = Some e" "length cs = n" by auto
    with "2.IH"(3) [OF c SampleEntries] have "s + 8 * length (flatten cs) \<le> e \<and> (cs \<noteq> [] \<longrightarrow> e \<le> body_end h)"
      by blast
    with start SampleEntries show ?thesis by (cases cs) auto
  qed
  with tail o show ?case by (cases bs) (use bs in auto)
qed

lemma largest_extent_Max:
  "largest_extent xs i = Max (insert 0 (extent_bytes ` {x \<in> set xs. extent_id x = i}))"
proof -
  have "foldl (\<lambda>m x. if extent_id x = i then max m (extent_bytes x) else m) m xs
      = Max (insert m (extent_bytes ` {x \<in> set xs. extent_id x = i}))" for m
  proof (induction xs arbitrary: m)
    case Nil
    then show ?case by simp
  next
    case (Cons x xs)
    have join: "Max (insert (max m k) S) = Max (insert m (insert k S))" if "finite S" for k S
      using that by (cases "S = {}") (simp_all add: max.assoc)
    show ?case
    proof (cases "extent_id x = i")
      case True
      then have "{y \<in> set (x # xs). extent_id y = i} = insert x {y \<in> set xs. extent_id y = i}" by auto
      then show ?thesis unfolding \<open>{y \<in> set (x # xs). extent_id y = i} = _\<close>
        using Cons [of "max m (extent_bytes x)"] True by (simp add: join)
    next
      case False
      then have "{y \<in> set (x # xs). extent_id y = i} = {y \<in> set xs. extent_id y = i}" by auto
      then show ?thesis unfolding \<open>{y \<in> set (x # xs). extent_id y = i} = _\<close>
        using Cons [of m] False by simp
    qed
  qed
  then show ?thesis by (simp add: largest_extent_def)
qed

lemma metadata_sum_ok: "metadata_sum xs ids acc = Inr n \<Longrightarrow> n = acc + sum_list (map (largest_extent xs) ids)"
  by (induction xs ids acc rule: metadata_sum.induct) auto

lemma safe_metadata_sum: "safe (metadata_sum xs ids acc) (\<lambda>_. True)"
  by (induction xs ids acc rule: metadata_sum.induct) (simp_all add: safe_rules)

lemma fresh_within: "within bud fresh_walk"
  by (simp add: within_def fresh_walk_def)

section \<open>Properties\<close>

text \<open>
  C8. The preflight of an untrusted file never panics: for every file a 64-bit target can hold and
  every budget whose depth ceiling leaves room for one more, no offset, count or depth overflows and
  no byte is read out of range, whatever the file contains.
\<close>

theorem preflight_never_panics:
  assumes "length b < 2 ^ 63" "max_metadata_items bud < 2 ^ 32" "max_container_depth bud < 2 ^ 32 - 1"
  shows "preflight b bud \<noteq> Inl Panic"
proof -
  have "safe (walk b bud 0 (length b) 0 fresh_walk) (within bud)"
    using safe_walks(1) [of b bud] fresh_within assms by blast
  moreover have "safe (check_metadata_bytes bud w) (\<lambda>_. True)" for w
    unfolding check_metadata_bytes_def
    by (rule safe_step [OF safe_metadata_sum]) (simp add: safe_rules)
  ultimately have "safe (preflight b bud) (\<lambda>_. True)"
    unfolding preflight_def by (elim safe_step) (auto simp: safe_rules)
  then show ?thesis by (auto simp: safe_def)
qed

text \<open>
  C7. A file the preflight accepts is a forest of boxes laid out in it, no deeper and no larger than
  the budget allows, whose totals, summed over all boxes, stay below their ceilings: the items, the
  item location records, the destinations of item and track references, the entries of property
  association boxes, and the associations these entries list; and the bytes of the items that libheif loads eagerly, each counted with its
  largest location, are at most the metadata ceiling.
\<close>

theorem preflight_enforces_budget:
  assumes "preflight b bud = Inr ()" "length b < 2 ^ 63" "max_metadata_items bud < 2 ^ 32"
    "max_container_depth bud < 2 ^ 32 - 1"
  shows "\<exists>forest. laid_out b 0 (length b) forest = Some (length b)
    \<and> height forest \<le> max_container_depth bud + 1
    \<and> 8 * length (flatten forest) \<le> length b
    \<and> length (flatten forest) \<le> max_container_boxes bud
    \<and> (\<Sum>h\<leftarrow>flatten forest. own_items h) \<le> max_container_items bud
    \<and> (\<Sum>h\<leftarrow>flatten forest. own_records b h) \<le> max_container_items bud
    \<and> (\<Sum>h\<leftarrow>flatten forest. own_references b h) \<le> max_container_items bud
    \<and> (\<Sum>h\<leftarrow>flatten forest. own_entries b h) \<le> max_container_items bud
    \<and> (\<Sum>h\<leftarrow>flatten forest. own_associations b h) \<le> max_container_associations bud
    \<and> (let eager = set (concat (map (own_eager b) (flatten forest)));
           located = set (concat (map (own_extents b bud) (flatten forest)))
       in card eager \<le> max_metadata_items bud
          \<and> (\<Sum>i\<in>eager. Max (insert 0 (extent_bytes ` {x \<in> located. extent_id x = i}))) \<le> max_metadata_bytes bud)"
proof -
  from assms(1) obtain w where w: "walk b bud 0 (length b) 0 fresh_walk = Inr w"
    and check: "check_metadata_bytes bud w = Inr ()"
    by (auto simp: preflight_def split: if_splits)
  have "safe (walk b bud 0 (length b) 0 fresh_walk) (within bud)"
    using safe_walks(1) [of b bud] fresh_within assms(2-4) by blast
  with w have within: "within bud w" by (simp add: safe_def)
  from walk_forest(1) [OF w] obtain bs where bs: "laid_out b 0 (length b) bs = Some (length b)"
    "accounts_for b bud (flatten bs) fresh_walk w" "height bs \<le> Suc (max_container_depth bud)" by auto
  have eager: "set (metadata_items w) = set (concat (map (own_eager b) (flatten bs)))"
    and located: "extents w = concat (map (own_extents b bud) (flatten bs))"
    using bs(2) by (simp_all add: accounts_for_def fresh_walk_def)
  have "(\<Sum>i\<in>set (metadata_items w). largest_extent (extents w) i) \<le> max_metadata_bytes bud"
    using check within metadata_sum_ok [of "extents w" "metadata_items w" 0]
    by (auto simp: check_metadata_bytes_def within_def sum_list_distinct_conv_sum_set split: if_splits)
  moreover have "card (set (metadata_items w)) \<le> max_metadata_items bud"
    using within by (simp add: within_def distinct_card)
  ultimately have "let eager = set (concat (map (own_eager b) (flatten bs)));
           located = set (concat (map (own_extents b bud) (flatten bs)))
       in card eager \<le> max_metadata_items bud
          \<and> (\<Sum>i\<in>eager. Max (insert 0 (extent_bytes ` {x \<in> located. extent_id x = i}))) \<le> max_metadata_bytes bud"
    unfolding Let_def largest_extent_Max eager located by blast
  then show ?thesis
    using bs within laid_out_size [OF bs(1)]
    by (intro exI [of _ bs]) (simp add: accounts_for_def fresh_walk_def within_def)
qed

section \<open>A file\<close>

definition heif_demo :: "u8 list" where
  "heif_demo = [0, 0, 0, 0] @ ascii ''meta'' @ [0, 0, 0, 0]
     @ [0, 0, 0, 21] @ ascii ''infe'' @ [2, 0, 0, 0, 0, 7, 0, 0] @ ascii ''Exif'' @ [0]"

definition heif_demo_budget :: budget where
  "heif_demo_budget = \<lparr>max_container_items = 4096, max_container_associations = 32768,
     max_metadata_items = 64, max_metadata_bytes = 4194304, max_container_boxes = 16384,
     max_container_depth = 16, max_item_extents = 32\<rparr>"

lemma heif_demo_ok: "preflight heif_demo heif_demo_budget = Inr ()"
  by (simp add: preflight_def walk.simps walk_boxes.simps visit.simps heif_demo_def heif_demo_budget_def fresh_walk_def
      read_header_eq heif_read_eq offset_add_def record_box_def contents_of_def plus_at_def Let_def
      ascii_def lit_def parse_infe_def infe_entry_def read_u8_def read_u16_def read_u32_def read_fourcc_def
      checked_add_def read_cstring_eq index_at_def is_image_item_def count_to_def check_metadata_bytes_def largest_extent_def
      del: rbind_eq_Inr)

theorem preflight_never_panics_witness: "preflight heif_demo heif_demo_budget \<noteq> Inl Panic"
  by (rule preflight_never_panics) (simp_all add: heif_demo_def heif_demo_budget_def)

theorem preflight_enforces_budget_witness:
  "preflight heif_demo heif_demo_budget = Inr ()
    \<and> (\<exists>forest. laid_out heif_demo 0 (length heif_demo) forest = Some (length heif_demo)
         \<and> height forest \<le> 17 \<and> length (flatten forest) \<le> 16384)"
proof -
  have "length heif_demo < 2 ^ 63" "max_metadata_items heif_demo_budget < 2 ^ 32"
    "max_container_depth heif_demo_budget < 2 ^ 32 - 1"
    by (simp_all add: heif_demo_def heif_demo_budget_def)
  from preflight_enforces_budget [OF heif_demo_ok this] obtain forest where
    "laid_out heif_demo 0 (length heif_demo) forest = Some (length heif_demo)"
    "height forest \<le> max_container_depth heif_demo_budget + 1"
    "length (flatten forest) \<le> max_container_boxes heif_demo_budget" by blast
  then show ?thesis using heif_demo_ok by (intro conjI exI [of _ forest]) (simp_all add: heif_demo_budget_def)
qed

end
