(* ===== verification/Floats.thy ===== *)
theory Floats
  imports Genkan_Prelude Complex_Main "HOL-Library.Log_Nat"
begin

text \<open>
  The part of \<open>f64\<close> the scheduling code uses: comparisons, finiteness, and the quotient of two
  integers rounded to the nearest double, ties to even. A finite value is the rational it stands for;
  the sign of zero, which none of these operations observes, is not kept.
\<close>

section \<open>Model\<close>

datatype f64 = NaN | Inf bool | Fin rat

fun f64_finite :: "f64 \<Rightarrow> bool" where
  "f64_finite (Fin _) = True"
| "f64_finite _ = False"

text \<open>\<open>Inf True\<close> is the negative infinity. Comparisons with \<open>NaN\<close> are false.\<close>

fun f64_le :: "f64 \<Rightarrow> f64 \<Rightarrow> bool" where
  "f64_le NaN _ = False"
| "f64_le _ NaN = False"
| "f64_le (Inf n) y = (n \<or> y = Inf False)"
| "f64_le (Fin x) (Inf n) = (\<not> n)"
| "f64_le (Fin x) (Fin y) = (x \<le> y)"

definition f64_less :: "f64 \<Rightarrow> f64 \<Rightarrow> bool" where
  "f64_less x y \<longleftrightarrow> f64_le x y \<and> \<not> f64_le y x"

text \<open>\<open>f64::partial_cmp\<close>, as the order of the operands: \<open>None\<close> when one is \<open>NaN\<close>.\<close>

datatype ordering = Less | Equal | Greater

definition partial_cmp :: "f64 \<Rightarrow> f64 \<Rightarrow> ordering option" where
  "partial_cmp x y =
     (if f64_less x y then Some Less
      else if f64_less y x then Some Greater
      else if f64_le x y then Some Equal
      else None)"

definition ilog2 :: "rat \<Rightarrow> int" where
  "ilog2 q =
     (let (n, d) = quotient_of q;
          e = int (floorlog 2 (nat n)) - int (floorlog 2 (nat d))
      in if 2 powi e \<le> q then e else e - 1)"

definition round_half_even :: "rat \<Rightarrow> int" where
  "round_half_even q =
     (let f = \<lfloor>q\<rfloor>; r = q - of_int f
      in if r < 1 / 2 then f else if r > 1 / 2 then f + 1 else if even f then f else f + 1)"

text \<open>The spacing of the doubles around \<open>q\<close>: 53 significant bits, fewer below \<open>2 ^ (-1022)\<close>.\<close>

definition spacing :: "rat \<Rightarrow> rat" where
  "spacing q = 2 powi (max (ilog2 \<bar>q\<bar>) (- 1022) - 52)"

definition round64 :: "rat \<Rightarrow> f64" where
  "round64 q =
     (if q = 0 then Fin 0
      else let v = of_int (round_half_even (q / spacing q)) * spacing q
           in if \<bar>v\<bar> \<ge> 2 ^ 1024 then Inf (q < 0) else Fin v)"

text \<open>\<open>f64::from(m) / f64::from(n)\<close> for \<open>u32\<close> values \<open>m\<close> and \<open>n > 0\<close>, which are doubles exactly.\<close>

definition f64_quotient :: "nat \<Rightarrow> nat \<Rightarrow> f64" where
  "f64_quotient m n = round64 (of_nat m / of_nat n)"

section \<open>Rounding errors\<close>

lemma f64_less_Fin [simp]: "f64_less (Fin x) (Fin y) \<longleftrightarrow> x < y"
  by (auto simp: f64_less_def)

lemma partial_cmp_Fin [simp]:
  "partial_cmp (Fin x) (Fin y) = Some (if x < y then Less else if y < x then Greater else Equal)"
  by (simp add: partial_cmp_def)

lemma powi_nat_diff: "(2 :: rat) ^ a / 2 ^ b = 2 powi (int a - int b)"
  by (simp add: power_int_diff)

lemma ilog2_bounds:
  assumes "0 < q"
  shows "2 powi ilog2 q \<le> q"
proof -
  obtain n d where nd: "quotient_of q = (n, d)" by (cases "quotient_of q")
  then have d: "0 < d" and q: "q = of_int n / of_int d"
    using quotient_of_denom_pos quotient_of_div by blast+
  with assms have n: "0 < n" by (simp add: zero_less_divide_iff)
  let ?a = "floorlog 2 (nat n)" and ?b = "floorlog 2 (nat d)"
  have "2 ^ (?a - 1) \<le> nat n" using floorlog_bounds [of "nat n" 2] n by simp
  then have a: "(2 :: rat) ^ (?a - 1) \<le> of_int n"
    using n by (metis of_nat_le_iff of_nat_numeral of_nat_power of_nat_nat less_imp_le
        of_int_of_nat_eq)
  have "nat d < 2 ^ ?b" using floorlog_bounds [of "nat d" 2] d by simp
  then have b: "of_int d < (2 :: rat) ^ ?b"
    using d by (metis of_nat_less_iff of_nat_numeral of_nat_power of_nat_nat less_imp_le
        of_int_of_nat_eq)
  have pos: "0 < ?a" using n by (simp add: floorlog_def)
  have "(2 :: rat) powi (int ?a - int ?b - 1) = 2 ^ (?a - 1) / 2 ^ ?b"
    using pos by (simp add: powi_nat_diff of_nat_diff algebra_simps)
  also have "\<dots> \<le> of_int n / of_int d"
    using a b d n by (intro frac_le) auto
  finally show ?thesis using nd q by (simp add: ilog2_def Let_def)
qed

lemma round_half_even_error: "\<bar>of_int (round_half_even q) - q\<bar> \<le> 1 / 2"
proof -
  have "of_int \<lfloor>q\<rfloor> \<le> q" by simp
  moreover have "q < of_int \<lfloor>q\<rfloor> + 1" by linarith
  ultimately show ?thesis by (auto simp: round_half_even_def Let_def abs_le_iff)
qed

text \<open>A normal double is within a relative error of \<open>2 ^ (-53)\<close> of the exact value.\<close>

lemma round64_error:
  assumes "2 powi (- 1022) \<le> q" "q \<le> 1"
  obtains v where "round64 q = Fin v" "\<bar>v - q\<bar> \<le> q / 2 ^ 53"
proof -
  have "(0 :: rat) < 2 powi (- 1022)" by simp
  with assms(1) have q: "0 < q" by linarith
  have s: "0 < spacing q" by (simp add: spacing_def)
  have "spacing q = 2 powi max (ilog2 q) (- 1022) / 2 ^ 52"
    using q by (simp add: spacing_def power_int_diff)
  also have "\<dots> \<le> q / 2 ^ 52"
    using ilog2_bounds [OF q] assms(1) by (intro divide_right_mono) (simp_all add: max_def)
  finally have s_le: "spacing q \<le> q / 2 ^ 52" .
  define v where "v = of_int (round_half_even (q / spacing q)) * spacing q"
  have "\<bar>of_int (round_half_even (q / spacing q)) - q / spacing q\<bar> \<le> 1 / 2"
    by (rule round_half_even_error)
  then have "\<bar>of_int (round_half_even (q / spacing q)) - q / spacing q\<bar> * spacing q
      \<le> 1 / 2 * spacing q"
    using s by (intro mult_right_mono) simp_all
  moreover have "\<bar>of_int (round_half_even (q / spacing q)) - q / spacing q\<bar> * spacing q
      = \<bar>v - q\<bar>"
  proof -
    have "(of_int (round_half_even (q / spacing q)) - q / spacing q) * spacing q = v - q"
      using s by (simp add: v_def left_diff_distrib)
    then show ?thesis using s by (metis abs_mult abs_of_pos)
  qed
  ultimately have e: "\<bar>v - q\<bar> \<le> q / 2 ^ 53" using s_le by simp
  moreover have "q / 2 ^ 53 \<le> 1" using assms(2) q by simp
  ultimately have "\<bar>v\<bar> \<le> 2" using assms(2) q by linarith
  moreover have "(2 :: rat) < 2 ^ 1024" by simp
  ultimately have "\<not> \<bar>v\<bar> \<ge> 2 ^ 1024" by linarith
  with q have "round64 q = Fin v" by (simp only: round64_def Let_def v_def [symmetric]) simp
  then show thesis using e by (rule that)
qed

end
