(* ===== verification/Civil_Clock.thy ===== *)
theory Civil_Clock
  imports Genkan_Prelude "HOL-Library.Signed_Division"
begin

text \<open>
  The calendar and clock of \<open>src/dynamic_wallpaper.rs\<close>: validated civil dates and times, clock
  snapshots with their UTC offset, and \<open>utc_nanoseconds\<close>, the Julian day number formula that turns
  a snapshot into nanoseconds since the Unix epoch. The formula is compared with a calendar that is
  stepped day by day (\<open>next_date\<close>), and its values are shown to fit the \<open>i128\<close> it computes in.
  The sources' \<open>i32\<close>, \<open>u8\<close> and \<open>u32\<close> fields are integers and natural numbers whose ranges
  are part of the validity predicates.
\<close>

section \<open>Model\<close>

datatype apple_property = Time | Solar | Appearance

datatype model_error =
    DuplicateProperty apple_property
  | EmptySchedule
  | InvalidCivilDate
  | InvalidCivilTime
  | InvalidLatitude
  | InvalidLongitude
  | InvalidNanosecond
  | InvalidNormalizedTime
  | InvalidSolarAltitude
  | InvalidSolarAzimuth
  | InvalidUtcOffset
  | PropertyTypeMismatch

record civil_date =
  date_year :: int
  date_month :: nat
  date_day :: nat

text \<open>Rust's \<open>%\<close> on \<open>i32\<close> truncates, as \<open>smod\<close> does.\<close>

definition is_leap_year :: "int \<Rightarrow> bool" where
  "is_leap_year y \<longleftrightarrow> y smod 4 = 0 \<and> (y smod 100 \<noteq> 0 \<or> y smod 400 = 0)"

definition days_in_month :: "int \<Rightarrow> nat \<Rightarrow> nat option" where
  "days_in_month y m =
     (if m \<in> {1, 3, 5, 7, 8, 10, 12} then Some 31
      else if m \<in> {4, 6, 9, 11} then Some 30
      else if m = 2 \<and> is_leap_year y then Some 29
      else if m = 2 then Some 28
      else None)"

definition CivilDate_new :: "int \<Rightarrow> nat \<Rightarrow> nat \<Rightarrow> model_error + civil_date" where
  "CivilDate_new y m d =
     rbind (ok_or (days_in_month y m) InvalidCivilDate) (\<lambda>days.
       if d = 0 \<or> d > days then Inl InvalidCivilDate
       else Inr \<lparr>date_year = y, date_month = m, date_day = d\<rparr>)"

record civil_time =
  time_hour :: nat
  time_minute :: nat
  time_second :: nat

definition CivilTime_new :: "nat \<Rightarrow> nat \<Rightarrow> nat \<Rightarrow> model_error + civil_time" where
  "CivilTime_new h m s =
     (if h < 24 \<and> m < 60 \<and> s < 60 then Inr \<lparr>time_hour = h, time_minute = m, time_second = s\<rparr>
      else Inl InvalidCivilTime)"

record clock_snapshot =
  clock_date :: civil_date
  clock_time :: civil_time
  clock_nanosecond :: nat
  utc_offset_seconds :: int

definition ClockSnapshot_new_with_nanosecond ::
  "civil_date \<Rightarrow> civil_time \<Rightarrow> nat \<Rightarrow> int \<Rightarrow> model_error + clock_snapshot" where
  "ClockSnapshot_new_with_nanosecond date time ns offset =
     (if ns \<ge> 1000000000 then Inl InvalidNanosecond
      else if \<not> (- 86399 \<le> offset \<and> offset \<le> 86399) then Inl InvalidUtcOffset
      else Inr \<lparr>clock_date = date, clock_time = time, clock_nanosecond = ns,
                utc_offset_seconds = offset\<rparr>)"

definition ClockSnapshot_new ::
  "civil_date \<Rightarrow> civil_time \<Rightarrow> int \<Rightarrow> model_error + clock_snapshot" where
  "ClockSnapshot_new date time offset = ClockSnapshot_new_with_nanosecond date time 0 offset"

text \<open>\<open>div_euclid\<close> by a positive divisor is \<open>div\<close>.\<close>

definition day_number :: "civil_date \<Rightarrow> int" where
  "day_number date =
     (let month = int (date_month date);
          adjustment = (14 - month) div 12;
          year = date_year date + 4800 - adjustment;
          month = month + 12 * adjustment - 3
      in int (date_day date) + (153 * month + 2) div 5 + 365 * year + year div 4
           - year div 100 + year div 400 - 32045)"

definition seconds_of_day :: "clock_snapshot \<Rightarrow> nat" where
  "seconds_of_day clock =
     time_hour (clock_time clock) * 3600 + time_minute (clock_time clock) * 60
       + time_second (clock_time clock)"

definition utc_nanoseconds :: "clock_snapshot \<Rightarrow> int" where
  "utc_nanoseconds clock =
     ((day_number (clock_date clock) - 2440588) * 86400 + int (seconds_of_day clock)
        - utc_offset_seconds clock) * 1000000000 + int (clock_nanosecond clock)"

section \<open>Validity\<close>

definition valid_date :: "civil_date \<Rightarrow> bool" where
  "valid_date d \<longleftrightarrow> - (2 ^ 31) \<le> date_year d \<and> date_year d < 2 ^ 31
     \<and> CivilDate_new (date_year d) (date_month d) (date_day d) = Inr d"

definition valid_clock :: "clock_snapshot \<Rightarrow> bool" where
  "valid_clock c \<longleftrightarrow> valid_date (clock_date c)
     \<and> CivilTime_new (time_hour (clock_time c)) (time_minute (clock_time c))
         (time_second (clock_time c)) = Inr (clock_time c)
     \<and> ClockSnapshot_new_with_nanosecond (clock_date c) (clock_time c) (clock_nanosecond c)
         (utc_offset_seconds c) = Inr c"

lemma seconds_of_day_less [genkan_bounds]: "valid_clock c \<Longrightarrow> seconds_of_day c < 86400"
  by (auto simp: valid_clock_def CivilTime_new_def seconds_of_day_def split: if_splits)

lemma clock_nanosecond_less [genkan_bounds]: "valid_clock c \<Longrightarrow> clock_nanosecond c < 1000000000"
  by (auto simp: valid_clock_def ClockSnapshot_new_with_nanosecond_def split: if_splits)

lemma utc_offset_bounds [genkan_bounds]:
  "valid_clock c \<Longrightarrow> \<bar>utc_offset_seconds c\<bar> \<le> 86399"
  by (auto simp: valid_clock_def ClockSnapshot_new_with_nanosecond_def split: if_splits)

lemma days_in_month_bounds:
  "days_in_month y m = Some n \<Longrightarrow> 1 \<le> m \<and> m \<le> 12 \<and> 28 \<le> n \<and> n \<le> 31"
  by (auto simp: days_in_month_def split: if_splits)

lemma valid_date_bounds [genkan_bounds]:
  assumes "valid_date d"
  shows "1 \<le> date_month d" "date_month d \<le> 12" "1 \<le> date_day d" "date_day d \<le> 31"
  using assms
  by (auto simp: valid_date_def CivilDate_new_def dest!: days_in_month_bounds split: if_splits)

section \<open>The calendar, day by day\<close>

definition next_date :: "civil_date \<Rightarrow> civil_date" where
  "next_date d =
     (if days_in_month (date_year d) (date_month d) \<noteq> Some (date_day d)
      then d\<lparr>date_day := date_day d + 1\<rparr>
      else if date_month d < 12 then d\<lparr>date_month := date_month d + 1, date_day := 1\<rparr>
      else \<lparr>date_year = date_year d + 1, date_month = 1, date_day = 1\<rparr>)"

definition epoch_date :: civil_date where
  "epoch_date = \<lparr>date_year = 1970, date_month = 1, date_day = 1\<rparr>"

lemma smod_eq_0: "(y :: int) smod n = 0 \<longleftrightarrow> n dvd y"
proof -
  have "\<bar>y\<bar> mod \<bar>n\<bar> = 0 \<longleftrightarrow> n dvd y" by (simp add: dvd_eq_mod_eq_0 [symmetric])
  moreover have "y smod n = 0 \<longleftrightarrow> y = 0 \<or> \<bar>y\<bar> mod \<bar>n\<bar> = 0"
    by (simp add: signed_modulo_int_def sgn_eq_0_iff)
  ultimately show ?thesis by auto
qed

lemma div_pred:
  assumes "0 < n" shows "z div n - (z - 1) div n = (if n dvd z then 1 else (0 :: int))"
proof (cases "n dvd z")
  case True
  then obtain k where "z = n * k" by (auto elim: dvdE)
  moreover have "(n * k - 1) div n = k - 1"
    by (rule int_div_pos_eq [where r = "n - 1"]) (use assms in \<open>simp_all add: algebra_simps\<close>)
  ultimately show ?thesis using assms True by simp
next
  case False
  have "z = n * (z div n) + z mod n" by simp
  moreover have "0 < z mod n"
    using False assms pos_mod_sign [of n z] by (simp add: dvd_eq_mod_eq_0 order_less_le)
  moreover have "z mod n < n" using assms by (rule pos_mod_bound)
  ultimately have "(z - 1) div n = z div n"
    by (intro int_div_pos_eq [where r = "z mod n - 1"]) auto
  with False show ?thesis by simp
qed

text \<open>The leap days of the formula fall on the leap years of the calendar.\<close>

lemma leap_days:
  "(y + 4800) div 4 - (y + 4800) div 100 + (y + 4800) div 400
      - ((y + 4799) div 4 - (y + 4799) div 100 + (y + 4799) div 400)
    = (if is_leap_year y then 1 else 0)"
proof -
  have d: "4 dvd y + 4800 \<longleftrightarrow> 4 dvd y" "100 dvd y + 4800 \<longleftrightarrow> 100 dvd y"
    "400 dvd y + 4800 \<longleftrightarrow> 400 dvd y"
    by (rule dvd_add_left_iff, simp)+
  have "400 dvd y \<longrightarrow> 100 dvd y" "100 dvd y \<longrightarrow> 4 dvd y" by presburger+
  moreover have "(y + 4800) div 4 - (y + 4799) div 4 = (if 4 dvd y then 1 else 0)"
    "(y + 4800) div 100 - (y + 4799) div 100 = (if 100 dvd y then 1 else 0)"
    "(y + 4800) div 400 - (y + 4799) div 400 = (if 400 dvd y then 1 else 0)"
    using div_pred [of 4 "y + 4800"] div_pred [of 100 "y + 4800"] div_pred [of 400 "y + 4800"]
    unfolding d by (simp_all add: algebra_simps)
  ultimately show ?thesis
    unfolding is_leap_year_def smod_eq_0
    by (cases "4 dvd y"; cases "100 dvd y"; cases "400 dvd y"; simp only: simp_thms if_True if_False)
qed

lemma day_number_early:
  assumes "date_month d \<in> {1, 2}"
  shows "day_number d = int (date_day d) + (153 * (int (date_month d) + 9) + 2) div 5
    + 365 * (date_year d + 4799) + (date_year d + 4799) div 4 - (date_year d + 4799) div 100
    + (date_year d + 4799) div 400 - 32045"
  using assms by (auto simp: day_number_def Let_def algebra_simps)

lemma day_number_late:
  assumes "3 \<le> date_month d" "date_month d \<le> 12"
  shows "day_number d = int (date_day d) + (153 * (int (date_month d) - 3) + 2) div 5
    + 365 * (date_year d + 4800) + (date_year d + 4800) div 4 - (date_year d + 4800) div 100
    + (date_year d + 4800) div 400 - 32045"
proof -
  have "(14 - int (date_month d)) div 12 = 0" using assms by simp
  then show ?thesis by (simp add: day_number_def Let_def algebra_simps)
qed

definition calendar_date :: "civil_date \<Rightarrow> bool" where
  "calendar_date d \<longleftrightarrow> (\<exists>n. days_in_month (date_year d) (date_month d) = Some n
     \<and> 0 < date_day d \<and> date_day d \<le> n)"

lemma calendar_dateE:
  assumes "calendar_date d"
  obtains n where "days_in_month (date_year d) (date_month d) = Some n" "0 < date_day d"
    "date_day d \<le> n" "1 \<le> date_month d" "date_month d \<le> 12"
proof -
  from assms obtain n where n: "days_in_month (date_year d) (date_month d) = Some n"
    "0 < date_day d" "date_day d \<le> n" by (auto simp: calendar_date_def)
  with days_in_month_bounds [OF n(1)] show thesis by (intro that) auto
qed

lemma months: "1 \<le> m \<Longrightarrow> m \<le> 12 \<Longrightarrow> m = 1 \<or> m = 2 \<or> m = 3 \<or> m = 4 \<or> m = 5 \<or> m = 6 \<or> m = 7
    \<or> m = 8 \<or> m = 9 \<or> m = 10 \<or> m = 11 \<or> m = (12 :: nat)"
  by presburger

lemma valid_date_calendar: "valid_date d \<Longrightarrow> calendar_date d"
  by (auto simp: valid_date_def CivilDate_new_def calendar_date_def split: if_splits)

lemma calendar_next: "calendar_date d \<Longrightarrow> calendar_date (next_date d)"
proof (elim calendar_dateE)
  fix n
  assume n: "days_in_month (date_year d) (date_month d) = Some n" "0 < date_day d"
    "date_day d \<le> n" "1 \<le> date_month d" "date_month d \<le> 12"
  show "calendar_date (next_date d)"
  proof (cases "n = date_day d")
    case True
    with n months [OF n(4,5)] show ?thesis
      by (elim disjE) (simp_all add: next_date_def calendar_date_def days_in_month_def split: if_splits)
  next
    case False
    with n show ?thesis by (simp add: next_date_def calendar_date_def)
  qed
qed

text \<open>The formula advances by one whenever the calendar does.\<close>

lemma day_number_next:
  assumes "calendar_date d"
  shows "day_number (next_date d) = day_number d + 1"
proof -
  from assms obtain n where n: "days_in_month (date_year d) (date_month d) = Some n" "0 < date_day d"
    "date_day d \<le> n" "1 \<le> date_month d" "date_month d \<le> 12" by (rule calendar_dateE)
  show ?thesis
  proof (cases "n = date_day d")
    case False
    with n show ?thesis by (simp add: next_date_def day_number_def Let_def)
  next
    case True
    with n(1) have last: "days_in_month (date_year d) (date_month d) = Some (date_day d)" by simp
    consider (feb) "date_month d = 2" | (dec) "date_month d = 12"
      | (other) "date_month d \<in> {1, 3, 4, 5, 6, 7, 8, 9, 10, 11}"
      using months [OF n(4,5)] by fastforce
    then show ?thesis
    proof cases
      case feb
      with last leap_days [of "date_year d"] show ?thesis
        by (cases "is_leap_year (date_year d)")
          (simp_all add: next_date_def days_in_month_def day_number_early day_number_late)
    next
      case dec
      with last show ?thesis
        by (simp add: next_date_def days_in_month_def day_number_early day_number_late add.commute)
    next
      case other
      with last show ?thesis
        by (elim insertE emptyE)
          (simp_all add: next_date_def days_in_month_def day_number_early day_number_late)
    qed
  qed
qed

lemma day_number_epoch: "day_number epoch_date = 2440588"
  by (simp add: epoch_date_def day_number_def Let_def)

lemma month_days_bound: "- 2 \<le> k \<Longrightarrow> k \<le> 21 \<Longrightarrow> \<bar>(153 * k + 2) div 5\<bar> \<le> (4294967296 :: int)"
proof -
  assume "- 2 \<le> k" "k \<le> 21"
  then have "- 304 div 5 \<le> (153 * k + 2) div 5" "(153 * k + 2) div 5 \<le> 3215 div 5"
    by (intro zdiv_mono1; simp)+
  then show ?thesis by simp
qed

lemma sum_bound:
  fixes x :: int
  assumes "x = int n + p + 365 * z + q - r + s - 32045" "n \<le> 31"
    "\<bar>p\<bar> \<le> 4294967296" "\<bar>z\<bar> \<le> 4294967296" "\<bar>q\<bar> \<le> 4294967296" "\<bar>r\<bar> \<le> 4294967296"
    "\<bar>s\<bar> \<le> 4294967296"
  shows "\<bar>x\<bar> < 2 ^ 42"
  using assms by simp

lemma day_number_bound:
  assumes "valid_date d" shows "\<bar>day_number d\<bar> < 2 ^ 42"
proof -
  define a where "a = (14 - int (date_month d)) div 12"
  define z where "z = date_year d + 4800 - a"
  have m: "1 \<le> date_month d" "date_month d \<le> 12" "date_day d \<le> 31"
    using valid_date_bounds [OF assms] by simp_all
  then have a: "0 \<le> a" "a \<le> 1" by (simp_all add: a_def)
  have "- (2 ^ 31) \<le> date_year d" "date_year d < 2 ^ 31" using assms by (simp_all add: valid_date_def)
  with a have z: "\<bar>z\<bar> \<le> 4294967296" by (simp add: z_def)
  then have "\<bar>z div 4\<bar> \<le> 4294967296" "\<bar>z div 100\<bar> \<le> 4294967296" "\<bar>z div 400\<bar> \<le> 4294967296"
    by linarith+
  moreover have "- 2 \<le> int (date_month d) + 12 * a - 3" "int (date_month d) + 12 * a - 3 \<le> 21"
    using m a by simp_all
  then have "\<bar>(153 * (int (date_month d) + 12 * a - 3) + 2) div 5\<bar> \<le> 4294967296"
    by (rule month_days_bound)
  moreover have "day_number d = int (date_day d)
      + (153 * (int (date_month d) + 12 * a - 3) + 2) div 5 + 365 * z + z div 4 - z div 100
      + z div 400 - 32045"
    by (simp add: day_number_def a_def z_def Let_def)
  ultimately show ?thesis using m(3) z by (intro sum_bound)
qed

text \<open>The reference: the days counted on the calendar, forwards and backwards from the epoch.\<close>

inductive days_from_epoch :: "civil_date \<Rightarrow> int \<Rightarrow> bool" where
  epoch: "days_from_epoch epoch_date 0"
| later: "days_from_epoch d n \<Longrightarrow> days_from_epoch (next_date d) (n + 1)"
| earlier: "days_from_epoch (next_date d) n \<Longrightarrow> calendar_date d \<Longrightarrow> days_from_epoch d (n - 1)"

lemma calendar_epoch: "calendar_date epoch_date"
  by (simp add: calendar_date_def epoch_date_def days_in_month_def)

lemma day_number_counts:
  "days_from_epoch d n \<Longrightarrow> calendar_date d \<and> day_number d = 2440588 + n"
  by (induction rule: days_from_epoch.induct)
    (auto simp: calendar_epoch day_number_epoch calendar_next day_number_next)

definition counted :: "civil_date \<Rightarrow> bool" where
  "counted d \<longleftrightarrow> (\<exists>n. days_from_epoch d n)"

lemma counted_next: "calendar_date d \<Longrightarrow> counted (next_date d) \<longleftrightarrow> counted d"
  unfolding counted_def by (blast intro: later earlier)

abbreviation ymd :: "int \<Rightarrow> nat \<Rightarrow> nat \<Rightarrow> civil_date" where
  "ymd y m d \<equiv> \<lparr>date_year = y, date_month = m, date_day = d\<rparr>"

lemma counted_in_month:
  "days_in_month y m = Some n \<Longrightarrow> k < n \<Longrightarrow> counted (ymd y m (Suc k)) \<longleftrightarrow> counted (ymd y m 1)"
proof (induction k)
  case (Suc k)
  then have "calendar_date (ymd y m (Suc k))" "next_date (ymd y m (Suc k)) = ymd y m (Suc (Suc k))"
    by (simp_all add: calendar_date_def next_date_def)
  with counted_next [of "ymd y m (Suc k)"] Suc show ?case by simp
qed simp

lemma counted_last_day:
  assumes n: "days_in_month y m = Some n" shows "counted (ymd y m n) \<longleftrightarrow> counted (ymd y m 1)"
    and "counted (next_date (ymd y m n)) \<longleftrightarrow> counted (ymd y m 1)"
proof -
  have "0 < n" using days_in_month_bounds [OF n] by simp
  then show eq: "counted (ymd y m n) \<longleftrightarrow> counted (ymd y m 1)"
    using counted_in_month [OF n, of "n - 1"] by simp
  have "calendar_date (ymd y m n)" using n \<open>0 < n\<close> by (simp add: calendar_date_def)
  then show "counted (next_date (ymd y m n)) \<longleftrightarrow> counted (ymd y m 1)"
    using counted_next eq by blast
qed

lemma counted_next_month:
  assumes "1 \<le> m" "m < 12" shows "counted (ymd y (Suc m) 1) \<longleftrightarrow> counted (ymd y m 1)"
proof -
  obtain n where n: "days_in_month y m = Some n"
    using months [of m] assms
    by (cases "is_leap_year y") (auto simp: days_in_month_def)
  then have "next_date (ymd y m n) = ymd y (Suc m) 1" using assms by (simp add: next_date_def)
  with counted_last_day(2) [OF n] show ?thesis by simp
qed

lemma counted_month: "m < 12 \<Longrightarrow> counted (ymd y (Suc m) 1) \<longleftrightarrow> counted (ymd y 1 1)"
  by (induction m) (use counted_next_month in auto)

lemma counted_next_year: "counted (ymd (y + 1) 1 1) \<longleftrightarrow> counted (ymd y 1 1)"
proof -
  have n: "days_in_month y 12 = Some 31" by (simp add: days_in_month_def)
  then have "next_date (ymd y 12 31) = ymd (y + 1) 1 1" by (simp add: next_date_def)
  with counted_last_day(2) [OF n] counted_month [of 11 y] show ?thesis by simp
qed

lemma counted_year: "counted (ymd y 1 1)"
proof (induction y rule: int_induct [where k = 1970])
  case base
  have "days_from_epoch (ymd 1970 1 1) 0" using epoch by (simp add: epoch_date_def)
  then show ?case by (auto simp: counted_def)
next
  case (step1 y)
  then show ?case by (simp only: counted_next_year)
next
  case (step2 y)
  then show ?case using counted_next_year [of "y - 1"] by simp
qed

lemma calendar_counted:
  assumes "calendar_date d" shows "counted d"
proof -
  obtain n where n: "days_in_month (date_year d) (date_month d) = Some n" "0 < date_day d"
    "date_day d \<le> n" "1 \<le> date_month d" "date_month d \<le> 12"
    using assms by (rule calendar_dateE)
  have "counted (ymd (date_year d) (date_month d) 1)"
    using counted_month [of "date_month d - 1" "date_year d"] counted_year n(4,5) by simp
  then have "counted (ymd (date_year d) (date_month d) (date_day d))"
    using counted_in_month [OF n(1), of "date_day d - 1"] n(2,3) by simp
  then show ?thesis by (cases d) simp
qed

text \<open>
  C40. \<open>ClockSnapshot::utc_nanoseconds\<close> agrees with the calendar stepped day by day: every valid
  snapshot's date is some number of days from the epoch date, before or after it, and its Unix time
  is what counting days of 86,400 seconds gives, through leap years and centuries alike; the value
  fits the \<open>i128\<close> it is computed in.
\<close>
theorem utc_nanoseconds_calendar:
  assumes "valid_clock c"
  shows "\<exists>n. days_from_epoch (clock_date c) n
    \<and> utc_nanoseconds c = (n * 86400 + int (seconds_of_day c) - utc_offset_seconds c) * 1000000000
        + int (clock_nanosecond c)
    \<and> \<bar>utc_nanoseconds c\<bar> < 2 ^ 127"
proof -
  have d: "valid_date (clock_date c)" using assms by (simp add: valid_clock_def)
  then obtain n where n: "days_from_epoch (clock_date c) n"
    using calendar_counted valid_date_calendar unfolding counted_def by blast
  have u: "utc_nanoseconds c = (n * 86400 + int (seconds_of_day c) - utc_offset_seconds c)
      * 1000000000 + int (clock_nanosecond c)"
    using day_number_counts [OF n] by (simp add: utc_nanoseconds_def)
  have "\<bar>day_number (clock_date c)\<bar> < 2 ^ 42"
    using day_number_bound [OF d] .
  then have "\<bar>n\<bar> < 2 ^ 43" using day_number_counts [OF n] by simp
  with u have "\<bar>utc_nanoseconds c\<bar> < 2 ^ 127"
    using seconds_of_day_less [OF assms] clock_nanosecond_less [OF assms]
      utc_offset_bounds [OF assms] by simp
  with n u show ?thesis by blast
qed

theorem utc_nanoseconds_calendar_witness:
  "\<exists>n. days_from_epoch (ymd 2024 2 29) n
    \<and> utc_nanoseconds \<lparr>clock_date = ymd 2024 2 29,
        clock_time = \<lparr>time_hour = 23, time_minute = 59, time_second = 59\<rparr>,
        clock_nanosecond = 0, utc_offset_seconds = 0\<rparr> = (n * 86400 + 86399) * 1000000000"
  using utc_nanoseconds_calendar [of "\<lparr>clock_date = ymd 2024 2 29,
        clock_time = \<lparr>time_hour = 23, time_minute = 59, time_second = 59\<rparr>,
        clock_nanosecond = 0, utc_offset_seconds = 0\<rparr>"]
  by (auto simp: valid_clock_def valid_date_def CivilDate_new_def CivilTime_new_def
      ClockSnapshot_new_with_nanosecond_def days_in_month_def is_leap_year_def smod_eq_0
      seconds_of_day_def)

end
