(* ===== verification/Wallpaper_Model.thy ===== *)
theory Wallpaper_Model
  imports Civil_Clock Floats
begin

text \<open>
  The model of dynamic wallpapers in \<open>src/dynamic_wallpaper.rs\<close>: image references, validated
  times of day and solar positions, schedules, the metadata that collects the properties found in a
  file, and the choice of a schedule or of a still image.
\<close>

section \<open>Model\<close>

text \<open>\<open>ImageReference\<close> and \<open>HeifItemId\<close> are the numbers they wrap.\<close>

type_synonym image_reference = nat
type_synonym heif_item_id = nat

definition APPLE_DESKTOP_NAMESPACE :: ustring where
  "APPLE_DESKTOP_NAMESPACE = lit ''http://ns.apple.com/namespace/1.0/''"

definition SECONDS_PER_DAY :: nat where
  "SECONDS_PER_DAY = 86400"

definition from_expanded_name :: "ustring \<Rightarrow> ustring \<Rightarrow> apple_property option" where
  "from_expanded_name namespace local_name =
     (if namespace \<noteq> APPLE_DESKTOP_NAMESPACE then None
      else if local_name = lit ''h24'' then Some Time
      else if local_name = lit ''solar'' then Some Solar
      else if local_name = lit ''apr'' then Some Appearance
      else None)"

definition resolve_image :: "heif_item_id list \<Rightarrow> image_reference \<Rightarrow> heif_item_id option" where
  "resolve_image items r = (if r < length items then Some (items ! r) else None)"

definition NormalizedTime_new :: "f64 \<Rightarrow> model_error + f64" where
  "NormalizedTime_new v =
     (if f64_finite v \<and> f64_le (Fin 0) v \<and> f64_less v (Fin 1) then Inr v
      else Inl InvalidNormalizedTime)"

record solar_position =
  altitude_degrees :: f64
  azimuth_degrees :: f64

definition SolarPosition_new :: "f64 \<Rightarrow> f64 \<Rightarrow> model_error + solar_position" where
  "SolarPosition_new altitude azimuth =
     (if \<not> f64_finite altitude \<or> \<not> (f64_le (Fin (- 90)) altitude \<and> f64_le altitude (Fin 90))
      then Inl InvalidSolarAltitude
      else if \<not> f64_finite azimuth \<or> \<not> (f64_le (Fin 0) azimuth \<and> f64_less azimuth (Fin 360))
      then Inl InvalidSolarAzimuth
      else Inr \<lparr>altitude_degrees = altitude, azimuth_degrees = azimuth\<rparr>)"

record location =
  latitude_degrees :: f64
  longitude_degrees :: f64

definition Location_new :: "f64 \<Rightarrow> f64 \<Rightarrow> model_error + location" where
  "Location_new latitude longitude =
     (if \<not> f64_finite latitude \<or> \<not> (f64_le (Fin (- 90)) latitude \<and> f64_le latitude (Fin 90))
      then Inl InvalidLatitude
      else if \<not> f64_finite longitude
        \<or> \<not> (f64_le (Fin (- 180)) longitude \<and> f64_le longitude (Fin 180))
      then Inl InvalidLongitude
      else Inr \<lparr>latitude_degrees = latitude, longitude_degrees = longitude\<rparr>)"

record appearance_pair =
  light :: image_reference
  dark :: image_reference

record time_point =
  tp_image :: image_reference
  tp_time :: f64

record solar_point =
  sp_image :: image_reference
  sp_position :: solar_position

record 't schedule =
  points :: "'t list"
  sched_appearance :: "appearance_pair option"

definition Schedule_new :: "'t list \<Rightarrow> appearance_pair option \<Rightarrow> model_error + 't schedule" where
  "Schedule_new pts app =
     (if pts = [] then Inl EmptySchedule else Inr \<lparr>points = pts, sched_appearance = app\<rparr>)"

datatype property_value =
    PVTime "time_point schedule"
  | PVSolar "solar_point schedule"
  | PVAppearance appearance_pair

fun property_of :: "property_value \<Rightarrow> apple_property" where
  "property_of (PVTime _) = Time"
| "property_of (PVSolar _) = Solar"
| "property_of (PVAppearance _) = Appearance"

datatype 't property_state = Missing | Valid 't | Conflicted

fun state_value :: "'t property_state \<Rightarrow> 't option" where
  "state_value (Valid v) = Some v"
| "state_value _ = None"

record metadata =
  md_time :: "time_point schedule property_state"
  md_solar :: "solar_point schedule property_state"
  md_appearance :: "appearance_pair property_state"

definition metadata_default :: metadata where
  "metadata_default = \<lparr>md_time = Missing, md_solar = Missing, md_appearance = Missing\<rparr>"

text \<open>
  \<open>insert_property\<close> writes through its reference even when it returns an error. On the validated,
  finite floats of the properties Rust's \<open>==\<close> is equality.
\<close>

fun insert_property ::
  "'t property_state \<Rightarrow> apple_property \<Rightarrow> 't \<Rightarrow> 't property_state \<times> (model_error + unit)" where
  "insert_property Missing p v = (Valid v, Inr ())"
| "insert_property (Valid w) p v =
     (if w = v then (Valid w, Inr ()) else (Conflicted, Inl (DuplicateProperty p)))"
| "insert_property Conflicted p v = (Conflicted, Inl (DuplicateProperty p))"

definition md_insert ::
  "metadata \<Rightarrow> apple_property \<Rightarrow> property_value \<Rightarrow> metadata \<times> (model_error + unit)" where
  "md_insert md p v =
     (if property_of v \<noteq> p then (md, Inl PropertyTypeMismatch)
      else case v of
        PVTime s \<Rightarrow> (let (st, r) = insert_property (md_time md) p s in (md\<lparr>md_time := st\<rparr>, r))
      | PVSolar s \<Rightarrow> (let (st, r) = insert_property (md_solar md) p s in (md\<lparr>md_solar := st\<rparr>, r))
      | PVAppearance a \<Rightarrow>
          (let (st, r) = insert_property (md_appearance md) p a in (md\<lparr>md_appearance := st\<rparr>, r)))"

definition insert_expanded ::
  "metadata \<Rightarrow> ustring \<Rightarrow> ustring \<Rightarrow> property_value \<Rightarrow> metadata \<times> (model_error + bool)" where
  "insert_expanded md namespace local_name v =
     (case from_expanded_name namespace local_name of
        None \<Rightarrow> (md, Inr False)
      | Some p \<Rightarrow> (let (md', r) = md_insert md p v in (md', rbind r (\<lambda>_. Inr True))))"

datatype appearance_preference = Automatic | Light | Dark

definition permits_solar :: "appearance_preference \<Rightarrow> bool" where
  "permits_solar p \<longleftrightarrow> p = Automatic"

datatype selection =
    SelSolar "solar_point schedule"
  | SelTime "time_point schedule"
  | SelStatic image_reference
  | SelPrimary

definition or_else :: "'a option \<Rightarrow> 'a option \<Rightarrow> 'a option" where
  "or_else a b = (case a of None \<Rightarrow> b | Some _ \<Rightarrow> a)"

definition fallback_appearance :: "metadata \<Rightarrow> appearance_pair option" where
  "fallback_appearance md =
     or_else (or_else (state_value (md_appearance md))
       (Option.bind (state_value (md_time md)) sched_appearance))
       (Option.bind (state_value (md_solar md)) sched_appearance)"

definition md_select :: "metadata \<Rightarrow> appearance_preference \<Rightarrow> bool \<Rightarrow> bool \<Rightarrow> selection" where
  "md_select md app solar_enabled location_available =
     (if app \<noteq> Automatic
      then (case fallback_appearance md of
              None \<Rightarrow> SelPrimary
            | Some pair \<Rightarrow> if app = Light then SelStatic (light pair) else SelStatic (dark pair))
      else case (if solar_enabled \<and> location_available then state_value (md_solar md) else None) of
        Some s \<Rightarrow> SelSolar s
      | None \<Rightarrow>
          (case state_value (md_time md) of
             Some s \<Rightarrow> SelTime s
           | None \<Rightarrow>
               (case fallback_appearance md of
                  None \<Rightarrow> SelPrimary
                | Some pair \<Rightarrow> SelStatic (light pair))))"

section \<open>What collecting the properties of a file leaves\<close>

text \<open>
  The abstract value of a property after a sequence of sightings: absent, agreed, or in conflict, in
  whatever order the sightings came.
\<close>

definition agreed :: "'t list \<Rightarrow> 't property_state" where
  "agreed vs =
     (case vs of [] \<Rightarrow> Missing
      | v # _ \<Rightarrow> if list_all (\<lambda>w. w = v) vs then Valid v else Conflicted)"

lemma insert_property_agreed:
  "fst (insert_property (agreed vs) p v) = agreed (vs @ [v])"
  by (cases vs) (auto simp: agreed_def)

lemma insert_property_ok:
  "is_ok (snd (insert_property (agreed vs) p v)) \<longleftrightarrow> agreed (vs @ [v]) \<noteq> Conflicted"
  by (cases vs) (auto simp: agreed_def)

lemma agreed_iff:
  "agreed vs = Missing \<longleftrightarrow> set vs = {}"
  "agreed vs = Valid w \<longleftrightarrow> set vs = {w}"
  by (cases vs; force simp: agreed_def list_all_iff)+

lemma agreed_perm: "set vs = set ws \<Longrightarrow> agreed vs = agreed ws"
  by (metis agreed_iff property_state.exhaust)

fun times_of :: "property_value list \<Rightarrow> time_point schedule list" where
  "times_of [] = []"
| "times_of (PVTime s # vs) = s # times_of vs"
| "times_of (_ # vs) = times_of vs"

fun solars_of :: "property_value list \<Rightarrow> solar_point schedule list" where
  "solars_of [] = []"
| "solars_of (PVSolar s # vs) = s # solars_of vs"
| "solars_of (_ # vs) = solars_of vs"

fun appearances_of :: "property_value list \<Rightarrow> appearance_pair list" where
  "appearances_of [] = []"
| "appearances_of (PVAppearance a # vs) = a # appearances_of vs"
| "appearances_of (_ # vs) = appearances_of vs"

lemma of_append [simp]:
  "times_of (xs @ ys) = times_of xs @ times_of ys"
  "solars_of (xs @ ys) = solars_of xs @ solars_of ys"
  "appearances_of (xs @ ys) = appearances_of xs @ appearances_of ys"
  by (induction xs rule: times_of.induct) simp_all

definition insert_all :: "metadata \<Rightarrow> property_value list \<Rightarrow> metadata" where
  "insert_all md vs = foldl (\<lambda>md v. fst (md_insert md (property_of v) v)) md vs"

definition summary :: "property_value list \<Rightarrow> metadata" where
  "summary vs = \<lparr>md_time = agreed (times_of vs), md_solar = agreed (solars_of vs),
     md_appearance = agreed (appearances_of vs)\<rparr>"

lemma md_insert_summary: "fst (md_insert (summary vs) (property_of v) v) = summary (vs @ [v])"
  by (cases v)
    (simp_all add: md_insert_def summary_def split_beta insert_property_agreed)

text \<open>
  Inserting the properties of a file one by one leaves exactly the summary of all of them: a
  property is available if it was seen and every sighting gave the same value, it stays in conflict
  otherwise, and neither the order of the sightings nor their number matters.
\<close>
theorem insert_all_summary:
  "insert_all metadata_default vs = summary vs
    \<and> (set vs = set ws \<longrightarrow> insert_all metadata_default ws = insert_all metadata_default vs)"
proof -
  have all: "insert_all metadata_default vs = summary vs" for vs
  proof (induction vs rule: rev_induct)
    case Nil
    then show ?case by (simp add: insert_all_def metadata_default_def summary_def agreed_def)
  next
    case (snoc v vs)
    then show ?case using md_insert_summary [of vs v] by (simp add: insert_all_def)
  qed
  have "s \<in> set (times_of us) \<longleftrightarrow> PVTime s \<in> set us"
    "t \<in> set (solars_of us) \<longleftrightarrow> PVSolar t \<in> set us"
    "a \<in> set (appearances_of us) \<longleftrightarrow> PVAppearance a \<in> set us" for s t a us
    by (induction us rule: times_of.induct) auto
  then have "set vs = set ws \<Longrightarrow> summary ws = summary vs"
    unfolding summary_def by (auto intro!: agreed_perm simp: set_eq_iff)
  with all show ?thesis by simp
qed

theorem insert_all_summary_witness:
  "insert_all metadata_default [PVAppearance \<lparr>light = 0, dark = 1\<rparr>, PVAppearance \<lparr>light = 0, dark = 2\<rparr>]
    = insert_all metadata_default
        [PVAppearance \<lparr>light = 0, dark = 2\<rparr>, PVAppearance \<lparr>light = 0, dark = 1\<rparr>]"
  using insert_all_summary [of "[PVAppearance \<lparr>light = 0, dark = 2\<rparr>, PVAppearance \<lparr>light = 0, dark = 1\<rparr>]"
      "[PVAppearance \<lparr>light = 0, dark = 1\<rparr>, PVAppearance \<lparr>light = 0, dark = 2\<rparr>]"] by auto

end
