(* ===== verification/Playback.thy ===== *)
theory Playback
  imports Wallpaper_Model
begin

text \<open>
  The playback state of a dynamic wallpaper, \<open>src/dynamic_wallpaper/playback.rs\<close>: which img of a
  time schedule is due, the decode requests for it, the dissolve from the presented frame to the
  decoded one, retries, and the delay until the scheduler has to look again.

  A \<open>Duration\<close> is its number of nanoseconds (at most \<open>duration_max\<close>). The process-wide counter
  \<open>NEXT_GENERATION\<close> is threaded through the operations that draw from it. The outcome of the
  fallible allocation of a blended frame is an argument: the capacity obtained, or \<open>None\<close>. An operation
  that would panic returns \<open>None\<close>.
\<close>

section \<open>State\<close>

type_synonym duration = nat

definition duration_max :: duration where
  "duration_max = 2 ^ 64 * 1000000000 - 1"

definition duration_secs :: "nat \<Rightarrow> duration" where
  "duration_secs s = s * 1000000000"

definition duration_checked_add :: "duration \<Rightarrow> duration \<Rightarrow> duration option" where
  "duration_checked_add a b = (if a + b \<le> duration_max then Some (a + b) else None)"

definition duration_checked_sub :: "duration \<Rightarrow> duration \<Rightarrow> duration option" where
  "duration_checked_sub a b = (if b \<le> a then Some (a - b) else None)"

text \<open>\<open>saturating_sub\<close> on durations is subtraction of natural numbers.\<close>

definition RESYNCHRONIZE_AFTER :: duration where
  "RESYNCHRONIZE_AFTER = duration_secs 60"

definition DISSOLVE_DURATION :: duration where
  "DISSOLVE_DURATION = duration_secs 2"

definition CLOCK_TOLERANCE_NANOSECONDS :: int where
  "CLOCK_TOLERANCE_NANOSECONDS = 1000000000"

definition MAX_FRAME_BYTES :: nat where
  "MAX_FRAME_BYTES = 256 * 1024 * 1024"

text \<open>The decoder's \<open>RgbaFrame\<close>, with the capacity of its pixel vector.\<close>

record heic_frame =
  hf_width :: nat
  hf_height :: nat
  hf_pixels :: "u8 list"
  hf_capacity :: nat

record decode_request =
  dr_generation :: u64
  dr_image :: image_reference

datatype decode_outcome = DIgnored | DFailed | DRejected | DPresented | DTransitioning

record synchronize_outcome =
  selection_changed :: bool
  so_discontinuity :: bool
  presentation_changed :: bool

datatype playback_mode = PStatic | PTime "time_point list"

record pending_decode =
  pd_request :: decode_request
  transition_started_at :: "duration option"
  pd_dispatched :: bool

record dissolve =
  tr_from :: heic_frame
  tr_to :: heic_frame
  tr_blend :: heic_frame
  tr_to_image :: image_reference
  tr_started_at :: duration

record playback =
  pb_mode :: playback_mode
  pb_primary :: image_reference
  reduced_motion :: bool
  pb_selected :: image_reference
  pb_generation :: u64
  pb_pending :: "pending_decode option"
  pb_presented :: "heic_frame option"
  presented_image :: "image_reference option"
  pb_transition :: "dissolve option"
  retry_not_before :: "duration option"
  last_clock :: clock_snapshot
  last_monotonic :: duration

section \<open>Schedules\<close>

definition next_generation :: "u64 \<Rightarrow> u64 \<times> u64" where
  "next_generation counter = (counter, counter + 1)"

text \<open>\<open>slice::sort_by\<close> is a stable sort.\<close>

fun insert_by :: "('a \<Rightarrow> 'a \<Rightarrow> ordering) \<Rightarrow> 'a \<Rightarrow> 'a list \<Rightarrow> 'a list" where
  "insert_by cmp x [] = [x]"
| "insert_by cmp x (y # ys) = (if cmp x y = Greater then y # insert_by cmp x ys else x # y # ys)"

definition sort_by :: "('a \<Rightarrow> 'a \<Rightarrow> ordering) \<Rightarrow> 'a list \<Rightarrow> 'a list" where
  "sort_by cmp xs = foldr (insert_by cmp) xs []"

definition sorted_time_points :: "time_point list \<Rightarrow> time_point list" where
  "sorted_time_points pts =
     sort_by (\<lambda>l r. case partial_cmp (tp_time l) (tp_time r) of None \<Rightarrow> Equal | Some c \<Rightarrow> c) pts"

function boundary_search :: "f64 \<Rightarrow> nat \<Rightarrow> nat \<Rightarrow> nat" where
  "boundary_search t low high =
     (if low < high
      then let middle = low + (high - low) div 2
           in if f64_le t (f64_quotient middle SECONDS_PER_DAY)
              then boundary_search t low middle
              else boundary_search t (middle + 1) high
      else low)"
  by pat_completeness auto
termination by (relation "measure (\<lambda>(t, low, high). high - low)") auto

declare boundary_search.simps [simp del]

definition effective_boundary_second :: "f64 \<Rightarrow> nat" where
  "effective_boundary_second t = boundary_search t 0 SECONDS_PER_DAY"

text \<open>\<open>points.last().expect(..)\<close> panics on an empty schedule.\<close>

definition selected_point :: "time_point list \<Rightarrow> clock_snapshot \<Rightarrow> time_point option" where
  "selected_point pts clock =
     (case find (\<lambda>p. effective_boundary_second (tp_time p) \<le> seconds_of_day clock) (rev pts) of
        Some p \<Rightarrow> Some p
      | None \<Rightarrow> if pts = [] then None else Some (last pts))"

definition time_of_day :: "clock_snapshot \<Rightarrow> duration" where
  "time_of_day clock = duration_secs (seconds_of_day clock) + clock_nanosecond clock"

definition elapsed_since_boundary :: "duration \<Rightarrow> duration \<Rightarrow> duration" where
  "elapsed_since_boundary boundary now =
     (if boundary \<le> now then now - boundary
      else if boundary = duration_secs SECONDS_PER_DAY then now
      else duration_secs SECONDS_PER_DAY - boundary + now)"

definition boundary_start ::
  "time_point list \<Rightarrow> clock_snapshot \<Rightarrow> duration \<Rightarrow> duration option option" where
  "boundary_start pts clock monotonic =
     map_option (\<lambda>selected.
       duration_checked_sub monotonic
         (elapsed_since_boundary
           (duration_secs (effective_boundary_second (tp_time selected))) (time_of_day clock)))
       (selected_point pts clock)"

definition clock_discontinuity ::
  "clock_snapshot \<Rightarrow> duration \<Rightarrow> clock_snapshot \<Rightarrow> duration \<Rightarrow> bool" where
  "clock_discontinuity previous_clock previous_monotonic clock monotonic \<longleftrightarrow>
     utc_offset_seconds clock \<noteq> utc_offset_seconds previous_clock
     \<or> monotonic < previous_monotonic
     \<or> \<bar>(utc_nanoseconds clock - utc_nanoseconds previous_clock)
         - int (monotonic - previous_monotonic)\<bar> > CLOCK_TOLERANCE_NANOSECONDS"

section \<open>Frames\<close>

fun chunks4_opaque :: "u8 list \<Rightarrow> bool" where
  "chunks4_opaque (r # g # b # a # ps) = (a = 255 \<and> chunks4_opaque ps)"
| "chunks4_opaque _ = True"

definition valid_frame_with_limit :: "heic_frame \<Rightarrow> nat \<Rightarrow> bool" where
  "valid_frame_with_limit frame max_frame_bytes =
     (case Option.bind (checked_mul 64 (hf_width frame) 4)
             (\<lambda>row. checked_mul 64 row (hf_height frame)) of
        None \<Rightarrow> False
      | Some bytes \<Rightarrow>
          hf_width frame > 0 \<and> hf_height frame > 0 \<and> bytes \<le> max_frame_bytes
          \<and> length (hf_pixels frame) = bytes \<and> hf_capacity frame \<le> max_frame_bytes
          \<and> chunks4_opaque (hf_pixels frame))"

definition valid_frame :: "heic_frame \<Rightarrow> bool" where
  "valid_frame frame = valid_frame_with_limit frame MAX_FRAME_BYTES"

definition same_dimensions :: "heic_frame \<Rightarrow> heic_frame \<Rightarrow> bool" where
  "same_dimensions l r \<longleftrightarrow> hf_width l = hf_width r \<and> hf_height l = hf_height r"

text \<open>One channel, in \<open>u16\<close> arithmetic and then cut to \<open>u8\<close>.\<close>

definition blend_channel :: "u16 \<Rightarrow> u8 \<Rightarrow> u8 \<Rightarrow> u8" where
  "blend_channel to_weight from to =
     ucast ((ucast from * (256 - to_weight) + ucast to * to_weight + 128) div 256 :: u16)"

text \<open>\<open>reserved\<close> is what \<open>try_reserve_exact\<close> obtained.\<close>

definition blend_frames ::
  "heic_frame \<Rightarrow> heic_frame \<Rightarrow> u16 \<Rightarrow> nat \<Rightarrow> nat option \<Rightarrow> heic_frame option" where
  "blend_frames from to to_weight max_output_bytes reserved =
     (if length (hf_pixels to) > max_output_bytes then None
      else map_option (\<lambda>capacity.
        \<lparr>hf_width = hf_width to, hf_height = hf_height to,
         hf_pixels = map2 (blend_channel to_weight) (hf_pixels from) (hf_pixels to),
         hf_capacity = capacity\<rparr>) reserved)"

fun blend_pixels :: "u16 \<Rightarrow> u8 list \<Rightarrow> u8 list \<Rightarrow> u8 list \<Rightarrow> u8 list \<times> bool" where
  "blend_pixels w (x # out) (f # from) (t # to) =
     (let v = blend_channel w f t; (rest, changed) = blend_pixels w out from to
      in (v # rest, changed \<or> x \<noteq> v))"
| "blend_pixels w out _ _ = (out, False)"

definition blend_into :: "heic_frame \<Rightarrow> heic_frame \<Rightarrow> heic_frame \<Rightarrow> u16 \<Rightarrow> heic_frame \<times> bool" where
  "blend_into from to out to_weight =
     (let (pixels, changed) = blend_pixels to_weight (hf_pixels out) (hf_pixels from) (hf_pixels to)
      in (out\<lparr>hf_pixels := pixels\<rparr>, changed))"

section \<open>Operations\<close>

definition new_pending :: "u64 \<Rightarrow> image_reference \<Rightarrow> duration option \<Rightarrow> pending_decode" where
  "new_pending generation img started =
     \<lparr>pd_request = \<lparr>dr_generation = generation, dr_image = img\<rparr>,
      transition_started_at = started, pd_dispatched = False\<rparr>"

definition initial_mode ::
  "metadata \<Rightarrow> image_reference \<Rightarrow> appearance_preference \<Rightarrow> clock_snapshot \<Rightarrow> time_point list option
    \<Rightarrow> (playback_mode \<times> image_reference) option" where
  "initial_mode md primary app clock solar =
     (let time = (\<lambda>pts. let pts = sorted_time_points pts
                        in map_option (\<lambda>p. (PTime pts, tp_image p)) (selected_point pts clock))
      in case (if app = Automatic then solar else None) of
           Some pts \<Rightarrow> time pts
         | None \<Rightarrow>
             (case md_select md app False False of
                SelTime s \<Rightarrow> time (points s)
              | SelStatic img \<Rightarrow> Some (PStatic, img)
              | SelPrimary \<Rightarrow> Some (PStatic, primary)
              | SelSolar _ \<Rightarrow> None))"

definition with_solar ::
  "metadata \<Rightarrow> image_reference \<Rightarrow> appearance_preference \<Rightarrow> clock_snapshot \<Rightarrow> duration \<Rightarrow> bool
    \<Rightarrow> time_point list option \<Rightarrow> u64 \<Rightarrow> (playback \<times> u64) option" where
  "with_solar md primary app clock monotonic reduced solar counter =
     map_option (\<lambda>(mode, selected).
       (let (generation, counter) = next_generation counter in
        (\<lparr>pb_mode = mode, pb_primary = primary, reduced_motion = reduced, pb_selected = selected,
          pb_generation = generation, pb_pending = Some (new_pending generation selected None),
          pb_presented = None, presented_image = None, pb_transition = None,
          retry_not_before = None, last_clock = clock, last_monotonic = monotonic\<rparr>, counter)))
       (initial_mode md primary app clock solar)"

definition Playback_new ::
  "metadata \<Rightarrow> image_reference \<Rightarrow> appearance_preference \<Rightarrow> clock_snapshot \<Rightarrow> duration \<Rightarrow> bool \<Rightarrow> u64
    \<Rightarrow> (playback \<times> u64) option" where
  "Playback_new md primary app clock monotonic reduced counter =
     with_solar md primary app clock monotonic reduced None counter"

definition pb_frame :: "playback \<Rightarrow> heic_frame option" where
  "pb_frame pb = or_else (map_option tr_blend (pb_transition pb)) (pb_presented pb)"

definition is_transitioning :: "playback \<Rightarrow> bool" where
  "is_transitioning pb \<longleftrightarrow> pb_transition pb \<noteq> None"

definition take_decode_request :: "playback \<Rightarrow> playback \<times> decode_request option" where
  "take_decode_request pb =
     (case pb_pending pb of
        None \<Rightarrow> (pb, None)
      | Some p \<Rightarrow>
          if pd_dispatched p then (pb, None)
          else (pb\<lparr>pb_pending := Some (p\<lparr>pd_dispatched := True\<rparr>)\<rparr>, Some (pd_request p)))"

definition retry_due :: "playback \<Rightarrow> duration \<Rightarrow> bool" where
  "retry_due pb monotonic = (case retry_not_before pb of None \<Rightarrow> True | Some r \<Rightarrow> monotonic \<ge> r)"

text \<open>A fresh request for \<open>img\<close>: a new generation, which becomes the playback's own.\<close>

definition request_image ::
  "image_reference \<Rightarrow> duration option \<Rightarrow> playback \<times> u64 \<Rightarrow> playback \<times> u64" where
  "request_image img started = (\<lambda>(pb, counter).
     let (generation, counter) = next_generation counter in
     (pb\<lparr>pb_generation := generation, pb_pending := Some (new_pending generation img started)\<rparr>,
      counter))"

definition dissolve_start :: "playback \<Rightarrow> clock_snapshot \<Rightarrow> duration \<Rightarrow> duration option option" where
  "dissolve_start pb clock monotonic =
     (case pb_mode pb of
        PTime pts \<Rightarrow>
          if reduced_motion pb then Some None else boundary_start pts clock monotonic
      | PStatic \<Rightarrow> Some None)"

definition drop_dissolve :: "playback \<Rightarrow> playback" where
  "drop_dissolve pb =
     (case pb_transition pb of
        None \<Rightarrow> pb
      | Some t \<Rightarrow> pb\<lparr>pb_transition := None, pb_presented := Some (tr_blend t), presented_image := None\<rparr>)"

definition finish_dissolve :: "playback \<Rightarrow> playback \<times> bool" where
  "finish_dissolve pb =
     (case pb_transition pb of
        None \<Rightarrow> (pb, False)
      | Some t \<Rightarrow>
          (pb\<lparr>pb_transition := None, pb_presented := Some (tr_to t),
              presented_image := Some (tr_to_image t)\<rparr>,
           hf_pixels (tr_blend t) \<noteq> hf_pixels (tr_to t)))"

definition current_selection :: "playback \<Rightarrow> clock_snapshot \<Rightarrow> image_reference option" where
  "current_selection pb clock =
     (case pb_mode pb of
        PStatic \<Rightarrow> Some (pb_selected pb)
      | PTime pts \<Rightarrow> map_option tp_image (selected_point pts clock))"

text \<open>The three branches of \<open>synchronize_inner\<close>.\<close>

definition change_selection ::
  "image_reference \<Rightarrow> bool \<Rightarrow> clock_snapshot \<Rightarrow> duration \<Rightarrow> playback \<times> u64
    \<Rightarrow> (playback \<times> u64) option" where
  "change_selection selection discontinuity clock monotonic = (\<lambda>(pb, counter).
     let pb = drop_dissolve pb in
     map_option (\<lambda>started.
       request_image selection started
         (pb\<lparr>pb_selected := selection, retry_not_before := None\<rparr>, counter))
       (if discontinuity then Some None else dissolve_start pb clock monotonic))"

definition after_discontinuity ::
  "image_reference \<Rightarrow> duration \<Rightarrow> playback \<times> u64 \<Rightarrow> (playback \<times> u64) \<times> bool" where
  "after_discontinuity selection monotonic = (\<lambda>(pb, counter).
     let (pb, presentation_changed) = finish_dissolve pb in
     (if (case pb_pending pb of None \<Rightarrow> False | Some p \<Rightarrow> dr_image (pd_request p) = selection)
      then request_image selection None (pb, counter)
      else if pb_pending pb = None \<and> presented_image pb \<noteq> Some selection \<and> retry_due pb monotonic
      then (let (pb, counter) = request_image selection None (pb, counter)
            in (pb\<lparr>retry_not_before := None\<rparr>, counter))
      else (pb, counter), presentation_changed))"

definition retry_selection ::
  "image_reference \<Rightarrow> clock_snapshot \<Rightarrow> duration \<Rightarrow> playback \<times> u64 \<Rightarrow> (playback \<times> u64) option" where
  "retry_selection selection clock monotonic = (\<lambda>(pb, counter).
     if pb_pending pb = None \<and> pb_transition pb = None \<and> presented_image pb \<noteq> Some selection
        \<and> retry_due pb monotonic
     then map_option (\<lambda>started.
            let (pb, counter) = request_image selection started (pb, counter)
            in (pb\<lparr>retry_not_before := None\<rparr>, counter))
          (dissolve_start pb clock monotonic)
     else Some (pb, counter))"

definition synchronize_inner ::
  "clock_snapshot \<Rightarrow> duration \<Rightarrow> bool \<Rightarrow> playback \<times> u64
    \<Rightarrow> ((playback \<times> u64) \<times> synchronize_outcome) option" where
  "synchronize_inner clock monotonic force_discontinuity = (\<lambda>(pb, counter).
     let discontinuity = force_discontinuity
           \<or> clock_discontinuity (last_clock pb) (last_monotonic pb) clock monotonic in
     Option.bind (current_selection pb clock) (\<lambda>selection.
       let changed = (selection \<noteq> pb_selected pb) in
       map_option (\<lambda>((pb, counter), presentation).
           ((pb\<lparr>last_clock := clock, last_monotonic := monotonic\<rparr>, counter),
            \<lparr>selection_changed = changed, so_discontinuity = discontinuity,
             presentation_changed = presentation\<rparr>))
         (if changed
          then map_option (\<lambda>s. (s, False))
                 (change_selection selection discontinuity clock monotonic (pb, counter))
          else if discontinuity then Some (after_discontinuity selection monotonic (pb, counter))
          else map_option (\<lambda>s. (s, False))
                 (retry_selection selection clock monotonic (pb, counter)))))"

definition synchronize ::
  "clock_snapshot \<Rightarrow> duration \<Rightarrow> playback \<times> u64
    \<Rightarrow> ((playback \<times> u64) \<times> synchronize_outcome) option" where
  "synchronize clock monotonic s = synchronize_inner clock monotonic False s"

definition resynchronize_after_discontinuity ::
  "clock_snapshot \<Rightarrow> duration \<Rightarrow> playback \<times> u64
    \<Rightarrow> ((playback \<times> u64) \<times> synchronize_outcome) option" where
  "resynchronize_after_discontinuity clock monotonic s = synchronize_inner clock monotonic True s"

definition set_solar_schedule ::
  "time_point list \<Rightarrow> clock_snapshot \<Rightarrow> duration \<Rightarrow> playback \<times> u64
    \<Rightarrow> ((playback \<times> u64) \<times> synchronize_outcome) option" where
  "set_solar_schedule pts clock monotonic = (\<lambda>(pb, counter).
     synchronize_inner clock monotonic False
       (pb\<lparr>pb_mode := PTime (sorted_time_points pts)\<rparr>, counter))"

definition until_boundary :: "duration \<Rightarrow> time_point \<Rightarrow> duration" where
  "until_boundary now p =
     (let boundary = duration_secs (effective_boundary_second (tp_time p)) in
      if boundary > now then boundary - now
      else duration_secs SECONDS_PER_DAY - now + boundary)"

fun list_min :: "nat list \<Rightarrow> nat option" where
  "list_min [] = None"
| "list_min (x # xs) = Some (fold min xs x)"

fun option_list :: "'a option \<Rightarrow> 'a list" where
  "option_list None = []"
| "option_list (Some x) = [x]"

definition next_wake :: "playback \<Rightarrow> clock_snapshot \<Rightarrow> duration \<Rightarrow> duration option" where
  "next_wake pb clock monotonic =
     (let now = time_of_day clock;
          boundary = (case pb_mode pb of
             PTime pts \<Rightarrow> list_min (map (until_boundary now) pts)
           | PStatic \<Rightarrow> None);
          retry = (if pb_pending pb = None \<and> pb_transition pb = None
                      \<and> presented_image pb \<noteq> Some (pb_selected pb)
             then map_option (\<lambda>deadline. deadline - monotonic) (retry_not_before pb)
             else None)
      in if boundary = None \<and> retry = None then None
         else Some (fold min (option_list boundary @ option_list retry) RESYNCHRONIZE_AFTER))"

definition queue_primary_fallback :: "image_reference \<Rightarrow> playback \<times> u64 \<Rightarrow> playback \<times> u64" where
  "queue_primary_fallback failed_image = (\<lambda>(pb, counter).
     if pb_presented pb \<noteq> None \<or> failed_image = pb_primary pb then (pb, counter)
     else request_image (pb_primary pb) None (pb, counter))"

definition dissolve_weight :: "duration \<Rightarrow> u16" where
  "dissolve_weight elapsed = of_nat (min (saturating_mul 128 elapsed 256 div DISSOLVE_DURATION) 256)"

definition advance_transition :: "duration \<Rightarrow> playback \<Rightarrow> playback \<times> bool" where
  "advance_transition monotonic pb =
     (case pb_transition pb of
        None \<Rightarrow> (pb, False)
      | Some t \<Rightarrow>
          if monotonic - tr_started_at t \<ge> DISSOLVE_DURATION then finish_dissolve pb
          else let (blend, changed) = blend_into (tr_from t) (tr_to t) (tr_blend t)
                     (dissolve_weight (monotonic - tr_started_at t))
               in (pb\<lparr>pb_transition := Some (t\<lparr>tr_blend := blend\<rparr>)\<rparr>, changed))"

definition present_frame :: "heic_frame \<Rightarrow> image_reference \<Rightarrow> playback \<Rightarrow> playback" where
  "present_frame frame img pb =
     pb\<lparr>pb_transition := None, pb_presented := Some frame, presented_image := Some img\<rparr>"

definition decode_failed ::
  "decode_outcome \<Rightarrow> decode_request \<Rightarrow> duration \<Rightarrow> playback \<times> u64
    \<Rightarrow> (playback \<times> u64) \<times> decode_outcome" where
  "decode_failed outcome request monotonic = (\<lambda>(pb, counter).
     (queue_primary_fallback (dr_image request)
        (pb\<lparr>retry_not_before := duration_checked_add monotonic RESYNCHRONIZE_AFTER\<rparr>, counter),
      outcome))"

text \<open>What a valid frame does: presented at once, or the start of a dissolve.\<close>

definition adopt_frame ::
  "decode_request \<Rightarrow> heic_frame \<Rightarrow> duration option \<Rightarrow> duration \<Rightarrow> nat \<Rightarrow> nat option \<Rightarrow> playback
    \<Rightarrow> playback \<times> decode_outcome" where
  "adopt_frame request frame started monotonic max_blend_bytes reserved pb =
     (let present = (\<lambda>pb. (present_frame frame (dr_image request) pb, DPresented)) in
      case pb_presented pb of
        None \<Rightarrow> present pb
      | Some previous \<Rightarrow>
          let pb = pb\<lparr>pb_presented := None\<rparr> in
          (case started of
             None \<Rightarrow> present pb
           | Some started_at \<Rightarrow>
               if monotonic - started_at \<ge> DISSOLVE_DURATION \<or> \<not> same_dimensions previous frame
               then present pb
               else case blend_frames previous frame 0 max_blend_bytes reserved of
                   None \<Rightarrow> present pb
                 | Some blend \<Rightarrow>
                     let (pb, _) = advance_transition monotonic
                       (pb\<lparr>presented_image := None,
                           pb_transition := Some \<lparr>tr_from = previous, tr_to = frame, tr_blend = blend,
                             tr_to_image = dr_image request, tr_started_at = started_at\<rparr>\<rparr>)
                     in (pb, if pb_transition pb \<noteq> None then DTransitioning else DPresented)))"

definition complete_decode_with_limit ::
  "decode_request \<Rightarrow> heic_frame option \<Rightarrow> duration \<Rightarrow> nat \<Rightarrow> nat option \<Rightarrow> playback \<times> u64
    \<Rightarrow> (playback \<times> u64) \<times> decode_outcome" where
  "complete_decode_with_limit request result monotonic max_blend_bytes reserved = (\<lambda>(pb, counter).
     case pb_pending pb of
       None \<Rightarrow> ((pb, counter), DIgnored)
     | Some pending \<Rightarrow>
         if pd_request pending \<noteq> request \<or> \<not> pd_dispatched pending then ((pb, counter), DIgnored)
         else let pb = pb\<lparr>pb_pending := None\<rparr> in
           case result of
             None \<Rightarrow> decode_failed DFailed request monotonic (pb, counter)
           | Some frame \<Rightarrow>
               if \<not> valid_frame frame
               then decode_failed DRejected request monotonic (pb, counter)
               else let pb = (if dr_image request = pb_selected pb
                              then pb\<lparr>retry_not_before := None\<rparr> else pb);
                        (pb, outcome) = adopt_frame request frame (transition_started_at pending)
                                          monotonic max_blend_bytes reserved pb
                    in ((pb, counter), outcome))"

definition complete_decode ::
  "decode_request \<Rightarrow> heic_frame option \<Rightarrow> duration \<Rightarrow> nat option \<Rightarrow> playback \<times> u64
    \<Rightarrow> (playback \<times> u64) \<times> decode_outcome" where
  "complete_decode request result monotonic reserved s =
     complete_decode_with_limit request result monotonic MAX_FRAME_BYTES reserved s"

end
