(* ===== verification/Playback_Schedule.thy ===== *)
theory Playback_Schedule
  imports Playback
begin

text \<open>
  The time schedule of \<open>src/dynamic_wallpaper/playback.rs\<close>: the binary search for the first second
  at which a point of the schedule has come, on the doubles the code compares; the point that is due
  at a time of day, compared with the circular order of the day; and the wake delay, which never
  sleeps through a boundary.
\<close>

section \<open>The first second of a point\<close>

abbreviation day_fraction :: "nat \<Rightarrow> f64" where
  "day_fraction m \<equiv> f64_quotient m SECONDS_PER_DAY"

lemma round64_one: "round64 1 = Fin 1"
proof -
  have "ilog2 1 = 0" by (simp add: ilog2_def quotient_of_int [of 1, simplified] compute_floorlog)
  then have s: "spacing 1 = 2 powi (- 52)" by (simp add: spacing_def)
  have "1 / (2 :: rat) powi (- 52) = of_int (2 ^ 52)" by (simp add: power_int_minus)
  then have "round_half_even (1 / spacing 1) = 2 ^ 52"
    by (simp only: s) (simp add: round_half_even_def Let_def)
  moreover have "of_int (2 ^ 52) * (2 :: rat) powi (- 52) = 1" by (simp add: power_int_minus)
  moreover have "\<not> \<bar>1 :: rat\<bar> \<ge> 2 ^ 1024" by simp
  ultimately show ?thesis by (simp only: round64_def Let_def s) simp
qed

lemma day_fraction_86400: "day_fraction 86400 = Fin 1"
  by (simp add: f64_quotient_def SECONDS_PER_DAY_def round64_one)

lemma day_fraction_error:
  assumes "m \<le> 86400"
  obtains v where "day_fraction m = Fin v"
    "\<bar>v - of_nat m / 86400\<bar> \<le> of_nat m / 86400 / 2 ^ 53"
proof (cases "m = 0")
  case True
  then show thesis using that [of 0] by (simp add: f64_quotient_def round64_def)
next
  case False
  have "(2 :: rat) powi (- 1022) \<le> 1 / 86400"
  proof -
    have "(2 :: rat) powi (- 1022) = 1 / 2 ^ 1022" by (simp add: power_int_minus field_simps)
    also have "\<dots> \<le> 1 / 86400" by (intro frac_le) simp_all
    finally show ?thesis .
  qed
  also have "(1 :: rat) / 86400 \<le> of_nat m / 86400" using False by simp
  finally have "2 powi (- 1022) \<le> (of_nat m / 86400 :: rat)" .
  moreover have "of_nat m / 86400 \<le> (1 :: rat)" using assms by simp
  ultimately obtain v where "round64 (of_nat m / 86400) = Fin v"
    "\<bar>v - of_nat m / 86400\<bar> \<le> of_nat m / 86400 / 2 ^ 53" by (rule round64_error)
  then show thesis using that by (simp add: f64_quotient_def SECONDS_PER_DAY_def)
qed

lemma apart:
  fixes a b v w :: rat
  assumes "a + 1 \<le> b" "b \<le> 86400" "0 \<le> a"
    "\<bar>v * 86400 - a\<bar> * 2 ^ 53 \<le> a" "\<bar>w * 86400 - b\<bar> * 2 ^ 53 \<le> b"
  shows "v < w"
proof -
  have "\<bar>v * 86400 - a\<bar> * 2 ^ 53 \<le> 2 ^ 51" "\<bar>w * 86400 - b\<bar> * 2 ^ 53 \<le> 2 ^ 51"
    using assms by simp_all
  then have "\<bar>v * 86400 - a\<bar> \<le> 1 / 4" "\<bar>w * 86400 - b\<bar> \<le> 1 / 4" by simp_all
  with assms(1) show ?thesis by linarith
qed

text \<open>Rounding keeps the seconds of the day apart and in order.\<close>

lemma day_fraction_less:
  assumes "m < n" "n \<le> 86400"
  shows "\<exists>v w. day_fraction m = Fin v \<and> day_fraction n = Fin w \<and> v < w"
proof -
  obtain v where v: "day_fraction m = Fin v" "\<bar>v - of_nat m / 86400\<bar> \<le> of_nat m / 86400 / 2 ^ 53"
    using day_fraction_error [of m] assms by auto
  obtain w where w: "day_fraction n = Fin w" "\<bar>w - of_nat n / 86400\<bar> \<le> of_nat n / 86400 / 2 ^ 53"
    using day_fraction_error [of n] assms by auto
  have "of_nat m + 1 \<le> (of_nat n :: rat)" "of_nat n \<le> (86400 :: rat)" "0 \<le> (of_nat m :: rat)"
    using assms by (simp_all flip: of_nat_Suc)
  moreover have "\<bar>v * 86400 - of_nat m\<bar> * 2 ^ 53 \<le> of_nat m" "\<bar>w * 86400 - of_nat n\<bar> * 2 ^ 53 \<le> of_nat n"
    using v(2) w(2) by (simp_all add: abs_le_iff field_simps)
  ultimately have "v < w" by (intro apart [of "of_nat m" "of_nat n"]) simp_all
  with v(1) w(1) show ?thesis by blast
qed

lemma f64_le_trans: "f64_le t (Fin x) \<Longrightarrow> x \<le> y \<Longrightarrow> f64_le t (Fin y)"
  by (cases t) auto

lemma day_fraction_mono: "f64_le t (day_fraction m) \<Longrightarrow> m \<le> n \<Longrightarrow> n \<le> 86400 \<Longrightarrow> f64_le t (day_fraction n)"
  using day_fraction_less [of m n] f64_le_trans less_imp_le by (cases "m = n") fastforce+

lemma boundary_search_least:
  assumes "low \<le> high" "high \<le> 86400" "f64_le t (day_fraction high)"
    "\<forall>k < low. \<not> f64_le t (day_fraction k)"
  shows "boundary_search t low high \<le> high \<and> f64_le t (day_fraction (boundary_search t low high))
    \<and> (\<forall>k < boundary_search t low high. \<not> f64_le t (day_fraction k))"
  using assms
proof (induction t low high rule: boundary_search.induct)
  case (1 t low high)
  let ?m = "low + (high - low) div 2"
  show ?case
  proof (cases "low < high")
    case True
    then have m: "low \<le> ?m" "?m < high" "?m + 1 \<le> high" by auto
    show ?thesis
    proof (cases "f64_le t (day_fraction ?m)")
      case above: True
      then have eq: "boundary_search t low high = boundary_search t low ?m"
        using True by (simp add: boundary_search.simps [of t low high] Let_def)
      have "?m \<le> 86400" using m(2) 1(4) by simp
      from "1.IH"(1) [OF True refl above m(1) this above 1(6)] m(2) show ?thesis
        unfolding eq by simp
    next
      case below: False
      then have eq: "boundary_search t low high = boundary_search t (?m + 1) high"
        using True by (simp add: boundary_search.simps [of t low high] Let_def)
      have "\<forall>k < ?m + 1. \<not> f64_le t (day_fraction k)"
        using below m(2) 1(4) day_fraction_mono [of t _ ?m] by (auto simp: less_Suc_eq_le)
      from "1.IH"(2) [OF True refl below m(3) 1(4,5) this] show ?thesis unfolding eq .
    qed
  next
    case False
    then have eq: "boundary_search t low high = low" by (simp add: boundary_search.simps [of t low high])
    from False "1.prems"(1) have "low = high" by simp
    with "1.prems" show ?thesis unfolding eq by simp
  qed
qed

definition normalized :: "f64 \<Rightarrow> bool" where
  "normalized t \<longleftrightarrow> NormalizedTime_new t = Inr t"

lemma normalizedE:
  assumes "normalized t" obtains x where "t = Fin x" "0 \<le> x" "x < 1"
  using assms by (cases t) (auto simp: normalized_def NormalizedTime_new_def split: if_splits)

text \<open>The search returns the least second of the day whose fraction, as a double, reaches \<open>t\<close>.\<close>

lemma effective_boundary_least:
  assumes "normalized t"
  shows "effective_boundary_second t \<le> 86400"
    and "f64_le t (day_fraction (effective_boundary_second t))"
    and "k < effective_boundary_second t \<Longrightarrow> \<not> f64_le t (day_fraction k)"
proof -
  from assms obtain x where "t = Fin x" "x < 1" by (rule normalizedE)
  then have "f64_le t (day_fraction 86400)" by (simp add: day_fraction_86400)
  from boundary_search_least [of 0 86400 t, OF _ _ this]
  show "effective_boundary_second t \<le> 86400"
    "f64_le t (day_fraction (effective_boundary_second t))"
    "k < effective_boundary_second t \<Longrightarrow> \<not> f64_le t (day_fraction k)"
    by (simp_all add: effective_boundary_second_def SECONDS_PER_DAY_def)
qed

lemma effective_boundary_mono:
  assumes "normalized t" "normalized u" "f64_le t u"
  shows "effective_boundary_second t \<le> effective_boundary_second u"
proof (rule ccontr)
  assume "\<not> ?thesis"
  then have "\<not> f64_le t (day_fraction (effective_boundary_second u))"
    using effective_boundary_least(3) [OF assms(1)] by simp
  moreover have "f64_le u (day_fraction (effective_boundary_second u))"
    using assms(2) by (rule effective_boundary_least)
  ultimately show False using assms
    by (auto elim!: normalizedE) (cases "day_fraction (effective_boundary_second u)"; auto)
qed

lemma day_fraction_normalized:
  assumes "s < 86400" shows "normalized (day_fraction s)"
proof -
  obtain v where v: "day_fraction s = Fin v" "v < 1"
    using day_fraction_less [of s 86400] assms by (auto simp: day_fraction_86400)
  have "0 \<le> v" using day_fraction_less [of 0 s] assms v(1)
    by (cases "s = 0") (auto simp: f64_quotient_def round64_def)
  with v show ?thesis by (simp add: normalized_def NormalizedTime_new_def)
qed

lemma effective_boundary_day_fraction:
  assumes "s < 86400" shows "effective_boundary_second (day_fraction s) = s"
proof -
  let ?b = "effective_boundary_second (day_fraction s)"
  note n = day_fraction_normalized [OF assms]
  obtain v where v: "day_fraction s = Fin v" using n by (auto elim: normalizedE)
  have "\<not> s < ?b" using effective_boundary_least(3) [OF n, of s] v by auto
  moreover have "\<not> ?b < s"
    using effective_boundary_least(2) [OF n] day_fraction_less [of ?b s] assms v by auto
  ultimately show ?thesis by simp
qed

section \<open>The point that is due\<close>

abbreviation boundary_of :: "time_point \<Rightarrow> nat" where
  "boundary_of p \<equiv> effective_boundary_second (tp_time p)"

definition valid_points :: "time_point list \<Rightarrow> bool" where
  "valid_points pts \<longleftrightarrow> pts \<noteq> [] \<and> list_all (\<lambda>p. normalized (tp_time p)) pts"

fun f64_value :: "f64 \<Rightarrow> rat" where
  "f64_value (Fin x) = x"
| "f64_value _ = 0"

text \<open>The stable sort by \<open>partial_cmp\<close> is the library's stable sort by key.\<close>

abbreviation time_key :: "time_point \<Rightarrow> rat" where
  "time_key p \<equiv> f64_value (tp_time p)"

abbreviation time_cmp :: "time_point \<Rightarrow> time_point \<Rightarrow> ordering" where
  "time_cmp l r \<equiv> (case partial_cmp (tp_time l) (tp_time r) of None \<Rightarrow> Equal | Some c \<Rightarrow> c)"

lemma time_cmp_Greater:
  "normalized (tp_time l) \<Longrightarrow> normalized (tp_time r) \<Longrightarrow>
    time_cmp l r = Greater \<longleftrightarrow> \<not> time_key l \<le> time_key r"
  by (auto elim!: normalizedE split: if_splits)

lemma insert_by_insort:
  "list_all (\<lambda>p. normalized (tp_time p)) (x # ys) \<Longrightarrow> insert_by time_cmp x ys = insort_key time_key x ys"
proof (induction ys)
  case (Cons y ys)
  then have "normalized (tp_time x)" "normalized (tp_time y)" by simp_all
  from time_cmp_Greater [OF this] Cons show ?case by simp
qed simp

lemma sorted_time_points_sort:
  assumes "valid_points pts"
  shows "sorted_time_points pts = sort_key time_key pts"
proof -
  have "list_all (\<lambda>p. normalized (tp_time p)) pts" using assms by (simp add: valid_points_def)
  then have "sort_by time_cmp pts = sort_key time_key pts"
  proof (induction pts)
    case Nil
    then show ?case by (simp add: sort_by_def)
  next
    case (Cons x pts)
    moreover from Cons have "list_all (\<lambda>p. normalized (tp_time p)) (x # sort_key time_key pts)"
      by (simp add: list_all_iff)
    ultimately show ?case using insert_by_insort [of x "sort_key time_key pts"]
      by (simp add: sort_by_def)
  qed
  then show ?thesis by (simp only: sorted_time_points_def)
qed

text \<open>What the playback keeps of its points: validated and in order.\<close>

definition ordered_points :: "time_point list \<Rightarrow> bool" where
  "ordered_points pts \<longleftrightarrow> valid_points pts \<and> sorted (map time_key pts)"

lemma ordered_sorted_time_points:
  "valid_points pts \<Longrightarrow> ordered_points (sorted_time_points pts)"
  by (auto simp: ordered_points_def sorted_time_points_sort valid_points_def list_all_iff)
    (metis set_empty set_sort)

lemma set_sorted_time_points: "valid_points pts \<Longrightarrow> set (sorted_time_points pts) = set pts"
  by (simp add: sorted_time_points_sort)

lemma ordered_boundaries:
  assumes "ordered_points pts" shows "sorted (map boundary_of pts)"
proof -
  have "boundary_of p \<le> boundary_of q"
    if "p \<in> set pts" "q \<in> set pts" "time_key p \<le> time_key q" for p q
  proof -
    have "normalized (tp_time p)" "normalized (tp_time q)"
      using assms that by (auto simp: ordered_points_def valid_points_def list_all_iff)
    with that(3) show ?thesis by (intro effective_boundary_mono) (auto elim!: normalizedE)
  qed
  moreover have "sorted_wrt (\<lambda>p q. time_key p \<le> time_key q) pts"
    using assms by (simp add: ordered_points_def sorted_map)
  ultimately show ?thesis unfolding sorted_map by (rule sorted_wrt_mono_rel)
qed

lemma boundary_le_day: "valid_points pts \<Longrightarrow> p \<in> set pts \<Longrightarrow> boundary_of p \<le> 86400"
  using effective_boundary_least(1) by (auto simp: valid_points_def list_all_iff)

text \<open>How long ago, on the circular day, the boundary of a point was last passed, in seconds.\<close>

definition passed_since :: "nat \<Rightarrow> time_point \<Rightarrow> nat" where
  "passed_since now p = (if boundary_of p \<le> now then now - boundary_of p else now + 86400 - boundary_of p)"

definition latest_passed :: "nat \<Rightarrow> time_point list \<Rightarrow> time_point \<Rightarrow> bool" where
  "latest_passed now pts p \<longleftrightarrow> p \<in> set pts \<and> (\<forall>q \<in> set pts. passed_since now p \<le> passed_since now q)"

text \<open>
  \<open>selected_point\<close> reads off the list: the last point whose boundary has come today, or the last of
  all. It depends on the clock only through which boundaries have come.
\<close>

definition last_or_all :: "(time_point \<Rightarrow> bool) \<Rightarrow> time_point list \<Rightarrow> time_point" where
  "last_or_all P pts = (if filter P pts = [] then last pts else last (filter P pts))"

lemma find_rev: "find P (rev xs) = (if filter P xs = [] then None else Some (last (filter P xs)))"
  by (induction xs rule: rev_induct) auto

lemma selected_point_last:
  "pts \<noteq> [] \<Longrightarrow> selected_point pts clock
    = Some (last_or_all (\<lambda>p. boundary_of p \<le> seconds_of_day clock) pts)"
  by (simp add: selected_point_def find_rev last_or_all_def)

lemma selected_point_Some: "valid_points pts \<Longrightarrow> selected_point pts clock \<noteq> None"
  by (simp add: selected_point_last valid_points_def)

lemma sorted_last: "sorted (map f xs) \<Longrightarrow> x \<in> set xs \<Longrightarrow> f x \<le> f (last xs)"
  by (induction xs) auto

lemma last_or_all_latest:
  assumes "ordered_points pts" "now < 86400"
  shows "latest_passed now pts (last_or_all (\<lambda>p. boundary_of p \<le> now) pts)"
proof -
  let ?P = "\<lambda>p. boundary_of p \<le> now"
  have v: "valid_points pts" and s: "sorted (map boundary_of pts)"
    using assms(1) ordered_boundaries by (simp_all add: ordered_points_def)
  have ne: "pts \<noteq> []" using v by (simp add: valid_points_def)
  show ?thesis
  proof (cases "filter ?P pts = []")
    case True
    then have "\<forall>q \<in> set pts. now < boundary_of q" by (auto simp: filter_empty_conv)
    moreover have "boundary_of q \<le> boundary_of (last pts)" if "q \<in> set pts" for q
      using sorted_last [OF s that] .
    moreover have "last pts \<in> set pts" using ne by simp
    ultimately show ?thesis using True
      by (auto simp: latest_passed_def last_or_all_def passed_since_def intro: diff_le_mono2)
  next
    case False
    let ?p = "last (filter ?P pts)"
    have p: "?p \<in> set pts" "boundary_of ?p \<le> now" using last_in_set [OF False] by auto
    have "sorted (map boundary_of (filter ?P pts))" using s by (rule sorted_filter)
    then have "boundary_of q \<le> boundary_of ?p" if "q \<in> set pts" "?P q" for q
      using sorted_last [of boundary_of "filter ?P pts" q] that by simp
    then have "passed_since now ?p \<le> passed_since now q" if "q \<in> set pts" for q
      using p that boundary_le_day [OF v that] by (auto simp: passed_since_def intro: diff_le_mono2)
    with p(1) False show ?thesis by (simp add: latest_passed_def last_or_all_def)
  qed
qed

text \<open>
  C31. The image of a time schedule is the one whose boundary was passed most recently on the circular
  day, whatever the authored order of the points; and the boundary of a point is the least second of
  the day whose fraction, rounded to a double as the code computes it, reaches the point's time.
\<close>
theorem selected_point_latest:
  assumes "valid_points pts" "valid_clock c"
  shows "(\<exists>p. selected_point (sorted_time_points pts) c = Some p
      \<and> latest_passed (seconds_of_day c) pts p)
    \<and> list_all (\<lambda>p. boundary_of p = (LEAST s. f64_le (tp_time p) (day_fraction s))) pts"
proof -
  let ?s = "sorted_time_points pts"
  have o: "ordered_points ?s" using assms(1) by (rule ordered_sorted_time_points)
  then have "?s \<noteq> []" by (simp add: ordered_points_def valid_points_def)
  then have "selected_point ?s c = Some (last_or_all (\<lambda>p. boundary_of p \<le> seconds_of_day c) ?s)"
    by (rule selected_point_last)
  moreover have "latest_passed (seconds_of_day c) ?s
      (last_or_all (\<lambda>p. boundary_of p \<le> seconds_of_day c) ?s)"
    using last_or_all_latest [OF o seconds_of_day_less [OF assms(2)]] .
  then have "latest_passed (seconds_of_day c) pts
      (last_or_all (\<lambda>p. boundary_of p \<le> seconds_of_day c) ?s)"
    by (simp add: latest_passed_def set_sorted_time_points [OF assms(1)])
  moreover have "boundary_of p = (LEAST s. f64_le (tp_time p) (day_fraction s))"
    if "p \<in> set pts" for p
  proof -
    have n: "normalized (tp_time p)" using assms(1) that by (auto simp: valid_points_def list_all_iff)
    show ?thesis
      by (rule Least_equality [symmetric])
        (use effective_boundary_least [OF n] in \<open>auto simp: not_less [symmetric]\<close>)
  qed
  ultimately show ?thesis by (simp add: list_all_iff)
qed

definition demo_points :: "time_point list" where
  "demo_points = [\<lparr>tp_image = 0, tp_time = day_fraction 0\<rparr>,
     \<lparr>tp_image = 1, tp_time = day_fraction 43200\<rparr>]"

definition demo_clock :: "nat \<Rightarrow> nat \<Rightarrow> clock_snapshot" where
  "demo_clock h m = \<lparr>clock_date = ymd 2026 2 28,
     clock_time = \<lparr>time_hour = h, time_minute = m, time_second = 0\<rparr>,
     clock_nanosecond = 0, utc_offset_seconds = 3600\<rparr>"

lemma valid_demo_points [simp]: "valid_points demo_points"
  by (simp add: demo_points_def valid_points_def day_fraction_normalized)

lemma selected_demo_points:
  "selected_point demo_points c
    = Some (if seconds_of_day c < 43200 then demo_points ! 0 else demo_points ! 1)"
  by (simp add: selected_point_def demo_points_def effective_boundary_day_fraction)

lemma valid_demo_clock [simp]: "h < 24 \<Longrightarrow> m < 60 \<Longrightarrow> valid_clock (demo_clock h m)"
  by (simp add: demo_clock_def valid_clock_def valid_date_def CivilDate_new_def CivilTime_new_def
      ClockSnapshot_new_with_nanosecond_def days_in_month_def)

theorem selected_point_latest_witness:
  "\<exists>p. selected_point (sorted_time_points demo_points) (demo_clock 13 30) = Some p
    \<and> latest_passed (seconds_of_day (demo_clock 13 30)) demo_points p"
  using selected_point_latest [of demo_points "demo_clock 13 30"] by simp

section \<open>Waking up in time\<close>

lemma time_of_day_boundary:
  assumes "valid_clock c"
  shows "duration_secs b \<le> time_of_day c \<longleftrightarrow> b \<le> seconds_of_day c"
  using clock_nanosecond_less [OF assms] by (auto simp: duration_secs_def time_of_day_def)

lemma time_of_day_less: "valid_clock c \<Longrightarrow> time_of_day c < duration_secs 86400"
  using seconds_of_day_less [of c] clock_nanosecond_less [of c]
  by (simp add: duration_secs_def time_of_day_def)

lemma last_or_all_cong:
  "(\<And>p. p \<in> set pts \<Longrightarrow> P p \<longleftrightarrow> Q p) \<Longrightarrow> last_or_all P pts = last_or_all Q pts"
  by (simp add: last_or_all_def cong: filter_cong)

lemma last_or_all_const:
  "(\<forall>p \<in> set pts. P p) \<or> (\<forall>p \<in> set pts. \<not> P p) \<Longrightarrow> last_or_all P pts = last pts"
  by (auto simp: last_or_all_def filter_empty_conv filter_id_conv [THEN iffD2])

lemma selection_stable:
  assumes "valid_clock c" "valid_clock c'" "valid_points pts"
    and later: "time_of_day c' = (time_of_day c + d) mod duration_secs SECONDS_PER_DAY"
    and d: "\<forall>p \<in> set pts. d < until_boundary (time_of_day c) p" and "d < duration_secs 86400"
  shows "selected_point pts c' = selected_point pts c"
proof -
  let ?P = "\<lambda>c p. boundary_of p \<le> seconds_of_day c"
  let ?n = "time_of_day c" and ?D = "duration_secs 86400"
  have n: "?n < ?D" using assms(1) by (rule time_of_day_less)
  have P: "?P c p \<longleftrightarrow> duration_secs (boundary_of p) \<le> ?n"
    "?P c' p \<longleftrightarrow> duration_secs (boundary_of p) \<le> time_of_day c'" for p
    using time_of_day_boundary assms(1,2) by blast+
  have u: "?n + d < duration_secs (boundary_of p) \<or> duration_secs (boundary_of p) \<le> ?n
      \<and> d < ?D - ?n + duration_secs (boundary_of p)" if "p \<in> set pts" for p
    using d that by (auto simp: until_boundary_def Let_def SECONDS_PER_DAY_def split: if_splits)
  have le: "duration_secs (boundary_of p) \<le> ?D" if "p \<in> set pts" for p
    using boundary_le_day [OF assms(3) that] by (simp add: duration_secs_def)
  have ne: "pts \<noteq> []" using assms(3) by (simp add: valid_points_def)
  have "last_or_all (?P c') pts = last_or_all (?P c) pts"
  proof (cases "?n + d < ?D")
    case True
    then have "time_of_day c' = ?n + d" using later by (simp add: SECONDS_PER_DAY_def)
    then show ?thesis using u unfolding P by (intro last_or_all_cong) fastforce
  next
    case False
    then have c': "time_of_day c' = ?n + d - ?D"
      using later assms(6) n by (simp add: SECONDS_PER_DAY_def mod_if)
    have "duration_secs (boundary_of p) \<le> ?n \<and> ?n + d - ?D < duration_secs (boundary_of p)"
      if "p \<in> set pts" for p
      using u [OF that] le [OF that] False n by auto
    then have "\<forall>p \<in> set pts. ?P c p" "\<forall>p \<in> set pts. \<not> ?P c' p"
      unfolding P c' by (auto simp: not_le)
    then show ?thesis by (simp add: last_or_all_const)
  qed
  with ne show ?thesis by (simp add: selected_point_last)
qed

lemma fold_min_le: "fold min xs (x :: nat) \<le> x \<and> (\<forall>y \<in> set xs. fold min xs x \<le> y)"
proof (induction xs arbitrary: x)
  case (Cons a xs)
  from Cons [of "min a x"] show ?case by simp
qed simp

lemma list_min_le: "list_min xs = Some m \<Longrightarrow> y \<in> set xs \<Longrightarrow> m \<le> y"
  using fold_min_le [of "tl xs" "hd xs"] by (cases xs) auto

text \<open>
  C39. Sleeping for less than \<open>Playback::next_wake\<close> never sleeps through a boundary of the schedule:
  as long as the clock has advanced by less than the delay, across midnight or not, the point that is
  due is still the one that was due, and the delay is at most a minute.
\<close>
theorem next_wake_in_time:
  assumes "pb_mode pb = PTime pts" "valid_points pts" "valid_clock c" "valid_clock c'"
    and "time_of_day c' = (time_of_day c + d) mod duration_secs SECONDS_PER_DAY"
  shows "\<exists>w. next_wake pb c m = Some w \<and> w \<le> duration_secs 60
    \<and> (d < w \<longrightarrow> selected_point pts c' = selected_point pts c)"
proof -
  let ?u = "map (until_boundary (time_of_day c)) pts"
  obtain b where b: "list_min ?u = Some b"
    using assms(2) by (cases ?u) (auto simp: valid_points_def)
  obtain w where w: "next_wake pb c m = Some w" and le: "w \<le> RESYNCHRONIZE_AFTER" "w \<le> b"
    using assms(1) b fold_min_le [where x = "min b RESYNCHRONIZE_AFTER"]
    by (simp add: next_wake_def Let_def)
  have "selected_point pts c' = selected_point pts c" if "d < w"
  proof (rule selection_stable [OF assms(3,4,2,5)])
    show "\<forall>p \<in> set pts. d < until_boundary (time_of_day c) p"
    proof
      fix p assume "p \<in> set pts"
      then have "b \<le> until_boundary (time_of_day c) p" by (intro list_min_le [OF b]) simp
      with that le(2) show "d < until_boundary (time_of_day c) p" by simp
    qed
    show "d < duration_secs 86400"
      using that le(1) by (simp add: RESYNCHRONIZE_AFTER_def duration_secs_def)
  qed
  with w le(1) show ?thesis by (auto simp: RESYNCHRONIZE_AFTER_def)
qed

definition demo_playback :: playback where
  "demo_playback = \<lparr>pb_mode = PTime demo_points, pb_primary = 0, reduced_motion = False,
     pb_selected = 1, pb_generation = 1, pb_pending = None, pb_presented = None,
     presented_image = None, pb_transition = None, retry_not_before = None,
     last_clock = demo_clock 13 30, last_monotonic = 0\<rparr>"

theorem next_wake_in_time_witness:
  "\<exists>w. next_wake demo_playback (demo_clock 13 30) 0 = Some w \<and> w \<le> duration_secs 60"
proof -
  have "time_of_day (demo_clock 13 30)
      = (time_of_day (demo_clock 13 30) + 0) mod duration_secs SECONDS_PER_DAY"
    by (simp add: demo_clock_def time_of_day_def seconds_of_day_def duration_secs_def SECONDS_PER_DAY_def)
  from next_wake_in_time [of demo_playback demo_points "demo_clock 13 30" "demo_clock 13 30", OF _ _ _ _ this]
  show ?thesis by (auto simp: demo_playback_def)
qed

end
