(* ===== verification/Playback_Run.thy ===== *)
theory Playback_Run
  imports Playback_Schedule
begin

text \<open>
  Runs of the playback of \<open>src/dynamic_wallpaper/playback.rs\<close>: the invariant of its state, which
  excludes its panics and bounds the frames it retains; what becomes of decode results that come
  late; and that a changed selection ends up on the screen.
\<close>

section \<open>Blending\<close>

lemma unat_weight: "unat (256 - w :: u16) = 256 - unat w" if "unat w \<le> 256"
  using that by (simp add: unat_sub word_le_nat_alt)

text \<open>The \<open>u16\<close> arithmetic of a channel does not overflow; the cut to \<open>u8\<close> loses nothing.\<close>

lemma blend_channel_unat:
  assumes "unat w \<le> 256"
  shows "unat (blend_channel w f t) = (unat f * (256 - unat w) + unat t * unat w + 128) div 256"
proof -
  let ?s = "unat f * (256 - unat w) + unat t * unat w + 128"
  have "unat f * (256 - unat w) \<le> 255 * (256 - unat w)" "unat t * unat w \<le> 255 * unat w"
    using unat_u8_less [of f] unat_u8_less [of t] by (intro mult_right_mono; linarith)+
  moreover have "unat w + (256 - unat w) = 256" using assms by simp
  ultimately have s: "?s \<le> 65408" by linarith
  have u: "unat (ucast f :: u16) = unat f" "unat (ucast t :: u16) = unat t"
    using less_trans [OF unat_u8_less, of 65536] by (simp_all add: unsigned_ucast_eq take_bit_nat_eq_self_iff)
  have "unat (ucast f * (256 - w) + ucast t * w + 128 :: u16) = ?s"
  proof -
    have "unat (ucast f * (256 - w) :: u16) = unat f * (256 - unat w)"
      using s assms by (simp add: unat_mult_lem [THEN iffD1] u unat_weight)
    moreover have "unat (ucast t * w :: u16) = unat t * unat w"
      using s by (simp add: unat_mult_lem [THEN iffD1] u)
    ultimately show ?thesis using s by (simp add: unat_add_lem [THEN iffD1])
  qed
  then have "unat ((ucast f * (256 - w) + ucast t * w + 128) div 256 :: u16) = ?s div 256"
    by (simp add: unat_div)
  moreover have "?s div 256 < 256" using s by (simp add: div_less_iff_less_mult)
  ultimately show ?thesis by (simp add: blend_channel_def unsigned_ucast_eq take_bit_nat_eq_self_iff)
qed

lemma blend_channel_same: "unat w \<le> 256 \<Longrightarrow> blend_channel w 255 255 = 255"
proof -
  assume w: "unat w \<le> 256"
  have "255 * (256 - unat w) + 255 * unat w = 255 * 256" using w by (simp add: diff_mult_distrib2)
  then have "unat (blend_channel w 255 255) = 255" using blend_channel_unat [OF w] by simp
  then show ?thesis by (simp add: word_unat_eq_iff)
qed

lemma blend_opaque:
  "unat w \<le> 256 \<Longrightarrow> length fs = length ts \<Longrightarrow> chunks4_opaque fs \<Longrightarrow> chunks4_opaque ts
    \<Longrightarrow> chunks4_opaque (map2 (blend_channel w) fs ts)"
proof (induction fs arbitrary: ts rule: chunks4_opaque.induct)
  case (1 r g b a ps)
  from 1(3) obtain r' g' b' a' ps' where ts: "ts = r' # g' # b' # a' # ps'"
    by (auto simp: length_Suc_conv Suc_length_conv)
  with 1 show ?case by (simp add: blend_channel_same)
qed (auto simp: length_Suc_conv Suc_length_conv)

lemma blend_pixels_map2:
  "length out = length fs \<Longrightarrow> length fs = length ts \<Longrightarrow>
    blend_pixels w out fs ts = (map2 (blend_channel w) fs ts, out \<noteq> map2 (blend_channel w) fs ts)"
proof (induction w out fs ts rule: blend_pixels.induct)
  case (1 w x out f fs t ts)
  then show ?case by (auto simp: Let_def)
qed auto

section \<open>The invariant\<close>

text \<open>A retained frame: what \<open>valid_frame\<close> asks, but for the spare capacity of its vector.\<close>

definition sound_frame :: "heic_frame \<Rightarrow> bool" where
  "sound_frame f \<longleftrightarrow> valid_frame (f\<lparr>hf_capacity := 0\<rparr>)"

lemma sound_frame_iff:
  "sound_frame f \<longleftrightarrow> hf_width f > 0 \<and> hf_height f > 0
    \<and> length (hf_pixels f) = hf_width f * 4 * hf_height f
    \<and> length (hf_pixels f) \<le> MAX_FRAME_BYTES \<and> chunks4_opaque (hf_pixels f)"
proof -
  have "hf_width f < 4611686018427387904" if "hf_height f > 0" "hf_height f * hf_width f \<le> 67108864"
    using that by (cases "hf_height f") auto
  then show ?thesis
    by (auto simp: sound_frame_def valid_frame_def valid_frame_with_limit_def checked_mul_def
        MAX_FRAME_BYTES_def split: bind_splits if_splits option.splits)
qed

lemma valid_sound: "valid_frame f \<Longrightarrow> sound_frame f"
  by (auto simp: sound_frame_def valid_frame_def valid_frame_with_limit_def split: option.splits)

definition sound_dissolve :: "dissolve \<Rightarrow> bool" where
  "sound_dissolve t \<longleftrightarrow> sound_frame (tr_from t) \<and> sound_frame (tr_to t) \<and> sound_frame (tr_blend t)
     \<and> same_dimensions (tr_from t) (tr_to t) \<and> same_dimensions (tr_blend t) (tr_to t)"

fun pb_inv :: "playback \<times> u64 \<Rightarrow> bool" where
  "pb_inv (pb, counter) \<longleftrightarrow>
     (\<forall>pts. pb_mode pb = PTime pts \<longrightarrow> ordered_points pts)
     \<and> (\<forall>t. pb_transition pb = Some t \<longrightarrow> sound_dissolve t \<and> tr_to_image t = pb_selected pb
           \<and> pb_pending pb = None \<and> pb_presented pb = None \<and> presented_image pb = None)
     \<and> (\<forall>f. pb_presented pb = Some f \<longrightarrow> sound_frame f)
     \<and> (\<forall>i. presented_image pb = Some i \<longrightarrow> pb_presented pb \<noteq> None)
     \<and> (\<forall>p. pb_pending pb = Some p \<longrightarrow> dr_generation (pd_request p) = pb_generation pb
           \<and> (dr_image (pd_request p) = pb_selected pb
              \<or> dr_image (pd_request p) = pb_primary pb \<and> transition_started_at p = None))"

lemma sound_blend:
  assumes "sound_frame f" "sound_frame t" "same_dimensions f t" "unat w \<le> 256"
    "hf_pixels b = map2 (blend_channel w) (hf_pixels f) (hf_pixels t)" "same_dimensions b t"
  shows "sound_frame b"
proof -
  have "length (hf_pixels f) = length (hf_pixels t)"
    using assms(1-3) by (simp add: sound_frame_iff same_dimensions_def)
  then show ?thesis using assms
    by (simp add: sound_frame_iff same_dimensions_def blend_opaque)
qed

lemma blend_frames_sound:
  assumes "blend_frames f t w limit reserved = Some b" "unat w \<le> 256"
    "sound_frame f" "sound_frame t" "same_dimensions f t"
  shows "sound_frame b \<and> same_dimensions b t"
proof -
  have "same_dimensions b t" "hf_pixels b = map2 (blend_channel w) (hf_pixels f) (hf_pixels t)"
    using assms(1) by (auto simp: blend_frames_def same_dimensions_def split: if_splits)
  with sound_blend [OF assms(3,4,5,2)] show ?thesis by blast
qed

lemma dissolve_weight_le: "unat (dissolve_weight e) \<le> 256"
  by (simp add: dissolve_weight_def unat_of_nat min_def)

lemma blend_into_sound:
  assumes "sound_dissolve t"
    and "blend_into (tr_from t) (tr_to t) (tr_blend t) (dissolve_weight e) = (b, changed)"
  shows "sound_dissolve (t\<lparr>tr_blend := b\<rparr>)"
proof -
  have len: "length (hf_pixels (tr_blend t)) = length (hf_pixels (tr_from t))"
    "length (hf_pixels (tr_from t)) = length (hf_pixels (tr_to t))"
    using assms(1) by (simp_all add: sound_dissolve_def sound_frame_iff same_dimensions_def)
  have "b = (tr_blend t)\<lparr>hf_pixels := map2 (blend_channel (dissolve_weight e))
      (hf_pixels (tr_from t)) (hf_pixels (tr_to t))\<rparr>"
    using assms(2) by (simp add: blend_into_def blend_pixels_map2 [OF len])
  then have b: "hf_pixels b
      = map2 (blend_channel (dissolve_weight e)) (hf_pixels (tr_from t)) (hf_pixels (tr_to t))"
    "same_dimensions b (tr_to t)"
    using assms(1) by (simp_all add: sound_dissolve_def same_dimensions_def)
  have "sound_frame (tr_from t)" "sound_frame (tr_to t)" "same_dimensions (tr_from t) (tr_to t)"
    using assms(1) by (simp_all add: sound_dissolve_def)
  from sound_blend [OF this dissolve_weight_le b] have "sound_frame b" .
  with b(2) assms(1) show ?thesis by (simp add: sound_dissolve_def)
qed

section \<open>The operations keep it\<close>

lemma pb_initial:
  assumes "with_solar md primary app clock m reduced solar counter = Some s"
    and "\<forall>pts. solar = Some pts \<longrightarrow> valid_points pts"
    and "\<forall>sch. state_value (md_time md) = Some sch \<longrightarrow> valid_points (points sch)"
  shows "pb_inv s"
proof -
  obtain mode img where i: "initial_mode md primary app clock solar = Some (mode, img)"
    using assms(1) by (auto simp: with_solar_def)
  have "ordered_points pts" if "mode = PTime pts" for pts
    using i that assms(2,3)
    by (auto simp: initial_mode_def md_select_def Let_def ordered_sorted_time_points
        split: option.splits selection.splits if_splits)
  with i assms(1) show ?thesis
    by (auto simp: with_solar_def next_generation_def new_pending_def)
qed

lemma take_inv:
  "pb_inv (pb, c) \<Longrightarrow> take_decode_request pb = (pb', r) \<Longrightarrow> pb_inv (pb', c)"
  by (auto simp: take_decode_request_def split: option.splits if_splits)

lemma drop_dissolve_inv:
  "pb_inv (pb, c) \<Longrightarrow> pb_inv (drop_dissolve pb, c) \<and> pb_transition (drop_dissolve pb) = None"
  by (auto simp: drop_dissolve_def sound_dissolve_def split: option.splits)

lemma finish_dissolve_inv:
  "pb_inv (pb, c) \<Longrightarrow> pb_inv (fst (finish_dissolve pb), c)
    \<and> pb_transition (fst (finish_dissolve pb)) = None"
  by (auto simp: finish_dissolve_def sound_dissolve_def split: option.splits)

lemma request_image_inv:
  assumes "pb_inv (pb, c)" "pb_transition pb = None"
    "img = pb_selected pb \<or> img = pb_primary pb \<and> started = None"
  shows "pb_inv (request_image img started (pb, c))"
  using assms by (auto simp: request_image_def next_generation_def new_pending_def)

lemma keep_fields [simp]:
  "pb_mode (drop_dissolve pb) = pb_mode pb" "pb_selected (drop_dissolve pb) = pb_selected pb"
  "pb_mode (fst (finish_dissolve pb)) = pb_mode pb"
  "pb_selected (fst (finish_dissolve pb)) = pb_selected pb"
  "pb_pending (fst (finish_dissolve pb)) = pb_pending pb"
  by (auto simp: drop_dissolve_def finish_dissolve_def split: option.splits)

lemma change_selection_inv:
  assumes "pb_inv (pb, c)" "change_selection sel d clock m (pb, c) = Some s"
  shows "pb_inv s"
proof -
  let ?pb = "(drop_dissolve pb)\<lparr>pb_selected := sel, retry_not_before := None, pb_pending := None\<rparr>"
  obtain started where
    s: "s = request_image sel started ((drop_dissolve pb)\<lparr>pb_selected := sel, retry_not_before := None\<rparr>, c)"
    using assms(2) by (auto simp: change_selection_def Let_def)
  also have "\<dots> = request_image sel started (?pb, c)" by (simp add: request_image_def)
  finally have s: "s = request_image sel started (?pb, c)" .
  have "pb_inv (?pb, c)" using drop_dissolve_inv [OF assms(1)] by auto
  then show ?thesis unfolding s
    using drop_dissolve_inv [OF assms(1)] by (intro request_image_inv) simp_all
qed

lemma inv_retry: "pb_inv (pb, c) \<Longrightarrow> pb_inv (pb\<lparr>retry_not_before := r\<rparr>, c)"
  by simp

lemma after_discontinuity_inv:
  assumes "pb_inv (pb, c)" "sel = pb_selected pb"
  shows "pb_inv (fst (after_discontinuity sel m (pb, c)))"
proof -
  let ?pb = "fst (finish_dissolve pb)"
  have i: "pb_inv (?pb, c)" "pb_transition ?pb = None" using finish_dissolve_inv [OF assms(1)] by auto
  have r: "pb_inv (request_image sel None (?pb, c))"
    using assms(2) by (intro request_image_inv [OF i]) simp
  obtain pb1 c1 where q: "request_image sel None (?pb, c) = (pb1, c1)" by fastforce
  with r have "pb_inv (pb1\<lparr>retry_not_before := None\<rparr>, c1)" by simp
  with i r q show ?thesis
    by (cases "finish_dissolve pb") (auto simp: after_discontinuity_def Let_def simp del: pb_inv.simps)
qed

lemma retry_selection_cases:
  assumes "retry_selection sel clock m (pb, c) = Some s"
  obtains "s = (pb, c)"
    | started pb1 c1 where "pb_transition pb = None" "request_image sel started (pb, c) = (pb1, c1)"
      "s = (pb1\<lparr>retry_not_before := None\<rparr>, c1)"
proof (cases "pb_pending pb = None \<and> pb_transition pb = None \<and> presented_image pb \<noteq> Some sel
    \<and> retry_due pb m")
  case True
  then obtain started where started: "dissolve_start pb clock m = Some started"
    using assms by (auto simp: retry_selection_def)
  obtain pb1 c1 where q: "request_image sel started (pb, c) = (pb1, c1)" by fastforce
  with True started assms have "s = (pb1\<lparr>retry_not_before := None\<rparr>, c1)"
    by (simp add: retry_selection_def)
  with True q that show thesis by blast
next
  case False
  with assms have "s = (pb, c)" by (auto simp: retry_selection_def split: if_splits)
  with that show thesis by blast
qed

lemma retry_selection_inv:
  assumes "pb_inv (pb, c)" "sel = pb_selected pb" "retry_selection sel clock m (pb, c) = Some s"
  shows "pb_inv s"
  using assms(3)
proof (cases rule: retry_selection_cases)
  case 1
  with assms(1) show ?thesis by simp
next
  case (2 started pb1 c1)
  have "pb_inv (request_image sel started (pb, c))"
    using 2(1) assms(1,2) by (intro request_image_inv) simp_all
  with 2(2,3) show ?thesis by simp
qed

lemma inv_clock: "pb_inv (pb, c) \<Longrightarrow> pb_inv (pb\<lparr>last_clock := k, last_monotonic := m\<rparr>, c)"
  by simp

lemma synchronize_inner_inv:
  assumes "pb_inv s" "synchronize_inner clock m force s = Some (s', out)"
  shows "pb_inv s'"
proof -
  obtain pb c where s: "s = (pb, c)" by (cases s)
  obtain sel pb1 c1 presentation where
    q: "s' = (pb1\<lparr>last_clock := clock, last_monotonic := m\<rparr>, c1)" and
    b: "(\<exists>d. change_selection sel d clock m (pb, c) = Some (pb1, c1))
      \<or> (sel = pb_selected pb \<and> after_discontinuity sel m (pb, c) = ((pb1, c1), presentation))
      \<or> (sel = pb_selected pb \<and> retry_selection sel clock m (pb, c) = Some (pb1, c1))"
    using assms(2) s
    by (auto simp: synchronize_inner_def Let_def bind_eq_Some_conv split: if_splits; blast)
  have "pb_inv (pb1, c1)"
    using b assms(1) s change_selection_inv [of pb c sel _ clock m "(pb1, c1)"]
      after_discontinuity_inv [of pb c sel m] retry_selection_inv [of pb c sel clock m "(pb1, c1)"]
    by (elim disjE conjE exE) (simp_all del: pb_inv.simps)
  then show ?thesis unfolding q by (rule inv_clock)
qed

lemma advance_inv:
  assumes "pb_inv (pb, c)" shows "pb_inv (fst (advance_transition m pb), c)"
proof (cases "pb_transition pb")
  case None
  with assms show ?thesis by (simp add: advance_transition_def)
next
  case (Some t)
  show ?thesis
  proof (cases "m - tr_started_at t \<ge> DISSOLVE_DURATION")
    case True
    with Some have "advance_transition m pb = finish_dissolve pb" by (simp add: advance_transition_def)
    with finish_dissolve_inv [OF assms] show ?thesis by (simp del: pb_inv.simps)
  next
    case False
    obtain b changed where b: "blend_into (tr_from t) (tr_to t) (tr_blend t)
        (dissolve_weight (m - tr_started_at t)) = (b, changed)" by fastforce
    with Some False have "advance_transition m pb
        = (pb\<lparr>pb_transition := Some (t\<lparr>tr_blend := b\<rparr>)\<rparr>, changed)"
      by (simp add: advance_transition_def)
    moreover have "sound_dissolve (t\<lparr>tr_blend := b\<rparr>)"
      using assms Some b by (intro blend_into_sound) auto
    ultimately show ?thesis using assms Some by simp
  qed
qed

lemma queue_primary_inv:
  "pb_inv (pb, c) \<Longrightarrow> pb_transition pb = None \<Longrightarrow> pb_inv (queue_primary_fallback img (pb, c))"
  by (simp add: queue_primary_fallback_def request_image_inv del: pb_inv.simps)

lemma present_frame_inv:
  "pb_inv (pb, c) \<Longrightarrow> sound_frame f \<Longrightarrow> pb_inv (present_frame f img pb, c)"
  by (auto simp: present_frame_def)

lemma start_dissolve_inv:
  assumes "pb_inv (pb, c)" "pb_pending pb = None" "img = pb_selected pb"
    "sound_frame previous" "sound_frame f" "same_dimensions previous f"
    "blend_frames previous f 0 limit reserved = Some b"
  shows "pb_inv (pb\<lparr>pb_presented := None, presented_image := None,
      pb_transition := Some \<lparr>tr_from = previous, tr_to = f, tr_blend = b, tr_to_image = img,
        tr_started_at = k\<rparr>\<rparr>, c)"
  using assms blend_frames_sound [OF assms(7) _ assms(4,5,6)] by (simp add: sound_dissolve_def)

lemma adopt_frame_inv:
  assumes "pb_inv (pb, c)" "pb_transition pb = None" "pb_pending pb = None" "sound_frame f"
    and "started \<noteq> None \<Longrightarrow> dr_image r = pb_selected pb"
  shows "pb_inv (fst (adopt_frame r f started m limit reserved pb), c)"
proof -
  let ?img = "dr_image r"
  have present: "pb_inv (present_frame f ?img pb, c)"
    using assms(1,4) by (rule present_frame_inv)
  have drop: "present_frame f ?img (pb\<lparr>pb_presented := None\<rparr>) = present_frame f ?img pb"
    by (simp add: present_frame_def)
  show ?thesis
  proof (cases "pb_presented pb")
    case None
    with present show ?thesis by (simp add: adopt_frame_def Let_def del: pb_inv.simps)
  next
    case (Some previous)
    have "sound_frame previous" using assms(1) Some by simp
    show ?thesis
    proof (cases "\<exists>k b. started = Some k \<and> \<not> (m - k \<ge> DISSOLVE_DURATION \<or> \<not> same_dimensions previous f)
        \<and> blend_frames previous f 0 limit reserved = Some b")
      case True
      then obtain k b where k: "started = Some k" "\<not> m - k \<ge> DISSOLVE_DURATION"
        "same_dimensions previous f" "blend_frames previous f 0 limit reserved = Some b" by blast
      let ?pb = "pb\<lparr>pb_presented := None, presented_image := None,
        pb_transition := Some \<lparr>tr_from = previous, tr_to = f, tr_blend = b, tr_to_image = ?img,
          tr_started_at = k\<rparr>\<rparr>"
      have "pb_inv (?pb, c)"
        using assms k Some \<open>sound_frame previous\<close> by (intro start_dissolve_inv) auto
      from advance_inv [OF this, of m] k Some show ?thesis
        by (simp add: adopt_frame_def Let_def split_beta del: pb_inv.simps)
    next
      case False
      then have "fst (adopt_frame r f started m limit reserved pb) = present_frame f ?img pb"
        using Some drop by (auto simp: adopt_frame_def Let_def split: option.splits)
      with present show ?thesis by (simp del: pb_inv.simps)
    qed
  qed
qed

text \<open>The pending request a completion answers, if it is not ignored.\<close>

lemma complete_cases:
  assumes "complete_decode_with_limit r result m limit reserved (pb, c) = (s', out)"
  obtains (ignored) "s' = (pb, c)" "out = DIgnored"
      "\<forall>p. pb_pending pb = Some p \<longrightarrow> pd_request p \<noteq> r \<or> \<not> pd_dispatched p"
    | (failed) p where "pb_pending pb = Some p" "pd_request p = r" "pd_dispatched p"
      "result = None \<or> (\<exists>f. result = Some f \<and> \<not> valid_frame f)"
      "decode_failed out r m (pb\<lparr>pb_pending := None\<rparr>, c) = (s', out)" "out \<in> {DFailed, DRejected}"
    | (adopted) p f pb1 where "pb_pending pb = Some p" "pd_request p = r" "pd_dispatched p"
      "result = Some f" "valid_frame f"
      "pb1 = (if dr_image r = pb_selected pb
              then pb\<lparr>pb_pending := None, retry_not_before := None\<rparr> else pb\<lparr>pb_pending := None\<rparr>)"
      "adopt_frame r f (transition_started_at p) m limit reserved pb1 = (fst s', out)" "snd s' = c"
proof (cases "\<exists>p. pb_pending pb = Some p \<and> pd_request p = r \<and> pd_dispatched p")
  case False
  with assms ignored show thesis
    by (auto simp: complete_decode_with_limit_def split: option.splits if_splits)
next
  case True
  then obtain p where p: "pb_pending pb = Some p" "pd_request p = r" "pd_dispatched p" by blast
  show thesis
  proof (cases "\<exists>f. result = Some f \<and> valid_frame f")
    case True
    then obtain f where f: "result = Some f" "valid_frame f" by blast
    from p f assms show thesis
      by (intro adopted [OF p f refl])
        (auto simp: complete_decode_with_limit_def Let_def split: prod.splits)
  next
    case False
    have out: "out \<in> {DFailed, DRejected} \<and> decode_failed out r m (pb\<lparr>pb_pending := None\<rparr>, c) = (s', out)"
      using p False assms
      by (cases result) (auto simp: complete_decode_with_limit_def decode_failed_def Let_def)
    show thesis
      using False out by (cases result) (auto intro: failed [OF p])
  qed
qed

lemma complete_inv:
  assumes "pb_inv (pb, c)" "complete_decode r result m reserved (pb, c) = (s', out)"
  shows "pb_inv s'"
  using assms(2) unfolding complete_decode_def
proof (cases rule: complete_cases)
  case ignored
  with assms(1) show ?thesis by simp
next
  case (failed p)
  have "pb_inv (pb\<lparr>pb_pending := None, retry_not_before := duration_checked_add m RESYNCHRONIZE_AFTER\<rparr>, c)"
    using assms(1) by simp
  moreover have "pb_transition pb = None" using assms(1) failed(1) by (cases "pb_transition pb") auto
  ultimately have "pb_inv (queue_primary_fallback (dr_image r)
      (pb\<lparr>pb_pending := None, retry_not_before := duration_checked_add m RESYNCHRONIZE_AFTER\<rparr>, c))"
    by (intro queue_primary_inv) simp_all
  with failed(5) show ?thesis by (simp add: decode_failed_def del: pb_inv.simps)
next
  case (adopted p f pb1)
  have "pb_inv (pb1, c)" "pb_transition pb1 = None" "pb_pending pb1 = None"
    "pb_selected pb1 = pb_selected pb"
    using assms(1) adopted(1,6) by auto
  moreover have "transition_started_at p \<noteq> None \<Longrightarrow> dr_image r = pb_selected pb"
    using assms(1) adopted(1,2) by auto
  ultimately have "pb_inv (fst (adopt_frame r f (transition_started_at p) m MAX_FRAME_BYTES reserved pb1), c)"
    using valid_sound [OF adopted(5)] by (intro adopt_frame_inv) simp_all
  with adopted(7,8) show ?thesis by (cases s') (simp del: pb_inv.simps)
qed

section \<open>Runs\<close>

text \<open>
  What the runtime does with a playback, with what it learns. The generation counter is shared by
  all playbacks of the process: \<open>Elsewhere\<close> is another one drawing from it.
\<close>

datatype pb_event =
    Taken decode_request
  | Synchronized synchronize_outcome
  | Completed decode_request decode_outcome
  | Advanced bool
  | Elsewhere

inductive pb_step :: "playback \<times> u64 \<Rightarrow> pb_event \<Rightarrow> playback \<times> u64 \<Rightarrow> bool" where
  take: "take_decode_request pb = (pb', Some r) \<Longrightarrow> pb_step (pb, c) (Taken r) (pb', c)"
| sync: "valid_clock clock \<Longrightarrow> synchronize_inner clock m force s = Some (s', o')
    \<Longrightarrow> pb_step s (Synchronized o') s'"
| solar: "valid_clock clock \<Longrightarrow> valid_points pts \<Longrightarrow> set_solar_schedule pts clock m s = Some (s', o')
    \<Longrightarrow> pb_step s (Synchronized o') s'"
| complete: "complete_decode r result m reserved s = (s', out) \<Longrightarrow> pb_step s (Completed r out) s'"
| advance: "advance_transition m pb = (pb', changed) \<Longrightarrow> pb_step (pb, c) (Advanced changed) (pb', c)"
| elsewhere: "pb_step (pb, c) Elsewhere (pb, c + 1)"

inductive pb_run :: "playback \<times> u64 \<Rightarrow> pb_event list \<Rightarrow> playback \<times> u64 \<Rightarrow> bool" where
  stop: "pb_run s [] s"
| step: "pb_step s e s1 \<Longrightarrow> pb_run s1 es s2 \<Longrightarrow> pb_run s (e # es) s2"

inductive_cases pb_run_NilE: "pb_run s [] s'"
inductive_cases pb_run_ConsE: "pb_run s (e # es) s'"

lemma pb_run_append: "pb_run s (xs @ ys) s' \<longleftrightarrow> (\<exists>s1. pb_run s xs s1 \<and> pb_run s1 ys s')"
  by (induction xs arbitrary: s)
    (fastforce elim: pb_run_NilE pb_run_ConsE intro: pb_run.intros)+

lemma new_mode_inv:
  "pb_inv (pb, c) \<Longrightarrow> valid_points pts \<Longrightarrow> pb_inv (pb\<lparr>pb_mode := PTime (sorted_time_points pts)\<rparr>, c)"
  by (simp add: ordered_sorted_time_points)

lemma pb_step_inv: "pb_step s e s' \<Longrightarrow> pb_inv s \<Longrightarrow> pb_inv s'"
proof (induction rule: pb_step.induct)
  case (solar clock pts m s s' o')
  then show ?case
    by (cases s) (auto simp: set_solar_schedule_def simp del: pb_inv.simps
        intro: synchronize_inner_inv new_mode_inv)
next
  case (complete r result m reserved s s' out)
  then show ?case by (cases s) (auto simp del: pb_inv.simps intro: complete_inv)
next
  case (advance m pb pb' changed c)
  then show ?case using advance_inv [of pb c m] by (simp del: pb_inv.simps)
qed (auto simp del: pb_inv.simps intro: synchronize_inner_inv take_inv, simp)

lemma pb_run_inv: "pb_run s es s' \<Longrightarrow> pb_inv s \<Longrightarrow> pb_inv s'"
  by (induction rule: pb_run.induct) (simp_all add: pb_step_inv)

text \<open>The panics of the code are out of reach: a synchronization with a valid clock returns.\<close>

lemma current_selection_Some: "pb_inv (pb, c) \<Longrightarrow> current_selection pb clock \<noteq> None"
  by (cases "pb_mode pb") (auto simp: current_selection_def ordered_points_def dest: selected_point_Some)

lemma dissolve_start_Some:
  assumes "pb_inv (pb, c)" shows "dissolve_start pb clock m \<noteq> None"
proof (cases "pb_mode pb")
  case (PTime pts)
  with assms have "valid_points pts" by (simp add: ordered_points_def)
  with PTime show ?thesis
    using selected_point_Some [of pts clock] by (simp add: dissolve_start_def boundary_start_def)
qed (simp add: dissolve_start_def)

lemma synchronize_inner_returns:
  assumes "pb_inv s" shows "synchronize_inner clock m force s \<noteq> None"
proof -
  obtain pb c where s: "s = (pb, c)" by (cases s)
  obtain sel where "current_selection pb clock = Some sel"
    using current_selection_Some assms s by blast
  moreover have "change_selection sel d clock m (pb, c) \<noteq> None" for d
  proof -
    have "pb_inv (drop_dissolve pb, c)" using drop_dissolve_inv assms s by blast
    from dissolve_start_Some [OF this, of clock m] show ?thesis
      by (simp add: change_selection_def Let_def)
  qed
  moreover have "retry_selection sel clock m (pb, c) \<noteq> None"
  proof -
    have "pb_inv (pb, c)" using assms s by blast
    from dissolve_start_Some [OF this, of clock m] show ?thesis
      by (simp add: retry_selection_def del: not_None_eq)
  qed
  moreover have "(if a then map_option g (change_selection sel d clock m (pb, c))
      else if b then Some x else map_option g (retry_selection sel clock m (pb, c))) \<noteq> None"
    for a b d x and g :: "playback \<times> u64 \<Rightarrow> (playback \<times> u64) \<times> bool"
    using calculation(2,3) by (cases a; cases b; simp del: not_None_eq split_paired_Ex)
  ultimately show ?thesis
    by (simp only: s synchronize_inner_def Let_def prod.case Option.bind.simps option.map_disc_iff)
      simp
qed

text \<open>The frames a playback holds on to.\<close>

definition retained :: "playback \<Rightarrow> heic_frame list" where
  "retained pb = option_list (pb_presented pb)
     @ (case pb_transition pb of None \<Rightarrow> [] | Some t \<Rightarrow> [tr_from t, tr_to t, tr_blend t])"

text \<open>
  C29. After any run of a playback, of whatever length and in whatever order its operations come, the
  next synchronization with a valid clock and the next valid solar schedule do not panic; at most
  three frames are retained, each opaque, with as many pixels as its size says and at most 256 MiB;
  the ends of a dissolve and its blended frame have the same size, and what is dissolved to is the
  selected image.
\<close>
theorem playback_invariant:
  assumes "pb_inv s0" "pb_run s0 es (pb, c)"
  shows "synchronize_inner clock m force (pb, c) \<noteq> None
    \<and> (valid_points pts \<longrightarrow> set_solar_schedule pts clock m (pb, c) \<noteq> None)
    \<and> length (retained pb) \<le> 3 \<and> list_all sound_frame (retained pb)
    \<and> list_all (\<lambda>f. length (hf_pixels f) \<le> 256 * 1024 * 1024) (retained pb)
    \<and> (\<forall>t. pb_transition pb = Some t \<longrightarrow> same_dimensions (tr_from t) (tr_to t)
        \<and> same_dimensions (tr_blend t) (tr_to t) \<and> tr_to_image t = pb_selected pb)"
proof -
  have i: "pb_inv (pb, c)" using pb_run_inv assms by blast
  have "set_solar_schedule pts clock m (pb, c) \<noteq> None" if "valid_points pts"
    unfolding set_solar_schedule_def prod.case
    by (rule synchronize_inner_returns) (rule new_mode_inv [OF i that])
  moreover have "synchronize_inner clock m force (pb, c) \<noteq> None"
    using i by (rule synchronize_inner_returns)
  moreover have "length (retained pb) \<le> 3 \<and> list_all sound_frame (retained pb)"
    using i by (cases "pb_presented pb"; cases "pb_transition pb")
      (auto simp: retained_def sound_dissolve_def)
  moreover from this have "list_all (\<lambda>f. length (hf_pixels f) \<le> 256 * 1024 * 1024) (retained pb)"
    by (auto simp: list_all_iff sound_frame_iff MAX_FRAME_BYTES_def)
  ultimately show ?thesis using i by (auto simp: sound_dissolve_def)
qed

section \<open>Late decode results\<close>

text \<open>A request that no completion can answer any more.\<close>

fun answered :: "decode_request \<Rightarrow> playback \<times> u64 \<Rightarrow> bool" where
  "answered r (pb, c) \<longleftrightarrow> unat (dr_generation r) < unat c
     \<and> (\<forall>p. pb_pending pb = Some p \<longrightarrow> dr_generation (pd_request p) \<noteq> dr_generation r)"

text \<open>A request that is out with the decoder.\<close>

fun in_flight :: "decode_request \<Rightarrow> playback \<times> u64 \<Rightarrow> bool" where
  "in_flight r (pb, c) \<longleftrightarrow> unat (dr_generation r) < unat c
     \<and> (\<exists>p. pb_pending pb = Some p \<and> pd_request p = r \<and> pd_dispatched p)"

text \<open>How an operation may change the pending request and the counter.\<close>

definition pending_step :: "playback \<times> u64 \<Rightarrow> playback \<times> u64 \<Rightarrow> bool" where
  "pending_step s s' \<longleftrightarrow>
     (snd s' = snd s \<and> pb_pending (fst s') = pb_pending (fst s))
     \<or> (snd s' = snd s \<and> pb_pending (fst s') = None)
     \<or> (snd s' = snd s + 1
        \<and> (\<exists>p. pb_pending (fst s') = Some p \<and> dr_generation (pd_request p) = snd s
             \<and> \<not> pd_dispatched p))"

definition renewed :: "playback \<times> u64 \<Rightarrow> playback \<times> u64 \<Rightarrow> bool" where
  "renewed s s' \<longleftrightarrow> snd s' = snd s + 1
     \<and> (\<exists>p. pb_pending (fst s') = Some p \<and> dr_generation (pd_request p) = snd s
          \<and> \<not> pd_dispatched p)"

lemma request_image_renewed: "renewed (pb, c) (request_image img started (pb, c))"
  by (simp add: renewed_def request_image_def next_generation_def new_pending_def)

lemma change_selection_renewed:
  assumes "change_selection sel d clock m (pb, c) = Some s" shows "renewed (pb, c) s"
  using assms
  by (auto simp: change_selection_def renewed_def Let_def request_image_def next_generation_def
      new_pending_def)

lemma after_discontinuity_pending:
  "pending_step (pb, c) (fst (after_discontinuity sel m (pb, c)))"
proof -
  let ?pb = "fst (finish_dissolve pb)"
  have r: "renewed (?pb, c) (request_image sel None (?pb, c))" by (rule request_image_renewed)
  then show ?thesis using keep_fields(5) [of pb]
    by (cases "finish_dissolve pb"; cases "request_image sel None (?pb, c)")
      (auto simp: after_discontinuity_def pending_step_def renewed_def Let_def)
qed

lemma retry_selection_pending:
  assumes "retry_selection sel clock m (pb, c) = Some s" shows "pending_step (pb, c) s"
  using assms
proof (cases rule: retry_selection_cases)
  case (2 started pb1 c1)
  with request_image_renewed [of pb c sel started] show ?thesis
    by (auto simp: renewed_def pending_step_def)
qed (simp add: pending_step_def)

lemma synchronize_pending:
  assumes "synchronize_inner clock m force (pb, c) = Some (s', out)"
  shows "pending_step (pb, c) s' \<and> (selection_changed out \<longrightarrow> renewed (pb, c) s')"
proof -
  obtain sel pb1 c1 presentation where
    q: "s' = (pb1\<lparr>last_clock := clock, last_monotonic := m\<rparr>, c1)" and
    b: "(\<exists>d. change_selection sel d clock m (pb, c) = Some (pb1, c1))
      \<or> (\<not> selection_changed out \<and> after_discontinuity sel m (pb, c) = ((pb1, c1), presentation))
      \<or> (\<not> selection_changed out \<and> retry_selection sel clock m (pb, c) = Some (pb1, c1))"
    using assms
    by (auto simp: synchronize_inner_def Let_def bind_eq_Some_conv split: if_splits; blast)
  have eq: "pending_step (pb, c) s' = pending_step (pb, c) (pb1, c1)"
    "renewed (pb, c) s' = renewed (pb, c) (pb1, c1)"
    by (simp_all add: q pending_step_def renewed_def)
  have "renewed (pb, c) (pb1, c1) \<Longrightarrow> pending_step (pb, c) (pb1, c1)"
    by (auto simp: renewed_def pending_step_def)
  with b change_selection_renewed after_discontinuity_pending [of pb c sel m]
    retry_selection_pending [of sel clock m pb c "(pb1, c1)"]
  show ?thesis unfolding eq by fastforce
qed

lemma advance_pending [simp]: "pb_pending (fst (advance_transition m pb)) = pb_pending pb"
  by (auto simp: advance_transition_def finish_dissolve_def split: option.splits prod.splits)

lemma adopt_pending [simp]:
  "pb_pending (fst (adopt_frame r f started m limit reserved pb)) = pb_pending pb"
  by (simp add: adopt_frame_def present_frame_def Let_def split_beta split: option.split)

lemma complete_pending:
  assumes "complete_decode r result m reserved (pb, c) = (s', out)"
  shows "(out = DIgnored \<and> s' = (pb, c))
    \<or> (out \<noteq> DIgnored \<and> (\<exists>p. pb_pending pb = Some p \<and> pd_request p = r \<and> pd_dispatched p)
        \<and> (pb_pending (fst s') = None \<and> snd s' = c \<or> renewed (pb, c) s'))"
  using assms unfolding complete_decode_def
proof (cases rule: complete_cases)
  case ignored
  then show ?thesis by simp
next
  case (failed p)
  let ?pb = "pb\<lparr>pb_pending := None, retry_not_before := duration_checked_add m RESYNCHRONIZE_AFTER\<rparr>"
  have "s' = queue_primary_fallback (dr_image r) (?pb, c)" using failed(5) by (simp add: decode_failed_def)
  moreover have "renewed (?pb, c) (request_image (pb_primary pb) None (?pb, c))"
    by (rule request_image_renewed)
  ultimately show ?thesis using failed(1-3,6)
    by (auto simp: queue_primary_fallback_def renewed_def)
next
  case (adopted p f pb1)
  have "pb_pending (fst s') = pb_pending pb1"
    using adopt_pending [of r f _ m] adopted(7) by (metis fst_conv)
  moreover have "out \<noteq> DIgnored" using adopted(7)
    by (auto simp: adopt_frame_def Let_def split: option.splits if_splits prod.splits)
  ultimately show ?thesis using adopted by simp
qed

text \<open>The counter does not wrap within the run.\<close>

lemma unat_next: "unat (c :: u64) + 1 < 2 ^ 64 \<Longrightarrow> unat (c + 1) = unat c + 1"
  by (simp add: unat_add_lem [THEN iffD1])

definition fresh_pending :: "playback \<times> u64 \<Rightarrow> bool" where
  "fresh_pending s \<longleftrightarrow>
     (\<forall>p. pb_pending (fst s) = Some p \<longrightarrow> unat (dr_generation (pd_request p)) < unat (snd s))"

lemma pb_step_pending:
  assumes "pb_step s e s'"
  shows "pending_step s s' \<or> (\<exists>r. e = Taken r) \<or> (fst s' = fst s \<and> snd s' = snd s + 1)"
  using assms
proof cases
  case (sync clock m force o')
  then show ?thesis using synchronize_pending [of clock m force "fst s" "snd s"] by simp
next
  case (solar clock pts m o')
  then have "synchronize_inner clock m False ((fst s)\<lparr>pb_mode := PTime (sorted_time_points pts)\<rparr>, snd s)
      = Some (s', o')" by (simp add: set_solar_schedule_def split_beta)
  from synchronize_pending [OF this] show ?thesis by (simp add: pending_step_def)
next
  case (complete r result m reserved out)
  then show ?thesis using complete_pending [of r result m reserved "fst s" "snd s" s' out]
    by (auto simp: pending_step_def renewed_def)
next
  case (advance m pb pb' changed c)
  then show ?thesis using advance_pending [of m pb] by (simp add: pending_step_def)
qed auto

lemma take_step:
  assumes "pb_step s (Taken r) s'"
  obtains p where "pb_pending (fst s) = Some p" "pd_request p = r" "\<not> pd_dispatched p"
    "pb_pending (fst s') = Some (p\<lparr>pd_dispatched := True\<rparr>)" "snd s' = snd s"
  using assms
  by (cases rule: pb_step.cases) (auto simp: take_decode_request_def split: option.splits if_splits)

lemma fresh_step:
  assumes "pb_step s e s'" "fresh_pending s" "unat (snd s) + 1 < 2 ^ 64"
  shows "fresh_pending s' \<and> unat (snd s) \<le> unat (snd s') \<and> unat (snd s') \<le> unat (snd s) + 1"
proof -
  note n = unat_next [OF assms(3)]
  consider "pending_step s s'" | r where "e = Taken r" | "fst s' = fst s" "snd s' = snd s + 1"
    using pb_step_pending [OF assms(1)] by blast
  then show ?thesis
  proof cases
    case 1
    then show ?thesis unfolding pending_step_def fresh_pending_def
      using assms(2) n by (elim disjE conjE exE) (simp_all add: fresh_pending_def)
  next
    case (2 r)
    with assms(1) have "pb_step s (Taken r) s'" by simp
    then obtain p where "pb_pending (fst s) = Some p"
      "pb_pending (fst s') = Some (p\<lparr>pd_dispatched := True\<rparr>)" "snd s' = snd s"
      by (rule take_step)
    with assms(2) show ?thesis by (simp add: fresh_pending_def)
  next
    case 3
    then show ?thesis using assms(2) n by (auto simp: fresh_pending_def)
  qed
qed

lemma fresh_run:
  "pb_run s es s' \<Longrightarrow> fresh_pending s \<Longrightarrow> unat (snd s) + length es < 2 ^ 64
    \<Longrightarrow> fresh_pending s' \<and> unat (snd s') \<le> unat (snd s) + length es"
proof (induction rule: pb_run.induct)
  case (step s e s1 es s2)
  from step.prems have "unat (snd s) + 1 < 2 ^ 64 \<or> es = []" by (cases es) auto
  moreover have "unat (snd s) + 1 < 2 ^ 64" using step.prems by simp
  ultimately show ?case using fresh_step [OF step.hyps(1) step.prems(1)] step.IH step.prems(2) by force
qed simp

lemma answered_iff:
  "answered r s \<longleftrightarrow> unat (dr_generation r) < unat (snd s)
     \<and> (\<forall>p. pb_pending (fst s) = Some p \<longrightarrow> dr_generation (pd_request p) \<noteq> dr_generation r)"
  "in_flight r s \<longleftrightarrow> unat (dr_generation r) < unat (snd s)
     \<and> (\<exists>p. pb_pending (fst s) = Some p \<and> pd_request p = r \<and> pd_dispatched p)"
  by (cases s; simp)+

lemma pending_step_answered:
  assumes "pending_step s s'" "unat (snd s) + 1 < 2 ^ 64"
  shows "answered r s \<Longrightarrow> answered r s'" "in_flight r s \<Longrightarrow> in_flight r s' \<or> answered r s'"
proof -
  note n = unat_next [OF assms(2)]
  show "answered r s \<Longrightarrow> answered r s'"
    using assms(1) n unfolding pending_step_def answered_iff
    by (elim disjE conjE exE) auto
  show "in_flight r s \<Longrightarrow> in_flight r s' \<or> answered r s'"
    using assms(1) n unfolding pending_step_def answered_iff
    by (elim disjE conjE exE) auto
qed

lemma answered_step:
  assumes "pb_step s e s'" "answered r s" "unat (snd s) + 1 < 2 ^ 64"
  shows "answered r s'"
proof -
  consider "pending_step s s'" | r' where "e = Taken r'" | "fst s' = fst s" "snd s' = snd s + 1"
    using pb_step_pending [OF assms(1)] by blast
  then show ?thesis
  proof cases
    case 1
    then show ?thesis using assms(3,2) by (rule pending_step_answered(1))
  next
    case (2 r')
    with assms(1) have "pb_step s (Taken r') s'" by simp
    then obtain p where "pb_pending (fst s) = Some p"
      "pb_pending (fst s') = Some (p\<lparr>pd_dispatched := True\<rparr>)" "snd s' = snd s"
      by (rule take_step)
    with assms(2) show ?thesis by (simp add: answered_iff)
  next
    case 3
    with assms(2) unat_next [OF assms(3)] show ?thesis by (simp add: answered_iff)
  qed
qed

text \<open>
  What makes an outstanding request obsolete: another request is issued, the selection changes, or
  its result has been used.
\<close>

fun supersedes :: "decode_request \<Rightarrow> pb_event \<Rightarrow> bool" where
  "supersedes r (Taken _) = True"
| "supersedes r (Synchronized o') = selection_changed o'"
| "supersedes r (Completed r' out) = (r' = r \<and> out \<noteq> DIgnored)"
| "supersedes r _ = False"

lemma renewed_answered:
  assumes "renewed s s'" "in_flight r s" "unat (snd s) + 1 < 2 ^ 64"
  shows "answered r s'"
  using assms(1,2) unat_next [OF assms(3)] by (auto simp: renewed_def answered_iff)

lemma in_flight_step:
  assumes "pb_step s e s'" "in_flight r s" "unat (snd s) + 1 < 2 ^ 64"
  shows "(in_flight r s' \<or> answered r s') \<and> (supersedes r e \<longrightarrow> answered r s')"
proof -
  have no_take: "e \<noteq> Taken r'" for r'
    using assms(1,2) by (auto simp: answered_iff elim!: take_step)
  have "in_flight r s' \<or> answered r s'"
    using pb_step_pending [OF assms(1)]
  proof (elim disjE exE conjE)
    assume "pending_step s s'"
    then show ?thesis using assms(2,3) by (intro pending_step_answered)
  next
    assume "fst s' = fst s" "snd s' = snd s + 1"
    with assms(2) unat_next [OF assms(3)] show ?thesis by (simp add: answered_iff)
  qed (use no_take in blast)
  moreover have "answered r s'" if "supersedes r e"
    using assms(1)
  proof cases
    case (sync clock m force o')
    with that synchronize_pending [of clock m force "fst s" "snd s" s' o'] show ?thesis
      using assms(2,3) by (intro renewed_answered) auto
  next
    case (solar clock pts m o')
    let ?s = "((fst s)\<lparr>pb_mode := PTime (sorted_time_points pts)\<rparr>, snd s)"
    from solar have "synchronize_inner clock m False ?s = Some (s', o')"
      by (simp add: set_solar_schedule_def split_beta)
    from synchronize_pending [OF this] that solar have "renewed ?s s'" by simp
    then have "renewed s s'" by (simp add: renewed_def)
    then show ?thesis using assms(2,3) by (intro renewed_answered)
  next
    case (complete r' result m reserved out)
    with that complete_pending [of r result m reserved "fst s" "snd s" s' out]
    have "pb_pending (fst s') = None \<and> snd s' = snd s \<or> renewed s s'" by auto
    then show ?thesis
    proof
      assume "renewed s s'"
      then show ?thesis using assms(2,3) by (rule renewed_answered)
    qed (use assms(2) in \<open>auto simp: answered_iff\<close>)
  qed (use that no_take in auto)
  ultimately show ?thesis by blast
qed

lemma in_flight_run:
  "pb_run s es s' \<Longrightarrow> in_flight r s \<or> answered r s \<Longrightarrow> fresh_pending s
    \<Longrightarrow> unat (snd s) + length es < 2 ^ 64
    \<Longrightarrow> (in_flight r s' \<or> answered r s')
      \<and> (answered r s \<or> (\<exists>e \<in> set es. supersedes r e) \<longrightarrow> answered r s')"
proof (induction rule: pb_run.induct)
  case (step s e s1 es s2)
  have b: "unat (snd s) + 1 < 2 ^ 64" using step.prems(3) by simp
  note f = fresh_step [OF step.hyps(1) step.prems(2) b]
  have "in_flight r s1 \<or> answered r s1" "answered r s \<or> supersedes r e \<Longrightarrow> answered r s1"
    using step.prems(1) in_flight_step [OF step.hyps(1) _ b] answered_step [OF step.hyps(1) _ b]
    by blast+
  with step.IH f step.prems(3) show ?case by auto
qed auto

text \<open>
  C28. The result of a decode request that has been superseded is ignored: once another request has
  been issued, the selection has changed, or the request's own result has been used, completing it,
  with whatever frame or error, leaves the playback exactly as it is. So no late frame of an earlier
  selection reaches the screen and no result is used twice. The run must be shorter than the
  generation counter's remaining range.
\<close>
theorem stale_decode_ignored:
  assumes "with_solar md primary app clock0 m0 reduced solar counter = Some s0"
    and "pb_run s0 (es @ Taken r # fs) s"
    and "unat counter + length es + length fs + 2 < 2 ^ 64"
    and "\<exists>e \<in> set fs. supersedes r e"
  shows "complete_decode r result m reserved s = (s, DIgnored)"
proof -
  have s0: "fresh_pending s0" "unat (snd s0) = unat counter + 1"
    using assms(1,3) unat_next [of counter]
    by (auto simp: with_solar_def fresh_pending_def next_generation_def new_pending_def)
  obtain s1 s2 where run: "pb_run s0 es s1" "pb_step s1 (Taken r) s2" "pb_run s2 fs s"
    using assms(2) by (auto simp: pb_run_append elim!: pb_run_ConsE)
  have s1: "fresh_pending s1" "unat (snd s1) \<le> unat counter + 1 + length es"
    using fresh_run [OF run(1) s0(1)] s0(2) assms(3) by auto
  have s2: "in_flight r s2" "fresh_pending s2" "snd s2 = snd s1"
    using run(2) s1(1) by (auto elim!: take_step simp: answered_iff fresh_pending_def)
  have "answered r s"
    using in_flight_run [OF run(3) _ s2(2)] s2 s1(2) assms(3,4) by auto
  then have "\<nexists>p. pb_pending (fst s) = Some p \<and> pd_request p = r" by (auto simp: answered_iff)
  then show ?thesis
    using complete_pending [of r result m reserved "fst s" "snd s"]
    by (cases "complete_decode r result m reserved s") auto
qed

section \<open>A changed selection reaches the screen\<close>

lemma change_selection_pending:
  assumes "change_selection sel d clock m (pb, c) = Some (pb1, c1)"
  shows "\<exists>started. pb_pending pb1 = Some (new_pending c sel started) \<and> pb_selected pb1 = sel
    \<and> pb_transition pb1 = None \<and> (\<forall>k. started = Some k \<longrightarrow> k \<le> m)"
proof -
  have "pb_transition (drop_dissolve pb) = None"
    by (auto simp: drop_dissolve_def split: option.splits)
  moreover have "k \<le> m" if "dissolve_start p clock m = Some (Some k)" for p k
    using that by (auto simp: dissolve_start_def boundary_start_def duration_checked_sub_def
        split: playback_mode.splits if_splits)
  ultimately show ?thesis using assms
    by (auto simp: change_selection_def Let_def request_image_def next_generation_def split: if_splits)
qed

lemma advance_later:
  assumes "pb_transition pb = None \<or> (\<exists>t. pb_transition pb = Some t \<and> tr_started_at t + DISSOLVE_DURATION \<le> m)"
  shows "advance_transition m pb = finish_dissolve pb"
  using assms by (auto simp: advance_transition_def finish_dissolve_def)

lemma advance_keeps_target:
  assumes "pb_transition pb = Some t"
  shows "(pb_transition (fst (advance_transition m pb)) = None
      \<and> pb_presented (fst (advance_transition m pb)) = Some (tr_to t)
      \<and> presented_image (fst (advance_transition m pb)) = Some (tr_to_image t))
    \<or> (\<exists>u. pb_transition (fst (advance_transition m pb)) = Some u \<and> tr_to u = tr_to t
        \<and> tr_to_image u = tr_to_image t \<and> tr_started_at u = tr_started_at t)"
  using assms by (auto simp: advance_transition_def finish_dissolve_def split: prod.split)

text \<open>Either way the adopted frame is what the playback shows or dissolves to.\<close>

definition shows_or_targets :: "heic_frame \<Rightarrow> image_reference \<Rightarrow> duration \<Rightarrow> playback \<Rightarrow> bool" where
  "shows_or_targets f img k pb \<longleftrightarrow>
     (case pb_transition pb of
        None \<Rightarrow> pb_presented pb = Some f \<and> presented_image pb = Some img
      | Some t \<Rightarrow> tr_to t = f \<and> tr_to_image t = img \<and> tr_started_at t \<le> k)"

lemma adopt_shows:
  assumes "pb_transition pb = None" "\<forall>k. started = Some k \<longrightarrow> k \<le> m"
    and "adopt_frame r f started m1 limit reserved pb = (pb', out)"
  shows "shows_or_targets f (dr_image r) m pb' \<and> out \<in> {DPresented, DTransitioning}"
proof (cases "\<exists>previous k b. pb_presented pb = Some previous \<and> started = Some k
    \<and> \<not> (m1 - k \<ge> DISSOLVE_DURATION \<or> \<not> same_dimensions previous f)
    \<and> blend_frames previous f 0 limit reserved = Some b")
  case True
  then obtain previous k b where k: "pb_presented pb = Some previous" "started = Some k"
    "\<not> (m1 - k \<ge> DISSOLVE_DURATION \<or> \<not> same_dimensions previous f)"
    "blend_frames previous f 0 limit reserved = Some b" by blast
  let ?t = "\<lparr>tr_from = previous, tr_to = f, tr_blend = b, tr_to_image = dr_image r, tr_started_at = k\<rparr>"
  let ?pb = "pb\<lparr>pb_presented := None, presented_image := None, pb_transition := Some ?t\<rparr>"
  from k assms(3) have "pb' = fst (advance_transition m1 ?pb)" "out \<in> {DPresented, DTransitioning}"
    by (auto simp: adopt_frame_def Let_def split: prod.splits if_splits)
  with advance_keeps_target [of ?pb ?t m1] assms(2) k(2) show ?thesis
    by (auto simp: shows_or_targets_def)
next
  case False
  then have "adopt_frame r f started m1 limit reserved pb = (present_frame f (dr_image r) pb, DPresented)"
    by (auto simp: adopt_frame_def Let_def present_frame_def split: option.splits)
  with assms(3) show ?thesis by (auto simp: shows_or_targets_def present_frame_def)
qed

lemma finish_shows:
  assumes "shows_or_targets f img k pb" "k + DISSOLVE_DURATION \<le> m2"
  shows "pb_frame (fst (advance_transition m2 pb)) = Some f
    \<and> presented_image (fst (advance_transition m2 pb)) = Some img
    \<and> \<not> is_transitioning (fst (advance_transition m2 pb))"
proof -
  have "advance_transition m2 pb = finish_dissolve pb"
    using assms by (intro advance_later) (auto simp: shows_or_targets_def split: option.splits)
  with assms(1) show ?thesis
    by (auto simp: finish_dissolve_def shows_or_targets_def pb_frame_def or_else_def
        is_transitioning_def split: option.splits)
qed

text \<open>
  C30. When a synchronization changes the selection, the very next request is for the selected image,
  its decoded frame is accepted, at once or as the target of a dissolve, and sampling the dissolve at
  any time two seconds or more after the synchronization shows exactly that frame, whatever the
  playback was doing before.
\<close>
theorem selection_reaches_screen:
  assumes "synchronize_inner clock m force s = Some ((pb1, c1), out)" "selection_changed out"
    and "valid_frame f" "m + duration_secs 2 \<le> m2"
  shows "\<exists>pb2 r pb3 c3 accepted. take_decode_request pb1 = (pb2, Some r) \<and> dr_image r = pb_selected pb1
    \<and> complete_decode r (Some f) m1 reserved (pb2, c1) = ((pb3, c3), accepted)
    \<and> accepted \<in> {DPresented, DTransitioning}
    \<and> pb_frame (fst (advance_transition m2 pb3)) = Some f
    \<and> presented_image (fst (advance_transition m2 pb3)) = Some (pb_selected pb1)
    \<and> \<not> is_transitioning (fst (advance_transition m2 pb3))"
proof -
  obtain pb c where s: "s = (pb, c)" by (cases s)
  obtain sel d pb0 where q: "pb1 = pb0\<lparr>last_clock := clock, last_monotonic := m\<rparr>"
    and b: "change_selection sel d clock m (pb, c) = Some (pb0, c1)"
    using assms(1,2) s
    by (auto simp: synchronize_inner_def Let_def bind_eq_Some_conv split: if_splits; blast)
  obtain started where p: "pb_pending pb0 = Some (new_pending c sel started)" "pb_selected pb0 = sel"
    "pb_transition pb0 = None" "\<forall>k. started = Some k \<longrightarrow> k \<le> m"
    using change_selection_pending [OF b] by blast
  let ?p = "(new_pending c sel started)\<lparr>pd_dispatched := True\<rparr>"
  let ?r = "pd_request ?p" and ?pb2 = "pb1\<lparr>pb_pending := Some ?p\<rparr>"
  let ?pb = "?pb2\<lparr>pb_pending := None, retry_not_before := None\<rparr>"
  have take: "take_decode_request pb1 = (?pb2, Some ?r)" "dr_image ?r = sel" "pb_selected pb1 = sel"
    using p by (simp_all add: take_decode_request_def q new_pending_def)
  obtain pb3 out3 where a: "adopt_frame ?r f started m1 MAX_FRAME_BYTES reserved ?pb = (pb3, out3)"
    by fastforce
  have "complete_decode ?r (Some f) m1 reserved (?pb2, c1) = ((pb3, c1), out3)"
    using a assms(3) take
    by (simp add: complete_decode_def complete_decode_with_limit_def Let_def new_pending_def)
  moreover have "shows_or_targets f sel m pb3 \<and> out3 \<in> {DPresented, DTransitioning}"
    using adopt_shows [OF _ p(4) a] p(3) take(2) by (simp add: q)
  ultimately show ?thesis
    using take finish_shows [of f sel m pb3 m2] assms(4)
    by (intro exI [of _ ?pb2] exI [of _ ?r] exI [of _ pb3] exI [of _ c1] exI [of _ out3])
      (simp add: DISSOLVE_DURATION_def)
qed

text \<open>
  C38. A decode that fails, or whose frame is malformed, never changes what is shown; the next attempt
  is a minute away, and only a playback with nothing to show falls back to the primary image, under a
  new generation.
\<close>
theorem failed_decode_keeps_picture:
  assumes "result = None \<or> (\<exists>f. result = Some f \<and> \<not> valid_frame f)"
  shows "let ((pb', c'), out) = complete_decode r result m reserved (pb, c)
    in out \<in> {DIgnored, DFailed, DRejected} \<and> pb_frame pb' = pb_frame pb
      \<and> (out \<noteq> DIgnored \<longrightarrow> retry_not_before pb' = duration_checked_add m (duration_secs 60)
          \<and> (if pb_presented pb = None \<and> dr_image r \<noteq> pb_primary pb
             then c' = c + 1 \<and> pb_pending pb' = Some (new_pending c (pb_primary pb) None)
             else c' = c \<and> pb_pending pb' = None))"
proof -
  obtain pb' c' out where eq: "complete_decode r result m reserved (pb, c) = ((pb', c'), out)"
    by (metis prod.exhaust)
  then have "out \<in> {DIgnored, DFailed, DRejected} \<and> pb_frame pb' = pb_frame pb
      \<and> (out \<noteq> DIgnored \<longrightarrow> retry_not_before pb' = duration_checked_add m (duration_secs 60)
          \<and> (if pb_presented pb = None \<and> dr_image r \<noteq> pb_primary pb
             then c' = c + 1 \<and> pb_pending pb' = Some (new_pending c (pb_primary pb) None)
             else c' = c \<and> pb_pending pb' = None))"
    unfolding complete_decode_def
  proof (cases rule: complete_cases)
    case ignored
    then show ?thesis by simp
  next
    case (failed p)
    then show ?thesis
      by (auto simp: decode_failed_def queue_primary_fallback_def request_image_def
          next_generation_def pb_frame_def RESYNCHRONIZE_AFTER_def split: if_splits)
  qed (use assms in auto)
  then show ?thesis by (simp add: eq)
qed

section \<open>Witnesses\<close>

definition demo_playing :: "playback \<times> u64" where
  "demo_playing = the (with_solar metadata_default 0 Automatic (demo_clock 13 30) 0 False
     (Some demo_points) 7)"

definition demo_frame :: heic_frame where
  "demo_frame = \<lparr>hf_width = 1, hf_height = 1, hf_pixels = [1, 2, 3, 255], hf_capacity = 4\<rparr>"

lemma demo_playing_eq: "with_solar metadata_default 0 Automatic (demo_clock 13 30) 0 False
     (Some demo_points) 7 = Some demo_playing"
proof -
  have "ordered_points (sorted_time_points demo_points)" by (rule ordered_sorted_time_points) simp
  then have "valid_points (sorted_time_points demo_points)" by (simp add: ordered_points_def)
  from selected_point_Some [OF this, of "demo_clock 13 30"]
  have "with_solar metadata_default 0 Automatic (demo_clock 13 30) 0 False (Some demo_points) 7 \<noteq> None"
    by (simp add: with_solar_def initial_mode_def Let_def del: not_None_eq)
  then show ?thesis by (auto simp: demo_playing_def)
qed

lemma demo_playing_inv: "pb_inv demo_playing"
  using pb_initial [OF demo_playing_eq] by (simp add: metadata_default_def)

theorem playback_invariant_witness:
  "synchronize_inner (demo_clock 14 0) 0 False demo_playing \<noteq> None"
  using playback_invariant [of demo_playing "[]" "fst demo_playing" "snd demo_playing" "demo_clock 14 0" 0 False]
    demo_playing_inv by (simp add: pb_run.stop)

lemma with_solar_fields:
  "with_solar md primary app clock m reduced solar counter = Some (pb, c) \<Longrightarrow>
    pb_pending pb = Some (new_pending counter (pb_selected pb) None) \<and> c = counter + 1"
  by (auto simp: with_solar_def next_generation_def)

lemma demo_fields:
  "pb_pending (fst demo_playing) = Some (new_pending 7 (pb_selected (fst demo_playing)) None)"
  "snd demo_playing = 8"
  using with_solar_fields [of metadata_default 0 Automatic "demo_clock 13 30" 0 False
      "Some demo_points" 7 "fst demo_playing" "snd demo_playing"] demo_playing_eq by simp_all

theorem stale_decode_ignored_witness:
  "\<exists>r s. complete_decode r (Some demo_frame) 0 (Some 4) s = (s, DIgnored)"
proof -
  obtain pb c where s0: "demo_playing = (pb, c)" by (cases demo_playing)
  obtain pb1 r where t: "take_decode_request pb = (pb1, Some r)"
    using demo_fields unfolding s0 by (simp add: take_decode_request_def new_pending_def)
  obtain s2 out where k: "complete_decode r None 0 None (pb1, c) = (s2, out)" by fastforce
  have "out \<noteq> DIgnored" using t k
    by (auto simp: take_decode_request_def complete_decode_def complete_decode_with_limit_def
        decode_failed_def split: option.splits if_splits)
  moreover have "pb_run demo_playing ([] @ Taken r # [Completed r out]) s2"
    unfolding s0 using t k by (auto intro!: pb_run.intros pb_step.take pb_step.complete)
  moreover have "unat (7 :: u64) = 7" by simp
  ultimately show ?thesis
    using stale_decode_ignored [OF demo_playing_eq, of "[]" r "[Completed r out]" s2 "Some demo_frame"]
    by fastforce
qed

theorem selection_reaches_screen_witness:
  "\<exists>s f. \<not> is_transitioning (fst s) \<and> pb_frame (fst s) = Some demo_frame
    \<and> presented_image (fst s) = Some 0 \<and> f = demo_frame"
proof -
  have sel: "current_selection demo_playback (demo_clock 2 0) = Some 0"
    by (simp add: current_selection_def demo_playback_def selected_demo_points demo_clock_def
        seconds_of_day_def) (simp add: demo_points_def)
  obtain s1 out where sync: "synchronize_inner (demo_clock 2 0) 0 True (demo_playback, 5) = Some (s1, out)"
    and ch: "selection_changed out" "pb_selected (fst s1) = 0"
  proof -
    obtain p1 c1 where p1: "change_selection 0 True (demo_clock 2 0) 0 (demo_playback, 5) = Some (p1, c1)"
      by (cases "change_selection 0 True (demo_clock 2 0) 0 (demo_playback, 5)")
        (auto simp: change_selection_def Let_def)
    then have "pb_selected p1 = 0" using change_selection_pending by blast
    moreover have "pb_selected demo_playback = 1" by (simp add: demo_playback_def)
    ultimately show thesis using sel p1
      by (intro that [of "(p1\<lparr>last_clock := demo_clock 2 0, last_monotonic := 0\<rparr>, c1)"
            "\<lparr>selection_changed = True, so_discontinuity = True, presentation_changed = False\<rparr>"])
        (simp_all add: synchronize_inner_def Let_def)
  qed
  have "valid_frame demo_frame"
    by (simp add: demo_frame_def valid_frame_def valid_frame_with_limit_def checked_mul_def MAX_FRAME_BYTES_def)
  from selection_reaches_screen [of "demo_clock 2 0" 0 True "(demo_playback, 5)" "fst s1" "snd s1" out,
      OF _ ch(1) this, of "duration_secs 2"] sync ch(2)
  show ?thesis by (metis add_0 order_refl prod.collapse fst_conv)
qed

theorem failed_decode_keeps_picture_witness:
  "\<exists>s out. complete_decode \<lparr>dr_generation = 1, dr_image = 3\<rparr> None 0 None (demo_playback, 5) = (s, out)
    \<and> pb_frame (fst s) = pb_frame demo_playback"
  using failed_decode_keeps_picture [of None "\<lparr>dr_generation = 1, dr_image = 3\<rparr>" 0 None demo_playback 5]
  by (cases "complete_decode \<lparr>dr_generation = 1, dr_image = 3\<rparr> None 0 None (demo_playback, 5)") auto

end
