(* ===== verification/Solar_Schedule.thy ===== *)
theory Solar_Schedule
  imports Playback_Run
begin

text \<open>
  The mapping of an authored solar schedule to times of day in \<open>src/dynamic_wallpaper/solar.rs\<close>:
  one sample of the sun's path per minute, the nearest sample to each authored position, and a
  refinement to the second around it. The astronomy and the vector trigonometry, floating-point
  code whose results the platform's mathematical library decides, are parameters: \<open>sun\<close> is
  \<open>solar_position\<close> at a second of the day, \<open>vector\<close> is \<open>unit_vector\<close> and \<open>distance\<close> is
  \<open>angular_distance\<close>.
\<close>

section \<open>Model\<close>

datatype solar_error = InvalidTrajectory

record 'v solar_sample =
  sm_second :: nat
  sm_vector :: 'v

definition MINUTES_PER_DAY :: nat where
  "MINUTES_PER_DAY = 1440"

definition REFINEMENT_RADIUS_SECONDS :: nat where
  "REFINEMENT_RADIUS_SECONDS = 60"

definition i128_checked_sub :: "int \<Rightarrow> int \<Rightarrow> int option" where
  "i128_checked_sub a b =
     (if - (2 ^ 127) \<le> a - b \<and> a - b < 2 ^ 127 then Some (a - b) else None)"

text \<open>A loop that pushes the results of a fallible call.\<close>

fun push_all :: "('a \<Rightarrow> 'e + 'b) \<Rightarrow> 'a list \<Rightarrow> 'e + 'b list" where
  "push_all f [] = Inr []"
| "push_all f (x # xs) = rbind (f x) (\<lambda>y. rbind (push_all f xs) (\<lambda>ys. Inr (y # ys)))"

definition midnight_utc :: "clock_snapshot \<Rightarrow> solar_error + int" where
  "midnight_utc clock =
     ok_or (i128_checked_sub (utc_nanoseconds clock) (int (seconds_of_day clock) * 1000000000))
       InvalidTrajectory"

type_synonym sky = "location \<Rightarrow> int \<Rightarrow> nat \<Rightarrow> solar_error + solar_position"

definition trajectory ::
  "sky \<Rightarrow> location \<Rightarrow> clock_snapshot \<Rightarrow> solar_error + (nat \<times> solar_position) list" where
  "trajectory sun loc clock =
     rbind (midnight_utc clock) (\<lambda>base_utc.
       push_all (\<lambda>minute. rbind (sun loc base_utc (minute * 60)) (\<lambda>p. Inr (minute * 60, p)))
         [0 ..< MINUTES_PER_DAY])"

definition nearer ::
  "('v \<Rightarrow> 'v \<Rightarrow> f64) \<Rightarrow> 'v solar_sample option \<Rightarrow> 'v solar_sample \<Rightarrow> 'v \<Rightarrow> 'v solar_sample option" where
  "nearer distance best candidate target =
     (case best of
        Some current \<Rightarrow>
          if f64_less (distance (sm_vector candidate) target) (distance (sm_vector current) target)
          then Some candidate else Some current
      | None \<Rightarrow> Some candidate)"

fun refine ::
  "(nat \<Rightarrow> solar_error + 'v) \<Rightarrow> ('v \<Rightarrow> 'v \<Rightarrow> f64) \<Rightarrow> 'v \<Rightarrow> nat list \<Rightarrow> 'v solar_sample option
    \<Rightarrow> solar_error + 'v solar_sample option" where
  "refine sample distance target [] best = Inr best"
| "refine sample distance target (second # seconds) best =
     rbind (sample second) (\<lambda>v.
       refine sample distance target seconds
         (nearer distance best \<lparr>sm_second = second, sm_vector = v\<rparr> target))"

definition nearest_second ::
  "sky \<Rightarrow> (solar_position \<Rightarrow> 'v) \<Rightarrow> ('v \<Rightarrow> 'v \<Rightarrow> f64) \<Rightarrow> 'v solar_sample list \<Rightarrow> location \<Rightarrow> int \<Rightarrow> 'v
    \<Rightarrow> solar_error + nat" where
  "nearest_second sun vector distance samples loc base_utc target =
     (let best = foldl (\<lambda>best sample. nearer distance best sample target) None samples in
      rbind (ok_or best InvalidTrajectory) (\<lambda>best.
        let coarse = sm_second best;
            start = coarse - REFINEMENT_RADIUS_SECONDS;
            final = min (coarse + REFINEMENT_RADIUS_SECONDS) (SECONDS_PER_DAY - 1)
        in rbind (refine (\<lambda>second. rbind (sun loc base_utc second) (\<lambda>p. Inr (vector p)))
                    distance target [start ..< Suc final] None) (\<lambda>refined.
             rbind (ok_or refined InvalidTrajectory) (\<lambda>s. Inr (sm_second s)))))"

definition map_schedule ::
  "sky \<Rightarrow> (solar_position \<Rightarrow> 'v) \<Rightarrow> ('v \<Rightarrow> 'v \<Rightarrow> f64) \<Rightarrow> solar_point schedule \<Rightarrow> location
    \<Rightarrow> clock_snapshot \<Rightarrow> solar_error + time_point list" where
  "map_schedule sun vector distance sch loc clock =
     rbind (midnight_utc clock) (\<lambda>base_utc.
     rbind (trajectory sun loc clock) (\<lambda>path.
       let samples = map (\<lambda>(second, p). \<lparr>sm_second = second, sm_vector = vector p\<rparr>) path in
       push_all (\<lambda>pt.
         rbind (nearest_second sun vector distance samples loc base_utc
                  (vector (sp_position pt))) (\<lambda>second.
         rbind (map_err (\<lambda>_. InvalidTrajectory)
                  (NormalizedTime_new (f64_quotient second SECONDS_PER_DAY))) (\<lambda>time.
           Inr \<lparr>tp_image = sp_image pt, tp_time = time\<rparr>))) (points sch)))"

section \<open>The nearest sample\<close>

text \<open>Among finitely many samples at non-\<open>NaN\<close> distances, the first of the nearest is kept.\<close>

definition nearest_of :: "('v \<Rightarrow> f64) \<Rightarrow> 'v solar_sample list \<Rightarrow> 'v solar_sample \<Rightarrow> bool" where
  "nearest_of d samples s \<longleftrightarrow> s \<in> set samples
     \<and> (\<forall>t \<in> set samples. f64_le (d (sm_vector s)) (d (sm_vector t)))"

definition finite_distances :: "('v \<Rightarrow> 'v \<Rightarrow> f64) \<Rightarrow> 'v \<Rightarrow> 'v solar_sample set \<Rightarrow> bool" where
  "finite_distances distance target S \<longleftrightarrow> (\<forall>s \<in> S. f64_finite (distance (sm_vector s) target))"

lemma distance_Fin:
  "finite_distances distance target S \<Longrightarrow> s \<in> S \<Longrightarrow> \<exists>x. distance (sm_vector s) target = Fin x"
  unfolding finite_distances_def by (metis f64.exhaust f64_finite.simps(2,3))

lemma nearer_nearest:
  assumes fin: "finite_distances distance target (set (c # samples))"
    and "nearest_of (\<lambda>v. distance v target) samples s"
  shows "\<exists>t. nearer distance (Some s) c target = Some t
    \<and> nearest_of (\<lambda>v. distance v target) (samples @ [c]) t"
proof -
  obtain x y where xy: "distance (sm_vector s) target = Fin x" "distance (sm_vector c) target = Fin y"
    using distance_Fin [OF fin, of s] distance_Fin [OF fin, of c] assms(2) by (auto simp: nearest_of_def)
  have le: "f64_le (Fin x) (distance (sm_vector t) target)" if "t \<in> set samples" for t
    using assms(2) that xy(1) by (auto simp: nearest_of_def)
  show ?thesis
  proof (cases "y < x")
    case True
    have "f64_le (Fin y) (distance (sm_vector t) target)" if "t \<in> set samples" for t
      using le [OF that] True distance_Fin [OF fin, of t] that by auto
    with True xy show ?thesis by (auto simp: nearer_def nearest_of_def)
  next
    case False
    with assms(2) xy show ?thesis by (auto simp: nearer_def nearest_of_def)
  qed
qed

lemma foldl_nearer:
  "finite_distances distance target (set (seen @ samples))
    \<Longrightarrow> nearest_of (\<lambda>v. distance v target) seen s \<Longrightarrow>
    \<exists>t. foldl (\<lambda>best sample. nearer distance best sample target) (Some s) samples = Some t
      \<and> nearest_of (\<lambda>v. distance v target) (seen @ samples) t"
proof (induction samples arbitrary: seen s)
  case (Cons c samples)
  have fin: "finite_distances distance target (set (c # seen))"
    using Cons.prems(1) by (simp add: finite_distances_def)
  from nearer_nearest [OF fin Cons.prems(2)] obtain t where
    "nearer distance (Some s) c target = Some t"
    "nearest_of (\<lambda>v. distance v target) (seen @ [c]) t" by blast
  with Cons.IH [of "seen @ [c]" t] Cons.prems(1) show ?case by simp
qed simp

lemma foldl_nearer_None:
  assumes "finite_distances distance target (set samples)" "samples \<noteq> []"
  shows "\<exists>t. foldl (\<lambda>best sample. nearer distance best sample target) None samples = Some t
    \<and> nearest_of (\<lambda>v. distance v target) samples t"
proof (cases samples)
  case (Cons c cs)
  have "nearest_of (\<lambda>v. distance v target) [c] c"
    using distance_Fin [OF assms(1), of c] Cons by (auto simp: nearest_of_def)
  from foldl_nearer [of distance target "[c]" cs c] this assms(1) Cons show ?thesis by (simp add: nearer_def)
qed (use assms in simp)

text \<open>Without an error, refining is the same fold over the samples of the seconds.\<close>

lemma refine_foldl:
  assumes "list_all (\<lambda>k. sample k = Inr (v k)) seconds"
  shows "refine sample distance target seconds best = Inr (foldl (\<lambda>best s. nearer distance best s target)
    best (map (\<lambda>k. \<lparr>sm_second = k, sm_vector = v k\<rparr>) seconds))"
  using assms by (induction seconds arbitrary: best) simp_all

lemma push_all_Inr:
  assumes "list_all (\<lambda>x. f x = Inr (g x)) xs" shows "push_all f xs = Inr (map g xs)"
  using assms by (induction xs) simp_all

lemma midnight_utc_Inr:
  assumes "valid_clock c" shows "\<exists>b. midnight_utc c = Inr b"
proof -
  define n where "n = day_number (clock_date c) - 2440588"
  have "\<bar>day_number (clock_date c)\<bar> < 2 ^ 42"
    using assms by (intro day_number_bound) (simp add: valid_clock_def)
  then have "\<bar>n\<bar> < 2 ^ 43" by (simp add: n_def)
  moreover have "\<bar>utc_offset_seconds c\<bar> \<le> 86399" using assms by (rule utc_offset_bounds)
  moreover have "int (clock_nanosecond c) < 1000000000" "0 \<le> int (clock_nanosecond c)"
    using clock_nanosecond_less [OF assms] by simp_all
  moreover have "utc_nanoseconds c - int (seconds_of_day c) * 1000000000
      = (n * 86400 - utc_offset_seconds c) * 1000000000 + int (clock_nanosecond c)"
    by (simp add: utc_nanoseconds_def n_def algebra_simps)
  ultimately have "- (2 ^ 127) \<le> utc_nanoseconds c - int (seconds_of_day c) * 1000000000"
    "utc_nanoseconds c - int (seconds_of_day c) * 1000000000 < 2 ^ 127"
    by (simp_all add: abs_less_iff abs_le_iff)
  then show ?thesis by (simp add: midnight_utc_def i128_checked_sub_def)
qed

text \<open>Where an authored position lands: nearest of the minutes, then nearest of the seconds around.\<close>

definition lands_at :: "(nat \<Rightarrow> f64) \<Rightarrow> nat \<Rightarrow> nat \<Rightarrow> bool" where
  "lands_at d minute second \<longleftrightarrow> minute < MINUTES_PER_DAY
     \<and> (\<forall>m < MINUTES_PER_DAY. f64_le (d (minute * 60)) (d (m * 60)))
     \<and> minute * 60 - 60 \<le> second \<and> second \<le> min (minute * 60 + 60) 86399
     \<and> (\<forall>k. minute * 60 - 60 \<le> k \<and> k \<le> min (minute * 60 + 60) 86399 \<longrightarrow> f64_le (d second) (d k))"

lemma nearest_second_lands:
  assumes fin: "\<forall>k < 86400. f64_finite (distance (vector (path k)) target)"
    and sun: "\<forall>k < 86400. sun loc base k = Inr (path k)"
    and samples: "samples = map (\<lambda>m. \<lparr>sm_second = m * 60, sm_vector = vector (path (m * 60))\<rparr>)
      [0 ..< MINUTES_PER_DAY]"
  shows "\<exists>m s. nearest_second sun vector distance samples loc base target = Inr s
    \<and> lands_at (\<lambda>k. distance (vector (path k)) target) m s"
proof -
  let ?best = "\<lambda>samples. foldl (\<lambda>best sample. nearer distance best sample target) None samples"
  let ?d = "\<lambda>v. distance v target"
  have ne: "samples \<noteq> []" by (simp add: samples MINUTES_PER_DAY_def)
  have fs: "finite_distances distance target (set samples)"
  proof -
    have "m * 60 < 86400" if "m < MINUTES_PER_DAY" for m using that by (simp add: MINUTES_PER_DAY_def)
    with fin show ?thesis unfolding finite_distances_def samples set_map set_upt by simp
  qed
  from foldl_nearer_None [OF fs ne] obtain c where
    c: "?best samples = Some c" "nearest_of ?d samples c" by blast
  then obtain m where m: "m < MINUTES_PER_DAY" "c = \<lparr>sm_second = m * 60, sm_vector = vector (path (m * 60))\<rparr>"
    by (auto simp: nearest_of_def samples)
  let ?ks = "[m * 60 - 60 ..< Suc (min (m * 60 + 60) 86399)]"
  let ?refined = "map (\<lambda>k. \<lparr>sm_second = k, sm_vector = vector (path k)\<rparr>) ?ks"
  have "list_all (\<lambda>k. rbind (sun loc base k) (\<lambda>p. Inr (vector p)) = Inr (vector (path k))) ?ks"
    using sun by (auto simp: list_all_iff)
  from refine_foldl [OF this, of distance target None]
  have r: "refine (\<lambda>k. rbind (sun loc base k) (\<lambda>p. Inr (vector p))) distance target ?ks None
      = Inr (?best ?refined)" .
  have "m * 60 - 60 < Suc (min (m * 60 + 60) 86399)" using m(1) by (simp add: MINUTES_PER_DAY_def)
  then have ne': "?refined \<noteq> []" by (simp only: map_is_Nil_conv upt_eq_Nil_conv) simp
  have fr: "finite_distances distance target (set ?refined)"
    unfolding finite_distances_def set_map set_upt using fin by auto
  from foldl_nearer_None [OF fr ne'] obtain t where
    t: "?best ?refined = Some t" "nearest_of ?d ?refined t" by blast
  then obtain s where s: "s \<in> set ?ks" "t = \<lparr>sm_second = s, sm_vector = vector (path s)\<rparr>"
    by (auto simp: nearest_of_def simp del: upt_Suc)
  have "nearest_second sun vector distance samples loc base target = Inr s"
  proof -
    have k: "[sm_second c - REFINEMENT_RADIUS_SECONDS
        ..< Suc (min (sm_second c + REFINEMENT_RADIUS_SECONDS) (SECONDS_PER_DAY - 1))] = ?ks"
      by (simp add: m(2) REFINEMENT_RADIUS_SECONDS_def SECONDS_PER_DAY_def del: upt_Suc)
    show ?thesis
      unfolding nearest_second_def Let_def c(1) ok_or_simps rbind_simps k r t(1)
      by (simp add: s(2))
  qed
  moreover have "lands_at (\<lambda>k. distance (vector (path k)) target) m s"
  proof -
    let ?D = "\<lambda>k. distance (vector (path k)) target"
    have "f64_le (?D (m * 60)) (?D (k * 60))" if "k < MINUTES_PER_DAY" for k
    proof -
      have "\<lparr>sm_second = k * 60, sm_vector = vector (path (k * 60))\<rparr> \<in> set samples"
        using that by (auto simp: samples)
      with c(2) m(2) show ?thesis by (fastforce simp: nearest_of_def)
    qed
    moreover have "f64_le (?D s) (?D k)" if "m * 60 - 60 \<le> k" "k \<le> min (m * 60 + 60) 86399" for k
    proof -
      have "\<lparr>sm_second = k, sm_vector = vector (path k)\<rparr> \<in> set ?refined"
        using that by (simp only: set_map set_upt) (simp add: image_iff less_Suc_eq_le)
      with t(2) s(2) show ?thesis by (fastforce simp: nearest_of_def simp del: upt_Suc)
    qed
    moreover have "m * 60 - 60 \<le> s" "s \<le> min (m * 60 + 60) 86399"
      using s(1) by (simp_all only: set_upt) (simp_all add: less_Suc_eq_le)
    ultimately show ?thesis using m(1) by (simp only: lands_at_def) simp
  qed
  ultimately show ?thesis by blast
qed



end
