(* ===== verification/Desktop_Surface.thy ===== *)
theory Desktop_Surface
  imports Solar_Schedule
begin

text \<open>
  The pieces of the desktop wallpaper renderer \<open>src/desktop_wallpaper.rs\<close> below its event loop: when
  a surface draws or asks for a frame callback, the sizes of surfaces and buffers, the choice of a
  buffer, the scheduler around the playback, and the drawing of a frame that covers a buffer.
\<close>

section \<open>Presentation\<close>

definition BUFFER_COUNT :: nat where
  "BUFFER_COUNT = 2"

definition MAX_BUFFER_BYTES :: nat where
  "MAX_BUFFER_BYTES = 256 * 1024 * 1024"

definition MAX_SURFACE_DIMENSION :: nat where
  "MAX_SURFACE_DIMENSION = 16384"

definition FALLBACK_RGB :: "u8 list" where
  "FALLBACK_RGB = [5, 9, 24]"

datatype surface_action = ActRender | ActRearm | ActIdle

definition surface_action_of :: "bool \<Rightarrow> bool \<Rightarrow> surface_action" where
  "surface_action_of redraw transitioning =
     (if redraw then ActRender else if transitioning then ActRearm else ActIdle)"

definition render_eligible_of :: "bool \<Rightarrow> bool \<Rightarrow> bool \<Rightarrow> bool \<Rightarrow> bool" where
  "render_eligible_of redraw geometry_redraw frame_pending configured \<longleftrightarrow>
     redraw \<and> (\<not> frame_pending \<or> geometry_redraw) \<and> configured"

definition request_frame :: "bool \<Rightarrow> bool \<Rightarrow> bool" where
  "request_frame transitioning frame_pending \<longleftrightarrow> transitioning \<and> \<not> frame_pending"

record presentation_state =
  ps_redraw :: bool
  ps_geometry_redraw :: bool
  ps_frame_pending :: bool
  ps_frame_ready :: bool
  ps_disabled :: bool

definition presentation_new :: presentation_state where
  "presentation_new = \<lparr>ps_redraw = True, ps_geometry_redraw = False, ps_frame_pending = False,
     ps_frame_ready = False, ps_disabled = False\<rparr>"

definition geometry_changed :: "presentation_state \<Rightarrow> presentation_state" where
  "geometry_changed p = p\<lparr>ps_redraw := True, ps_geometry_redraw := True, ps_disabled := False\<rparr>"

definition playback_changed :: "presentation_state \<Rightarrow> presentation_state" where
  "playback_changed p = (if \<not> ps_disabled p then p\<lparr>ps_redraw := True\<rparr> else p)"

definition frame_arrived :: "presentation_state \<Rightarrow> presentation_state" where
  "frame_arrived p = p\<lparr>ps_frame_pending := False, ps_frame_ready := \<not> ps_disabled p\<rparr>"

definition take_frame_action :: "bool \<Rightarrow> presentation_state \<Rightarrow> presentation_state \<times> surface_action" where
  "take_frame_action transitioning p =
     (p\<lparr>ps_frame_ready := False\<rparr>,
      if \<not> ps_frame_ready p \<or> ps_disabled p then ActIdle
      else surface_action_of (ps_redraw p) transitioning)"

definition render_eligible :: "presentation_state \<Rightarrow> bool \<Rightarrow> bool" where
  "render_eligible p configured \<longleftrightarrow> \<not> ps_disabled p
     \<and> render_eligible_of (ps_redraw p) (ps_geometry_redraw p) (ps_frame_pending p) configured"

definition next_action ::
  "bool \<Rightarrow> bool \<Rightarrow> presentation_state \<Rightarrow> presentation_state \<times> surface_action" where
  "next_action transitioning configured p =
     (let (p', act) = take_frame_action transitioning p in
      (p', if act = ActRearm then ActRearm
           else if render_eligible p' configured then ActRender else ActIdle))"

definition rearmed :: "presentation_state \<Rightarrow> presentation_state" where
  "rearmed p = p\<lparr>ps_frame_pending := True\<rparr>"

definition rendered :: "bool \<Rightarrow> presentation_state \<Rightarrow> presentation_state" where
  "rendered requested_frame p =
     p\<lparr>ps_redraw := False, ps_geometry_redraw := False,
       ps_frame_pending := (ps_frame_pending p \<or> requested_frame), ps_disabled := False\<rparr>"

definition disable_presentation :: "presentation_state \<Rightarrow> presentation_state" where
  "disable_presentation p =
     p\<lparr>ps_redraw := False, ps_geometry_redraw := False, ps_frame_ready := False, ps_disabled := True\<rparr>"

section \<open>Sizes\<close>

definition resolve_configure_size ::
  "nat \<times> nat \<Rightarrow> (nat \<times> nat) option \<Rightarrow> (nat \<times> nat) option \<Rightarrow> (nat \<times> nat) option" where
  "resolve_configure_size suggested previous output =
     (let fallback = or_else output previous in
      Option.bind (or_else (if fst suggested \<noteq> 0 then Some (fst suggested) else None)
                     (map_option fst fallback)) (\<lambda>width.
      Option.bind (or_else (if snd suggested \<noteq> 0 then Some (snd suggested) else None)
                     (map_option snd fallback)) (\<lambda>height.
        Some (width, height))))"

datatype transform =
    TNormal | T90 | T180 | T270 | TFlipped | TFlipped90 | TFlipped180 | TFlipped270

record output_mode =
  om_current :: bool
  om_dimensions :: "int \<times> int"

record output_info =
  oi_logical_size :: "(int \<times> int) option"
  oi_modes :: "output_mode list"
  oi_scale_factor :: int
  oi_transform :: transform

definition u32_of :: "int \<Rightarrow> nat option" where
  "u32_of i = (if 0 \<le> i \<and> i < 2 ^ 32 then Some (nat i) else None)"

text \<open>The arguments of \<open>then_some\<close> are evaluated first; a failing conversion returns \<open>None\<close> as well.\<close>

definition mode_logical_size :: "int \<times> int \<Rightarrow> int \<Rightarrow> transform \<Rightarrow> (nat \<times> nat) option" where
  "mode_logical_size dimensions scale transform =
     (let (width, height) = (if transform \<in> {T90, T270, TFlipped90, TFlipped270}
            then (snd dimensions, fst dimensions) else dimensions);
          scale = max scale 1
      in Option.bind (u32_of (width sdiv scale)) (\<lambda>w.
         Option.bind (u32_of (height sdiv scale)) (\<lambda>h.
           if width > 0 \<and> height > 0 then Some (max w 1, max h 1) else None)))"

definition output_logical_size :: "output_info \<Rightarrow> (nat \<times> nat) option" where
  "output_logical_size info =
     (case (case oi_logical_size info of
              Some (width, height) \<Rightarrow>
                if width > 0 \<and> height > 0 then Some (nat width, nat height) else None
            | None \<Rightarrow> None) of
        Some dims \<Rightarrow> Some dims
      | None \<Rightarrow>
          Option.bind (map_option om_dimensions (find om_current (oi_modes info)))
            (\<lambda>dimensions. mode_logical_size dimensions (oi_scale_factor info) (oi_transform info)))"

record buffer_geometry =
  bg_width :: nat
  bg_height :: nat
  bg_bytes :: nat

definition filter_le :: "nat \<Rightarrow> nat option \<Rightarrow> nat option" where
  "filter_le limit n = Option.bind n (\<lambda>n. if n \<le> limit then Some n else None)"

definition buffer_geometry_of :: "nat \<times> nat \<Rightarrow> int \<Rightarrow> ustring + buffer_geometry" where
  "buffer_geometry_of dims scale =
     (let scale = nat (max scale 1) in
      rbind (ok_or (filter_le MAX_SURFACE_DIMENSION (checked_mul 32 (fst dims) scale))
               (lit ''unsafe wallpaper surface width'')) (\<lambda>width.
      rbind (ok_or (filter_le MAX_SURFACE_DIMENSION (checked_mul 32 (snd dims) scale))
               (lit ''unsafe wallpaper surface height'')) (\<lambda>height.
      rbind (ok_or (filter_le MAX_BUFFER_BYTES
                      (Option.bind (checked_mul 64 width height) (\<lambda>pixels. checked_mul 64 pixels 4)))
               (lit ''wallpaper buffer exceeds resource limit'')) (\<lambda>bytes.
        Inr \<lparr>bg_width = width, bg_height = height, bg_bytes = bytes\<rparr>))))"

datatype buffer_decision = BReuse nat | BAllocate | BWait

definition buffer_decision_of :: "bool list \<Rightarrow> nat \<Rightarrow> buffer_decision" where
  "buffer_decision_of released count =
     (case position id released of
        Some i \<Rightarrow> BReuse i
      | None \<Rightarrow> if count < BUFFER_COUNT then BAllocate else BWait)"

section \<open>The scheduler\<close>

definition playback_deadline :: "playback \<Rightarrow> clock_snapshot \<Rightarrow> duration \<Rightarrow> duration option" where
  "playback_deadline pb clock monotonic =
     Option.bind (next_wake pb clock monotonic) (\<lambda>delay. duration_checked_add monotonic delay)"

definition earlier_deadline :: "duration option \<Rightarrow> duration option \<Rightarrow> duration option" where
  "earlier_deadline l r = list_min (option_list l @ option_list r)"

record scheduler =
  sch_playback :: playback
  next_synchronize :: "duration option"

text \<open>The scheduler's operations carry the generation counter along with the playback.\<close>

definition Scheduler_new :: "playback \<Rightarrow> clock_snapshot \<Rightarrow> duration \<Rightarrow> scheduler" where
  "Scheduler_new pb clock monotonic =
     \<lparr>sch_playback = pb, next_synchronize = playback_deadline pb clock monotonic\<rparr>"

definition synchronize_if_due ::
  "clock_snapshot \<Rightarrow> duration \<Rightarrow> scheduler \<times> u64
    \<Rightarrow> ((scheduler \<times> u64) \<times> synchronize_outcome option) option" where
  "synchronize_if_due clock monotonic = (\<lambda>(s, counter).
     if (case next_synchronize s of None \<Rightarrow> True | Some deadline \<Rightarrow> monotonic < deadline)
     then Some ((s, counter), None)
     else map_option (\<lambda>((pb, counter), out).
            ((\<lparr>sch_playback = pb, next_synchronize = playback_deadline pb clock monotonic\<rparr>, counter),
             Some out))
          (synchronize clock monotonic (sch_playback s, counter)))"

definition sch_synchronize_now ::
  "clock_snapshot \<Rightarrow> duration \<Rightarrow> bool \<Rightarrow> scheduler \<times> u64 \<Rightarrow> ((scheduler \<times> u64) \<times> bool) option" where
  "sch_synchronize_now clock monotonic discontinuity = (\<lambda>(s, counter).
     let deadline_due = (case next_synchronize s of None \<Rightarrow> False | Some deadline \<Rightarrow> monotonic \<ge> deadline)
     in map_option (\<lambda>((pb, counter), out).
          ((\<lparr>sch_playback = pb,
             next_synchronize =
               (if deadline_due \<or> discontinuity \<or> selection_changed out \<or> so_discontinuity out
                then playback_deadline pb clock monotonic else next_synchronize s)\<rparr>, counter),
           presentation_changed out))
        (if discontinuity
         then resynchronize_after_discontinuity clock monotonic (sch_playback s, counter)
         else synchronize clock monotonic (sch_playback s, counter)))"

definition prepare_presentation ::
  "clock_snapshot \<Rightarrow> duration \<Rightarrow> bool \<Rightarrow> scheduler \<times> u64 \<Rightarrow> ((scheduler \<times> u64) \<times> bool) option" where
  "prepare_presentation clock monotonic discontinuity s =
     map_option (\<lambda>((s, counter), presentation).
       let (pb, transition) = advance_transition monotonic (sch_playback s)
       in ((s\<lparr>sch_playback := pb\<rparr>, counter), presentation \<or> transition))
     (sch_synchronize_now clock monotonic discontinuity s)"

definition sch_complete_decode ::
  "decode_request \<Rightarrow> heic_frame option \<Rightarrow> clock_snapshot \<Rightarrow> duration \<Rightarrow> nat option \<Rightarrow> scheduler \<times> u64
    \<Rightarrow> (scheduler \<times> u64) \<times> decode_outcome" where
  "sch_complete_decode request result clock monotonic reserved = (\<lambda>(s, counter).
     let ((pb, counter), out) = complete_decode request result monotonic reserved (sch_playback s, counter)
     in ((\<lparr>sch_playback = pb,
           next_synchronize = earlier_deadline (next_synchronize s)
             (playback_deadline pb clock monotonic)\<rparr>, counter), out))"

definition synchronize_and_complete_decode ::
  "decode_request \<Rightarrow> heic_frame option \<Rightarrow> clock_snapshot \<Rightarrow> duration \<Rightarrow> bool \<Rightarrow> nat option
    \<Rightarrow> scheduler \<times> u64 \<Rightarrow> ((scheduler \<times> u64) \<times> decode_outcome \<times> bool) option" where
  "synchronize_and_complete_decode request result clock monotonic discontinuity reserved s =
     map_option (\<lambda>(s, presentation).
       let (s, out) = sch_complete_decode request result clock monotonic reserved s
       in (s, out, presentation))
     (prepare_presentation clock monotonic discontinuity s)"

definition apply_solar_schedule ::
  "time_point list \<Rightarrow> clock_snapshot \<Rightarrow> duration \<Rightarrow> scheduler \<times> u64
    \<Rightarrow> ((scheduler \<times> u64) \<times> synchronize_outcome) option" where
  "apply_solar_schedule pts clock monotonic = (\<lambda>(s, counter).
     map_option (\<lambda>((pb, counter), out).
       ((\<lparr>sch_playback = pb, next_synchronize = playback_deadline pb clock monotonic\<rparr>, counter), out))
     (set_solar_schedule pts clock monotonic (sch_playback s, counter)))"

section \<open>Drawing\<close>

definition elem_at :: "'a list \<Rightarrow> nat \<Rightarrow> 'a option" where
  "elem_at xs i = (if i < length xs then Some (xs ! i) else None)"

text \<open>\<open>target[offset..offset + 4].copy_from_slice(..)\<close>; out of range it panics.\<close>

definition write4 :: "u8 list \<Rightarrow> nat \<Rightarrow> u8 list \<Rightarrow> u8 list option" where
  "write4 pixel offset target =
     (if offset + 4 \<le> length target
      then Some (take offset target @ pixel @ drop (offset + 4) target) else None)"

fun for_all :: "('a \<Rightarrow> 's \<Rightarrow> 's option) \<Rightarrow> 'a list \<Rightarrow> 's \<Rightarrow> 's option" where
  "for_all body [] s = Some s"
| "for_all body (x # xs) s = Option.bind (body x s) (for_all body xs)"

fun fill_chunks4 :: "u8 list \<Rightarrow> u8 list \<Rightarrow> u8 list" where
  "fill_chunks4 pixel (a # b # c # d # rest) = pixel @ fill_chunks4 pixel rest"
| "fill_chunks4 pixel rest = rest"

text \<open>The size of the frame scaled to cover the buffer, in \<open>u128\<close>; a zero divisor panics.\<close>

definition checked_div :: "nat \<Rightarrow> nat \<Rightarrow> nat option" where
  "checked_div a b = (if b = 0 then None else Some (a div b))"

definition cover_scale :: "nat \<Rightarrow> nat \<Rightarrow> heic_frame \<Rightarrow> (nat \<times> nat) option" where
  "cover_scale width height frame =
     (if hf_width frame * height > width * hf_height frame
      then map_option (\<lambda>w. (w, height)) (checked_div (hf_width frame * height) (hf_height frame))
      else map_option (\<lambda>h. (width, h)) (checked_div (hf_height frame * width) (hf_width frame)))"

definition cover_index :: "nat \<Rightarrow> nat \<Rightarrow> nat \<Rightarrow> nat \<Rightarrow> nat option" where
  "cover_index i crop dims scaled = map_option (\<lambda>k. min k (dims - 1)) (checked_div ((i + crop) * dims) scaled)"

definition cover_pixel :: "heic_frame \<Rightarrow> nat \<Rightarrow> nat \<Rightarrow> u8 list option" where
  "cover_pixel frame source_x source_y =
     (let source = (source_y * hf_width frame + source_x) * 4 in
      Option.bind (elem_at (hf_pixels frame) (source + 2)) (\<lambda>b.
      Option.bind (elem_at (hf_pixels frame) (source + 1)) (\<lambda>g.
      Option.bind (elem_at (hf_pixels frame) source) (\<lambda>r.
        Some [b, g, r, 255]))))"

definition render_cover_argb ::
  "nat \<Rightarrow> nat \<Rightarrow> heic_frame option \<Rightarrow> u8 list \<Rightarrow> u8 list option" where
  "render_cover_argb width height frame target =
     (case frame of
        None \<Rightarrow> Some (fill_chunks4 [FALLBACK_RGB ! 2, FALLBACK_RGB ! 1, FALLBACK_RGB ! 0, 255] target)
      | Some frame \<Rightarrow>
          Option.bind (cover_scale width height frame) (\<lambda>(scaled_width, scaled_height).
            let crop_x = (scaled_width - width) div 2;
                crop_y = (scaled_height - height) div 2
            in for_all (\<lambda>y target.
                 Option.bind (cover_index y crop_y (hf_height frame) scaled_height) (\<lambda>source_y.
                   for_all (\<lambda>x target.
                     Option.bind (cover_index x crop_x (hf_width frame) scaled_width) (\<lambda>source_x.
                     Option.bind (cover_pixel frame source_x source_y) (\<lambda>pixel.
                       write4 pixel ((y * width + x) * 4) target)))
                   [0 ..< width] target))
               [0 ..< height] target))"

end
