(* ===== verification/Desktop_Cover.thy ===== *)
theory Desktop_Cover
  imports Desktop_Surface
begin

text \<open>
  Drawing of the desktop wallpaper, \<open>render_cover_argb\<close> of \<open>src/desktop_wallpaper.rs\<close>: every index
  it computes is in range, and what it leaves in the buffer is the frame scaled to cover it.
\<close>

section \<open>Scaling\<close>

lemma cover_scale_covers:
  assumes "sound_frame f" "0 < width" "0 < height"
  obtains sw sh where "cover_scale width height f = Some (sw, sh)" "width \<le> sw" "height \<le> sh"
proof -
  have f: "0 < hf_width f" "0 < hf_height f" using assms(1) by (simp_all add: sound_frame_iff)
  show thesis
  proof (cases "hf_width f * height > width * hf_height f")
    case True
    then have "width \<le> hf_width f * height div hf_height f"
      using f by (simp add: less_eq_div_iff_mult_less_eq)
    with True f that show thesis by (simp add: cover_scale_def checked_div_def)
  next
    case False
    then have "height \<le> hf_height f * width div hf_width f"
      using f by (simp add: less_eq_div_iff_mult_less_eq mult.commute)
    with False f that show thesis by (simp add: cover_scale_def checked_div_def)
  qed
qed

lemma cover_index_Some:
  assumes "0 < scaled" "0 < dims"
  shows "\<exists>k. cover_index i crop dims scaled = Some k \<and> k < dims"
  using assms by (auto simp: cover_index_def checked_div_def)

definition frame_pixel :: "heic_frame \<Rightarrow> nat \<Rightarrow> nat \<Rightarrow> u8 list" where
  "frame_pixel f x y =
     (let k = (y * hf_width f + x) * 4 in
      [hf_pixels f ! (k + 2), hf_pixels f ! (k + 1), hf_pixels f ! k, 255])"

lemma pixel_index:
  fixes x y w h :: nat
  assumes "x < w" "y < h" shows "(y * w + x) * 4 + 4 \<le> w * 4 * h"
proof -
  have "y * w + x + 1 \<le> (y + 1) * w" using assms(1) by simp
  also have "\<dots> \<le> h * w" using assms(2) by (intro mult_right_mono) simp_all
  finally show ?thesis by (simp add: algebra_simps)
qed

lemma cover_pixel_Some:
  assumes "sound_frame f" "x < hf_width f" "y < hf_height f"
  shows "cover_pixel f x y = Some (frame_pixel f x y)"
  using pixel_index [OF assms(2,3)] assms(1)
  by (simp add: cover_pixel_def frame_pixel_def elem_at_def Let_def sound_frame_iff)

section \<open>Writing the buffer\<close>

lemma write4_prefix:
  assumes "length done = offset" "length pixel = 4" "offset + 4 \<le> length target"
  shows "write4 pixel offset (done @ drop offset target)
    = Some ((done @ pixel) @ drop (offset + 4) target)"
  using assms by (simp add: write4_def drop_drop add.commute)

text \<open>Row by row, pixel by pixel, the buffer is overwritten from its start.\<close>

lemma for_all_append:
  "for_all body (xs @ ys) s = Option.bind (for_all body xs s) (for_all body ys)"
  by (induction xs arbitrary: s) (simp_all split: Option.bind_split)

lemma row_written:
  assumes "\<And>x. x < width \<Longrightarrow> pixel x = Some (px x)" "\<And>x. length (px x) = 4"
    "length done = y * width * 4" "(y * width + width) * 4 \<le> length target" "n \<le> width"
  shows "for_all (\<lambda>x target. Option.bind (pixel x) (\<lambda>p. write4 p ((y * width + x) * 4) target))
      [0 ..< n] (done @ drop (y * width * 4) target)
    = Some ((done @ concat (map px [0 ..< n])) @ drop ((y * width + n) * 4) target)"
  using assms(5)
proof (induction n)
  case 0
  then show ?case by simp
next
  case (Suc n)
  have len: "length (done @ concat (map px [0 ..< n])) = (y * width + n) * 4"
    using assms(2,3) by (simp add: length_concat sum_list_const_mult comp_def sum_list_triv algebra_simps)
  have le: "(y * width + n) * 4 + 4 \<le> length target"
    using assms(4) Suc.prems by (simp add: algebra_simps)
  show ?case
    using Suc.IH Suc.prems assms(1) [of n] write4_prefix [OF len assms(2) le, of n]
    by (simp add: for_all_append algebra_simps)
qed

lemma rows_written:
  assumes "\<And>y. y < height \<Longrightarrow> row_ok y"
    and "\<And>y x. row_ok y \<Longrightarrow> x < width \<Longrightarrow> pixel y x = Some (px y x)" "\<And>y x. length (px y x) = 4"
    and "height * width * 4 \<le> length target" "n \<le> height"
  shows "for_all (\<lambda>y. for_all (\<lambda>x target. Option.bind (pixel y x)
        (\<lambda>p. write4 p ((y * width + x) * 4) target)) [0 ..< width]) [0 ..< n] target
    = Some (concat (map (\<lambda>y. concat (map (px y) [0 ..< width])) [0 ..< n]) @ drop (n * width * 4) target)"
  using assms(5)
proof (induction n)
  case 0
  then show ?case by simp
next
  case (Suc n)
  let ?done = "concat (map (\<lambda>y. concat (map (px y) [0 ..< width])) [0 ..< n])"
  have len: "length ?done = n * width * 4"
    using assms(3) by (simp add: length_concat comp_def sum_list_triv)
  have "(Suc n) * width * 4 \<le> length target"
    using assms(4) mult_right_mono [OF Suc.prems, of "width * 4"] by (simp add: mult.assoc)
  then have le: "(n * width + width) * 4 \<le> length target" by (simp add: algebra_simps)
  have "for_all (\<lambda>x target. Option.bind (pixel n x) (\<lambda>p. write4 p ((n * width + x) * 4) target))
      [0 ..< width] (?done @ drop (n * width * 4) target)
    = Some ((?done @ concat (map (px n) [0 ..< width])) @ drop ((n * width + width) * 4) target)"
    using assms(1-3) Suc.prems by (intro row_written [OF _ _ len le]) auto
  with Suc show ?case by (simp add: for_all_append algebra_simps)
qed

definition cover_row :: "heic_frame \<Rightarrow> nat \<Rightarrow> nat \<Rightarrow> nat \<Rightarrow> nat \<Rightarrow> nat \<Rightarrow> u8 list" where
  "cover_row f width height sw sh y =
     concat (map (\<lambda>x. frame_pixel f
       (min ((x + (sw - width) div 2) * hf_width f div sw) (hf_width f - 1))
       (min ((y + (sh - height) div 2) * hf_height f div sh) (hf_height f - 1))) [0 ..< width])"

lemma render_cover_rows:
  assumes "sound_frame f" "0 < width" "0 < height" "length target = width * height * 4"
    and sc: "cover_scale width height f = Some (sw, sh)" and le: "width \<le> sw" "height \<le> sh"
  shows "render_cover_argb width height (Some f) target
    = Some (concat (map (cover_row f width height sw sh) [0 ..< height]))"
proof -
  let ?cx = "(sw - width) div 2" and ?cy = "(sh - height) div 2"
  let ?sx = "\<lambda>x. min ((x + ?cx) * hf_width f div sw) (hf_width f - 1)"
  let ?sy = "\<lambda>y. min ((y + ?cy) * hf_height f div sh) (hf_height f - 1)"
  have f: "0 < hf_width f" "0 < hf_height f" using assms(1) by (simp_all add: sound_frame_iff)
  have ix: "cover_index x ?cx (hf_width f) sw = Some (?sx x)"
    "cover_index y ?cy (hf_height f) sh = Some (?sy y)" for x y
    using le assms(2,3) by (simp_all add: cover_index_def checked_div_def)
  have px: "Option.bind (cover_index x ?cx (hf_width f) sw) (\<lambda>sx. Option.bind (cover_pixel f sx (?sy y)) g)
      = g (frame_pixel f (?sx x) (?sy y))" for x y and g :: "u8 list \<Rightarrow> u8 list option"
    unfolding ix Option.bind.simps
    by (subst cover_pixel_Some [OF assms(1)]) (use f in \<open>simp_all\<close>)
  have "render_cover_argb width height (Some f) target
      = for_all (\<lambda>y. for_all (\<lambda>x target. Option.bind (Some (frame_pixel f (?sx x) (?sy y)))
          (\<lambda>p. write4 p ((y * width + x) * 4) target)) [0 ..< width]) [0 ..< height] target"
    by (simp only: render_cover_argb_def option.case sc Option.bind.simps Let_def prod.case ix(2) px)
  also have "\<dots> = Some (concat (map (\<lambda>y. concat (map (\<lambda>x. frame_pixel f (?sx x) (?sy y)) [0 ..< width]))
        [0 ..< height]) @ drop (height * width * 4) target)"
    by (rule rows_written [where row_ok = "\<lambda>_. True" and height = height])
      (use assms(4) in \<open>simp_all add: frame_pixel_def Let_def algebra_simps\<close>)
  finally show ?thesis using assms(4) by (simp add: cover_row_def [abs_def] algebra_simps)
qed

lemma fill_chunks4_length: "length p = 4 \<Longrightarrow> length (fill_chunks4 p t) = length t"
  by (induction p t rule: fill_chunks4.induct) simp_all

lemma for_all_id: "(\<And>x. x \<in> set xs \<Longrightarrow> body x s = Some s) \<Longrightarrow> for_all body xs s = Some s"
  by (induction xs) simp_all

text \<open>Also a buffer without pixels is drawn without a division by zero.\<close>

lemma render_cover_empty:
  assumes "sound_frame f" "width = 0 \<or> height = 0"
  shows "render_cover_argb width height (Some f) target = Some target"
proof -
  have f: "0 < hf_width f" "0 < hf_height f" using assms(1) by (simp_all add: sound_frame_iff)
  show ?thesis
  proof (cases "height = 0")
    case True
    with f show ?thesis by (simp add: render_cover_argb_def cover_scale_def checked_div_def Let_def)
  next
    case False
    with assms(2) have w: "width = 0" by simp
    with False f show ?thesis
      by (auto simp: render_cover_argb_def cover_scale_def checked_div_def cover_index_def Let_def
          intro: for_all_id)
  qed
qed

lemma render_cover_total:
  assumes "case frame of None \<Rightarrow> True | Some f \<Rightarrow> sound_frame f" "length target = width * height * 4"
  shows "\<exists>out. render_cover_argb width height frame target = Some out \<and> length out = length target"
proof (cases frame)
  case None
  then show ?thesis by (simp add: render_cover_argb_def fill_chunks4_length)
next
  case (Some f)
  then have f: "sound_frame f" using assms(1) by simp
  show ?thesis
  proof (cases "width = 0 \<or> height = 0")
    case True
    with render_cover_empty [OF f True] Some show ?thesis by simp
  next
    case False
    then have pos: "0 < width" "0 < height" by simp_all
    obtain sw sh where sc: "cover_scale width height f = Some (sw, sh)" "width \<le> sw" "height \<le> sh"
      using cover_scale_covers [OF f pos] .
    show ?thesis
      using render_cover_rows [OF f pos assms(2) sc] Some assms(2) by (simp add: cover_row_def frame_pixel_def length_concat comp_def sum_list_triv
          Let_def algebra_simps)
  qed
qed

text \<open>The pixel at a position of the buffer.\<close>

definition buffer_pixel :: "u8 list \<Rightarrow> nat \<Rightarrow> nat \<Rightarrow> nat \<Rightarrow> u8 list" where
  "buffer_pixel out width x y = take 4 (drop ((y * width + x) * 4) out)"

lemma take_drop_concat:
  "(\<And>i. i < n \<Longrightarrow> length (f i) = k) \<Longrightarrow> j < n \<Longrightarrow> take k (drop (j * k) (concat (map f [0 ..< n]))) = f j"
proof (induction n)
  case (Suc n)
  have len: "length (concat (map f [0 ..< n])) = n * k"
  proof -
    have "map (length \<circ> f) [0 ..< n] = map (\<lambda>_. k) [0 ..< n]" using Suc.prems(1) by simp
    then have "sum_list (map (length \<circ> f) [0 ..< n]) = n * k" by (simp only: sum_list_triv) simp
    then show ?thesis by (simp add: length_concat comp_def)
  qed
  show ?case
  proof (cases "j = n")
    case True
    with len Suc.prems(1) show ?thesis by simp
  next
    case False
    with Suc have j: "j < n" "take k (drop (j * k) (concat (map f [0 ..< n]))) = f j" by simp_all
    then have "(j + 1) * k \<le> n * k" by (intro mult_right_mono) simp_all
    with j len show ?thesis by simp
  qed
qed simp

text \<open>
  C35. Drawing a decoded frame into a buffer of the surface's size never reads or writes out of range
  and never divides by zero; it overwrites the whole buffer, and the pixel at each position is the
  opaque pixel of the frame at that position of the frame scaled to cover the buffer and cropped
  evenly: the scaled frame is at least as large as the buffer, and as large along one axis.
\<close>
theorem render_cover_exact:
  assumes "sound_frame f" "length target = width * height * 4" "x < width" "y < height"
  shows "\<exists>out sw sh. render_cover_argb width height (Some f) target = Some out
    \<and> length out = length target
    \<and> cover_scale width height f = Some (sw, sh) \<and> width \<le> sw \<and> height \<le> sh
    \<and> (sw = width \<or> sh = height)
    \<and> buffer_pixel out width x y = frame_pixel f
        (min ((x + (sw - width) div 2) * hf_width f div sw) (hf_width f - 1))
        (min ((y + (sh - height) div 2) * hf_height f div sh) (hf_height f - 1))"
proof -
  have pos: "0 < width" "0 < height" using assms(3,4) by simp_all
  obtain sw sh where sc: "cover_scale width height f = Some (sw, sh)" "width \<le> sw" "height \<le> sh"
    using cover_scale_covers [OF assms(1) pos] .
  let ?out = "concat (map (cover_row f width height sw sh) [0 ..< height])"
  let ?px = "\<lambda>x. frame_pixel f (min ((x + (sw - width) div 2) * hf_width f div sw) (hf_width f - 1))
    (min ((y + (sh - height) div 2) * hf_height f div sh) (hf_height f - 1))"
  have out: "render_cover_argb width height (Some f) target = Some ?out"
    using render_cover_rows [OF assms(1) pos assms(2) sc] .
  have len: "length (cover_row f width height sw sh k) = width * 4" for k
    by (simp add: cover_row_def frame_pixel_def length_concat comp_def sum_list_triv Let_def)
  have row: "take (width * 4) (drop (y * (width * 4)) ?out) = cover_row f width height sw sh y"
    using take_drop_concat [of height "cover_row f width height sw sh" "width * 4" y] len assms(4)
    by simp
  have "x * 4 + 4 \<le> width * 4" using assms(3) by simp
  then have "take 4 (drop (x * 4) (take (width * 4) (drop (y * (width * 4)) ?out)))
      = buffer_pixel ?out width x y"
    by (simp add: buffer_pixel_def drop_take min_def add.commute algebra_simps)
  moreover have "take 4 (drop (x * 4) (cover_row f width height sw sh y)) = ?px x"
    unfolding cover_row_def using assms(3)
    by (intro take_drop_concat) (simp_all add: frame_pixel_def Let_def)
  ultimately have "buffer_pixel ?out width x y = ?px x" by (simp only: row)
  moreover have "sw = width \<or> sh = height" using sc(1) by (auto simp: cover_scale_def split: if_splits)
  moreover have "length ?out = length target"
    using render_cover_total [of "Some f" target width height] assms(1,2) out by simp
  ultimately show ?thesis using out sc by blast
qed

theorem render_cover_exact_witness:
  "\<exists>out. render_cover_argb 2 1 (Some demo_frame) (replicate 8 0) = Some out
    \<and> buffer_pixel out 2 1 0 = [3, 2, 1, 255]"
proof -
  have "sound_frame demo_frame" by (simp add: sound_frame_iff demo_frame_def MAX_FRAME_BYTES_def)
  from render_cover_exact [OF this, of "replicate 8 0" 2 1 1 0]
  show ?thesis by (auto simp: frame_pixel_def demo_frame_def Let_def)
qed

end
