(* ===== verification/Desktop_Runtime.thy ===== *)
theory Desktop_Runtime
  imports Desktop_Surface
begin

text \<open>
  The event loop of the desktop wallpaper renderer, \<open>Runtime\<close> in \<open>src/desktop_wallpaper.rs\<close>, with
  the channels and the states of its two worker threads: the HEIC decoder and the GeoClue resolver.
  The location types of \<open>src/geoclue.rs\<close> and the suspend detector and wall clock of
  \<open>src/wallpaper.rs\<close> belong here.

  \<open>callbacks_out\<close> counts the frame callbacks the compositor still owes a surface; the code keeps
  only the latest. What the runtime asks its environment for (the wall clock, the time since the start, the offset of
  the boot-time clock, whether an allocation or a thread can be had) is read from an oracle
  \<open>env\<close>, one reading per question. Instants are durations since the start. The log records what
  the runtime does to the outside. Panics and the errors that end the program are values.
\<close>

section \<open>Locations, clocks\<close>

datatype geoclue_error = GUnavailable | GTimeout | GDenied | GInvalid | GCoarse

definition is_retryable :: "geoclue_error \<Rightarrow> bool" where
  "is_retryable e \<longleftrightarrow> e \<in> {GUnavailable, GTimeout, GInvalid}"

definition MAX_CITY_ACCURACY_METERS :: f64 where
  "MAX_CITY_ACCURACY_METERS = Fin 25000"

record geo_location = location +
  accuracy_meters :: f64

definition GeoLocation_new :: "f64 \<Rightarrow> f64 \<Rightarrow> f64 \<Rightarrow> geoclue_error + geo_location" where
  "GeoLocation_new latitude longitude accuracy =
     (if \<not> f64_finite latitude \<or> \<not> (f64_le (Fin (- 90)) latitude \<and> f64_le latitude (Fin 90))
        \<or> \<not> f64_finite longitude \<or> \<not> (f64_le (Fin (- 180)) longitude \<and> f64_le longitude (Fin 180))
        \<or> \<not> f64_finite accuracy \<or> f64_less accuracy (Fin 0)
      then Inl GInvalid
      else if f64_less MAX_CITY_ACCURACY_METERS accuracy then Inl GCoarse
      else Inr \<lparr>latitude_degrees = latitude, longitude_degrees = longitude, accuracy_meters = accuracy\<rparr>)"

text \<open>The local time as \<open>chrono\<close> reports it.\<close>

record chrono_now =
  cn_year :: int
  cn_month :: nat
  cn_day :: nat
  cn_hour :: nat
  cn_minute :: nat
  cn_second :: nat
  cn_nanosecond :: nat
  cn_offset :: int

definition ok :: "'e + 'a \<Rightarrow> 'a option" where
  "ok r = (case r of Inl _ \<Rightarrow> None | Inr x \<Rightarrow> Some x)"

definition current_clock :: "chrono_now \<Rightarrow> clock_snapshot option" where
  "current_clock now =
     Option.bind (ok (CivilDate_new (cn_year now) (cn_month now) (cn_day now))) (\<lambda>date.
     Option.bind (ok (CivilTime_new (cn_hour now) (cn_minute now) (cn_second now))) (\<lambda>time.
       ok (ClockSnapshot_new_with_nanosecond date time (cn_nanosecond now) (cn_offset now))))"

definition SUSPEND_DETECTION_THRESHOLD :: duration where
  "SUSPEND_DETECTION_THRESHOLD = 10000000"

type_synonym suspend_detector = "duration option"

definition detector_observe :: "duration \<Rightarrow> suspend_detector \<Rightarrow> suspend_detector \<times> bool" where
  "detector_observe offset d =
     (case d of
        None \<Rightarrow> (Some offset, False)
      | Some previous \<Rightarrow>
          if offset \<le> previous then (d, False)
          else (Some offset, offset - previous > SUSPEND_DETECTION_THRESHOLD))"

definition detector_sample :: "duration option \<Rightarrow> suspend_detector \<Rightarrow> suspend_detector \<times> bool" where
  "detector_sample offset d = (case offset of None \<Rightarrow> (d, False) | Some o' \<Rightarrow> detector_observe o' d)"

section \<open>Workers\<close>

datatype desktop_failure =
    Panicked
  | ClockUnavailable
  | QueueFull
  | DecoderStopped
  | UnknownSurface

datatype worker_result =
    WInitialized metadata image_reference
  | WInitializationFailed
  | WDecoded decode_request "heic_frame option"

datatype worker_phase = WOpening | WIdle | WBusy decode_request | WStopped

record decoder =
  dc_requests :: "decode_request list"
  dc_results :: "worker_result list"
  dc_worker :: worker_phase
  initializing :: bool
  in_flight :: bool

definition decoder_spawned :: decoder where
  "decoder_spawned = \<lparr>dc_requests = [], dc_results = [], dc_worker = WOpening,
     initializing = True, in_flight = False\<rparr>"

text \<open>\<open>try_send\<close> on a channel for one request.\<close>

definition decoder_dispatch :: "decode_request \<Rightarrow> decoder \<Rightarrow> desktop_failure + decoder" where
  "decoder_dispatch r d =
     (if dc_worker d = WStopped then Inl DecoderStopped
      else if dc_requests d \<noteq> [] then Inl QueueFull
      else Inr (d\<lparr>dc_requests := [r], in_flight := True\<rparr>))"

definition decoder_receive :: "decoder \<Rightarrow> desktop_failure + decoder \<times> worker_result option" where
  "decoder_receive d =
     (case dc_results d of
        result # rest \<Rightarrow>
          (let d = d\<lparr>dc_results := rest\<rparr> in
           Inr (case result of WDecoded _ _ \<Rightarrow> d\<lparr>in_flight := False\<rparr> | _ \<Rightarrow> d\<lparr>initializing := False\<rparr>,
                Some result))
      | [] \<Rightarrow>
          if dc_worker d = WStopped \<and> (initializing d \<or> in_flight d) then Inl DecoderStopped
          else Inr (d, None))"

text \<open>
  The decoder thread: it opens the document, reports it, and decodes one request after the other;
  sending blocks while the result channel holds a result. A thread may stop at any point.
\<close>

inductive decoder_step :: "decoder \<Rightarrow> decoder \<Rightarrow> bool" where
  open_failed: "dc_worker d = WOpening \<Longrightarrow> dc_results d = []
    \<Longrightarrow> decoder_step d (d\<lparr>dc_results := [WInitializationFailed], dc_worker := WStopped\<rparr>)"
| opened: "dc_worker d = WOpening \<Longrightarrow> dc_results d = []
    \<Longrightarrow> decoder_step d (d\<lparr>dc_results := [WInitialized md primary], dc_worker := WIdle\<rparr>)"
| received: "dc_worker d = WIdle \<Longrightarrow> dc_requests d = r # rs
    \<Longrightarrow> decoder_step d (d\<lparr>dc_requests := rs, dc_worker := WBusy r\<rparr>)"
| decoded: "dc_worker d = WBusy r \<Longrightarrow> dc_results d = []
    \<Longrightarrow> decoder_step d (d\<lparr>dc_results := [WDecoded r frame], dc_worker := WIdle\<rparr>)"
| stopped: "decoder_step d (d\<lparr>dc_worker := WStopped\<rparr>)"

datatype solar_result = SLocated geo_location | SFailed geoclue_error

datatype solar_phase = SIdle | SBusy | SStopped

record solar_resolver =
  sr_commands :: nat
  sr_results :: "solar_result list"
  sr_worker :: solar_phase
  sr_in_flight :: bool

definition resolver_spawned :: solar_resolver where
  "resolver_spawned = \<lparr>sr_commands = 0, sr_results = [], sr_worker = SIdle, sr_in_flight = False\<rparr>"

definition resolver_dispatch :: "solar_resolver \<Rightarrow> desktop_failure + solar_resolver" where
  "resolver_dispatch r =
     (if sr_worker r = SStopped then Inl DecoderStopped
      else if sr_commands r \<ge> 1 then Inr r
      else Inr (r\<lparr>sr_commands := sr_commands r + 1, sr_in_flight := True\<rparr>))"

definition resolver_receive :: "solar_resolver \<Rightarrow> solar_resolver \<times> solar_result option" where
  "resolver_receive r =
     (case sr_results r of
        result # rest \<Rightarrow> (r\<lparr>sr_results := rest, sr_in_flight := False\<rparr>, Some result)
      | [] \<Rightarrow> if sr_worker r = SStopped then (r\<lparr>sr_in_flight := False\<rparr>, None) else (r, None))"

inductive resolver_step :: "solar_resolver \<Rightarrow> solar_resolver \<Rightarrow> bool" where
  command: "sr_worker r = SIdle \<Longrightarrow> sr_commands r = Suc n
    \<Longrightarrow> resolver_step r (r\<lparr>sr_commands := n, sr_worker := SBusy\<rparr>)"
| answer: "sr_worker r = SBusy \<Longrightarrow> sr_results r = []
    \<Longrightarrow> resolver_step r (r\<lparr>sr_results := [result], sr_worker := SIdle\<rparr>)"
| gone: "resolver_step r (r\<lparr>sr_worker := SStopped\<rparr>)"

section \<open>The runtime\<close>

record surface_buffer =
  sb_size :: "nat \<times> nat"
  sb_generation :: u64
  sb_released :: bool
  sb_canvas :: "u8 list"

record surface =
  sf_output :: nat
  sf_layer :: nat
  configure_hints :: "(nat \<times> nat) option"
  sf_size :: "(nat \<times> nat) option"
  sf_scale :: int
  geometry_generation :: u64
  sf_buffers :: "surface_buffer list"
  sf_presentation :: presentation_state
  frame_callback :: bool
  callbacks_out :: nat
  last_error :: "ustring option"

datatype desktop_effect =
    DispatchedDecode decode_request
  | RequestedLocation
  | AppliedSolar "time_point list"
  | Committed nat bool

record desktop =
  surfaces :: "surface list"
  next_layer :: nat
  rt_scheduler :: "scheduler option"
  rt_counter :: u64
  rt_decoder :: decoder
  rt_appearance :: appearance_preference
  rt_reduced_motion :: bool
  rt_suspend :: suspend_detector
  check_clock :: bool
  rt_failure :: "desktop_failure option"
  solar_enabled :: bool
  rt_resolver :: "solar_resolver option"
  solar_requested :: bool
  solar_terminal :: bool
  rt_metadata :: "metadata option"
  rt_location :: "geo_location option"
  next_location_refresh :: "duration option"
  next_solar_check :: "duration option"
  rt_mapped :: "(civil_date \<times> int) option"
  queries :: nat
  rt_log :: "desktop_effect list"

record reading =
  rd_now :: chrono_now
  rd_elapsed :: duration
  rd_boot_offset :: "duration option"
  rd_reserved :: "nat option"
  rd_granted :: bool

type_synonym env = "nat \<Rightarrow> reading"

definition ask :: "(reading \<Rightarrow> 'a) \<Rightarrow> env \<Rightarrow> desktop \<Rightarrow> 'a \<times> desktop" where
  "ask f env rt = (f (env (queries rt)), rt\<lparr>queries := queries rt + 1\<rparr>)"

definition ask_clock :: "env \<Rightarrow> desktop \<Rightarrow> desktop_failure + clock_snapshot \<times> desktop" where
  "ask_clock env rt =
     (let (now, rt) = ask rd_now env rt
      in rbind (ok_or (current_clock now) ClockUnavailable) (\<lambda>clock. Inr (clock, rt)))"

definition ask_suspended :: "env \<Rightarrow> desktop \<Rightarrow> bool \<times> desktop" where
  "ask_suspended env rt =
     (let (offset, rt) = ask rd_boot_offset env rt;
          (d, suspended) = detector_sample offset (rt_suspend rt)
      in (suspended, rt\<lparr>rt_suspend := d\<rparr>))"

definition note_effect :: "desktop_effect \<Rightarrow> desktop \<Rightarrow> desktop" where
  "note_effect e rt = rt\<lparr>rt_log := rt_log rt @ [e]\<rparr>"

text \<open>A call on the installed scheduler that may panic.\<close>

definition with_scheduler ::
  "(scheduler \<times> u64 \<Rightarrow> ((scheduler \<times> u64) \<times> 'a) option) \<Rightarrow> scheduler \<Rightarrow> desktop
    \<Rightarrow> desktop_failure + 'a \<times> desktop" where
  "with_scheduler f s rt =
     (case f (s, rt_counter rt) of
        None \<Rightarrow> Inl Panicked
      | Some ((s, counter), x) \<Rightarrow> Inr (x, rt\<lparr>rt_scheduler := Some s, rt_counter := counter\<rparr>))"

definition redraw_all :: "desktop \<Rightarrow> desktop" where
  "redraw_all rt =
     rt\<lparr>surfaces := map (\<lambda>s. s\<lparr>sf_presentation := playback_changed (sf_presentation s)\<rparr>) (surfaces rt)\<rparr>"

definition redraw_if :: "bool \<Rightarrow> desktop \<Rightarrow> desktop" where
  "redraw_if b rt = (if b then redraw_all rt else rt)"

definition dispatch_decode :: "desktop \<Rightarrow> desktop_failure + desktop" where
  "dispatch_decode rt =
     (if in_flight (rt_decoder rt) then Inr rt
      else case rt_scheduler rt of
        None \<Rightarrow> Inr rt
      | Some s \<Rightarrow>
          (let (pb, request) = take_decode_request (sch_playback s);
               rt = rt\<lparr>rt_scheduler := Some (s\<lparr>sch_playback := pb\<rparr>)\<rparr>
           in case request of
                None \<Rightarrow> Inr rt
              | Some r \<Rightarrow>
                  rbind (decoder_dispatch r (rt_decoder rt)) (\<lambda>d.
                    Inr (note_effect (DispatchedDecode r) (rt\<lparr>rt_decoder := d\<rparr>)))))"

definition synchronize_due :: "env \<Rightarrow> desktop \<Rightarrow> desktop_failure + desktop" where
  "synchronize_due env rt =
     (let (monotonic, rt) = ask rd_elapsed env rt in
      case rt_scheduler rt of
        None \<Rightarrow> Inr rt
      | Some s \<Rightarrow>
          if \<not> (case next_synchronize s of None \<Rightarrow> False | Some deadline \<Rightarrow> monotonic \<ge> deadline)
          then Inr rt
          else rbind (ask_clock env rt) (\<lambda>(clock, rt).
               rbind (with_scheduler (synchronize_if_due clock monotonic) s rt) (\<lambda>(out, rt).
                 dispatch_decode
                   (redraw_if (case out of None \<Rightarrow> False | Some out \<Rightarrow> presentation_changed out) rt))))"

definition rt_synchronize_now :: "bool \<Rightarrow> env \<Rightarrow> desktop \<Rightarrow> desktop_failure + desktop" where
  "rt_synchronize_now discontinuity env rt =
     rbind (ask_clock env rt) (\<lambda>(clock, rt).
       let (monotonic, rt) = ask rd_elapsed env rt in
       rbind (case rt_scheduler rt of
                None \<Rightarrow> Inr (False, rt)
              | Some s \<Rightarrow> with_scheduler (sch_synchronize_now clock monotonic discontinuity) s rt)
         (\<lambda>(changed, rt). dispatch_decode (redraw_if changed rt)))"

section \<open>Solar\<close>

definition LOCATION_REFRESH :: duration where
  "LOCATION_REFRESH = duration_secs (6 * 60 * 60)"

definition LOCATION_RETRY :: duration where
  "LOCATION_RETRY = duration_secs (10 * 60)"

definition SOLAR_CHECK_INTERVAL :: duration where
  "SOLAR_CHECK_INTERVAL = duration_secs 60"

definition solar_request_ready ::
  "appearance_preference \<Rightarrow> bool \<Rightarrow> bool \<Rightarrow> bool \<Rightarrow> bool \<Rightarrow> bool" where
  "solar_request_ready app has_solar has_location frame_available requested \<longleftrightarrow>
     permits_solar app \<and> has_solar \<and> (has_location \<or> \<not> requested \<and> frame_available)"

definition solar_mapping_due ::
  "appearance_preference \<Rightarrow> bool \<Rightarrow> bool \<Rightarrow> (civil_date \<times> int) option \<Rightarrow> clock_snapshot \<Rightarrow> bool" where
  "solar_mapping_due app has_solar has_location mapped clock \<longleftrightarrow>
     permits_solar app \<and> has_solar \<and> has_location
     \<and> mapped \<noteq> Some (clock_date clock, utc_offset_seconds clock)"

text \<open>
  The parameters of the astronomy, and the comparison of two fixes, whose great-circle distance is
  floating-point trigonometry.
\<close>

record 'v astronomy =
  as_sun :: sky
  as_vector :: "solar_position \<Rightarrow> 'v"
  as_distance :: "'v \<Rightarrow> 'v \<Rightarrow> f64"
  meaningful_location_change :: "geo_location \<Rightarrow> geo_location \<Rightarrow> bool"

definition map_solar ::
  "'v astronomy \<Rightarrow> metadata \<Rightarrow> geo_location \<Rightarrow> clock_snapshot \<Rightarrow> time_point list option" where
  "map_solar as md loc clock =
     Option.bind (state_value (md_solar md)) (\<lambda>sch.
     Option.bind (ok (Location_new (latitude_degrees loc) (longitude_degrees loc))) (\<lambda>loc.
       ok (map_schedule (as_sun as) (as_vector as) (as_distance as) sch loc clock)))"

definition frame_available :: "desktop \<Rightarrow> bool" where
  "frame_available rt =
     (case rt_scheduler rt of None \<Rightarrow> False | Some s \<Rightarrow> pb_frame (sch_playback s) \<noteq> None)"

definition has_solar_schedule :: "desktop \<Rightarrow> bool" where
  "has_solar_schedule rt =
     (case rt_metadata rt of None \<Rightarrow> False | Some md \<Rightarrow> state_value (md_solar md) \<noteq> None)"

definition dispatch_solar :: "desktop \<Rightarrow> desktop" where
  "dispatch_solar rt =
     (case rt_resolver rt of
        None \<Rightarrow> rt
      | Some r \<Rightarrow>
          (case resolver_dispatch r of
             Inl _ \<Rightarrow> rt\<lparr>solar_terminal := True\<rparr>
           | Inr r' \<Rightarrow> note_effect RequestedLocation (rt\<lparr>rt_resolver := Some r'\<rparr>)))"

definition install_solar_mapping :: "'v astronomy \<Rightarrow> env \<Rightarrow> desktop \<Rightarrow> desktop_failure + desktop" where
  "install_solar_mapping as env rt =
     (if \<not> permits_solar (rt_appearance rt) then Inr rt
      else case (rt_location rt, rt_metadata rt) of
        (Some loc, Some md) \<Rightarrow>
          rbind (ask_clock env rt) (\<lambda>(clock, rt).
            let rt = rt\<lparr>rt_mapped := Some (clock_date clock, utc_offset_seconds clock)\<rparr> in
            case map_solar as md loc clock of
              None \<Rightarrow> Inr rt
            | Some mapped \<Rightarrow>
                (let (monotonic, rt) = ask rd_elapsed env rt in
                 rbind (case rt_scheduler rt of
                          None \<Rightarrow> Inr rt
                        | Some s \<Rightarrow>
                            rbind (with_scheduler (apply_solar_schedule mapped clock monotonic) s rt)
                              (\<lambda>(out, rt). Inr (redraw_if
                                 (selection_changed out \<or> presentation_changed out) rt)))
                   (\<lambda>rt. dispatch_decode (note_effect (AppliedSolar mapped) rt))))
      | _ \<Rightarrow> Inr rt)"

definition handle_solar_result ::
  "'v astronomy \<Rightarrow> env \<Rightarrow> solar_result \<Rightarrow> desktop \<Rightarrow> desktop_failure + desktop" where
  "handle_solar_result as env result rt =
     (case result of
        SLocated loc \<Rightarrow>
          (let changed = (case rt_location rt of
                 None \<Rightarrow> True | Some previous \<Rightarrow> meaningful_location_change as previous loc);
               (now, rt) = ask rd_elapsed env rt;
               rt = rt\<lparr>rt_location := Some loc, next_location_refresh := Some (now + LOCATION_REFRESH)\<rparr>
           in if changed then install_solar_mapping as env rt else Inr rt)
      | SFailed e \<Rightarrow>
          (if is_retryable e
           then (let (now, rt) = ask rd_elapsed env rt
                 in Inr (rt\<lparr>solar_requested := False, next_location_refresh := Some (now + LOCATION_RETRY)\<rparr>))
           else Inr (rt\<lparr>solar_terminal := True\<rparr>)))"

text \<open>
  The \<open>while let\<close> loop over the resolver's results: the channel holds one result, so at most the
  results that are there are taken; fuel is their number.
\<close>

fun drain_solar :: "nat \<Rightarrow> 'v astronomy \<Rightarrow> env \<Rightarrow> desktop \<Rightarrow> desktop_failure + desktop" where
  "drain_solar 0 as env rt = Inr rt"
| "drain_solar (Suc n) as env rt =
     (case rt_resolver rt of
        None \<Rightarrow> Inr rt
      | Some r \<Rightarrow>
          (let (r, result) = resolver_receive r; rt = rt\<lparr>rt_resolver := Some r\<rparr> in
           case result of
             None \<Rightarrow> Inr rt
           | Some result \<Rightarrow>
               rbind (handle_solar_result as env result rt) (\<lambda>rt. drain_solar n as env rt)))"

definition pending_results :: "desktop \<Rightarrow> nat" where
  "pending_results rt = (case rt_resolver rt of None \<Rightarrow> 0 | Some r \<Rightarrow> length (sr_results r))"

definition past :: "duration option \<Rightarrow> duration \<Rightarrow> bool" where
  "past deadline now = (case deadline of None \<Rightarrow> True | Some d \<Rightarrow> now \<ge> d)"

definition spawn_resolver :: "env \<Rightarrow> desktop \<Rightarrow> desktop" where
  "spawn_resolver env rt =
     (if rt_resolver rt = None \<and> has_solar_schedule rt \<and> frame_available rt
      then (let (granted, rt) = ask rd_granted env rt
            in if granted then rt\<lparr>rt_resolver := Some resolver_spawned\<rparr> else rt\<lparr>solar_terminal := True\<rparr>)
      else rt)"

definition request_location :: "env \<Rightarrow> desktop \<Rightarrow> desktop" where
  "request_location env rt =
     (let idle = (case rt_resolver rt of None \<Rightarrow> True | Some r \<Rightarrow> \<not> sr_in_flight r);
          (now, rt) = ask rd_elapsed env rt
      in if idle \<and> past (next_location_refresh rt) now
            \<and> solar_request_ready (rt_appearance rt) (has_solar_schedule rt) (rt_location rt \<noteq> None)
                (frame_available rt) (solar_requested rt)
         then dispatch_solar (rt\<lparr>solar_requested := True\<rparr>) else rt)"

text \<open>The time is read to compare it with the deadline, when there is one, and again to set the next.\<close>

definition check_due :: "env \<Rightarrow> desktop \<Rightarrow> bool \<times> desktop" where
  "check_due env rt =
     (case next_solar_check rt of
        None \<Rightarrow> (True, rt)
      | Some deadline \<Rightarrow> (let (now, rt) = ask rd_elapsed env rt in (deadline \<le> now, rt)))"

definition check_mapping :: "'v astronomy \<Rightarrow> env \<Rightarrow> desktop \<Rightarrow> desktop_failure + desktop" where
  "check_mapping as env rt =
     (let (due, rt) = check_due env rt in
      if due
      then let (now, rt) = ask rd_elapsed env rt in
        rbind (ask_clock env (rt\<lparr>next_solar_check := Some (now + SOLAR_CHECK_INTERVAL)\<rparr>)) (\<lambda>(clock, rt).
          if solar_mapping_due (rt_appearance rt) (has_solar_schedule rt) (rt_location rt \<noteq> None)
               (rt_mapped rt) clock
          then install_solar_mapping as env rt else Inr rt)
      else Inr rt)"

definition maintain_solar :: "'v astronomy \<Rightarrow> env \<Rightarrow> desktop \<Rightarrow> desktop_failure + desktop" where
  "maintain_solar as env rt =
     (if \<not> solar_enabled rt then Inr rt
      else rbind (drain_solar (pending_results rt + 1) as env rt) (\<lambda>rt.
        if solar_terminal rt \<or> \<not> permits_solar (rt_appearance rt) then Inr rt
        else let rt = spawn_resolver env rt in
          if solar_terminal rt then Inr rt
          else check_mapping as env (request_location env rt)))"

section \<open>Rendering\<close>

text \<open>
  Whether a buffer is released is the compositor's doing; a canvas can be had of a released buffer
  only. The pool, the buffer and its attachment may be refused.
\<close>

definition usable :: "nat \<times> nat \<Rightarrow> u64 \<Rightarrow> surface_buffer \<Rightarrow> bool" where
  "usable dims generation b \<longleftrightarrow>
     sb_size b = dims \<and> sb_generation b = generation \<or> \<not> sb_released b"

definition pick_buffer ::
  "env \<Rightarrow> buffer_geometry \<Rightarrow> heic_frame option \<Rightarrow> surface \<Rightarrow> desktop
    \<Rightarrow> desktop_failure + (surface \<times> (ustring + nat option)) \<times> desktop" where
  "pick_buffer env geometry frame s rt =
     (let dims = (bg_width geometry, bg_height geometry);
          s = s\<lparr>sf_buffers := filter (usable dims (geometry_generation s)) (sf_buffers s)\<rparr>
      in case buffer_decision_of (map sb_released (sf_buffers s)) (length (sf_buffers s)) of
           BReuse i \<Rightarrow>
             (let b = sf_buffers s ! i in
              case render_cover_argb (bg_width geometry) (bg_height geometry) frame (sb_canvas b) of
                None \<Rightarrow> Inl Panicked
              | Some canvas \<Rightarrow>
                  Inr ((s\<lparr>sf_buffers := (sf_buffers s)[i := b\<lparr>sb_canvas := canvas\<rparr>]\<rparr>, Inr (Some i)), rt))
         | BWait \<Rightarrow> Inr ((s, Inr None), rt)
         | BAllocate \<Rightarrow>
             (let (pool, rt) = ask rd_granted env rt; (granted, rt) = ask rd_granted env rt in
              if \<not> pool then Inr ((s, Inl (lit ''could not allocate wallpaper pool'')), rt)
              else if \<not> granted then Inr ((s, Inl (lit ''could not allocate wallpaper buffer'')), rt)
              else case render_cover_argb (bg_width geometry) (bg_height geometry) frame
                          (replicate (bg_bytes geometry) 0) of
                     None \<Rightarrow> Inl Panicked
                   | Some canvas \<Rightarrow>
                       Inr ((s\<lparr>sf_buffers := sf_buffers s @
                               [\<lparr>sb_size = dims, sb_generation = geometry_generation s,
                                 sb_released = True, sb_canvas = canvas\<rparr>]\<rparr>,
                             Inr (Some (length (sf_buffers s)))), rt)))"

definition attach_buffer ::
  "env \<Rightarrow> bool \<Rightarrow> nat \<Rightarrow> surface \<Rightarrow> desktop \<Rightarrow> (surface \<times> (ustring + unit)) \<times> desktop" where
  "attach_buffer env transitioning i s rt =
     (let (granted, rt) = ask rd_granted env rt in
      if \<not> granted then ((s, Inl (lit ''could not attach wallpaper buffer'')), rt)
      else
        let next_frame = request_frame transitioning (ps_frame_pending (sf_presentation s));
            b = sf_buffers s ! i
        in ((s\<lparr>sf_buffers := (sf_buffers s)[i := b\<lparr>sb_released := False\<rparr>],
               frame_callback := (frame_callback s \<or> next_frame),
               callbacks_out := callbacks_out s + (if next_frame then 1 else 0),
               sf_presentation := rendered next_frame (sf_presentation s), last_error := None\<rparr>, Inr ()),
            note_effect (Committed (sf_layer s) next_frame) rt))"

definition rt_frame :: "desktop \<Rightarrow> heic_frame option" where
  "rt_frame rt = Option.bind (rt_scheduler rt) (\<lambda>s. pb_frame (sch_playback s))"

definition rt_transitioning :: "desktop \<Rightarrow> bool" where
  "rt_transitioning rt = (case rt_scheduler rt of None \<Rightarrow> False | Some s \<Rightarrow> is_transitioning (sch_playback s))"

definition render_surface ::
  "env \<Rightarrow> surface \<Rightarrow> desktop \<Rightarrow> desktop_failure + (surface \<times> (ustring + unit)) \<times> desktop" where
  "render_surface env s rt =
     (case sf_size s of
        None \<Rightarrow> Inr ((s, Inl (lit ''attempted to render an unconfigured surface'')), rt)
      | Some dims \<Rightarrow>
          (case buffer_geometry_of dims (sf_scale s) of
             Inl e \<Rightarrow> Inr ((s, Inl e), rt)
           | Inr geometry \<Rightarrow>
               rbind (pick_buffer env geometry (rt_frame rt) s rt) (\<lambda>((s, picked), rt).
                 case picked of
                   Inl e \<Rightarrow> Inr ((s, Inl e), rt)
                 | Inr None \<Rightarrow> Inr ((s, Inr ()), rt)
                 | Inr (Some i) \<Rightarrow> Inr (attach_buffer env (rt_transitioning rt) i s rt))))"

definition put_surface :: "nat \<Rightarrow> surface \<Rightarrow> desktop \<Rightarrow> desktop" where
  "put_surface i s rt = rt\<lparr>surfaces := (surfaces rt)[i := s]\<rparr>"

definition perform :: "env \<Rightarrow> nat \<times> surface_action \<Rightarrow> desktop \<Rightarrow> desktop_failure + desktop" where
  "perform env = (\<lambda>(i, act) rt.
     let s = surfaces rt ! i in
     case act of
       ActIdle \<Rightarrow> Inr rt
     | ActRearm \<Rightarrow>
         Inr (note_effect (Committed (sf_layer s) True)
           (put_surface i (s\<lparr>frame_callback := True, callbacks_out := callbacks_out s + 1, sf_presentation := rearmed (sf_presentation s)\<rparr>) rt))
     | ActRender \<Rightarrow>
         rbind (render_surface env s rt) (\<lambda>((s, result), rt).
           Inr (put_surface i
             (case result of
                Inr _ \<Rightarrow> s
              | Inl e \<Rightarrow> s\<lparr>last_error := Some e, sf_presentation := disable_presentation (sf_presentation s)\<rparr>)
             rt)))"

fun perform_all :: "env \<Rightarrow> (nat \<times> surface_action) list \<Rightarrow> desktop \<Rightarrow> desktop_failure + desktop" where
  "perform_all env [] rt = Inr rt"
| "perform_all env (a # as) rt = rbind (perform env a rt) (perform_all env as)"

definition next_actions :: "desktop \<Rightarrow> (nat \<times> surface_action) list \<times> desktop" where
  "next_actions rt =
     (let transitioning = rt_transitioning rt;
          results = map (\<lambda>s. next_action transitioning (sf_size s \<noteq> None) (sf_presentation s)) (surfaces rt)
      in (zip [0 ..< length (surfaces rt)] (map snd results),
          rt\<lparr>surfaces := map2 (\<lambda>s r. s\<lparr>sf_presentation := fst r\<rparr>) (surfaces rt) results\<rparr>))"

definition present :: "env \<Rightarrow> desktop \<Rightarrow> desktop_failure + desktop" where
  "present env rt =
     (let callbacks = list_ex (\<lambda>s. ps_frame_ready (sf_presentation s)) (surfaces rt);
          renderable = list_ex (\<lambda>s. render_eligible (sf_presentation s) (sf_size s \<noteq> None)) (surfaces rt)
      in case rt_scheduler rt of
           None \<Rightarrow> Inr rt
         | Some s \<Rightarrow>
             if callbacks \<or> renderable
             then rbind (ask_clock env rt) (\<lambda>(clock, rt).
                    let (monotonic, rt) = ask rd_elapsed env rt;
                        (discontinuity, rt) = ask_suspended env rt
                    in rbind (with_scheduler (prepare_presentation clock monotonic discontinuity) s rt)
                         (\<lambda>(changed, rt). dispatch_decode (redraw_if changed rt)))
             else Inr rt)"

section \<open>One pass of the event loop\<close>

definition handle_worker_result ::
  "env \<Rightarrow> worker_result \<Rightarrow> desktop \<Rightarrow> desktop_failure + desktop" where
  "handle_worker_result env result rt =
     (case result of
        WInitialized md primary \<Rightarrow>
          rbind (ask_clock env rt) (\<lambda>(clock, rt).
            let (monotonic, rt) = ask rd_elapsed env rt in
            case Playback_new md primary (rt_appearance rt) clock monotonic (rt_reduced_motion rt)
                   (rt_counter rt) of
              None \<Rightarrow> Inl Panicked
            | Some (pb, counter) \<Rightarrow>
                dispatch_decode (rt\<lparr>rt_metadata := Some md, rt_counter := counter,
                  rt_scheduler := Some (Scheduler_new pb clock monotonic)\<rparr>))
      | WInitializationFailed \<Rightarrow> Inr rt
      | WDecoded request frame \<Rightarrow>
          rbind (ask_clock env rt) (\<lambda>(clock, rt).
            let (monotonic, rt) = ask rd_elapsed env rt;
                (discontinuity, rt) = ask_suspended env rt;
                (reserved, rt) = ask rd_reserved env rt
            in case rt_scheduler rt of
                 None \<Rightarrow> Inl Panicked
               | Some s \<Rightarrow>
                   rbind (with_scheduler
                            (synchronize_and_complete_decode request frame clock monotonic discontinuity
                               reserved) s rt) (\<lambda>((out, changed), rt).
                     dispatch_decode (redraw_if (out = DPresented \<or> out = DTransitioning)
                       (redraw_if changed rt)))))"

definition receive_worker :: "env \<Rightarrow> desktop \<Rightarrow> desktop_failure + desktop" where
  "receive_worker env rt =
     rbind (decoder_receive (rt_decoder rt)) (\<lambda>(d, result).
       let rt = rt\<lparr>rt_decoder := d\<rparr> in
       case result of None \<Rightarrow> Inr rt | Some result \<Rightarrow> handle_worker_result env result rt)"

definition synchronize_pass :: "env \<Rightarrow> desktop \<Rightarrow> desktop_failure + desktop" where
  "synchronize_pass env rt =
     (if check_clock rt
      then (let (discontinuity, rt) = ask_suspended env (rt\<lparr>check_clock := False\<rparr>)
            in rt_synchronize_now discontinuity env rt)
      else synchronize_due env rt)"

definition maintain :: "'v astronomy \<Rightarrow> env \<Rightarrow> desktop \<Rightarrow> desktop_failure + desktop" where
  "maintain as env rt =
     rbind (synchronize_pass env rt) (\<lambda>rt.
     rbind (receive_worker env rt) (\<lambda>rt.
     rbind (maintain_solar as env rt) (\<lambda>rt.
     rbind (present env rt) (\<lambda>rt.
       let (actions, rt) = next_actions rt in perform_all env actions rt))))"

definition WORKER_POLL_INTERVAL :: duration where
  "WORKER_POLL_INTERVAL = 20000000"

definition dispatch_timeout :: "duration \<Rightarrow> desktop \<Rightarrow> duration option" where
  "dispatch_timeout elapsed rt =
     list_min (option_list (if initializing (rt_decoder rt) \<or> in_flight (rt_decoder rt)
                            then Some WORKER_POLL_INTERVAL else None)
       @ option_list (case rt_resolver rt of None \<Rightarrow> None
           | Some r \<Rightarrow> if sr_in_flight r then Some WORKER_POLL_INTERVAL else None)
       @ option_list (map_option (\<lambda>deadline. deadline - elapsed)
           (Option.bind (rt_scheduler rt) next_synchronize)))"

section \<open>Events of the compositor\<close>

definition update_surface :: "(surface \<Rightarrow> bool) \<Rightarrow> (surface \<Rightarrow> surface) \<Rightarrow> desktop \<Rightarrow> desktop" where
  "update_surface P f rt =
     (case position P (surfaces rt) of
        None \<Rightarrow> rt
      | Some i \<Rightarrow> put_surface i (f (surfaces rt ! i)) rt)"

definition refresh_geometry :: "output_info option \<Rightarrow> bool \<Rightarrow> surface \<Rightarrow> surface" where
  "refresh_geometry info retry s =
     (case configure_hints s of
        None \<Rightarrow> s
      | Some hints \<Rightarrow>
          (case resolve_configure_size hints (sf_size s) (Option.bind info output_logical_size) of
             None \<Rightarrow> s
           | Some dims \<Rightarrow>
               (let s = (if sf_size s \<noteq> Some dims
                         then s\<lparr>sf_size := Some dims, geometry_generation := geometry_generation s + 1\<rparr>
                         else s)
                in if retry
                   then s\<lparr>sf_presentation := geometry_changed (sf_presentation s), last_error := None\<rparr>
                   else s)))"

definition surface_created :: "nat \<Rightarrow> nat \<Rightarrow> surface" where
  "surface_created output layer =
     \<lparr>sf_output = output, sf_layer = layer, configure_hints = None, sf_size = None, sf_scale = 1,
      geometry_generation = 0, sf_buffers = [], sf_presentation = presentation_new,
      frame_callback = False, callbacks_out = 0, last_error = None\<rparr>"

definition add_surface :: "output_info option \<Rightarrow> nat \<Rightarrow> desktop \<Rightarrow> desktop" where
  "add_surface info output rt =
     (case position (\<lambda>s. sf_output s = output) (surfaces rt) of
        Some i \<Rightarrow> put_surface i (refresh_geometry info True (surfaces rt ! i)) rt
      | None \<Rightarrow> rt\<lparr>surfaces := surfaces rt @ [surface_created output (next_layer rt)],
                  next_layer := next_layer rt + 1\<rparr>)"

definition layer_closed :: "nat \<Rightarrow> desktop \<Rightarrow> desktop" where
  "layer_closed layer rt = rt\<lparr>surfaces := filter (\<lambda>s. sf_layer s \<noteq> layer) (surfaces rt)\<rparr>"

definition output_destroyed :: "nat \<Rightarrow> desktop \<Rightarrow> desktop" where
  "output_destroyed output rt = rt\<lparr>surfaces := filter (\<lambda>s. sf_output s \<noteq> output) (surfaces rt)\<rparr>"

definition configure_surface :: "output_info option \<Rightarrow> nat \<Rightarrow> nat \<times> nat \<Rightarrow> desktop \<Rightarrow> desktop" where
  "configure_surface info layer hints rt =
     (case position (\<lambda>s. sf_layer s = layer) (surfaces rt) of
        None \<Rightarrow> rt\<lparr>rt_failure := Some UnknownSurface\<rparr>
      | Some i \<Rightarrow>
          put_surface i (refresh_geometry info True ((surfaces rt ! i)\<lparr>configure_hints := Some hints\<rparr>)) rt)"

definition geometry_reset :: "surface \<Rightarrow> surface" where
  "geometry_reset s =
     s\<lparr>geometry_generation := geometry_generation s + 1,
       sf_presentation := geometry_changed (sf_presentation s), last_error := None\<rparr>"

definition scale_factor_changed :: "nat \<Rightarrow> int \<Rightarrow> desktop \<Rightarrow> desktop" where
  "scale_factor_changed layer scale =
     update_surface (\<lambda>s. sf_layer s = layer) (\<lambda>s.
       let scale = max scale 1 in
       if sf_scale s \<noteq> scale then geometry_reset (s\<lparr>sf_scale := scale\<rparr>) else s)"

definition transform_changed :: "nat \<Rightarrow> desktop \<Rightarrow> desktop" where
  "transform_changed layer = update_surface (\<lambda>s. sf_layer s = layer) geometry_reset"

definition frame_done :: "nat \<Rightarrow> desktop \<Rightarrow> desktop" where
  "frame_done layer =
     update_surface (\<lambda>s. sf_layer s = layer) (\<lambda>s.
       s\<lparr>frame_callback := False, callbacks_out := callbacks_out s - 1,
         sf_presentation := frame_arrived (sf_presentation s)\<rparr>)"

definition timer_fired :: "desktop \<Rightarrow> desktop" where
  "timer_fired rt = rt\<lparr>check_clock := True\<rparr>"

definition desktop_started ::
  "appearance_preference \<Rightarrow> bool \<Rightarrow> bool \<Rightarrow> duration option \<Rightarrow> u64 \<Rightarrow> desktop" where
  "desktop_started app reduced solar boot_offset counter =
     \<lparr>surfaces = [], next_layer = 0, rt_scheduler = None, rt_counter = counter,
      rt_decoder = decoder_spawned, rt_appearance = app, rt_reduced_motion = reduced,
      rt_suspend = boot_offset, check_clock = False, rt_failure = None, solar_enabled = solar,
      rt_resolver = None, solar_requested = False, solar_terminal = False, rt_metadata = None,
      rt_location = None, next_location_refresh = None, next_solar_check = None, rt_mapped = None,
      queries = 0, rt_log = []\<rparr>"

definition buffer_released :: "nat \<Rightarrow> nat \<Rightarrow> desktop \<Rightarrow> desktop" where
  "buffer_released layer k =
     update_surface (\<lambda>s. sf_layer s = layer) (\<lambda>s.
       if k < length (sf_buffers s)
       then s\<lparr>sf_buffers := (sf_buffers s)[k := (sf_buffers s ! k)\<lparr>sb_released := True\<rparr>]\<rparr> else s)"

end
