(* ===== verification/Desktop_Safety.thy ===== *)
theory Desktop_Safety
  imports Desktop_Runtime Desktop_Cover
begin

text \<open>
  The runs of the desktop wallpaper renderer: passes of the event loop interleaved, in any order,
  with the steps of its worker threads and the events of the compositor. An invariant of these runs
  gives that a pass does not panic, that the location is asked for only where the user and the
  wallpaper allow it, and how the renderer uses the buffers and callbacks of its surfaces.
\<close>

section \<open>The scheduler does not panic\<close>

lemma pb_inv_counter: "pb_inv (pb, c) \<Longrightarrow> pb_inv (pb, c')"
  by simp

definition schedule_ok :: "metadata \<Rightarrow> bool" where
  "schedule_ok md \<longleftrightarrow> (\<forall>sch. state_value (md_time md) = Some sch \<longrightarrow> valid_points (points sch))
     \<and> (\<forall>sch. state_value (md_solar md) = Some sch \<longrightarrow> points sch \<noteq> [])"

lemma Playback_new_returns:
  assumes "schedule_ok md"
  obtains pb c' where "Playback_new md primary app clock m reduced c = Some (pb, c')" "pb_inv (pb, c')"
proof -
  have "initial_mode md primary app clock None \<noteq> None"
    using assms selected_point_Some ordered_sorted_time_points
    by (fastforce simp: initial_mode_def md_select_def schedule_ok_def Let_def ordered_points_def
        simp del: not_None_eq split: option.splits if_splits)
  then have "Playback_new md primary app clock m reduced c \<noteq> None"
    by (simp add: Playback_new_def with_solar_def)
  then obtain s where s: "Playback_new md primary app clock m reduced c = Some s" by blast
  moreover have "pb_inv s"
    by (rule pb_initial [OF s [unfolded Playback_new_def]])
      (use assms in \<open>simp_all add: schedule_ok_def\<close>)
  ultimately show thesis using that by (cases s) blast
qed

lemma push_all_results:
  "push_all f xs = Inr ys \<Longrightarrow> length ys = length xs \<and> (\<forall>y \<in> set ys. \<exists>x. f x = Inr y)"
  by (induction xs arbitrary: ys) auto

lemma NormalizedTime_normalized: "NormalizedTime_new v = Inr t \<Longrightarrow> normalized t"
  by (auto simp: normalized_def NormalizedTime_new_def split: if_splits)

lemma map_schedule_valid:
  assumes "map_schedule sun vector distance sch loc clock = Inr pts" "points sch \<noteq> []"
  shows "valid_points pts"
proof -
  have "length pts = length (points sch)" "\<forall>p \<in> set pts. normalized (tp_time p)"
    using assms(1) unfolding map_schedule_def Let_def
    by (auto dest!: push_all_results) (fastforce dest!: bspec intro: NormalizedTime_normalized)
  with assms(2) show ?thesis by (auto simp: valid_points_def list_all_iff)
qed

text \<open>What a scheduler is left as by an operation that returns.\<close>

definition returns :: "((scheduler \<times> u64) \<times> 'a) option \<Rightarrow> bool" where
  "returns r \<longleftrightarrow> (\<exists>s c x. r = Some ((s, c), x) \<and> pb_inv (sch_playback s, c))"

lemma synchronize_inner_ok:
  assumes "pb_inv (pb, c)"
  obtains pb' c' out where "synchronize_inner clock m force (pb, c) = Some ((pb', c'), out)" "pb_inv (pb', c')"
proof -
  obtain s' out where "synchronize_inner clock m force (pb, c) = Some (s', out)"
    using synchronize_inner_returns [OF assms] by fastforce
  with synchronize_inner_inv [OF assms] that show thesis by (cases s') blast
qed

lemma synchronize_if_due_returns:
  assumes "pb_inv (sch_playback s, c)" shows "returns (synchronize_if_due clock m (s, c))"
proof -
  obtain pb' c' out where "synchronize clock m (sch_playback s, c) = Some ((pb', c'), out)" "pb_inv (pb', c')"
    using synchronize_inner_ok [OF assms] unfolding synchronize_def .
  with assms show ?thesis by (simp add: synchronize_if_due_def returns_def del: pb_inv.simps)
qed

lemma sch_synchronize_now_returns:
  assumes "pb_inv (sch_playback s, c)" shows "returns (sch_synchronize_now clock m d (s, c))"
proof -
  obtain pb' c' out where "(if d then resynchronize_after_discontinuity clock m (sch_playback s, c)
      else synchronize clock m (sch_playback s, c)) = Some ((pb', c'), out)" "pb_inv (pb', c')"
    using synchronize_inner_ok [OF assms] unfolding synchronize_def resynchronize_after_discontinuity_def
    by (metis (full_types))
  then show ?thesis by (simp add: sch_synchronize_now_def Let_def returns_def del: pb_inv.simps)
qed

lemma prepare_presentation_returns:
  assumes "pb_inv (sch_playback s, c)" shows "returns (prepare_presentation clock m d (s, c))"
proof -
  obtain s' c' x where r: "sch_synchronize_now clock m d (s, c) = Some ((s', c'), x)"
    "pb_inv (sch_playback s', c')"
    using sch_synchronize_now_returns [OF assms] unfolding returns_def by blast
  from advance_inv [OF r(2), of m] r(1) show ?thesis
    by (cases "advance_transition m (sch_playback s')")
      (simp add: prepare_presentation_def returns_def del: pb_inv.simps)
qed

lemma complete_decode_returns:
  assumes "pb_inv (sch_playback s, c)"
  shows "returns (synchronize_and_complete_decode r frame clock m d reserved (s, c))"
proof -
  obtain s' c' x where p: "prepare_presentation clock m d (s, c) = Some ((s', c'), x)"
    "pb_inv (sch_playback s', c')"
    using prepare_presentation_returns [OF assms] unfolding returns_def by blast
  obtain pb2 c2 out where q: "complete_decode r frame m reserved (sch_playback s', c') = ((pb2, c2), out)"
    by (metis surj_pair)
  with p complete_inv [OF p(2) q] show ?thesis
    by (simp add: synchronize_and_complete_decode_def sch_complete_decode_def returns_def del: pb_inv.simps)
qed

lemma apply_solar_schedule_returns:
  assumes "pb_inv (sch_playback s, c)" "valid_points pts"
  shows "returns (apply_solar_schedule pts clock m (s, c))"
proof -
  obtain pb' c' out where "set_solar_schedule pts clock m (sch_playback s, c) = Some ((pb', c'), out)"
    "pb_inv (pb', c')"
    using synchronize_inner_ok [OF new_mode_inv [OF assms]] unfolding set_solar_schedule_def prod.case .
  then show ?thesis by (simp add: apply_solar_schedule_def returns_def del: pb_inv.simps)
qed

section \<open>The invariant\<close>

text \<open>
  What a pass is measured against: whether the decoder thread has stopped, the configuration, and
  for every surface the buffers that the compositor holds.
\<close>

record pass_facts =
  pf_stopped :: bool
  pf_appearance :: appearance_preference
  pf_solar :: bool
  pf_held :: "surface_buffer set list"

definition decoder_ok :: "bool \<Rightarrow> bool \<Rightarrow> decoder \<Rightarrow> bool" where
  "decoder_ok fresh stopped d \<longleftrightarrow>
     length (dc_requests d) + (case dc_worker d of WBusy _ \<Rightarrow> 1 | _ \<Rightarrow> 0)
       + length (filter (\<lambda>r. case r of WDecoded _ _ \<Rightarrow> True | _ \<Rightarrow> False) (dc_results d))
       \<le> (if in_flight d then 1 else 0)
     \<and> length (dc_results d) \<le> 1
     \<and> (dc_worker d = WOpening \<longrightarrow> dc_results d = [] \<and> fresh)
     \<and> (\<forall>md p. WInitialized md p \<in> set (dc_results d) \<longrightarrow> schedule_ok md \<and> fresh)
     \<and> (in_flight d \<longrightarrow> \<not> fresh)
     \<and> (dc_worker d = WStopped \<longrightarrow> stopped)"

definition buffer_ok :: "surface_buffer \<Rightarrow> bool" where
  "buffer_ok b \<longleftrightarrow> fst (sb_size b) \<le> MAX_SURFACE_DIMENSION \<and> snd (sb_size b) \<le> MAX_SURFACE_DIMENSION
     \<and> length (sb_canvas b) = fst (sb_size b) * snd (sb_size b) * 4
     \<and> length (sb_canvas b) \<le> MAX_BUFFER_BYTES"

definition surface_ok :: "surface_buffer set \<Rightarrow> surface \<Rightarrow> bool" where
  "surface_ok held s \<longleftrightarrow> length (sf_buffers s) \<le> BUFFER_COUNT \<and> (\<forall>b \<in> set (sf_buffers s). buffer_ok b)
     \<and> callbacks_out s = (if ps_frame_pending (sf_presentation s) then 1 else 0)
     \<and> (ps_frame_ready (sf_presentation s) \<longrightarrow> \<not> ps_frame_pending (sf_presentation s))
     \<and> (\<forall>b \<in> held. b \<in> set (sf_buffers s) \<and> \<not> sb_released b)"

definition asks_location :: "desktop_effect \<Rightarrow> bool" where
  "asks_location e = (case e of RequestedLocation \<Rightarrow> True | AppliedSolar _ \<Rightarrow> True | _ \<Rightarrow> False)"

definition consent :: "desktop \<Rightarrow> bool" where
  "consent rt \<longleftrightarrow> solar_enabled rt \<and> permits_solar (rt_appearance rt) \<and> has_solar_schedule rt"

definition desk_inv :: "pass_facts \<Rightarrow> desktop \<Rightarrow> bool" where
  "desk_inv g rt \<longleftrightarrow> solar_enabled rt = pf_solar g \<and> rt_appearance rt = pf_appearance g
     \<and> decoder_ok (rt_metadata rt = None) (pf_stopped g) (rt_decoder rt)
     \<and> (rt_scheduler rt = None) = (rt_metadata rt = None)
     \<and> (\<forall>s. rt_scheduler rt = Some s \<longrightarrow> pb_inv (sch_playback s, rt_counter rt))
     \<and> (\<forall>md. rt_metadata rt = Some md \<longrightarrow> schedule_ok md)
     \<and> list_all2 surface_ok (pf_held g) (surfaces rt)
     \<and> (rt_resolver rt \<noteq> None \<or> rt_location rt \<noteq> None \<or> list_ex asks_location (rt_log rt) \<longrightarrow> consent rt)"

lemma desk_inv_irrelevant [simp]:
  "desk_inv g (rt\<lparr>queries := n\<rparr>) = desk_inv g rt"
  "desk_inv g (rt\<lparr>rt_suspend := d\<rparr>) = desk_inv g rt"
  "desk_inv g (rt\<lparr>check_clock := b\<rparr>) = desk_inv g rt"
  "desk_inv g (rt\<lparr>rt_failure := f\<rparr>) = desk_inv g rt"
  "desk_inv g (rt\<lparr>solar_requested := b\<rparr>) = desk_inv g rt"
  "desk_inv g (rt\<lparr>solar_terminal := b\<rparr>) = desk_inv g rt"
  "desk_inv g (rt\<lparr>next_location_refresh := t\<rparr>) = desk_inv g rt"
  "desk_inv g (rt\<lparr>next_solar_check := t\<rparr>) = desk_inv g rt"
  "desk_inv g (rt\<lparr>rt_mapped := m\<rparr>) = desk_inv g rt"
  by (simp_all add: desk_inv_def consent_def has_solar_schedule_def del: pb_inv.simps not_None_eq)

text \<open>
  A part of a pass is good when it either meets its postcondition or fails for one of the two
  reasons outside the renderer: an unreadable clock or a stopped decoder thread.
\<close>

definition good :: "env \<Rightarrow> pass_facts \<Rightarrow> ('a \<Rightarrow> bool) \<Rightarrow> desktop_failure + 'a \<Rightarrow> bool" where
  "good env g P r = (case r of
     Inl e \<Rightarrow> e = ClockUnavailable \<and> (\<exists>k. current_clock (rd_now (env k)) = None)
       \<or> e = DecoderStopped \<and> pf_stopped g
   | Inr x \<Rightarrow> P x)"

lemma good_Inr [simp]: "good env g P (Inr x) = P x"
  by (simp add: good_def)

lemma good_bind:
  "good env g P m \<Longrightarrow> (\<And>x. P x \<Longrightarrow> good env g Q (f x)) \<Longrightarrow> good env g Q (rbind m f)"
  by (cases m) (simp_all add: good_def)

lemma good_mono: "good env g P m \<Longrightarrow> (\<And>x. P x \<Longrightarrow> Q x) \<Longrightarrow> good env g Q m"
  by (cases m) (simp_all add: good_def)

section \<open>The parts of a pass\<close>

lemma ask_clock_good:
  "good env g (\<lambda>(clock, rt'). rt' = rt\<lparr>queries := queries rt + 1\<rparr>) (ask_clock env rt)"
  by (cases "current_clock (rd_now (env (queries rt)))") (auto simp: ask_clock_def ask_def good_def)

lemma ask_suspended_eq:
  "\<exists>b n d. ask_suspended env rt = (b, rt\<lparr>queries := n, rt_suspend := d\<rparr>)"
  by (cases "detector_sample (rd_boot_offset (env (queries rt))) (rt_suspend rt)")
    (auto simp: ask_suspended_def ask_def)

lemma new_scheduler_inv:
  assumes "desk_inv g rt" "rt_scheduler rt \<noteq> None" "pb_inv (sch_playback s, c)"
  shows "desk_inv g (rt\<lparr>rt_scheduler := Some s, rt_counter := c\<rparr>)"
  using assms
  by (clarsimp simp: desk_inv_def consent_def has_solar_schedule_def simp del: pb_inv.simps not_None_eq)

lemma with_scheduler_good:
  assumes "desk_inv g rt" "rt_scheduler rt = Some s" "returns (f (s, rt_counter rt))"
  shows "good env g (\<lambda>(x, rt'). desk_inv g rt') (with_scheduler f s rt)"
proof -
  obtain s' c' x where "f (s, rt_counter rt) = Some ((s', c'), x)" "pb_inv (sch_playback s', c')"
    using assms(3) unfolding returns_def by blast
  with new_scheduler_inv [OF assms(1)] assms(2) show ?thesis
    by (simp add: with_scheduler_def del: pb_inv.simps)
qed

lemma redraw_if_inv [simp]: "desk_inv g rt \<Longrightarrow> desk_inv g (redraw_if b rt)"
  by (auto simp: redraw_if_def redraw_all_def desk_inv_def consent_def has_solar_schedule_def
      list_all2_map2 surface_ok_def playback_changed_def simp del: pb_inv.simps not_None_eq
      elim!: list_all2_mono)

lemma inv_pb: "desk_inv g rt \<Longrightarrow> rt_scheduler rt = Some s \<Longrightarrow> pb_inv (sch_playback s, rt_counter rt)"
  by (simp add: desk_inv_def del: pb_inv.simps)

lemma dispatch_decode_good:
  assumes "desk_inv g rt"
  shows "good env g (desk_inv g) (dispatch_decode rt)"
proof (cases "in_flight (rt_decoder rt)")
  case True
  with assms show ?thesis by (simp add: dispatch_decode_def)
next
  case idle: False
  show ?thesis
  proof (cases "rt_scheduler rt")
    case None
    with idle assms show ?thesis by (simp add: dispatch_decode_def)
  next
    case (Some s)
    obtain pb request where t: "take_decode_request (sch_playback s) = (pb, request)" by fastforce
    let ?rt = "rt\<lparr>rt_scheduler := Some (s\<lparr>sch_playback := pb\<rparr>)\<rparr>"
    have "pb_inv (pb, rt_counter rt)" using take_inv [OF inv_pb [OF assms Some] t] .
    then have i: "desk_inv g ?rt"
      using new_scheduler_inv [OF assms, of "s\<lparr>sch_playback := pb\<rparr>" "rt_counter rt"] Some
      by (simp del: pb_inv.simps)
    have d: "decoder_ok (rt_metadata rt = None) (pf_stopped g) (rt_decoder rt)" "rt_metadata rt \<noteq> None"
      using assms Some by (auto simp: desk_inv_def simp del: pb_inv.simps)
    have eq: "dispatch_decode rt = (case request of None \<Rightarrow> Inr ?rt
        | Some r \<Rightarrow> rbind (decoder_dispatch r (rt_decoder rt)) (\<lambda>d.
            Inr (note_effect (DispatchedDecode r) (?rt\<lparr>rt_decoder := d\<rparr>))))"
      using idle Some t by (simp add: dispatch_decode_def Let_def)
    show ?thesis
    proof (cases request)
      case None
      with eq i show ?thesis by simp
    next
      case (Some r)
      show ?thesis
      proof (cases "dc_worker (rt_decoder rt) = WStopped")
        case True
        with d(1) eq Some show ?thesis by (simp add: decoder_dispatch_def decoder_ok_def good_def)
      next
        case False
        with d idle have q: "decoder_dispatch r (rt_decoder rt)
              = Inr ((rt_decoder rt)\<lparr>dc_requests := [r], in_flight := True\<rparr>)"
            and "decoder_ok (rt_metadata rt = None) (pf_stopped g)
              ((rt_decoder rt)\<lparr>dc_requests := [r], in_flight := True\<rparr>)"
          by (simp_all add: decoder_dispatch_def decoder_ok_def del: not_None_eq)
        with i show ?thesis
          by (clarsimp simp: eq Some note_effect_def desk_inv_def consent_def has_solar_schedule_def
              asks_location_def simp del: pb_inv.simps not_None_eq)
      qed
    qed
  qed
qed

lemma synchronize_due_good:
  assumes "desk_inv g rt" shows "good env g (desk_inv g) (synchronize_due env rt)"
proof (cases "rt_scheduler rt")
  case None
  with assms show ?thesis by (simp add: synchronize_due_def ask_def)
next
  case (Some s)
  note i = inv_pb [OF assms Some]
  show ?thesis
    using assms Some i
    by (auto simp: synchronize_due_def ask_def simp del: pb_inv.simps
        intro!: good_bind [OF ask_clock_good] good_bind [OF with_scheduler_good]
          dispatch_decode_good synchronize_if_due_returns)
qed

lemma rt_synchronize_now_good:
  assumes "desk_inv g rt" shows "good env g (desk_inv g) (rt_synchronize_now d env rt)"
proof (cases "rt_scheduler rt")
  case None
  with assms show ?thesis
    by (auto simp: rt_synchronize_now_def ask_def intro!: good_bind [OF ask_clock_good] dispatch_decode_good)
next
  case (Some s)
  note i = inv_pb [OF assms Some]
  show ?thesis
    using assms Some i
    by (auto simp: rt_synchronize_now_def ask_def simp del: pb_inv.simps
        intro!: good_bind [OF ask_clock_good] good_bind [OF with_scheduler_good]
          dispatch_decode_good sch_synchronize_now_returns)
qed

lemma synchronize_pass_good:
  assumes "desk_inv g rt" shows "good env g (desk_inv g) (synchronize_pass env rt)"
  using assms ask_suspended_eq [of env "rt\<lparr>check_clock := False\<rparr>"]
  by (auto simp: synchronize_pass_def intro!: rt_synchronize_now_good synchronize_due_good)

lemma decoder_receive_good:
  assumes "decoder_ok fresh (pf_stopped g) d"
  shows "good env g (\<lambda>(d', result). decoder_ok fresh (pf_stopped g) d'
      \<and> (\<forall>r. result = Some r \<longrightarrow> decoder_ok False (pf_stopped g) d'
        \<and> (\<forall>rq f. r = WDecoded rq f \<longrightarrow> \<not> fresh)
        \<and> (\<forall>md p. r = WInitialized md p \<longrightarrow> schedule_ok md \<and> fresh))) (decoder_receive d)"
proof (cases "dc_results d")
  case Nil
  with assms show ?thesis by (auto simp: decoder_receive_def decoder_ok_def good_def)
next
  case (Cons r rest)
  with assms show ?thesis
    by (cases r; cases "dc_worker d"; cases "in_flight d")
      (auto simp: decoder_receive_def decoder_ok_def)
qed

lemma handle_worker_result_good:
  assumes "desk_inv g rt" "decoder_ok False (pf_stopped g) (rt_decoder rt)"
    and "\<And>rq f. r = WDecoded rq f \<Longrightarrow> rt_metadata rt \<noteq> None"
    and "\<And>md p. r = WInitialized md p \<Longrightarrow> schedule_ok md \<and> rt_metadata rt = None"
  shows "good env g (desk_inv g) (handle_worker_result env r rt)"
proof (cases r)
  case (WInitialized md p)
  with assms(4) have md: "schedule_ok md" "rt_metadata rt = None" by auto
  have init: "good env g (desk_inv g) (case Playback_new md p (rt_appearance rt) clock m
      (rt_reduced_motion rt) (rt_counter rt) of
      None \<Rightarrow> Inl Panicked
    | Some (pb, counter) \<Rightarrow> dispatch_decode (rt'\<lparr>rt_metadata := Some md,
        rt_counter := counter, rt_scheduler := Some (Scheduler_new pb clock m)\<rparr>))"
    if "rt' = rt\<lparr>queries := n\<rparr>" for clock m n rt'
  proof -
    obtain pb c' where pb: "Playback_new md p (rt_appearance rt) clock m (rt_reduced_motion rt)
        (rt_counter rt) = Some (pb, c')" "pb_inv (pb, c')"
      by (rule Playback_new_returns [OF md(1)])
    show ?thesis
      unfolding pb(1) option.case prod.case that
      by (rule dispatch_decode_good)
        (use assms(1,2) md pb(2) in \<open>auto simp: desk_inv_def consent_def has_solar_schedule_def
          Scheduler_new_def simp del: pb_inv.simps\<close>)
  qed
  show ?thesis
    unfolding handle_worker_result_def WInitialized worker_result.case
    by (rule good_bind [OF ask_clock_good]) (auto simp: ask_def cong: option.case_cong intro!: init)
next
  case WInitializationFailed
  with assms(1) show ?thesis by (simp add: handle_worker_result_def)
next
  case (WDecoded rq f)
  with assms(1,3) have "rt_scheduler rt \<noteq> None" by (simp add: desk_inv_def del: pb_inv.simps)
  then obtain s where s: "rt_scheduler rt = Some s" by blast
  have sc: "good env g (\<lambda>(x, rt'). desk_inv g rt') (with_scheduler
      (synchronize_and_complete_decode rq f clock m d reserved) s rt')"
    if "desk_inv g rt'" "rt_scheduler rt' = Some s" for clock m d reserved rt'
    using that by (intro with_scheduler_good complete_decode_returns inv_pb)
  obtain b n d where "ask_suspended env (rt\<lparr>queries := Suc (Suc (queries rt))\<rparr>)
      = (b, rt\<lparr>queries := n, rt_suspend := d\<rparr>)"
    using ask_suspended_eq [of env "rt\<lparr>queries := Suc (Suc (queries rt))\<rparr>"] by auto
  with assms(1) s show ?thesis
    unfolding handle_worker_result_def WDecoded worker_result.case
    by (intro good_bind [OF ask_clock_good])
      (auto simp: ask_def intro!: good_bind [OF sc] dispatch_decode_good)
qed

lemma receive_worker_good:
  assumes "desk_inv g rt" shows "good env g (desk_inv g) (receive_worker env rt)"
proof -
  have d: "decoder_ok (rt_metadata rt = None) (pf_stopped g) (rt_decoder rt)"
    using assms by (simp add: desk_inv_def del: pb_inv.simps)
  have i: "desk_inv g (rt\<lparr>rt_decoder := d'\<rparr>)"
    if "decoder_ok (rt_metadata rt = None) (pf_stopped g) d'" for d'
    using assms that
    by (clarsimp simp: desk_inv_def consent_def has_solar_schedule_def simp del: pb_inv.simps not_None_eq)
  show ?thesis
    unfolding receive_worker_def
    by (rule good_bind [OF decoder_receive_good [OF d]])
      (auto simp: Let_def split: option.split simp del: not_None_eq intro!: i handle_worker_result_good)
qed

end
