(* ===== verification/Desktop_Runs.thy ===== *)
theory Desktop_Runs
  imports Desktop_Safety
begin

text \<open>
  The rest of a pass of the desktop wallpaper's event loop, the runs of the renderer and what holds
  in all of them.
\<close>

section \<open>The location\<close>

lemma consentD: "desk_inv g rt \<Longrightarrow> rt_resolver rt \<noteq> None \<or> rt_location rt \<noteq> None \<Longrightarrow> consent rt"
  by (auto simp: desk_inv_def)

text \<open>With consent, what the solar parts store and log does not matter to the invariant.\<close>

lemma desk_inv_consent:
  assumes "consent rt"
  shows "desk_inv g (rt\<lparr>rt_location := l\<rparr>) = desk_inv g rt"
    and "desk_inv g (rt\<lparr>rt_resolver := r\<rparr>) = desk_inv g rt"
    and "desk_inv g (rt\<lparr>rt_log := es\<rparr>) = desk_inv g rt"
    and "desk_inv g (note_effect e rt) = desk_inv g rt"
  using assms
  by (auto simp: desk_inv_def consent_def has_solar_schedule_def note_effect_def simp del: pb_inv.simps)

lemma consent_irrelevant [simp]:
  "consent (rt\<lparr>queries := n\<rparr>) = consent rt" "consent (rt\<lparr>rt_mapped := m\<rparr>) = consent rt"
  "consent (rt\<lparr>rt_location := l\<rparr>) = consent rt" "consent (rt\<lparr>rt_resolver := r\<rparr>) = consent rt"
  "consent (rt\<lparr>next_location_refresh := t\<rparr>) = consent rt" "consent (rt\<lparr>solar_requested := b\<rparr>) = consent rt"
  "consent (rt\<lparr>solar_terminal := b\<rparr>) = consent rt" "consent (rt\<lparr>next_solar_check := t\<rparr>) = consent rt"
  "consent (redraw_if b rt) = consent rt"
  by (simp_all add: consent_def has_solar_schedule_def redraw_if_def redraw_all_def)

lemma with_scheduler_consent:
  "with_scheduler f s rt = Inr (x, rt') \<Longrightarrow> consent rt' = consent rt"
  by (auto simp: with_scheduler_def consent_def has_solar_schedule_def split: option.splits)

lemma good_conj:
  "good env g P m \<Longrightarrow> (\<And>x. m = Inr x \<Longrightarrow> Q x) \<Longrightarrow> good env g (\<lambda>x. P x \<and> Q x) m"
  by (cases m) (simp_all add: good_def)

lemma map_solar_valid:
  assumes "schedule_ok md" "map_solar as md loc clock = Some pts"
  shows "valid_points pts"
proof -
  obtain sch loc' where sch: "state_value (md_solar md) = Some sch"
    and "ok (map_schedule (as_sun as) (as_vector as) (as_distance as) sch loc' clock) = Some pts"
    using assms(2) unfolding map_solar_def by (auto simp: bind_eq_Some_conv)
  then have "map_schedule (as_sun as) (as_vector as) (as_distance as) sch loc' clock = Inr pts"
    by (simp add: ok_def split: sum.splits)
  then show ?thesis
    by (rule map_schedule_valid) (use assms(1) sch in \<open>simp add: schedule_ok_def\<close>)
qed

text \<open>The new schedule, on the scheduler that is installed.\<close>

lemma apply_mapping_good:
  assumes "desk_inv g rt" "consent rt" "valid_points pts"
  shows "good env g (\<lambda>rt'. desk_inv g rt' \<and> consent rt')
    (case rt_scheduler rt of None \<Rightarrow> Inr rt
     | Some s \<Rightarrow> rbind (with_scheduler (apply_solar_schedule pts clock m) s rt)
         (\<lambda>(out, rt). Inr (redraw_if (selection_changed out \<or> presentation_changed out) rt)))"
proof (cases "rt_scheduler rt")
  case None
  with assms show ?thesis by simp
next
  case (Some s)
  have "good env g (\<lambda>(x, rt'). desk_inv g rt')
      (with_scheduler (apply_solar_schedule pts clock m) s rt)"
    by (intro with_scheduler_good apply_solar_schedule_returns inv_pb [OF assms(1)] assms Some)
  from good_conj [OF this, of "\<lambda>(x, rt'). consent rt'"]
  have "good env g (\<lambda>x. (case x of (x, rt') \<Rightarrow> desk_inv g rt') \<and> (case x of (x, rt') \<Rightarrow> consent rt'))
      (with_scheduler (apply_solar_schedule pts clock m) s rt)"
    using assms(2) with_scheduler_consent by fastforce
  then show ?thesis
    unfolding Some option.case by (rule good_bind) auto
qed

lemma install_solar_mapping_good:
  assumes "desk_inv g rt" shows "good env g (desk_inv g) (install_solar_mapping as env rt)"
proof (cases "permits_solar (rt_appearance rt) \<and> rt_location rt \<noteq> None \<and> rt_metadata rt \<noteq> None")
  case False
  with assms show ?thesis
    by (auto simp: install_solar_mapping_def split: option.split)
next
  case True
  then obtain loc md where l: "permits_solar (rt_appearance rt)" "rt_location rt = Some loc"
    "rt_metadata rt = Some md" by auto
  have c: "consent rt" using consentD assms l(2) by blast
  have md: "schedule_ok md" using assms l(3) by (simp add: desk_inv_def del: pb_inv.simps)
  have "good env g (desk_inv g) (case map_solar as md loc clock of
      None \<Rightarrow> Inr rt'
    | Some mapped \<Rightarrow> let (monotonic, rt) = ask rd_elapsed env rt' in
        rbind (case rt_scheduler rt of None \<Rightarrow> Inr rt
          | Some s \<Rightarrow> rbind (with_scheduler (apply_solar_schedule mapped clock monotonic) s rt)
              (\<lambda>(out, rt). Inr (redraw_if (selection_changed out \<or> presentation_changed out) rt)))
          (\<lambda>rt. dispatch_decode (note_effect (AppliedSolar mapped) rt)))"
    if "desk_inv g rt'" "consent rt'" for clock rt'
  proof (cases "map_solar as md loc clock")
    case None
    with that show ?thesis by simp
  next
    case (Some mapped)
    have "valid_points mapped" using map_solar_valid [OF md Some] .
    then show ?thesis
      unfolding Some option.case ask_def Let_def prod.case
      by (intro good_bind [OF apply_mapping_good])
        (use that desk_inv_consent(4) in \<open>auto intro!: dispatch_decode_good\<close>)
  qed
  with l c assms show ?thesis
    unfolding install_solar_mapping_def
    by (auto simp: Let_def intro!: good_bind [OF ask_clock_good])
qed

lemma handle_solar_result_good:
  assumes "desk_inv g rt" "consent rt"
  shows "good env g (desk_inv g) (handle_solar_result as env r rt)"
  using assms
  by (cases r) (auto simp: handle_solar_result_def Let_def ask_def desk_inv_consent
      intro!: install_solar_mapping_good)

lemma drain_solar_good:
  "desk_inv g rt \<Longrightarrow> good env g (desk_inv g) (drain_solar n as env rt)"
proof (induction n arbitrary: rt)
  case (Suc n)
  show ?case
  proof (cases "rt_resolver rt")
    case None
    with Suc.prems show ?thesis by simp
  next
    case (Some r)
    then have c: "consent rt" using consentD Suc.prems by blast
    obtain r' result where "resolver_receive r = (r', result)" by fastforce
    with Some c Suc show ?thesis
      by (cases result)
        (auto simp: Let_def desk_inv_consent intro!: good_bind [OF handle_solar_result_good])
  qed
qed simp

lemma spawn_resolver_inv:
  assumes "desk_inv g rt" "solar_enabled rt" "permits_solar (rt_appearance rt)"
  shows "desk_inv g (spawn_resolver env rt)"
proof (cases "rt_resolver rt = None \<and> has_solar_schedule rt \<and> frame_available rt")
  case True
  with assms(2,3) have "consent rt" by (simp add: consent_def)
  with True assms(1) show ?thesis
    by (simp add: spawn_resolver_def ask_def desk_inv_consent)
next
  case False
  with assms(1) show ?thesis by (auto simp: spawn_resolver_def)
qed

lemma dispatch_solar_inv: "desk_inv g rt \<Longrightarrow> desk_inv g (dispatch_solar rt)"
  using consentD [of g rt]
  by (auto simp: dispatch_solar_def desk_inv_consent split: option.split sum.split)

lemma request_location_inv: "desk_inv g rt \<Longrightarrow> desk_inv g (request_location env rt)"
  by (simp add: request_location_def ask_def Let_def dispatch_solar_inv)

lemma check_mapping_good:
  "desk_inv g rt \<Longrightarrow> good env g (desk_inv g) (check_mapping as env rt)"
  by (auto simp: check_mapping_def check_due_def ask_def Let_def split: option.split
      intro!: good_bind [OF ask_clock_good] install_solar_mapping_good)

lemma maintain_solar_good:
  assumes "desk_inv g rt" shows "good env g (desk_inv g) (maintain_solar as env rt)"
proof (cases "solar_enabled rt")
  case False
  with assms show ?thesis by (simp add: maintain_solar_def)
next
  case True
  with assms have s: "pf_solar g" by (simp add: desk_inv_def)
  have rest: "good env g (desk_inv g) (if solar_terminal rt \<or> \<not> permits_solar (rt_appearance rt) then Inr rt
      else let rt = spawn_resolver env rt in
        if solar_terminal rt then Inr rt else check_mapping as env (request_location env rt))"
    if i: "desk_inv g rt" for rt
  proof -
    have "solar_enabled rt" using i s by (simp add: desk_inv_def)
    with spawn_resolver_inv [OF i] i show ?thesis
      by (simp add: Let_def check_mapping_good request_location_inv)
  qed
  with True good_bind [OF drain_solar_good [OF assms] rest] show ?thesis
    by (simp add: maintain_solar_def del: drain_solar.simps)
qed

section \<open>Presenting\<close>

lemma present_good:
  assumes "desk_inv g rt" shows "good env g (desk_inv g) (present env rt)"
proof (cases "rt_scheduler rt")
  case None
  with assms show ?thesis by (simp add: present_def)
next
  case (Some s)
  have sc: "good env g (\<lambda>(x, rt'). desk_inv g rt')
      (with_scheduler (prepare_presentation clock m d) s rt')"
    if "desk_inv g rt'" "rt_scheduler rt' = Some s" for clock m d rt'
    using that by (intro with_scheduler_good prepare_presentation_returns inv_pb)
  obtain b n d where "ask_suspended env (rt\<lparr>queries := Suc (Suc (queries rt))\<rparr>)
      = (b, rt\<lparr>queries := n, rt_suspend := d\<rparr>)"
    using ask_suspended_eq [of env "rt\<lparr>queries := Suc (Suc (queries rt))\<rparr>"] by auto
  with assms Some show ?thesis
    by (auto simp: present_def Let_def ask_def
        intro!: good_bind [OF ask_clock_good] good_bind [OF sc] dispatch_decode_good)
qed

section \<open>Drawing\<close>

lemma filter_le_eq_Some [simp]: "filter_le limit m = Some n \<longleftrightarrow> m = Some n \<and> n \<le> limit"
  by (auto simp: filter_le_def bind_eq_Some_conv)

lemma buffer_geometry_ok:
  assumes "buffer_geometry_of dims scale = Inr geometry"
  shows "bg_width geometry \<le> MAX_SURFACE_DIMENSION" "bg_height geometry \<le> MAX_SURFACE_DIMENSION"
    "bg_bytes geometry = bg_width geometry * bg_height geometry * 4"
    "bg_bytes geometry \<le> MAX_BUFFER_BYTES"
proof -
  obtain width height bytes pixels where "width \<le> MAX_SURFACE_DIMENSION" "height \<le> MAX_SURFACE_DIMENSION"
    "checked_mul 64 width height = Some pixels" "checked_mul 64 pixels 4 = Some bytes"
    "bytes \<le> MAX_BUFFER_BYTES" "geometry = \<lparr>bg_width = width, bg_height = height, bg_bytes = bytes\<rparr>"
    using assms unfolding buffer_geometry_of_def Let_def
    by (clarsimp simp only: rbind_eq_Inr ok_or_eq_Inr filter_le_eq_Some bind_eq_Some_conv sum.inject)
  then show "bg_width geometry \<le> MAX_SURFACE_DIMENSION" "bg_height geometry \<le> MAX_SURFACE_DIMENSION"
    "bg_bytes geometry = bg_width geometry * bg_height geometry * 4"
    "bg_bytes geometry \<le> MAX_BUFFER_BYTES"
    by simp_all
qed

definition drawable :: "heic_frame option \<Rightarrow> bool" where
  "drawable frame = (case frame of None \<Rightarrow> True | Some f \<Rightarrow> sound_frame f)"

lemma rt_frame_drawable: "desk_inv g rt \<Longrightarrow> drawable (rt_frame rt)"
proof -
  assume i: "desk_inv g rt"
  have "drawable (pb_frame pb)" if "pb_inv (pb, c)" for pb c
    using that by (cases "pb_transition pb"; cases "pb_presented pb")
      (auto simp: drawable_def pb_frame_def sound_dissolve_def or_else_def)
  with inv_pb [OF i] show ?thesis
    by (cases "rt_scheduler rt") (auto simp: rt_frame_def drawable_def [of None] simp del: pb_inv.simps)
qed

lemma surface_ok_buffers:
  assumes "surface_ok held s" "length bs \<le> BUFFER_COUNT" "\<forall>b \<in> set bs. buffer_ok b" "held \<subseteq> set bs"
  shows "surface_ok held (s\<lparr>sf_buffers := bs\<rparr>)"
  using assms by (auto simp: surface_ok_def)

lemma released_update_held:
  assumes "held \<subseteq> set bs" "\<forall>b \<in> held. \<not> sb_released b" "i < length bs" "sb_released (bs ! i)"
  shows "held \<subseteq> set (bs[i := x])"
proof
  fix b assume "b \<in> held"
  with assms obtain j where "j < length bs" "bs ! j = b" "j \<noteq> i" by (metis in_set_conv_nth subsetD)
  then show "b \<in> set (bs[i := x])" by (metis length_list_update nth_list_update_neq nth_mem)
qed

lemma surface_ok_update:
  assumes "surface_ok held s" "i < length (sf_buffers s)" "sb_released (sf_buffers s ! i)" "buffer_ok x"
  shows "surface_ok held (s\<lparr>sf_buffers := (sf_buffers s)[i := x]\<rparr>)"
  using assms released_update_held [of held "sf_buffers s" i x] set_update_subset_insert [of "sf_buffers s" i x]
  by (intro surface_ok_buffers) (auto simp: surface_ok_def)

text \<open>Only buffers that the compositor does not hold are drawn.\<close>

lemma pick_buffer_good:
  assumes s: "surface_ok held s" and f: "drawable frame"
    and geometry: "buffer_geometry_of dims scale = Inr geometry"
  shows "good env g (\<lambda>((s', picked), rt'). surface_ok held s' \<and> sf_presentation s' = sf_presentation s \<and> (\<exists>n. rt' = rt\<lparr>queries := n\<rparr>)
      \<and> (\<forall>i. picked = Inr (Some i) \<longrightarrow> i < length (sf_buffers s') \<and> sb_released (sf_buffers s' ! i)))
    (pick_buffer env geometry frame s rt)"
proof -
  note ok = buffer_geometry_ok [OF geometry]
  let ?dims = "(bg_width geometry, bg_height geometry)"
  let ?bs = "filter (usable ?dims (geometry_generation s)) (sf_buffers s)"
  let ?s = "s\<lparr>sf_buffers := ?bs\<rparr>"
  have "length ?bs \<le> BUFFER_COUNT"
    using s by (intro le_trans [OF length_filter_le]) (simp add: surface_ok_def)
  with s have kept: "surface_ok held ?s"
    by (intro surface_ok_buffers) (auto simp: surface_ok_def usable_def)
  have total: "\<exists>out. render_cover_argb (bg_width geometry) (bg_height geometry) frame t = Some out
      \<and> length out = length t" if "length t = bg_width geometry * bg_height geometry * 4" for t
    using render_cover_total [OF f [unfolded drawable_def] that] .
  have same: "\<exists>n. rt = rt\<lparr>queries := n\<rparr>" by (rule exI [of _ "queries rt"]) simp
  show ?thesis
  proof (cases "position id (map sb_released ?bs)")
    case (Some i)
    then have i: "i < length ?bs" "sb_released (?bs ! i)"
      using position_Some [OF Some] by auto
    let ?b = "?bs ! i"
    have "?b \<in> set ?bs" using i(1) by (rule nth_mem)
    then have b: "sb_size ?b = ?dims" "buffer_ok ?b"
      using i(2) s by (auto simp: usable_def surface_ok_def)
    obtain canvas where canvas: "render_cover_argb (bg_width geometry) (bg_height geometry) frame
        (sb_canvas ?b) = Some canvas" "length canvas = length (sb_canvas ?b)"
      using total [of "sb_canvas ?b"] b by (auto simp: buffer_ok_def)
    have "surface_ok held (?s\<lparr>sf_buffers := (sf_buffers ?s)[i := ?b\<lparr>sb_canvas := canvas\<rparr>]\<rparr>)"
      by (rule surface_ok_update [OF kept]) (use i b(2) canvas(2) in \<open>simp_all add: buffer_ok_def\<close>)
    moreover have "pick_buffer env geometry frame s rt
        = Inr ((s\<lparr>sf_buffers := ?bs[i := ?b\<lparr>sb_canvas := canvas\<rparr>]\<rparr>, Inr (Some i)), rt)"
      using Some canvas(1) by (simp add: pick_buffer_def Let_def buffer_decision_of_def)
    ultimately show ?thesis using i same by simp
  next
    case None
    show ?thesis
    proof (cases "length ?bs < BUFFER_COUNT")
      case False
      with None kept same show ?thesis
        by (simp add: pick_buffer_def Let_def buffer_decision_of_def del: position_None)
    next
      case True
      let ?t = "replicate (bg_bytes geometry) (0 :: u8)"
      obtain canvas where canvas: "render_cover_argb (bg_width geometry) (bg_height geometry) frame ?t
          = Some canvas" "length canvas = bg_bytes geometry"
        using total [of ?t] ok(3) by auto
      let ?b = "\<lparr>sb_size = ?dims, sb_generation = geometry_generation s, sb_released = True, sb_canvas = canvas\<rparr>"
      have "surface_ok held (?s\<lparr>sf_buffers := ?bs @ [?b]\<rparr>)"
        by (rule surface_ok_buffers [OF kept])
          (use kept True ok canvas(2) in \<open>auto simp: surface_ok_def buffer_ok_def\<close>)
      then show ?thesis
        using None True kept canvas(1)
        by (auto simp: pick_buffer_def Let_def buffer_decision_of_def ask_def simp del: position_None)
    qed
  qed
qed

lemma committed_inv [simp]: "desk_inv g (note_effect (Committed layer b) rt) = desk_inv g rt"
  by (simp add: note_effect_def desk_inv_def consent_def has_solar_schedule_def asks_location_def
      del: pb_inv.simps)

lemma surfaces_note [simp]: "surfaces (note_effect e rt) = surfaces rt"
  by (simp add: note_effect_def)

lemma surface_ok_rendered:
  assumes "surface_ok held s" "n = request_frame transitioning (ps_frame_pending (sf_presentation s))"
    and "\<not> ps_frame_ready (sf_presentation s)"
  shows "surface_ok held (s\<lparr>frame_callback := c, callbacks_out := callbacks_out s + (if n then 1 else 0),
    sf_presentation := rendered n (sf_presentation s), last_error := e\<rparr>)"
  using assms by (cases n) (simp_all add: surface_ok_def rendered_def request_frame_def)

lemma attach_buffer_ok:
  assumes "surface_ok held s" "i < length (sf_buffers s)" "sb_released (sf_buffers s ! i)"
    and "\<not> ps_frame_ready (sf_presentation s)"
    and "attach_buffer env transitioning i s rt = ((s', result), rt')"
  shows "surface_ok held s' \<and> surfaces rt' = surfaces rt \<and> (desk_inv g rt \<longrightarrow> desk_inv g rt')"
proof (cases "rd_granted (env (queries rt))")
  case False
  with assms(1,5) show ?thesis by (auto simp: attach_buffer_def ask_def)
next
  case True
  let ?s = "s\<lparr>sf_buffers := (sf_buffers s)[i := (sf_buffers s ! i)\<lparr>sb_released := False\<rparr>]\<rparr>"
  have "buffer_ok (sf_buffers s ! i)" using assms(1,2) by (simp add: surface_ok_def)
  then have "surface_ok held ?s"
    by (intro surface_ok_update assms(1-3)) (simp add: buffer_ok_def)
  moreover let ?n = "request_frame transitioning (ps_frame_pending (sf_presentation s))"
  have "s' = ?s\<lparr>frame_callback := frame_callback s \<or> ?n, callbacks_out := callbacks_out ?s + (if ?n then 1 else 0),
      sf_presentation := rendered ?n (sf_presentation ?s), last_error := None\<rparr>"
    "rt' = note_effect (Committed (sf_layer s) ?n) (rt\<lparr>queries := queries rt + 1\<rparr>)"
    using True assms(5) by (simp_all add: attach_buffer_def ask_def Let_def)
  ultimately have "surface_ok held s'"
    using surface_ok_rendered [of held ?s ?n transitioning] assms(4) by simp
  moreover have "surfaces rt' = surfaces rt" using \<open>rt' = _\<close> by (simp add: note_effect_def)
  moreover have "desk_inv g rt' = desk_inv g rt" using \<open>rt' = _\<close> by simp
  ultimately show ?thesis by blast
qed

text \<open>What a part of a pass does to one surface.\<close>

definition only_surface :: "nat \<Rightarrow> desktop \<Rightarrow> desktop \<Rightarrow> bool" where
  "only_surface i rt rt' \<longleftrightarrow> length (surfaces rt') = length (surfaces rt)
     \<and> (\<forall>j. j \<noteq> i \<longrightarrow> surfaces rt' ! j = surfaces rt ! j)"

lemma put_surface_inv:
  assumes "desk_inv g rt" "i < length (surfaces rt)" "surface_ok (pf_held g ! i) s"
  shows "desk_inv g (put_surface i s rt)"
proof -
  have "list_all2 surface_ok (pf_held g) (surfaces rt)" using assms(1) by (simp add: desk_inv_def)
  from list_all2_update_cong [OF this assms(3), of i]
  have "list_all2 surface_ok (pf_held g) ((surfaces rt)[i := s])" by simp
  with assms(1) show ?thesis
    by (clarsimp simp: put_surface_def desk_inv_def consent_def has_solar_schedule_def
        simp del: pb_inv.simps not_None_eq)
qed

lemma surface_inv:
  "desk_inv g rt \<Longrightarrow> i < length (surfaces rt) \<Longrightarrow> surface_ok (pf_held g ! i) (surfaces rt ! i)"
  by (auto simp: desk_inv_def dest: list_all2_nthD2)

lemma render_surface_good:
  assumes i: "desk_inv g rt" and s: "surface_ok held s" and ready: "\<not> ps_frame_ready (sf_presentation s)"
  shows "good env g (\<lambda>((s', result), rt'). surface_ok held s' \<and> desk_inv g rt' \<and> surfaces rt' = surfaces rt)
    (render_surface env s rt)"
proof (cases "sf_size s")
  case None
  with assms show ?thesis by (simp add: render_surface_def)
next
  case size: (Some dims)
  show ?thesis
  proof (cases "buffer_geometry_of dims (sf_scale s)")
    case (Inl e)
    with size assms show ?thesis by (simp add: render_surface_def)
  next
    case (Inr geometry)
    show ?thesis
      unfolding render_surface_def size option.case Inr sum.case
    proof (rule good_bind [OF pick_buffer_good [OF s rt_frame_drawable [OF i] Inr]], clarify)
      fix s' rt' n and picked :: "ustring + nat option"
      assume p: "surface_ok held s'" "sf_presentation s' = sf_presentation s" "\<forall>i. picked = Inr (Some i) \<longrightarrow>
        i < length (sf_buffers s') \<and> sb_released (sf_buffers s' ! i)"
      show "good env g (\<lambda>((s', result), rt'). surface_ok held s' \<and> desk_inv g rt' \<and> surfaces rt' = surfaces rt)
        (case picked of Inl e \<Rightarrow> Inr ((s', Inl e), rt\<lparr>queries := n\<rparr>)
         | Inr None \<Rightarrow> Inr ((s', Inr ()), rt\<lparr>queries := n\<rparr>)
         | Inr (Some i) \<Rightarrow> Inr (attach_buffer env (rt_transitioning (rt\<lparr>queries := n\<rparr>)) i s' (rt\<lparr>queries := n\<rparr>)))"
      proof (cases "\<exists>i. picked = Inr (Some i)")
        case True
        then obtain k where k: "picked = Inr (Some k)" ..
        obtain s2 result rt2 where q: "attach_buffer env (rt_transitioning (rt\<lparr>queries := n\<rparr>)) k s'
            (rt\<lparr>queries := n\<rparr>) = ((s2, result), rt2)"
          by (metis surj_pair)
        from attach_buffer_ok [OF p(1) _ _ _ q] p(2,3) ready k i show ?thesis by (simp add: q)
      next
        case False
        with p(1) i show ?thesis by (auto split: sum.split option.split)
      qed
    qed
  qed
qed

definition action_ready :: "desktop \<Rightarrow> nat \<times> surface_action \<Rightarrow> bool" where
  "action_ready rt = (\<lambda>(i, act). i < length (surfaces rt)
     \<and> \<not> ps_frame_ready (sf_presentation (surfaces rt ! i))
     \<and> (act = ActRearm \<longrightarrow> \<not> ps_frame_pending (sf_presentation (surfaces rt ! i))))"

lemma only_put: "surfaces rt' = surfaces rt \<Longrightarrow> only_surface i rt (put_surface i s rt')"
  by (simp add: only_surface_def put_surface_def)

lemma good_bind_triple:
  assumes "good env g (\<lambda>((x, y), z). P x y z) m" "\<And>x y z. P x y z \<Longrightarrow> good env g Q (f ((x, y), z))"
  shows "good env g Q (rbind m f)"
  using assms by (intro good_bind [OF assms(1)]) auto

lemma perform_good:
  assumes i: "desk_inv g rt" and a: "action_ready rt (i, act)"
  shows "good env g (\<lambda>rt'. desk_inv g rt' \<and> only_surface i rt rt') (perform env (i, act) rt)"
proof -
  have l: "i < length (surfaces rt)" "\<not> ps_frame_ready (sf_presentation (surfaces rt ! i))"
    using a by (simp_all add: action_ready_def)
  note s = surface_inv [OF i l(1)]
  show ?thesis
  proof (cases act)
    case ActIdle
    with i show ?thesis by (simp add: perform_def only_surface_def)
  next
    case ActRearm
    let ?s = "surfaces rt ! i"
    let ?s' = "?s\<lparr>frame_callback := True, callbacks_out := callbacks_out ?s + 1,
      sf_presentation := rearmed (sf_presentation ?s)\<rparr>"
    have "surface_ok (pf_held g ! i) ?s'"
      using s l ActRearm a by (simp add: surface_ok_def rearmed_def action_ready_def)
    from put_surface_inv [OF i l(1) this] show ?thesis
      by (simp add: ActRearm perform_def only_surface_def put_surface_def Let_def)
  next
    case ActRender
    have update: "surface_ok h s' \<Longrightarrow> surface_ok h (case result of Inr _ \<Rightarrow> s'
        | Inl e \<Rightarrow> s'\<lparr>last_error := Some e, sf_presentation := disable_presentation (sf_presentation s')\<rparr>)"
      for h s' and result :: "ustring + unit"
      by (auto simp: surface_ok_def disable_presentation_def split: sum.split)
    show ?thesis
      unfolding ActRender perform_def prod.case Let_def surface_action.case
    proof (rule good_bind_triple [OF render_surface_good [OF i s l(2)]])
      fix s' rt' and result :: "ustring + unit"
      assume "surface_ok (pf_held g ! i) s' \<and> desk_inv g rt' \<and> surfaces rt' = surfaces rt"
      with l(1) put_surface_inv [OF _ _ update, of g rt' i s' result] only_put [of rt' rt i]
      show "good env g (\<lambda>rt'. desk_inv g rt' \<and> only_surface i rt rt')
        ((\<lambda>((s, result), rt). Inr (put_surface i (case result of Inr _ \<Rightarrow> s
          | Inl e \<Rightarrow> s\<lparr>last_error := Some e, sf_presentation := disable_presentation (sf_presentation s)\<rparr>) rt))
          ((s', result), rt'))"
        by simp
    qed
  qed
qed

lemma perform_all_good:
  "desk_inv g rt \<Longrightarrow> list_all (action_ready rt) acts \<Longrightarrow> distinct (map fst acts)
    \<Longrightarrow> good env g (desk_inv g) (perform_all env acts rt)"
proof (induction acts arbitrary: rt)
  case (Cons a acts)
  obtain i act where a: "a = (i, act)" by fastforce
  show ?case
    unfolding perform_all.simps a
  proof (rule good_bind [OF perform_good])
    fix rt' assume r: "desk_inv g rt' \<and> only_surface i rt rt'"
    have "action_ready rt' b" if b: "b \<in> set acts" for b
    proof -
      obtain j act' where j: "b = (j, act')" by fastforce
      have "j \<noteq> i" using Cons.prems(3) b by (force simp: a j)
      moreover have "action_ready rt b" using Cons.prems(2) b by (simp add: list_all_iff)
      ultimately show ?thesis using r by (simp add: j action_ready_def only_surface_def)
    qed
    then have "list_all (action_ready rt') acts" by (simp add: list_all_iff)
    with r Cons show "good env g (desk_inv g) (perform_all env acts rt')" by simp
  qed (use Cons.prems a in simp_all)
qed simp

lemma next_actions_good:
  assumes "desk_inv g rt" "next_actions rt = (acts, rt')"
  shows "desk_inv g rt' \<and> list_all (action_ready rt') acts \<and> distinct (map fst acts)"
proof -
  let ?r = "\<lambda>s. next_action (rt_transitioning rt) (sf_size s \<noteq> None) (sf_presentation s)"
  let ?f = "\<lambda>s. s\<lparr>sf_presentation := fst (?r s)\<rparr>"
  have m: "map2 (\<lambda>s r. s\<lparr>sf_presentation := fst r\<rparr>) xs (map ?r xs) = map ?f xs" for xs
    by (induction xs) simp_all
  have q: "acts = zip [0 ..< length (surfaces rt)] (map (snd \<circ> ?r) (surfaces rt))"
    "rt' = rt\<lparr>surfaces := map ?f (surfaces rt)\<rparr>"
    using assms(2) unfolding next_actions_def Let_def m by auto
  have f: "surface_ok h (?f s) \<and> \<not> ps_frame_ready (sf_presentation (?f s))
      \<and> (snd (?r s) = ActRearm \<longrightarrow> \<not> ps_frame_pending (sf_presentation (?f s)))"
    if "surface_ok h s" for h s
    using that
    by (auto simp: surface_ok_def next_action_def take_frame_action_def surface_action_of_def Let_def
        split: if_splits)
  have l: "list_all2 surface_ok (pf_held g) (surfaces rt)" using assms(1) by (simp add: desk_inv_def)
  then have "list_all2 surface_ok (pf_held g) (map ?f (surfaces rt))"
    unfolding list_all2_map2 by (rule list_all2_mono) (use f in blast)
  then have "desk_inv g rt'"
    using assms(1) unfolding q
    by (clarsimp simp: desk_inv_def consent_def has_solar_schedule_def simp del: pb_inv.simps not_None_eq)
  moreover have "list_all (action_ready rt') acts"
    using f [OF surface_inv [OF assms(1)]]
    by (auto simp: q list_all_iff action_ready_def set_zip simp del: not_None_eq)
  moreover have "distinct (map fst acts)" by (simp add: q)
  ultimately show ?thesis by blast
qed

lemma maintain_good:
  assumes "desk_inv g rt" shows "good env g (desk_inv g) (maintain as env rt)"
  unfolding maintain_def
proof (intro good_bind [OF synchronize_pass_good [OF assms]] good_bind [OF receive_worker_good]
    good_bind [OF maintain_solar_good] good_bind [OF present_good])
  fix rt4 assume "desk_inv g rt4"
  with next_actions_good show "good env g (desk_inv g)
      (let (actions, rt) = next_actions rt4 in perform_all env actions rt)"
    by (cases "next_actions rt4") (simp add: perform_all_good)
qed

section \<open>Runs\<close>

inductive desktop_step :: "'v astronomy \<Rightarrow> env \<Rightarrow> desktop \<Rightarrow> desktop \<Rightarrow> bool" for as env where
  pass: "rt_failure rt = None \<Longrightarrow> maintain as env rt = Inr rt' \<Longrightarrow> desktop_step as env rt rt'"
| decode: "decoder_step (rt_decoder rt) d
    \<Longrightarrow> (\<forall>md p. WInitialized md p \<in> set (dc_results d) \<longrightarrow> schedule_ok md)
    \<Longrightarrow> desktop_step as env rt (rt\<lparr>rt_decoder := d\<rparr>)"
| resolve: "rt_resolver rt = Some r \<Longrightarrow> resolver_step r r'
    \<Longrightarrow> desktop_step as env rt (rt\<lparr>rt_resolver := Some r'\<rparr>)"
| add: "desktop_step as env rt (add_surface info output rt)"
| closed: "desktop_step as env rt (layer_closed layer rt)"
| destroyed: "desktop_step as env rt (output_destroyed output rt)"
| configure: "desktop_step as env rt (configure_surface info layer hints rt)"
| scale: "desktop_step as env rt (scale_factor_changed layer factor rt)"
| transform: "desktop_step as env rt (transform_changed layer rt)"
| frame: "\<forall>s \<in> set (surfaces rt). sf_layer s = layer \<longrightarrow> 0 < callbacks_out s
    \<Longrightarrow> desktop_step as env rt (frame_done layer rt)"
| release: "desktop_step as env rt (buffer_released layer k rt)"
| timer: "desktop_step as env rt (timer_fired rt)"

definition run_facts :: "appearance_preference \<Rightarrow> bool \<Rightarrow> desktop \<Rightarrow> pass_facts" where
  "run_facts app solar rt = \<lparr>pf_stopped = True, pf_appearance = app, pf_solar = solar,
     pf_held = map (\<lambda>_. {}) (surfaces rt)\<rparr>"

definition run_inv :: "appearance_preference \<Rightarrow> bool \<Rightarrow> desktop \<Rightarrow> bool" where
  "run_inv app solar rt \<longleftrightarrow> desk_inv (run_facts app solar rt) rt"

text \<open>Between the passes nothing is held; for a pass, what the compositor then holds.\<close>

definition held_of :: "surface \<Rightarrow> surface_buffer set" where
  "held_of s = {b \<in> set (sf_buffers s). \<not> sb_released b}"

definition pass_start :: "appearance_preference \<Rightarrow> bool \<Rightarrow> desktop \<Rightarrow> pass_facts" where
  "pass_start app solar rt = \<lparr>pf_stopped = (dc_worker (rt_decoder rt) = WStopped), pf_appearance = app,
     pf_solar = solar, pf_held = map held_of (surfaces rt)\<rparr>"

lemma surface_ok_held: "surface_ok (held_of s) s = surface_ok {} s"
  by (auto simp: surface_ok_def held_of_def)

lemma run_inv_surfaces: "run_inv app solar rt \<Longrightarrow> \<forall>s \<in> set (surfaces rt). surface_ok {} s"
  by (simp add: run_inv_def run_facts_def desk_inv_def list_all2_map1 list_all2_same)

lemma run_inv_pass_start: "run_inv app solar rt \<Longrightarrow> desk_inv (pass_start app solar rt) rt"
  by (clarsimp simp: run_inv_def run_facts_def pass_start_def desk_inv_def list_all2_map1 list_all2_same
      surface_ok_held decoder_ok_def simp del: pb_inv.simps not_None_eq)

lemma pass_run_inv:
  assumes "desk_inv g rt" "pf_appearance g = app" "pf_solar g = solar"
  shows "run_inv app solar rt"
proof -
  have "list_all2 surface_ok (pf_held g) (surfaces rt)" using assms(1) by (simp add: desk_inv_def)
  then have "\<forall>s \<in> set (surfaces rt). surface_ok {} s"
    by (fastforce simp: list_all2_conv_all_nth in_set_conv_nth surface_ok_def)
  with assms show ?thesis
    by (clarsimp simp: run_inv_def run_facts_def desk_inv_def list_all2_map1 list_all2_same
        decoder_ok_def simp del: pb_inv.simps not_None_eq)
qed

lemma new_surfaces_inv:
  assumes "run_inv app solar rt" "\<forall>s \<in> set ss. surface_ok {} s"
  shows "run_inv app solar (rt\<lparr>surfaces := ss\<rparr>)"
  using assms
  by (clarsimp simp: run_inv_def run_facts_def desk_inv_def list_all2_map1 list_all2_same
      consent_def has_solar_schedule_def simp del: pb_inv.simps not_None_eq)

lemma run_inv_irrelevant [simp]:
  "run_inv app solar (rt\<lparr>next_layer := n\<rparr>) = run_inv app solar rt"
  "run_inv app solar (rt\<lparr>rt_failure := f\<rparr>) = run_inv app solar rt"
  "run_inv app solar (rt\<lparr>check_clock := b\<rparr>) = run_inv app solar rt"
  by (simp_all add: run_inv_def run_facts_def desk_inv_def consent_def has_solar_schedule_def
      del: pb_inv.simps not_None_eq)

lemma put_run_inv:
  assumes "run_inv app solar rt" "surface_ok {} s"
  shows "run_inv app solar (put_surface i s rt)"
  unfolding put_surface_def
  using assms run_inv_surfaces [OF assms(1)] set_update_subset_insert [of "surfaces rt" i s]
  by (intro new_surfaces_inv) auto

lemma update_run_inv:
  assumes "run_inv app solar rt"
    and "\<And>s. s \<in> set (surfaces rt) \<Longrightarrow> P s \<Longrightarrow> surface_ok {} s \<Longrightarrow> surface_ok {} (f s)"
  shows "run_inv app solar (update_surface P f rt)"
proof (cases "position P (surfaces rt)")
  case None
  with assms(1) show ?thesis by (simp add: update_surface_def del: position_None)
next
  case (Some i)
  then have "surfaces rt ! i \<in> set (surfaces rt)" "P (surfaces rt ! i)"
    using position_Some [OF Some] by simp_all
  with assms run_inv_surfaces [OF assms(1)] Some show ?thesis
    by (simp add: update_surface_def put_run_inv)
qed

lemma geometry_ok [simp]:
  "surface_ok h s \<Longrightarrow> surface_ok h (refresh_geometry info retry s)"
  "surface_ok h s \<Longrightarrow> surface_ok h (geometry_reset s)"
  by (auto simp: refresh_geometry_def geometry_reset_def surface_ok_def geometry_changed_def Let_def
      split: option.split)

lemma scale_ok: "surface_ok h s \<Longrightarrow> surface_ok h (s\<lparr>sf_scale := k\<rparr>)"
  by (simp add: surface_ok_def)

lemma frame_arrived_ok:
  "surface_ok h s \<Longrightarrow> 0 < callbacks_out s \<Longrightarrow> surface_ok h (s\<lparr>frame_callback := False,
    callbacks_out := callbacks_out s - 1, sf_presentation := frame_arrived (sf_presentation s)\<rparr>)"
  by (auto simp: surface_ok_def frame_arrived_def split: if_splits)

lemma release_ok:
  assumes "surface_ok {} s" "k < length (sf_buffers s)"
  shows "surface_ok {} (s\<lparr>sf_buffers := (sf_buffers s)[k := (sf_buffers s ! k)\<lparr>sb_released := True\<rparr>]\<rparr>)"
proof -
  have "buffer_ok (sf_buffers s ! k)" using assms by (simp add: surface_ok_def)
  then have "buffer_ok ((sf_buffers s ! k)\<lparr>sb_released := True\<rparr>)" by (simp add: buffer_ok_def)
  with assms(1) set_update_subset_insert [of "sf_buffers s" k] show ?thesis
    by (intro surface_ok_buffers) (fastforce simp: surface_ok_def)+
qed

lemma decode_inv:
  assumes "run_inv app solar rt" "decoder_step (rt_decoder rt) d"
    "\<forall>md p. WInitialized md p \<in> set (dc_results d) \<longrightarrow> schedule_ok md"
  shows "run_inv app solar (rt\<lparr>rt_decoder := d\<rparr>)"
proof -
  have "decoder_ok (rt_metadata rt = None) True (rt_decoder rt)"
    using assms(1) by (simp add: run_inv_def run_facts_def desk_inv_def)
  with assms(2,3) have "decoder_ok (rt_metadata rt = None) True d"
    by (cases rule: decoder_step.cases) (auto simp: decoder_ok_def split: if_splits worker_phase.splits)
  with assms(1) show ?thesis
    by (clarsimp simp: run_inv_def run_facts_def desk_inv_def consent_def has_solar_schedule_def
        simp del: pb_inv.simps not_None_eq)
qed

lemma resolve_inv:
  "run_inv app solar rt \<Longrightarrow> rt_resolver rt = Some r \<Longrightarrow> run_inv app solar (rt\<lparr>rt_resolver := Some r'\<rparr>)"
  by (auto simp: run_inv_def run_facts_def desk_inv_def consent_def has_solar_schedule_def
      simp del: pb_inv.simps)

lemma desktop_step_inv: "desktop_step as env rt rt' \<Longrightarrow> run_inv app solar rt \<Longrightarrow> run_inv app solar rt'"
proof (induction rule: desktop_step.induct)
  case (pass rt rt')
  have "good env (pass_start app solar rt) (desk_inv (pass_start app solar rt)) (maintain as env rt)"
    using maintain_good run_inv_pass_start pass.prems by blast
  with pass.hyps show ?case by (auto simp: pass_start_def intro: pass_run_inv)
next
  case (add rt info out)
  have new: "surface_ok {} (surface_created out n)" for n
    by (simp add: surface_ok_def surface_created_def presentation_new_def)
  show ?case
  proof (cases "position (\<lambda>s. sf_output s = out) (surfaces rt)")
    case None
    have "run_inv app solar (rt\<lparr>surfaces := surfaces rt @ [surface_created out (next_layer rt)]\<rparr>)"
      by (rule new_surfaces_inv) (use add run_inv_surfaces [OF add] new in simp_all)
    with None show ?thesis by (simp add: add_surface_def del: position_None)
  next
    case (Some i)
    with position_Some [OF Some] run_inv_surfaces [OF add] add show ?thesis
      by (simp add: add_surface_def put_run_inv)
  qed
next
  case (closed rt layer)
  with run_inv_surfaces [OF closed] show ?case by (simp add: layer_closed_def new_surfaces_inv)
next
  case (destroyed rt out)
  with run_inv_surfaces [OF destroyed] show ?case by (simp add: output_destroyed_def new_surfaces_inv)
next
  case (configure rt info layer hints)
  show ?case
  proof (cases "position (\<lambda>s. sf_layer s = layer) (surfaces rt)")
    case None
    with configure show ?thesis by (simp add: configure_surface_def del: position_None)
  next
    case (Some i)
    then have "surface_ok {} (surfaces rt ! i)"
      using position_Some [OF Some] run_inv_surfaces [OF configure] by simp
    then have "surface_ok {} ((surfaces rt ! i)\<lparr>configure_hints := Some hints\<rparr>)"
      by (simp add: surface_ok_def)
    with Some configure show ?thesis by (simp add: configure_surface_def put_run_inv)
  qed
next
  case (scale rt layer factor)
  then show ?case
    unfolding scale_factor_changed_def
    by (rule update_run_inv) (simp add: Let_def scale_ok)
next
  case (transform rt layer)
  then show ?case unfolding transform_changed_def by (rule update_run_inv) simp
next
  case (frame rt layer)
  then show ?case
    unfolding frame_done_def by (intro update_run_inv frame_arrived_ok) auto
next
  case (release rt layer k)
  then show ?case
    unfolding buffer_released_def by (rule update_run_inv) (simp add: release_ok)
next
  case (timer rt)
  then show ?case by (simp add: timer_fired_def)
qed (auto intro: decode_inv resolve_inv)

text \<open>The states a renderer can reach from its start.\<close>

definition desktop_reach ::
  "'v astronomy \<Rightarrow> env \<Rightarrow> appearance_preference \<Rightarrow> bool \<Rightarrow> desktop \<Rightarrow> bool" where
  "desktop_reach as env app solar rt \<longleftrightarrow> (\<exists>reduced boot counter.
     (desktop_step as env)\<^sup>*\<^sup>* (desktop_started app reduced solar boot counter) rt)"

lemma desktop_started_inv: "run_inv app solar (desktop_started app reduced solar boot counter)"
  by (simp add: run_inv_def run_facts_def desk_inv_def desktop_started_def decoder_spawned_def
      decoder_ok_def)

lemma desktop_reach_inv: "desktop_reach as env app solar rt \<Longrightarrow> run_inv app solar rt"
proof -
  have "(desktop_step as env)\<^sup>*\<^sup>* rt0 rt \<Longrightarrow> run_inv app solar rt0 \<Longrightarrow> run_inv app solar rt" for rt0
    by (induction rule: rtranclp_induct) (auto intro: desktop_step_inv)
  then show "desktop_reach as env app solar rt \<Longrightarrow> run_inv app solar rt"
    using desktop_started_inv unfolding desktop_reach_def by blast
qed

lemma desktop_reach_step:
  "desktop_reach as env app solar rt \<Longrightarrow> desktop_step as env rt rt' \<Longrightarrow> desktop_reach as env app solar rt'"
  unfolding desktop_reach_def by (meson rtranclp.rtrancl_into_rtrancl)

text \<open>
  C25. In every reachable state of the desktop wallpaper renderer a pass of its event loop completes
  when the wall clock can be read and the decoder thread is there; otherwise it can only fail for
  one of these two reasons. It never panics: the decode queue is never full, a decode result always
  finds its scheduler, every schedule has a point that is due, and drawing stays in range.
\<close>
theorem pass_never_panics:
  assumes "desktop_reach as env app solar rt"
  shows "(case maintain as env rt of
      Inr rt' \<Rightarrow> True
    | Inl e \<Rightarrow> e = ClockUnavailable \<and> (\<exists>k. current_clock (rd_now (env k)) = None)
        \<or> e = DecoderStopped \<and> dc_worker (rt_decoder rt) = WStopped)"
  using maintain_good [OF run_inv_pass_start [OF desktop_reach_inv [OF assms]], of env as]
  by (auto simp: good_def pass_start_def split: sum.splits)

text \<open>
  C26. In every reachable state: the location service was asked, a location is known or a solar
  schedule was applied only if the configuration enables solar wallpapers, the appearance is left
  to the wallpaper, and the wallpaper that is open has a solar schedule.
\<close>
theorem location_only_with_consent:
  assumes "desktop_reach as env app solar rt"
  shows "RequestedLocation \<in> set (rt_log rt) \<or> (\<exists>pts. AppliedSolar pts \<in> set (rt_log rt))
      \<or> rt_resolver rt \<noteq> None \<or> rt_location rt \<noteq> None
    \<longrightarrow> solar \<and> permits_solar app \<and> has_solar_schedule rt"
proof -
  have i: "run_inv app solar rt" using desktop_reach_inv [OF assms] .
  have "list_ex asks_location (rt_log rt)"
    if "RequestedLocation \<in> set (rt_log rt) \<or> (\<exists>pts. AppliedSolar pts \<in> set (rt_log rt))"
    using that by (force simp: list_ex_iff asks_location_def)
  with i show ?thesis
    unfolding run_inv_def desk_inv_def run_facts_def consent_def pass_facts.select_convs by blast
qed

text \<open>
  C27. In a pass from a reachable state the renderer does not touch a buffer that the compositor
  holds: it stays in its surface, unchanged. After the pass each surface has at most two buffers,
  with as many bytes as their size says, at most 256 MiB and 16384 pixels along an axis, and at most
  one frame callback is outstanding.
\<close>
theorem buffers_not_drawn_while_held:
  assumes "desktop_reach as env app solar rt" "maintain as env rt = Inr rt'"
  shows "length (surfaces rt') = length (surfaces rt)
    \<and> (\<forall>i < length (surfaces rt). \<forall>b \<in> set (sf_buffers (surfaces rt ! i)).
        \<not> sb_released b \<longrightarrow> b \<in> set (sf_buffers (surfaces rt' ! i)))
    \<and> (\<forall>s \<in> set (surfaces rt'). length (sf_buffers s) \<le> 2 \<and> callbacks_out s \<le> 1
        \<and> (\<forall>b \<in> set (sf_buffers s). length (sb_canvas b) = fst (sb_size b) * snd (sb_size b) * 4
            \<and> length (sb_canvas b) \<le> 256 * 1024 * 1024
            \<and> fst (sb_size b) \<le> 16384 \<and> snd (sb_size b) \<le> 16384))"
proof -
  let ?g = "pass_start app solar rt"
  have "desk_inv ?g rt'"
    using maintain_good [OF run_inv_pass_start [OF desktop_reach_inv [OF assms(1)]], of env as] assms(2)
    by simp
  then have l: "list_all2 surface_ok (map held_of (surfaces rt)) (surfaces rt')"
    by (simp add: desk_inv_def pass_start_def)
  then have n: "length (surfaces rt') = length (surfaces rt)"
    by (simp add: list_all2_lengthD [symmetric])
  have ok: "surface_ok (held_of (surfaces rt ! i)) (surfaces rt' ! i)" if "i < length (surfaces rt)" for i
    using list_all2_nthD [OF l, of i] that by simp
  have "b \<in> set (sf_buffers (surfaces rt' ! i))"
    if "i < length (surfaces rt)" "b \<in> set (sf_buffers (surfaces rt ! i))" "\<not> sb_released b" for i b
    using ok [OF that(1)] that(2,3) by (simp add: surface_ok_def held_of_def)
  moreover have "length (sf_buffers s) \<le> 2 \<and> callbacks_out s \<le> 1
      \<and> (\<forall>b \<in> set (sf_buffers s). length (sb_canvas b) = fst (sb_size b) * snd (sb_size b) * 4
          \<and> length (sb_canvas b) \<le> 256 * 1024 * 1024
          \<and> fst (sb_size b) \<le> 16384 \<and> snd (sb_size b) \<le> 16384)" if "s \<in> set (surfaces rt')" for s
  proof -
    obtain i where "i < length (surfaces rt)" "surfaces rt' ! i = s"
      using \<open>s \<in> set (surfaces rt')\<close> n by (metis in_set_conv_nth)
    with ok have "\<exists>h. surface_ok h s" by blast
    then show ?thesis
      by (auto simp: surface_ok_def buffer_ok_def BUFFER_COUNT_def MAX_BUFFER_BYTES_def MAX_SURFACE_DIMENSION_def)
  qed
  ultimately show ?thesis using n by blast
qed

section \<open>A small run\<close>

definition demo_readings :: env where
  "demo_readings k = \<lparr>rd_now = \<lparr>cn_year = 2025, cn_month = 6, cn_day = 1, cn_hour = 13, cn_minute = 30,
     cn_second = 0, cn_nanosecond = 0, cn_offset = 7200\<rparr>, rd_elapsed = k, rd_boot_offset = None,
     rd_reserved = None, rd_granted = True\<rparr>"

definition demo_astronomy :: "unit astronomy" where
  "demo_astronomy = \<lparr>as_sun = (\<lambda>_ _ _. Inl InvalidTrajectory), as_vector = (\<lambda>_. ()),
     as_distance = (\<lambda>_ _. Fin 0), meaningful_location_change = (\<lambda>_ _. True)\<rparr>"

definition demo_surface :: surface where
  "demo_surface = (surface_created 7 0)\<lparr>configure_hints := Some (1, 1), sf_size := Some (1, 1),
     geometry_generation := 1, sf_presentation := geometry_changed presentation_new\<rparr>"

definition demo_desktop :: desktop where
  "demo_desktop = (desktop_started Automatic False False None 0)\<lparr>surfaces := [demo_surface], next_layer := 1\<rparr>"

definition demo_buffer :: surface_buffer where
  "demo_buffer = \<lparr>sb_size = (1, 1), sb_generation = 1, sb_released = False, sb_canvas = [24, 9, 5, 255]\<rparr>"

text \<open>One output, configured to one pixel, before and after the first pass.\<close>

definition demo_painted :: desktop where
  "demo_painted = demo_desktop\<lparr>queries := 4, rt_log := [Committed 0 False],
     surfaces := [demo_surface\<lparr>sf_buffers := [demo_buffer],
       sf_presentation := rendered False (geometry_changed presentation_new)\<rparr>]\<rparr>"

lemma demo_clock_known [simp]: "current_clock (rd_now (demo_readings k)) = None \<longleftrightarrow> False"
  by (simp add: demo_readings_def current_clock_def ok_def CivilDate_new_def CivilTime_new_def
      ClockSnapshot_new_with_nanosecond_def days_in_month_def is_leap_year_def)

lemma four_zeros: "replicate 4 x = [x, x, x, x]"
  by (simp add: eval_nat_numeral)

lemma demo_first_pass: "maintain demo_astronomy demo_readings demo_desktop = Inr demo_painted"
  by (simp add: demo_painted_def demo_buffer_def demo_desktop_def demo_surface_def desktop_started_def
      surface_created_def maintain_def synchronize_pass_def synchronize_due_def ask_def receive_worker_def
      decoder_receive_def decoder_spawned_def maintain_solar_def present_def next_actions_def
      next_action_def take_frame_action_def render_eligible_def render_eligible_of_def geometry_changed_def
      presentation_new_def Let_def perform_def render_surface_def buffer_geometry_of_def filter_le_def
      checked_mul_def MAX_SURFACE_DIMENSION_def MAX_BUFFER_BYTES_def pick_buffer_def buffer_decision_of_def
      BUFFER_COUNT_def rt_frame_def render_cover_argb_def FALLBACK_RGB_def attach_buffer_def
      rt_transitioning_def request_frame_def rendered_def put_surface_def note_effect_def demo_readings_def
      four_zeros)

lemma demo_reach: "desktop_reach demo_astronomy demo_readings Automatic False demo_desktop"
proof -
  let ?rt = "desktop_started Automatic False False None 0"
  have "desktop_reach demo_astronomy demo_readings Automatic False ?rt"
    unfolding desktop_reach_def by blast
  from desktop_reach_step [OF desktop_reach_step [OF this add [of _ _ _ None 7]] configure [of _ _ _ None 0 "(1, 1)"]]
  show ?thesis
    by (simp add: configure_surface_def add_surface_def desktop_started_def put_surface_def demo_desktop_def
        demo_surface_def surface_created_def refresh_geometry_def resolve_configure_size_def or_else_def Let_def)
qed

lemma demo_painted_reach: "desktop_reach demo_astronomy demo_readings Automatic False demo_painted"
  by (rule desktop_reach_step [OF demo_reach pass])
    (simp add: demo_desktop_def desktop_started_def, rule demo_first_pass)
theorem pass_never_panics_witness:
  "\<exists>rt'. maintain demo_astronomy demo_readings demo_painted = Inr rt'"
proof -
  have "dc_worker (rt_decoder demo_painted) = WOpening"
    by (simp add: demo_painted_def demo_desktop_def desktop_started_def decoder_spawned_def)
  with pass_never_panics [OF demo_painted_reach] show ?thesis
    by (auto split: sum.splits)
qed

theorem location_only_with_consent_witness:
  "RequestedLocation \<notin> set (rt_log demo_painted) \<and> rt_location demo_painted = None"
  using location_only_with_consent [OF demo_painted_reach] by blast

theorem buffers_not_drawn_while_held_witness:
  "\<exists>rt'. maintain demo_astronomy demo_readings demo_painted = Inr rt'
    \<and> demo_buffer \<in> set (sf_buffers (surfaces rt' ! 0))"
proof -
  obtain rt' where q: "maintain demo_astronomy demo_readings demo_painted = Inr rt'"
    using maintain_good [OF run_inv_pass_start [OF desktop_reach_inv [OF demo_painted_reach]],
        of demo_readings demo_astronomy]
    by (auto simp: good_def pass_start_def demo_painted_def demo_desktop_def desktop_started_def
        decoder_spawned_def split: sum.splits)
  from buffers_not_drawn_while_held [OF demo_painted_reach q] q show ?thesis
    by (auto simp: demo_painted_def demo_buffer_def)
qed

end
