(* ===== verification/Spec2Isabelle.thy ===== *)
theory Spec2Isabelle
  imports Output_Selection Conversation Lock_Auth_Protocol Lock_Render Lock_Runtime Lock_Worker
    Locker_Client Locker_Presentation Locker_Session
    Accounts Identity_Lookup Greeter_Auth Greeter_App Greeter_Session Greeter_Flow Greeter_Closing
    Heif_Container Heif_Preflight Heif_Forest
    Floats Civil_Clock Wallpaper_Model Playback Playback_Schedule Playback_Run Solar_Schedule
    Desktop_Surface Desktop_Cover Desktop_Runtime Desktop_Safety Desktop_Runs
begin

text \<open>
  A verification development for genkan, a greetd greeter, session locker and dynamic wallpaper for
  Wayland. Paths below are relative to the repository; \<open>src/\<close> is the main crate.

  The program has three processes of its own. The greeter (\<open>src/app\<close>) asks greetd to open a
  session for an account. The locker (\<open>src/locker\<close>) holds the session lock of the compositor
  (\<open>crates/session-lock\<close>) and talks to a private worker (\<open>crates/lock-auth\<close>) that holds PAM; the
  two share a conversation (\<open>src/conversation.rs\<close>) and the choice of an output
  (\<open>crates/output-selection\<close>) with the greeter. The desktop wallpaper
  (\<open>src/desktop_wallpaper.rs\<close>) shows an Apple HEIC file whose picture follows the time of day or
  the sun (\<open>src/dynamic_wallpaper\<close>).

  Conventions. Data are records and datatypes with the names of the sources; a \<open>u64\<close> counter that
  wraps is a word, a checked or saturating width is written out on natural numbers; \<open>Result\<close> is a
  sum, \<open>Inl\<close> the error; a panic is a value of its own (\<open>None\<close>, \<open>Panic\<close>, \<open>Panicked\<close>). Every handler
  is a function from the state it finds to the state it leaves and what it does outside; what a
  thread, a process or the compositor does on its side is an inductive step relation or a script.

  Shared vocabulary.
  \<^item> \<open>Genkan_Prelude\<close>: integers, \<open>Result\<close> and \<open>?\<close>, strings, encodings, sequential handlers.
  \<^item> \<open>Machines\<close>: the interfaces of components as input/output machines. \<open>invariant_machine\<close>,
    \<open>metered_machine\<close>, \<open>counted_machine\<close> and \<open>latched_machine\<close> carry what is proved once per
    operation to every run; the conversation, the lock runtime and the greeter interpret them.

  Choosing an output. \<open>Output_Selection\<close>: \<open>select\<close>, refined to the best rank and independent of the
  order in which the compositor lists its outputs.

  The conversation. \<open>Conversation\<close>: prompts, typed response and attempts; a reply of an earlier
  attempt is ignored, and at most one response answers a prompt.

  The lock.
  \<^item> \<open>Lock_Render\<close>: drawing of a lock surface down to the bytes of its canvas. Total and opaque;
    partial and cached redraws leave what a full redraw leaves.
  \<^item> \<open>Lock_Runtime\<close>: \<open>crates/session-lock\<close>, the life cycle, every handler and the event loop. The
    session is unlocked only after an authorization; a failure never unlocks; readiness is reported
    only after the compositor confirmed; one surface authenticates; a handover ends.
  \<^item> \<open>Lock_Auth_Protocol\<close>: messages, their encoding and framed transfer with deadlines; decoding is
    the inverse of encoding and every sequence of messages is received as it was sent. The locale
    \<open>framing\<close> is the interface its users rely on.
  \<^item> \<open>Lock_Worker\<close>: the worker process. PAM is an interaction tree, any finite program of calls of
    the conversation callback. A success is sent only for the account with the worker's uid; what
    PAM read is what the locker wrote; descriptors, memory and secrets of the callback.
    \<open>conversation_order\<close> is the contract of such callbacks.
  \<^item> \<open>Locker_Client\<close>: spawning the worker, the handshake, its reader thread, and cancellation,
    which runs the thread to its end: three steps are enough, and the process is reaped by then.
  \<^item> \<open>Locker_Presentation\<close>, \<open>Locker_Session\<close>: the presentation and, by the locales
    \<open>presentation_contract\<close> and \<open>client_contract\<close>, the runtime and the presentation together: an
    unlock goes back to the PAM run of a worker the locker started, a success unlocks, and a client
    that was started is in use or gone.
  \<^item> \<open>Identity_Lookup\<close>: whose session it is.

  The greeter.
  \<^item> \<open>Accounts\<close>: which accounts are offered, and the first.
  \<^item> \<open>Greeter_Auth\<close>: the requests each operation writes to greetd, \<open>src/auth.rs\<close>.
  \<^item> \<open>Greeter_App\<close>: the message handler \<open>update\<close> of \<open>src/app/mod.rs\<close>; tasks are values.
  \<^item> \<open>Greeter_Session\<close>, \<open>Greeter_Flow\<close>, \<open>Greeter_Closing\<close>: its runs with tasks that answer in any
    order. One request is in flight, what is typed goes to the prompt it was typed for, the greeter
    exits only after greetd started the session, and closing ends. The runs are shorter than
    \<open>2 ^ 64 - 2\<close> inputs, since the attempt is a counter that wraps.

  Untrusted files. \<open>Heif_Container\<close>, \<open>Heif_Preflight\<close>, \<open>Heif_Forest\<close>: the structural preflight of
  \<open>src/dynamic_wallpaper/container.rs\<close> never panics, and a file it accepts is a forest of boxes
  whose totals (items, locations, references, association entries and associations) stay below the
  budget. The recursion is total: a box lies strictly inside its parent.

  The dynamic wallpaper.
  \<^item> \<open>Floats\<close>: comparisons of \<open>f64\<close> and the rounded quotient of integers.
  \<^item> \<open>Civil_Clock\<close>: dates and times; \<open>utc_nanoseconds\<close> against a calendar stepped day by day.
  \<^item> \<open>Wallpaper_Model\<close>: the metadata of a file and the selection among its schedules.
  \<^item> \<open>Playback\<close>, \<open>Playback_Schedule\<close>, \<open>Playback_Run\<close>: \<open>playback.rs\<close>. The point that is due against
    its specification on the circular day, the time to sleep, and every run of the state machine:
    no panic, at most three frames of bounded size, a late decode result changes nothing, a
    selection reaches the screen, a failed decode keeps the picture. The properties on decode
    requests assume that the 64-bit generation counter does not wrap in the run.
  \<^item> \<open>Solar_Schedule\<close>: the sampling and the search of \<open>solar.rs\<close>.
  \<^item> \<open>Desktop_Surface\<close>, \<open>Desktop_Cover\<close>: presentation, sizes, buffers, the scheduler around the
    playback and the drawing of \<open>src/desktop_wallpaper.rs\<close>; the drawn pixels are exact.
  \<^item> \<open>Desktop_Runtime\<close>: \<open>Runtime\<close>, its two threads and their channels, the location types of
    \<open>src/geoclue.rs\<close>, and the suspend detector and clock of \<open>src/wallpaper.rs\<close>. \<open>drain_solar\<close>
    has the number of waiting results and one as fuel: each round takes one, and nothing is sent
    while the loop runs in this model; a result that arrives then is taken in the next pass.
  \<^item> \<open>Desktop_Safety\<close>, \<open>Desktop_Runs\<close>: the invariant of the renderer under any interleaving of
    passes, threads and events. \<open>good\<close> is the postcondition of a part of a pass, with a rule for
    composition. A pass never panics, the location is asked for only with consent, and a buffer the
    compositor holds is not touched.

  Parameters. The Unicode category of a character, NSS, system calls and PAM; the text drawing of
  the lock's overlay; the position of the sun, the vectors of positions, their distance, and the
  distance of two locations (floating-point trigonometry); clock readings, allocations and thread
  creation, read from an oracle; greetd and the compositor.

  Not modelled. The widgets and styles (\<open>src/app/view.rs\<close>, \<open>theme.rs\<close>, \<open>account_tile.rs\<close>,
  \<open>modal.rs\<close>, \<open>background.rs\<close>) and the previews: layout without state. \<open>src/wallpaper.rs\<close> but for
  what is named above: GStreamer pipelines and the helper process of the player.
  \<open>src/dynamic_wallpaper/heic.rs\<close>: decoding by libheif and its helper process, behind the preflight
  and the checks of \<open>valid_frame\<close>. The D-Bus exchange of \<open>src/geoclue.rs\<close>. The command line
  (\<open>src/main.rs\<close>), discovery of sessions and outputs (\<open>sessions.rs\<close>, \<open>outputs.rs\<close>), the launcher and
  the lock file of the locker (\<open>locker/launcher.rs\<close>, \<open>locker/coordination.rs\<close>). Tests and features
  that exist for tests.
\<close>

end
